(* ===== verification/Prelude.thy ===== *)
theory Prelude
  imports Main "HOL-Library.Word" "HOL-Library.Monad_Syntax"
begin

text \<open>
  Shared vocabulary of the development: the machine types of the Rust sources, byte strings and
  their conversions, checked option helpers, and the generic list lemmas that the component
  theories use. Nothing here is specific to one source file.
\<close>

unbundle bit_operations_syntax

section \<open>Machine types\<close>

type_synonym u8 = "8 word"
type_synonym u32 = "32 word"
type_synonym u64 = "64 word"
type_synonym bytes = "u8 list"

named_theorems crate_laws \<open>documented behaviour of third-party crates, as used by witnesses\<close>
named_theorems width_simps \<open>reading machine words as natural numbers\<close>

text \<open>A Rust \<open>String\<close> is a sequence of UTF-8 bytes; a HOL \<open>string\<close> holds exactly those bytes.\<close>

definition as_bytes :: "string \<Rightarrow> bytes" where
  "as_bytes s = map of_char s"

definition of_bytes :: "bytes \<Rightarrow> string" where
  "of_bytes b = map (\<lambda>w. char_of (uint w)) b"

lemma length_as_bytes [simp]: "length (as_bytes s) = length s"
  by (simp add: as_bytes_def)

lemma unat_of_char: "unat (of_char c :: u8) = of_char c"
proof -
  have "unat (of_nat (of_char c :: nat) :: u8) = of_char c mod 2 ^ 8"
    by (simp only: unat_of_nat) simp
  also have "\<dots> = of_char c" using nat_of_char_less_256 [of c] by simp
  finally show ?thesis by (metis of_nat_of_char)
qed

lemma uint_of_char: "uint (of_char c :: u8) = of_char c"
proof -
  have "uint (of_char c :: u8) = int (unat (of_char c :: u8))" by simp
  then show ?thesis unfolding unat_of_char by (simp add: of_nat_of_char)
qed

lemma of_bytes_as_bytes [simp]: "of_bytes (as_bytes s) = s"
  by (induction s) (simp_all add: as_bytes_def of_bytes_def uint_of_char)

lemma as_bytes_of_bytes [simp]: "as_bytes (of_bytes b) = b"
proof -
  have "(of_char (char_of (uint w) :: char) :: u8) = w" for w :: u8
  proof -
    have "uint (of_char (char_of (uint w) :: char) :: u8) = uint w"
      using uint_lt2p [of w] by (simp add: uint_of_char of_char_of)
    then show ?thesis by (simp add: word_uint_eq_iff)
  qed
  then show ?thesis by (induction b) (simp_all add: as_bytes_def of_bytes_def)
qed

text \<open>\<open>str::from_utf8\<close>: well-formed UTF-8 only, so no overlong form, surrogate or code point past U+10FFFF.\<close>

definition within :: "u8 \<Rightarrow> u8 \<Rightarrow> u8 \<Rightarrow> bool" where
  "within lo hi b = (lo \<le> b \<and> b \<le> hi)"

fun utf8_valid :: "bytes \<Rightarrow> bool" where
  "utf8_valid [] = True"
| "utf8_valid (a # r) =
     (if a \<le> 0x7f then utf8_valid r
      else if within 0xc2 0xdf a then r \<noteq> [] \<and> within 0x80 0xbf (r ! 0) \<and> utf8_valid (drop 1 r)
      else if within 0xe0 0xef a then length r \<ge> 2 \<and>
        within (if a = 0xe0 then 0xa0 else 0x80) (if a = 0xed then 0x9f else 0xbf) (r ! 0) \<and>
        within 0x80 0xbf (r ! 1) \<and> utf8_valid (drop 2 r)
      else if within 0xf0 0xf4 a then length r \<ge> 3 \<and>
        within (if a = 0xf0 then 0x90 else 0x80) (if a = 0xf4 then 0x8f else 0xbf) (r ! 0) \<and>
        within 0x80 0xbf (r ! 1) \<and> within 0x80 0xbf (r ! 2) \<and> utf8_valid (drop 3 r)
      else False)"

definition from_utf8 :: "bytes \<Rightarrow> string option" where
  "from_utf8 b = (if utf8_valid b then Some (of_bytes b) else None)"

text \<open>\<open>Option\<close> combinators of the standard library.\<close>

definition then_some :: "bool \<Rightarrow> 'a \<Rightarrow> 'a option" where
  "then_some b x = (if b then Some x else None)"

definition ofilter :: "('a \<Rightarrow> bool) \<Rightarrow> 'a option \<Rightarrow> 'a option" where
  "ofilter P x = (case x of None \<Rightarrow> None | Some y \<Rightarrow> if P y then Some y else None)"

definition is_some_and :: "'a option \<Rightarrow> ('a \<Rightarrow> bool) \<Rightarrow> bool" where
  "is_some_and x P = (case x of None \<Rightarrow> False | Some y \<Rightarrow> P y)"

definition is_none_or :: "'a option \<Rightarrow> ('a \<Rightarrow> bool) \<Rightarrow> bool" where
  "is_none_or x P = (case x of None \<Rightarrow> True | Some y \<Rightarrow> P y)"

definition unwrap_or :: "'a \<Rightarrow> 'a option \<Rightarrow> 'a" where
  "unwrap_or d x = (case x of None \<Rightarrow> d | Some y \<Rightarrow> y)"

text \<open>\<open>iter().map(f).collect::<Option<Vec<_>>>()\<close>: all succeed, or nothing is returned.\<close>

fun collect_opt :: "('a \<Rightarrow> 'b option) \<Rightarrow> 'a list \<Rightarrow> 'b list option" where
  "collect_opt f [] = Some []"
| "collect_opt f (x # xs) =
     (case f x of None \<Rightarrow> None
      | Some y \<Rightarrow> (case collect_opt f xs of None \<Rightarrow> None | Some ys \<Rightarrow> Some (y # ys)))"

lemma then_some_simps [simp]:
  "then_some True x = Some x"
  "then_some False x = None"
  "(then_some b x = Some y) = (b \<and> x = y)"
  "(then_some b x = None) = (\<not> b)"
  by (auto simp: then_some_def)

lemma ofilter_simps [simp]:
  "ofilter P None = None"
  "(ofilter P x = Some y) = (x = Some y \<and> P y)"
  "ofilter P (Some z) = (if P z then Some z else None)"
  by (auto simp: ofilter_def split: option.splits)

lemma is_some_and_simps [simp]:
  "is_some_and None P = False"
  "is_some_and (Some x) P = P x"
  by (auto simp: is_some_and_def)

lemma is_some_and_iff: "is_some_and x P \<longleftrightarrow> (\<exists>y. x = Some y \<and> P y)"
  by (cases x) auto

lemma is_none_or_simps [simp]:
  "is_none_or None P = True"
  "is_none_or (Some x) P = P x"
  by (auto simp: is_none_or_def)

lemma is_none_or_iff: "is_none_or x P \<longleftrightarrow> (\<forall>y. x = Some y \<longrightarrow> P y)"
  by (cases x) auto

lemma unwrap_or_simps [simp]:
  "unwrap_or d None = d"
  "unwrap_or d (Some x) = x"
  by (auto simp: unwrap_or_def)

lemma collect_opt_Some_iff:
  "collect_opt f xs = Some ys \<longleftrightarrow> map f xs = map Some ys"
proof (induction xs arbitrary: ys)
  case Nil
  then show ?case by auto
next
  case (Cons x xs)
  show ?case
    using Cons.IH [of "tl ys"] by (cases ys) (auto split: option.splits)
qed

lemma collect_opt_length: "collect_opt f xs = Some ys \<Longrightarrow> length ys = length xs"
  by (drule collect_opt_Some_iff [THEN iffD1], drule arg_cong [of _ _ length], simp)

lemma collect_opt_nth:
  "collect_opt f xs = Some ys \<Longrightarrow> i < length xs \<Longrightarrow> f (xs ! i) = Some (ys ! i)"
  by (metis collect_opt_Some_iff collect_opt_length nth_map)

lemma collect_opt_None_iff: "collect_opt f xs = None \<longleftrightarrow> (\<exists>x \<in> set xs. f x = None)"
  by (induction xs) (auto split: option.splits)

lemma collect_opt_cong [fundef_cong]:
  "xs = ys \<Longrightarrow> (\<And>x. x \<in> set ys \<Longrightarrow> f x = g x) \<Longrightarrow> collect_opt f xs = collect_opt g ys"
proof (induction ys arbitrary: xs)
  case Nil
  then show ?case by simp
next
  case (Cons y ys)
  have "collect_opt f ys = collect_opt g ys"
    by (rule Cons.IH) (use Cons.prems in auto)
  then show ?case
    using Cons.prems by (simp split: option.split)
qed

text \<open>A field that ends at the first separator.\<close>

lemma split_at_separator:
  "c \<notin> set a \<Longrightarrow> c \<notin> set b \<Longrightarrow> a @ c # x = b @ c # y \<longleftrightarrow> a = b \<and> x = y"
proof (induction a arbitrary: b)
  case Nil
  then show ?case by (cases b) auto
next
  case (Cons d a)
  then show ?case by (cases b) auto
qed

lemma half_even: "even n \<Longrightarrow> 0 < n \<Longrightarrow> 0 < n div 2 \<and> n div 2 < n" for n :: nat
  by presburger

text \<open>\<open>to_string\<close> of an integer.\<close>

definition digit :: "nat \<Rightarrow> char" where
  "digit n = char_of (48 + n)"

fun nat_to_string :: "nat \<Rightarrow> string" where
  "nat_to_string n = (if n < 10 then [digit n] else nat_to_string (n div 10) @ [digit (n mod 10)])"

declare nat_to_string.simps [simp del]

definition int_to_string :: "int \<Rightarrow> string" where
  "int_to_string i = (if i < 0 then CHR ''-'' # nat_to_string (nat (- i)) else nat_to_string (nat i))"

definition is_ascii_digit :: "char \<Rightarrow> bool" where
  "is_ascii_digit c = (48 \<le> (of_char c :: nat) \<and> (of_char c :: nat) \<le> 57)"

lemma of_char_digit: "n < 10 \<Longrightarrow> (of_char (digit n) :: nat) = 48 + n"
  by (simp add: digit_def of_char_of)

lemma digit_is_digit: "n < 10 \<Longrightarrow> is_ascii_digit (digit n)"
  by (simp add: is_ascii_digit_def of_char_digit)

lemma nat_to_string_digits: "list_all is_ascii_digit (nat_to_string n)"
  by (induction n rule: nat_to_string.induct) (subst nat_to_string.simps, simp add: digit_is_digit)

lemma nat_to_string_nonempty [simp]: "nat_to_string n \<noteq> []"
  by (subst nat_to_string.simps) simp

text \<open>Reading the decimal back.\<close>

definition digits_value :: "string \<Rightarrow> nat" where
  "digits_value s = foldl (\<lambda>n c. n * 10 + (of_char c - 48)) 0 s"

lemma digits_value_snoc: "digits_value (s @ [c]) = digits_value s * 10 + (of_char c - 48)"
  by (simp add: digits_value_def)

lemma digits_value_to_string [simp]: "digits_value (nat_to_string n) = n"
proof (induction n rule: nat_to_string.induct)
  case (1 n)
  show ?case
  proof (cases "n < 10")
    case True
    then show ?thesis by (simp add: nat_to_string.simps [of n] digits_value_def of_char_digit)
  next
    case False
    then show ?thesis using "1.IH"
      by (simp add: nat_to_string.simps [of n] digits_value_snoc of_char_digit)
  qed
qed

section \<open>Bits of a machine word, read as numbers\<close>

lemma unat_shr1 [width_simps]: "unat (drop_bit (Suc 0) (w :: 'a::len word)) = unat w div 2"
  by (simp only: unat_drop_bit_eq) (simp add: drop_bit_Suc)

lemma unat_pos_iff [width_simps]: "(0 < unat w) = (w \<noteq> (0 :: 'a::len word))"
  by (simp add: unat_gt_0)

lemma even_unat: "even (unat (w :: 'a::len word)) = even w"
  by (metis even_of_nat of_nat_unat ucast_id)

lemma odd_and_1 [width_simps]: "(w AND 1 = (1 :: 'a::len word)) = odd (unat w)"
  by (simp add: and_one_eq odd_iff_mod_2_eq_one even_unat)

lemma unat_minus_1 [width_simps]: "w \<noteq> 0 \<Longrightarrow> unat (w - 1) = unat (w :: 'a::len word) - 1"
  by (rule unat_minus_one)

lemma unat_eq_0_iff' [width_simps]: "(unat w = 0) = (w = (0 :: 'a::len word))"
  by (simp add: unat_eq_zero)

lemma unat_ucast_mod [width_simps]: "unat (ucast w :: 'b::len word) = unat (w :: 'a::len word) mod 2 ^ LENGTH('b)"
  by (simp add: unsigned_ucast_eq take_bit_eq_mod)

lemma uint_less_2_63: "(uint (w :: u64) < 9223372036854775808) = (unat w < 9223372036854775808)"
proof -
  obtain k where "uint w = int k" "unat w = k" by (rule that [of "unat w"]) simp_all
  then show ?thesis by simp
qed

lemma unat_less_exp: "unat (w :: 'a::len word) < 2 ^ LENGTH('a)"
  by (rule unsigned_less)

lemma small_bit: "unat (w :: 'a::len word) < 2 ^ k \<Longrightarrow> k \<le> n \<Longrightarrow> \<not> bit w n"
proof -
  assume a: "unat w < 2 ^ k" "k \<le> n"
  then have "unat w < 2 ^ n" by (meson less_le_trans one_le_numeral power_increasing)
  then have "\<not> bit (unat w) n" by (simp add: bit_iff_odd)
  then show ?thesis by (simp add: bit_unsigned_iff bit_imp_le_length)
qed

lemma take_bit_small: "unat (w :: 'a::len word) < 2 ^ k \<Longrightarrow> take_bit k w = w"
  by (rule bit_word_eqI) (auto simp: bit_simps dest: small_bit [of w k] simp: not_less)

section \<open>A concrete digest for witnesses\<close>

text \<open>A total function of the type and width of SHA-256, used only to instantiate the hash parameter
  where a witness evaluates a definition.\<close>

definition toy_digest :: "bytes \<Rightarrow> bytes" where
  "toy_digest x = replicate 32 (sum_list x)"

lemma length_toy_digest [simp, crate_laws]: "length (toy_digest x) = 32"
  by (simp add: toy_digest_def)

end
