(* ===== verification/Cbor_Wire.thy ===== *)
theory Cbor_Wire
  imports Prelude "HOL-Library.List_Lexorder"
begin

text \<open>
  \<open>verify-rs/src/cbor_wire.rs\<close>: item heads, the profile-parameterised canonical emitter and the
  bounded iterative structural scan. An emitter of the source appends to a buffer and returns
  whether it succeeded; every caller drops the buffer on failure, so the model returns the appended
  bytes, or \<open>None\<close>. Buffers are indexed by \<open>nat\<close> (\<open>usize\<close>); item arguments and the counts on the
  scan's stack keep their 64 bits.
\<close>

section \<open>The code\<close>

text \<open>\<open>ciborium::Value\<close>; an integer is the \<open>i128\<close> the code reads it as.\<close>

datatype cbor =
    CInteger int
  | CBytes bytes
  | CFloat u64
  | CText string
  | CBool bool
  | CNull
  | CTag u64 cbor
  | CArray "cbor list"
  | CMap "(cbor \<times> cbor) list"

record profile =
  int_keys :: bool
  bools :: bool

text \<open>\<open>to_be_bytes\<close> of the low \<open>k\<close> bytes.\<close>

primrec be_bytes :: "nat \<Rightarrow> u64 \<Rightarrow> bytes" where
  "be_bytes 0 a = []"
| "be_bytes (Suc k) a = ucast (drop_bit (8 * k) a) # be_bytes k a"

definition write_head :: "u8 \<Rightarrow> u64 \<Rightarrow> bytes" where
  "write_head major arg =
     (if arg \<le> 23 then [push_bit 5 major OR ucast arg]
      else if arg \<le> 0xff then [push_bit 5 major OR 24, ucast arg]
      else if arg \<le> 0xffff then (push_bit 5 major OR 25) # be_bytes 2 arg
      else if arg \<le> 0xffffffff then (push_bit 5 major OR 26) # be_bytes 4 arg
      else (push_bit 5 major OR 27) # be_bytes 8 arg)"

definition write_int :: "int \<Rightarrow> bytes option" where
  "write_int i =
     (if i < - (2 ^ 63) \<or> i > 2 ^ 63 - 1 then None
      else if i \<ge> 0 then Some (write_head 0 (word_of_int i))
      else Some (write_head 1 (word_of_int (-1 - i))))"

definition write_text :: "string \<Rightarrow> bytes" where
  "write_text s = write_head 3 (of_nat (length s)) @ as_bytes s"

definition write_key :: "profile \<Rightarrow> cbor \<Rightarrow> bytes option" where
  "write_key p k =
     (case k of
        CInteger i \<Rightarrow> if int_keys p then write_int i else None
      | CText s \<Rightarrow> Some (write_text s)
      | _ \<Rightarrow> None)"

text \<open>The tail of \<open>write_map\<close>, once every pair has been encoded.\<close>

definition write_pairs :: "(bytes \<times> bytes) list \<Rightarrow> bytes option" where
  "write_pairs pairs =
     (let sorted = sort_key fst pairs; ks = map fst sorted in
      if list_ex (\<lambda>(a, b). a = b) (zip ks (tl ks)) then None
      else Some (write_head 5 (of_nat (length sorted)) @ concat (map (\<lambda>(kb, vb). kb @ vb) sorted)))"

fun write_value :: "profile \<Rightarrow> int \<Rightarrow> cbor \<Rightarrow> bytes option" where
  "write_value p limit v =
     (if limit < 0 then None
      else (case v of
        CNull \<Rightarrow> Some [0xf6]
      | CBool b \<Rightarrow> if bools p then Some [if b then 0xf5 else 0xf4] else None
      | CInteger i \<Rightarrow> write_int i
      | CText s \<Rightarrow> Some (write_text s)
      | CBytes b \<Rightarrow> Some (write_head 2 (of_nat (length b)) @ b)
      | CArray a \<Rightarrow>
          map_option (\<lambda>items. write_head 4 (of_nat (length a)) @ concat items)
            (collect_opt (write_value p (limit - 1)) a)
      | CMap m \<Rightarrow>
          Option.bind
            (collect_opt
              (\<lambda>(k, v). case (write_key p k, write_value p (limit - 1) v) of
                 (Some kb, Some vb) \<Rightarrow> Some (kb, vb) | _ \<Rightarrow> None) m)
            write_pairs
      | CFloat _ \<Rightarrow> None
      | CTag _ _ \<Rightarrow> None))"

definition canonical_bytes :: "cbor \<Rightarrow> int \<Rightarrow> profile \<Rightarrow> bytes option" where
  "canonical_bytes v limit p = write_value p limit v"

definition read_head :: "bytes \<Rightarrow> nat \<Rightarrow> (u8 \<times> u64 \<times> nat) option" where
  "read_head data i =
     (if i \<ge> length data then None
      else
        (let byte = data ! i; major = drop_bit 5 byte; info = byte AND 0x1f; i = i + 1 in
         if major = 6 then None
         else if major = 7 then then_some (20 \<le> info \<and> info \<le> 22) (major, 0, i)
         else if info < 24 then Some (major, ucast info, i)
         else if info > 27 then None
         else
           (let width = 2 ^ unat (info - 24) in
            if i + width > length data then None
            else Some (major, foldl (\<lambda>arg b. push_bit 8 arg OR ucast b) 0 (take width (drop i data)), i + width))))"

definition scan_string :: "bytes \<Rightarrow> nat \<Rightarrow> u64 \<Rightarrow> nat option" where
  "scan_string data i arg =
     (if i > length data then None
      else if unat arg \<le> length data - i then Some (i + unat arg) else None)"

text \<open>The stack is a list with its last pushed count first. \<open>Some (True, s)\<close>: a container was opened.\<close>

definition scan_container :: "bytes \<Rightarrow> nat \<Rightarrow> u8 \<Rightarrow> u64 \<Rightarrow> u64 list \<Rightarrow> nat \<Rightarrow> (bool \<times> u64 list) option" where
  "scan_container data i major arg stack max_depth =
     (let count = (if major = 4 then Some arg
                   else if 2 * uint arg < 2 ^ 64 then Some (arg * 2) else None) in
      (case count of None \<Rightarrow> None
       | Some count \<Rightarrow>
           if unat count > length data - i then None
           else if count = 0 then Some (False, stack)
           else if length stack \<ge> max_depth then None
           else Some (True, count # stack)))"

definition scan_item ::
  "bytes \<Rightarrow> nat \<Rightarrow> u8 \<Rightarrow> u64 \<Rightarrow> u64 list \<Rightarrow> nat \<Rightarrow> (bool \<times> nat \<times> u64 list) option" where
  "scan_item data i major arg stack max_depth =
     (if major = 2 \<or> major = 3 then map_option (\<lambda>i'. (False, i', stack)) (scan_string data i arg)
      else if major = 4 \<or> major = 5 then
        map_option (\<lambda>(opened, stack'). (opened, i, stack')) (scan_container data i major arg stack max_depth)
      else Some (False, i, stack))"

fun complete_item :: "u64 list \<Rightarrow> bool \<times> u64 list" where
  "complete_item [] = (True, [])"
| "complete_item (t # stack) =
     (let t' = t - 1 in if t' > 0 then (False, t' # stack) else complete_item stack)"

function scan_loop :: "bytes \<Rightarrow> nat \<Rightarrow> nat \<Rightarrow> nat \<Rightarrow> nat \<Rightarrow> u64 list \<Rightarrow> nat option" where
  "scan_loop data max_depth max_items items i stack =
     (if items + 1 > max_items then None
      else (case read_head data i of
        None \<Rightarrow> None
      | Some (major, arg, next) \<Rightarrow>
          (case scan_item data next major arg stack max_depth of
             None \<Rightarrow> None
           | Some (opened, i', stack') \<Rightarrow>
               if opened then scan_loop data max_depth max_items (items + 1) i' stack'
               else (case complete_item stack' of
                       (True, _) \<Rightarrow> Some i'
                     | (False, stack'') \<Rightarrow> scan_loop data max_depth max_items (items + 1) i' stack''))))"
  by pat_completeness auto
termination
  by (relation "measure (\<lambda>(data, max_depth, max_items, items, i, stack). max_items - items)") auto

definition structural_scan :: "bytes \<Rightarrow> nat \<Rightarrow> nat \<Rightarrow> nat option" where
  "structural_scan data max_depth max_items = scan_loop data max_depth max_items 0 0 []"

declare scan_loop.simps [simp del] write_value.simps [simp del]


section \<open>Item heads\<close>

lemma head_byte_split:
  fixes m x :: u8
  assumes "unat m < 8" "unat x < 32"
  shows "drop_bit 5 (push_bit 5 m OR x) = m" "(push_bit 5 m OR x) AND 0x1f = x"
proof -
  have m: "\<And>n. bit m n \<Longrightarrow> n < 3" using small_bit [of m 3] assms(1) by (auto simp: not_le[symmetric])
  have x: "\<And>n. bit x n \<Longrightarrow> n < 5" using small_bit [of x 5] assms(2) by (auto simp: not_le[symmetric])
  show "drop_bit 5 (push_bit 5 m OR x) = m"
    by (rule bit_word_eqI) (auto simp: bit_simps dest: m x)
  have e: "(0x1f :: u8) = mask 5" by (simp add: mask_eq_exp_minus_1)
  show "(push_bit 5 m OR x) AND 0x1f = x"
    by (subst e, rule bit_word_eqI) (auto simp: bit_simps bit_mask_iff dest: m x)
qed

lemma foldl_be_bytes:
  "foldl (\<lambda>arg b. push_bit 8 arg OR ucast b) acc (be_bytes k a) = push_bit (8 * k) acc OR take_bit (8 * k) (a :: u64)"
proof (induction k arbitrary: acc)
  case 0
  then show ?case by simp
next
  case (Suc k)
  have "foldl (\<lambda>arg b. push_bit 8 arg OR ucast b) acc (be_bytes (Suc k) a)
    = push_bit (8 * k) (push_bit 8 acc OR ucast (ucast (drop_bit (8 * k) a) :: u8)) OR take_bit (8 * k) a"
    by (simp add: Suc)
  also have "\<dots> = push_bit (8 * Suc k) acc OR take_bit (8 * Suc k) a"
    by (rule bit_word_eqI) (auto simp: bit_simps add.commute)
  finally show ?case .
qed

lemma length_be_bytes [simp]: "length (be_bytes k a) = k"
  by (induction k) auto

lemma read_head_wide:
  assumes m: "unat m < 6" and info: "info \<in> {24, 25, 26, 27}" and k: "k = 2 ^ unat (info - 24)"
    and a: "unat a < 2 ^ (8 * k)"
  shows "read_head (pre @ (push_bit 5 m OR info) # be_bytes k a @ post) (length pre)
    = Some (m, a, length pre + 1 + k)"
proof -
  have i: "unat info < 32" "\<not> info < 24" "\<not> 27 < info" using info by auto
  have b: "drop_bit 5 (push_bit 5 m OR info) = m" "(push_bit 5 m OR info) AND 0x1f = info"
    using head_byte_split [of m info] m i(1) by auto
  have mm: "m \<noteq> 6" "m \<noteq> 7" using m by auto
  have "foldl (\<lambda>arg b. push_bit 8 arg OR ucast b) 0 (be_bytes k a) = a"
    using take_bit_small [OF a] by (simp add: foldl_be_bytes)
  then show ?thesis
    using b mm i by (simp add: read_head_def nth_append k Let_def)
qed

lemma read_write_head:
  assumes m: "unat m < 6"
  shows "read_head (pre @ write_head m a @ post) (length pre)
    = Some (m, a, length pre + length (write_head m a))"
proof -
  have small: ?thesis if "a \<le> 23"
  proof -
    have u: "unat (ucast a :: u8) = unat a" "unat a < 24"
      using that by (simp_all add: word_le_nat_alt unat_ucast_mod)
    then have x: "unat (ucast a :: u8) < 32" "(ucast a :: u8) < 24" "ucast (ucast a :: u8) = a"
      by (simp_all add: word_less_nat_alt word_unat_eq_iff unat_ucast_mod)
    have mm: "m \<noteq> 6" "m \<noteq> 7" using m by auto
    show ?thesis using head_byte_split [of m "ucast a"] m x mm that
      by (simp add: read_head_def write_head_def nth_append Let_def)
  qed
  have le: "(23 :: u64) \<le> 0xff" "(0xff :: u64) \<le> 0xffff" "(0xffff :: u64) \<le> 0xffffffff" by simp_all
  consider "a \<le> 23" | "\<not> a \<le> 23" "a \<le> 0xff" | "\<not> a \<le> 0xff" "a \<le> 0xffff"
    | "\<not> a \<le> 0xffff" "a \<le> 0xffffffff" | "\<not> a \<le> 0xffffffff" by blast
  then show ?thesis
  proof cases
    case 1
    then show ?thesis by (rule small)
  next
    case 2
    then have "write_head m a = (push_bit 5 m OR 24) # be_bytes 1 a" by (simp add: write_head_def)
    moreover have "unat a < 2 ^ (8 * 1)" using 2(2) by (simp add: word_le_nat_alt)
    then have "read_head (pre @ (push_bit 5 m OR 24) # be_bytes 1 a @ post) (length pre)
        = Some (m, a, length pre + 1 + 1)"
      by (intro read_head_wide [OF m]) simp_all
    ultimately show ?thesis by (simp only: append_Cons list.size length_be_bytes) simp
  next
    case 3
    then have "\<not> a \<le> 23" using le by (meson order_trans)
    with 3 have "write_head m a = (push_bit 5 m OR 25) # be_bytes 2 a"
      by (simp add: write_head_def)
    moreover have "unat a < 2 ^ (8 * 2)" using 3(2) by (simp add: word_le_nat_alt)
    then have "read_head (pre @ (push_bit 5 m OR 25) # be_bytes 2 a @ post) (length pre)
        = Some (m, a, length pre + 1 + 2)"
      by (intro read_head_wide [OF m]) simp_all
    ultimately show ?thesis by (simp only: append_Cons list.size length_be_bytes) simp
  next
    case 4
    then have "\<not> a \<le> 23" "\<not> a \<le> 0xff" using le by (meson order_trans)+
    with 4 have "write_head m a = (push_bit 5 m OR 26) # be_bytes 4 a"
      by (simp add: write_head_def)
    moreover have "unat a < 2 ^ (8 * 4)" using 4(2) by (simp add: word_le_nat_alt)
    then have "read_head (pre @ (push_bit 5 m OR 26) # be_bytes 4 a @ post) (length pre)
        = Some (m, a, length pre + 1 + 4)"
      by (intro read_head_wide [OF m]) simp_all
    ultimately show ?thesis by (simp only: append_Cons list.size length_be_bytes) simp
  next
    case 5
    then have "\<not> a \<le> 23" "\<not> a \<le> 0xff" "\<not> a \<le> 0xffff" using le by (meson order_trans)+
    with 5 have "write_head m a = (push_bit 5 m OR 27) # be_bytes 8 a"
      by (simp add: write_head_def)
    moreover have "unat a < 2 ^ (8 * 8)" using unat_less_exp [of a] by simp
    then have "read_head (pre @ (push_bit 5 m OR 27) # be_bytes 8 a @ post) (length pre)
        = Some (m, a, length pre + 1 + 8)"
      by (intro read_head_wide [OF m]) simp_all
    ultimately show ?thesis by (simp only: append_Cons list.size length_be_bytes) simp
  qed
qed

lemma read_head_bounds:
  assumes "read_head data i = Some (major, arg, j)"
  shows "i < j" "j \<le> length data"
  using assms by (auto simp: read_head_def Let_def split: if_splits)

section \<open>The scan against a grammar\<close>

text \<open>
  \<open>item_seq data d n i j c\<close>: \<open>n\<close> consecutive well-formed items occupy the bytes from \<open>i\<close> to \<open>j\<close>,
  non-empty containers nest at most \<open>d\<close> deep, and \<open>c\<close> heads are read in all. This is the
  recursive reading of the format; the code's scan is a loop with an explicit stack.
\<close>

definition item_count :: "u8 \<Rightarrow> u64 \<Rightarrow> nat" where
  "item_count major arg = (if major = 4 then unat arg else if major = 5 then 2 * unat arg else 0)"

inductive item_seq :: "bytes \<Rightarrow> nat \<Rightarrow> nat \<Rightarrow> nat \<Rightarrow> nat \<Rightarrow> nat \<Rightarrow> bool" for data :: bytes where
  seq_done: "item_seq data d 0 i i 0"
| seq_leaf: "read_head data i = Some (major, arg, k) \<Longrightarrow> major \<notin> {2, 3} \<Longrightarrow> item_count major arg = 0 \<Longrightarrow>
    item_seq data d n k j c \<Longrightarrow> item_seq data d (Suc n) i j (Suc c)"
| seq_string: "read_head data i = Some (major, arg, k) \<Longrightarrow> major \<in> {2, 3} \<Longrightarrow>
    k + unat arg \<le> length data \<Longrightarrow> item_seq data d n (k + unat arg) j c \<Longrightarrow> item_seq data d (Suc n) i j (Suc c)"
| seq_container: "read_head data i = Some (major, arg, k) \<Longrightarrow> item_count major arg = count \<Longrightarrow>
    0 < count \<Longrightarrow> count < 2 ^ 64 \<Longrightarrow> item_seq data d count k k' c \<Longrightarrow> item_seq data (Suc d) n k' j c' \<Longrightarrow>
    item_seq data (Suc d) (Suc n) i j (Suc (c + c'))"

lemma seq_end: "item_seq data d n i j c \<Longrightarrow> i \<le> length data \<Longrightarrow> i + n \<le> j \<and> j \<le> length data \<and> n \<le> c"
proof (induction rule: item_seq.induct)
  case (seq_leaf i major arg k d n j c)
  then show ?case using read_head_bounds [OF seq_leaf.hyps(1)] by auto
next
  case (seq_string i major arg k d n j c)
  then show ?case using read_head_bounds [OF seq_string.hyps(1)] by auto
next
  case (seq_container i major arg k count d k' c n j c')
  then show ?case using read_head_bounds [OF seq_container.hyps(1)] by auto
qed auto

text \<open>What is still to come after the current item, given the counts on the stack.\<close>

fun rest_of :: "bytes \<Rightarrow> nat \<Rightarrow> u64 list \<Rightarrow> nat \<Rightarrow> nat \<Rightarrow> nat \<Rightarrow> bool" where
  "rest_of data md [] k j c = (k = j \<and> c = 0)"
| "rest_of data md (u # us) k j c =
     (u \<noteq> 0 \<and> (\<exists>k' c1 c2. item_seq data (md - Suc (length us)) (unat u - 1) k k' c1 \<and> rest_of data md us k' j c2
        \<and> c = c1 + c2))"

text \<open>What is to come when an item is about to be read.\<close>

definition pending :: "bytes \<Rightarrow> nat \<Rightarrow> u64 list \<Rightarrow> nat \<Rightarrow> nat \<Rightarrow> nat \<Rightarrow> bool" where
  "pending data md st i j c =
     (\<exists>k c1 c2. item_seq data (md - length st) 1 i k c1 \<and> rest_of data md st k j c2 \<and> c = c1 + c2)"

lemma seq_append:
  "item_seq data d n i k c \<Longrightarrow> item_seq data d m k j c' \<Longrightarrow> item_seq data d (n + m) i j (c + c')"
proof (induction rule: item_seq.induct)
  case (seq_container i major arg k count d k' c n j' c2)
  then show ?case
    using item_seq.seq_container [of data i major arg k count d k' c "n + m" j "c2 + c'"] by (simp add: add.assoc)
qed (auto intro: item_seq.intros)

lemma seq_0 [simp]: "item_seq data d 0 i j c \<longleftrightarrow> i = j \<and> c = 0"
  by (auto elim: item_seq.cases intro: item_seq.intros)

lemma seq_Suc:
  "item_seq data d (Suc n) i j c \<longleftrightarrow>
     (\<exists>k c1 c2. item_seq data d 1 i k c1 \<and> item_seq data d n k j c2 \<and> c = c1 + c2)"
proof
  assume "item_seq data d (Suc n) i j c"
  then show "\<exists>k c1 c2. item_seq data d 1 i k c1 \<and> item_seq data d n k j c2 \<and> c = c1 + c2"
  proof (cases rule: item_seq.cases)
    case (seq_leaf major arg k c2)
    then have "item_seq data d 1 i k (Suc 0)" using item_seq.seq_leaf [of data i major arg k d 0 k 0] by simp
    with seq_leaf show ?thesis by (intro exI [of _ k] exI [of _ "Suc 0"] exI [of _ c2]) simp
  next
    case (seq_string major arg k c2)
    then have "item_seq data d 1 i (k + unat arg) (Suc 0)"
      using item_seq.seq_string [of data i major arg k d 0 "k + unat arg" 0] by simp
    with seq_string show ?thesis
      by (intro exI [of _ "k + unat arg"] exI [of _ "Suc 0"] exI [of _ c2]) simp
  next
    case (seq_container major arg k count d' k' c1 c2)
    then have "item_seq data d 1 i k' (Suc c1)"
      using item_seq.seq_container [of data i major arg k count d' k' c1 0 k' 0] by simp
    with seq_container show ?thesis
      by (intro exI [of _ k'] exI [of _ "Suc c1"] exI [of _ c2]) simp
  qed
next
  assume "\<exists>k c1 c2. item_seq data d 1 i k c1 \<and> item_seq data d n k j c2 \<and> c = c1 + c2"
  then show "item_seq data d (Suc n) i j c" using seq_append [of data d 1] by force
qed

lemma pending_Cons:
  assumes "u \<noteq> 0"
  shows "pending data md (u # us) k j c \<longleftrightarrow>
     (\<exists>k' c1 c2. item_seq data (md - Suc (length us)) (unat u) k k' c1 \<and> rest_of data md us k' j c2 \<and> c = c1 + c2)"
proof -
  have u: "unat u = Suc (unat u - 1)" using assms by (simp add: unat_gt_0)
  show ?thesis
    by (subst u, subst seq_Suc) (auto simp: pending_def assms, (metis add.assoc)+)
qed

lemma complete_item_rest:
  "\<forall>u \<in> set st. u \<noteq> 0 \<Longrightarrow> complete_item st = (r, st') \<Longrightarrow>
     rest_of data md st k j c = (if r then k = j \<and> c = 0 else pending data md st' k j c) \<and>
     (\<forall>u \<in> set st'. u \<noteq> 0) \<and> length st' \<le> length st"
proof (induction st arbitrary: k c)
  case Nil
  then show ?case by auto
next
  case (Cons u us)
  show ?case
  proof (cases "u = 1")
    case True
    with Cons.prems have "complete_item us = (r, st')" by simp
    moreover have "rest_of data md (u # us) k j c = rest_of data md us k j c"
      using True by auto
    ultimately show ?thesis using Cons.IH [of k c] Cons.prems(1) by simp
  next
    case False
    then have nz: "u - 1 \<noteq> 0" by simp
    from word_neq_0_conv [THEN iffD1, OF nz] have "complete_item (u # us) = (False, (u - 1) # us)"
      by (simp add: Let_def)
    with Cons.prems have "u \<noteq> 0" and eq: "r = False" "st' = (u - 1) # us" by auto
    with nz have "rest_of data md (u # us) k j c = pending data md st' k j c"
      by (simp add: pending_Cons width_simps)
    then show ?thesis using Cons.prems(1) eq nz by simp
  qed
qed

text \<open>One step of the machine, read off the grammar.\<close>

lemma pending_step:
  "pending data md st i j c \<longleftrightarrow>
     (\<exists>major arg k c'. read_head data i = Some (major, arg, k) \<and> c = Suc c' \<and>
        (if major \<in> {2, 3} then k + unat arg \<le> length data \<and> rest_of data md st (k + unat arg) j c'
         else if item_count major arg = 0 then rest_of data md st k j c'
         else length st < md \<and> item_count major arg < 2 ^ 64 \<and>
              pending data md (of_nat (item_count major arg) # st) k j c'))" (is "?L \<longleftrightarrow> ?R")
proof
  assume ?L
  then obtain k c1 c2 where s: "item_seq data (md - length st) (Suc 0) i k c1" and r: "rest_of data md st k j c2"
    and c: "c = c1 + c2" by (auto simp: pending_def)
  from s show ?R
  proof (cases rule: item_seq.cases)
    case (seq_leaf major arg k' c')
    then show ?thesis using r c by auto
  next
    case (seq_string major arg k' c')
    then show ?thesis using r c by auto
  next
    case (seq_container major arg k1 count d k2 c3 c4)
    then have md: "length st < md" "d = md - Suc (length st)" by auto
    have u: "unat (of_nat count :: u64) = count" "(of_nat count :: u64) \<noteq> 0"
      using seq_container by (simp_all add: unat_of_nat word_unat_eq_iff)
    have "pending data md (of_nat count # st) k1 j (c3 + c2)"
      using seq_container r u md by (auto simp: pending_Cons)
    moreover have "major \<notin> {2, 3}" using seq_container by (auto simp: item_count_def split: if_splits)
    ultimately show ?thesis using seq_container md c by auto
  qed
next
  assume ?R
  then obtain major arg k c' where h: "read_head data i = Some (major, arg, k)" and c: "c = Suc c'"
    and body: "if major \<in> {2, 3} then k + unat arg \<le> length data \<and> rest_of data md st (k + unat arg) j c'
         else if item_count major arg = 0 then rest_of data md st k j c'
         else length st < md \<and> item_count major arg < 2 ^ 64 \<and>
              pending data md (of_nat (item_count major arg) # st) k j c'" by blast
  consider "major \<in> {2, 3}" | "major \<notin> {2, 3}" "item_count major arg = 0"
    | "major \<notin> {2, 3}" "item_count major arg \<noteq> 0" by blast
  then show ?L
  proof cases
    case 1
    with body have "k + unat arg \<le> length data" "rest_of data md st (k + unat arg) j c'" by auto
    moreover have "item_seq data (md - length st) 1 i (k + unat arg) (Suc 0)"
      using item_seq.seq_string [OF h 1 calculation(1) item_seq.seq_done] by simp
    ultimately show ?thesis unfolding pending_def c by (intro exI) auto
  next
    case 2
    with body have "rest_of data md st k j c'" by auto
    moreover have "item_seq data (md - length st) 1 i k (Suc 0)"
      using item_seq.seq_leaf [OF h 2 item_seq.seq_done] by simp
    ultimately show ?thesis unfolding pending_def c by (intro exI) auto
  next
    case 3
    let ?n = "item_count major arg"
    have b: "length st < md" "?n < 2 ^ 64" "pending data md (of_nat ?n # st) k j c'" "0 < ?n"
      using body 3 by auto
    then have u: "unat (of_nat ?n :: u64) = ?n" "(of_nat ?n :: u64) \<noteq> 0"
      by (simp_all add: unat_of_nat word_unat_eq_iff)
    from b(3) u obtain k' c1 c2 where s: "item_seq data (md - Suc (length st)) ?n k k' c1"
      and r: "rest_of data md st k' j c2" "c' = c1 + c2" by (auto simp: pending_Cons)
    have md: "md - length st = Suc (md - Suc (length st))" using b(1) by simp
    have "item_seq data (md - length st) 1 i k' (Suc c1)"
      unfolding md using item_seq.seq_container [OF h refl b(4,2) s item_seq.seq_done] by simp
    then show ?thesis using r unfolding pending_def c
      by (intro exI [of _ k'] exI [of _ "Suc c1"] exI [of _ c2]) simp
  qed
qed

text \<open>\<open>scan_item\<close>, with its word arithmetic resolved.\<close>

lemma scan_item_spec:
  assumes k: "k \<le> length data"
  shows "scan_item data k major arg st md =
     (if major \<in> {2, 3} then
        (if k + unat arg \<le> length data then Some (False, k + unat arg, st) else None)
      else if item_count major arg = 0 then Some (False, k, st)
      else if item_count major arg < 2 ^ 64 \<and> item_count major arg \<le> length data - k \<and> length st < md
        then Some (True, k, of_nat (item_count major arg) # st) else None)"
proof -
  have dbl: "unat (arg * 2) = 2 * unat arg" "(arg * 2 = 0) = (unat arg = 0)"
    "of_nat (2 * unat arg) = arg * 2" if "2 * unat arg < 2 ^ 64"
  proof -
    show u: "unat (arg * 2) = 2 * unat arg" using that by (simp add: unat_word_ariths)
    show "(arg * 2 = 0) = (unat arg = 0)" using u by (metis mult_eq_0_iff unat_eq_0_iff' zero_neq_numeral)
    show "of_nat (2 * unat arg) = arg * 2" using u by (metis of_nat_unat ucast_id)
  qed
  have id: "of_nat (unat arg) = arg" by (metis of_nat_unat ucast_id)
  have z: "(arg = 0) = (unat arg = 0)" by (simp add: unat_eq_0_iff')
  consider "major \<in> {2, 3}" | "major = 4" | "major = 5" | "major \<notin> {2, 3, 4, 5}" by blast
  then show ?thesis
  proof cases
    case 1
    then show ?thesis using k by (auto simp: scan_item_def scan_string_def)
  next
    case 2
    then show ?thesis using unat_less_exp [of arg] id z
      by (auto simp: scan_item_def scan_container_def item_count_def not_le)
  next
    case 3
    then show ?thesis using dbl
      by (cases "2 * unat arg < 2 ^ 64")
         (auto simp: scan_item_def scan_container_def uint_less_2_63 item_count_def not_le Let_def)
  next
    case 4
    then show ?thesis by (simp add: scan_item_def item_count_def)
  qed
qed

lemma scan_loop_pending:
  "\<forall>u \<in> set st. u \<noteq> 0 \<Longrightarrow> length st \<le> md \<Longrightarrow>
     scan_loop data md mi items i st = Some j \<longleftrightarrow> (\<exists>c. pending data md st i j c \<and> items + c \<le> mi)"
proof (induction "mi - items" arbitrary: items i st rule: less_induct)
  case less
  note st = less.prems
  have IH: "scan_loop data md mi (items + 1) i' st' = Some j \<longleftrightarrow>
      (\<exists>c. pending data md st' i' j c \<and> items + Suc c \<le> mi)"
    if "items < mi" "\<forall>u \<in> set st'. u \<noteq> 0" "length st' \<le> md" for i' st'
    using less.hyps [of "items + 1" st' i'] that by auto
  show ?case
  proof (cases "items < mi \<and> read_head data i \<noteq> None")
    case False
    then show ?thesis
      by (cases "read_head data i")
         (auto simp: scan_loop.simps [of _ _ _ items] pending_step [of data md st i])
  next
    case True
    then obtain major arg k where h: "read_head data i = Some (major, arg, k)" by auto
    note k = read_head_bounds(2) [OF h]
    have next_item: ?thesis if "scan_item data k major arg st md = Some (False, k', st)"
      "\<And>c. pending data md st i j (Suc c) = rest_of data md st k' j c" for k'
    proof (cases "complete_item st")
      case (Pair r st')
      note cr = complete_item_rest [OF st(1) Pair, of data md k' j]
      have "pending data md st i j c \<Longrightarrow> \<exists>c'. c = Suc c'" for c
        by (auto simp: pending_step [of data md st i])
      with that(2) have ex: "(\<exists>c. pending data md st i j c \<and> items + c \<le> mi)
          = (\<exists>c. rest_of data md st k' j c \<and> items + Suc c \<le> mi)" by metis
      show ?thesis
      proof (cases r)
        case True
        then show ?thesis using \<open>items < mi \<and> _\<close> h that(1) Pair cr ex
          by (auto simp: scan_loop.simps [of _ _ _ items])
      next
        case False
        have "length st' \<le> md" using cr [of 0] st(2) by simp
        with False show ?thesis using \<open>items < mi \<and> _\<close> h that(1) Pair cr ex IH [of st' k']
          by (simp add: scan_loop.simps [of _ _ _ items])
      qed
    qed
    let ?n = "item_count major arg"
    consider "major \<in> {2, 3}" "k + unat arg \<le> length data" | "major \<in> {2, 3}" "\<not> k + unat arg \<le> length data"
      | "major \<notin> {2, 3}" "?n = 0"
      | "major \<notin> {2, 3}" "?n \<noteq> 0" "?n < 2 ^ 64 \<and> ?n \<le> length data - k \<and> length st < md"
      | "major \<notin> {2, 3}" "?n \<noteq> 0" "\<not> (?n < 2 ^ 64 \<and> ?n \<le> length data - k \<and> length st < md)"
      by blast
    then show ?thesis
    proof cases
      case 1
      then show ?thesis
        by (intro next_item [of "k + unat arg"]) (auto simp: scan_item_spec [OF k] pending_step [of data md st i] h)
    next
      case 2
      then show ?thesis using True h
        by (auto simp: scan_loop.simps [of _ _ _ items] scan_item_spec [OF k] pending_step [of data md st i])
    next
      case 3
      then show ?thesis
        by (intro next_item [of k]) (auto simp: scan_item_spec [OF k] pending_step [of data md st i] h)
    next
      case 4
      then have nz: "(of_nat ?n :: u64) \<noteq> 0" by (simp add: word_unat_eq_iff unat_of_nat)
      have "scan_loop data md mi items i st = scan_loop data md mi (items + 1) k (of_nat ?n # st)"
        using True h 4 by (simp add: scan_loop.simps [of _ _ _ items] scan_item_spec [OF k])
      also have "(\<dots> = Some j) = (\<exists>c. pending data md (of_nat ?n # st) k j c \<and> items + Suc c \<le> mi)"
        using IH [of "of_nat ?n # st" k] True 4 st(1) nz by simp
      also have "\<dots> = (\<exists>c. pending data md st i j c \<and> items + c \<le> mi)"
        using 4 h by (auto simp: pending_step [of data md st i])
      finally show ?thesis .
    next
      case 5
      have "?n \<le> length data - k" if "pending data md (of_nat ?n # st) k j c" "?n < 2 ^ 64" for c
        using that 5(2) k by (auto simp: pending_Cons word_unat_eq_iff unat_of_nat dest!: seq_end)
      then show ?thesis using True h 5
        by (auto simp: scan_loop.simps [of _ _ _ items] scan_item_spec [OF k] pending_step [of data md st i])
    qed
  qed
qed

section \<open>The emitter, one equation per constructor\<close>

lemma write_value_leaf:
  assumes "0 \<le> l"
  shows "write_value p l CNull = Some [0xf6]"
    "write_value p l (CBool b) = (if bools p then Some [if b then 0xf5 else 0xf4] else None)"
    "write_value p l (CInteger i) = write_int i"
    "write_value p l (CText s) = Some (write_text s)"
    "write_value p l (CBytes bs) = Some (write_head 2 (of_nat (length bs)) @ bs)"
    "write_value p l (CFloat f) = None"
    "write_value p l (CTag t v) = None"
  using assms by (simp_all add: write_value.simps [of p l])

lemma write_value_neg: "l < 0 \<Longrightarrow> write_value p l v = None"
  by (simp add: write_value.simps)

lemma write_value_Some_limit: "write_value p l v = Some b \<Longrightarrow> 0 \<le> l"
  using write_value_neg [of l p v] by (cases "l < 0") auto

lemma write_key_value: "write_key p k = Some kb \<Longrightarrow> 0 \<le> l \<Longrightarrow> write_value p l k = Some kb"
  by (auto simp: write_key_def write_value_leaf split: cbor.splits if_splits)

lemma write_value_CArray:
  "write_value p l (CArray a) = Some b \<longleftrightarrow> 0 \<le> l \<and>
     (\<forall>x \<in> set a. write_value p (l - 1) x \<noteq> None) \<and>
     b = write_head 4 (of_nat (length a)) @ concat (map (\<lambda>x. the (write_value p (l - 1) x)) a)"
proof (cases "l < 0")
  case False
  have "collect_opt (write_value p (l - 1)) a =
      (if \<forall>x \<in> set a. write_value p (l - 1) x \<noteq> None
       then Some (map (\<lambda>x. the (write_value p (l - 1) x)) a) else None)"
    by (auto simp: collect_opt_None_iff collect_opt_Some_iff)
  with False show ?thesis by (auto simp: write_value.simps [of p l])
qed (simp add: write_value_neg)

lemma map_sort_key: "map f (sort_key (g \<circ> f) xs) = sort_key g (map f xs)"
proof -
  have "map f (insort_key (g \<circ> f) x ys) = insort_key g (f x) (map f ys)" for x ys
    by (induction ys) auto
  then show ?thesis by (induction xs) auto
qed

lemma adjacent_distinct:
  "sorted ks \<Longrightarrow> list_ex (\<lambda>(a, b). a = b) (zip ks (tl ks)) = (\<not> distinct ks)" for ks :: "'a::linorder list"
proof (induction ks rule: induct_list012)
  case (3 a b ks)
  then show ?case by (cases "a = b") (auto simp: less_le_not_le)
qed auto

definition key_bytes :: "profile \<Rightarrow> cbor \<times> cbor \<Rightarrow> bytes" where
  "key_bytes p kv = the (write_key p (fst kv))"

definition pair_bytes :: "profile \<Rightarrow> int \<Rightarrow> cbor \<times> cbor \<Rightarrow> bytes" where
  "pair_bytes p l kv = key_bytes p kv @ the (write_value p l (snd kv))"

lemma write_value_CMap:
  "write_value p l (CMap m) = Some b \<longleftrightarrow> 0 \<le> l \<and>
     (\<forall>kv \<in> set m. write_key p (fst kv) \<noteq> None \<and> write_value p (l - 1) (snd kv) \<noteq> None) \<and>
     distinct (map (key_bytes p) m) \<and>
     b = write_head 5 (of_nat (length m)) @ concat (map (pair_bytes p (l - 1)) (sort_key (key_bytes p) m))"
proof (cases "l < 0")
  case False
  let ?f = "\<lambda>kv. (key_bytes p kv, the (write_value p (l - 1) (snd kv)))"
  let ?ok = "\<forall>kv \<in> set m. write_key p (fst kv) \<noteq> None \<and> write_value p (l - 1) (snd kv) \<noteq> None"
  have c: "collect_opt (\<lambda>(k, v). case (write_key p k, write_value p (l - 1) v) of
      (Some kb, Some vb) \<Rightarrow> Some (kb, vb) | _ \<Rightarrow> None) m = (if ?ok then Some (map ?f m) else None)"
    by (auto simp: collect_opt_None_iff collect_opt_Some_iff key_bytes_def split: option.splits)
       (force split: option.split)+
  have s: "sort_key fst (map ?f m) = map ?f (sort_key (key_bytes p) m)"
    using map_sort_key [of ?f fst m] by (simp add: comp_def)
  have k: "map fst (map ?f (sort_key (key_bytes p) m)) = map (key_bytes p) (sort_key (key_bytes p) m)"
    by simp
  have "list_ex (\<lambda>(a, b). a = b) (zip (map (key_bytes p) (sort_key (key_bytes p) m))
      (tl (map (key_bytes p) (sort_key (key_bytes p) m)))) = (\<not> distinct (map (key_bytes p) m))"
    by (subst adjacent_distinct) (auto simp: distinct_map)
  then have "write_pairs (map ?f m) = (if distinct (map (key_bytes p) m) then
      Some (write_head 5 (of_nat (length m)) @ concat (map (pair_bytes p (l - 1)) (sort_key (key_bytes p) m)))
      else None)"
    unfolding write_pairs_def Let_def s k by (simp add: comp_def pair_bytes_def [abs_def])
  with False c show ?thesis by (auto simp: write_value.simps [of p l])
qed (simp add: write_value_neg)

section \<open>A reference decoder, and the canonical order of maps\<close>

fun repeat :: "('s \<Rightarrow> ('a \<times> 's) option) \<Rightarrow> nat \<Rightarrow> 's \<Rightarrow> ('a list \<times> 's) option" where
  "repeat f 0 s = Some ([], s)"
| "repeat f (Suc n) s =
     (case f s of None \<Rightarrow> None
      | Some (x, s') \<Rightarrow> map_option (map_prod (Cons x) id) (repeat f n s'))"

definition in_turn :: "('s \<Rightarrow> ('a \<times> 's) option) \<Rightarrow> ('s \<Rightarrow> ('b \<times> 's) option) \<Rightarrow> 's \<Rightarrow> (('a \<times> 'b) \<times> 's) option" where
  "in_turn f g s = (case f s of None \<Rightarrow> None
     | Some (x, s') \<Rightarrow> (case g s' of None \<Rightarrow> None | Some (y, s'') \<Rightarrow> Some ((x, y), s'')))"

fun parse :: "nat \<Rightarrow> bytes \<Rightarrow> (cbor \<times> bytes) option" where
  "parse 0 data = None"
| "parse (Suc d) data =
     (case read_head data 0 of None \<Rightarrow> None
      | Some (major, arg, k) \<Rightarrow>
          let rest = drop k data; n = unat arg in
          if major = 0 then Some (CInteger (uint arg), rest)
          else if major = 1 then Some (CInteger (-1 - uint arg), rest)
          else if major = 2 then
            (if n \<le> length rest then Some (CBytes (take n rest), drop n rest) else None)
          else if major = 3 then
            (if n \<le> length rest then Some (CText (of_bytes (take n rest)), drop n rest) else None)
          else if major = 4 then map_option (map_prod CArray id) (repeat (parse d) n rest)
          else if major = 5 then map_option (map_prod CMap id) (repeat (in_turn (parse d) (parse d)) n rest)
          else if hd data = 0xf4 then Some (CBool False, rest)
          else if hd data = 0xf5 then Some (CBool True, rest)
          else Some (CNull, rest))"

text \<open>The value with every map in the order of its encoded keys.\<close>

fun normal :: "profile \<Rightarrow> cbor \<Rightarrow> cbor" where
  "normal p (CArray a) = CArray (map (normal p) a)"
| "normal p (CMap m) = CMap (sort_key (key_bytes p) (map (\<lambda>(k, v). (k, normal p v)) m))"
| "normal p v = v"

lemma repeat_concat:
  assumes "\<And>x rest. x \<in> set xs \<Longrightarrow> f (enc x @ rest) = Some (g x, rest)"
  shows "repeat f (length xs) (concat (map enc xs) @ rest) = Some (map g xs, rest)"
  using assms by (induction xs) auto

lemma read_write_head0:
  "unat m < 6 \<Longrightarrow> read_head (write_head m a @ post) 0 = Some (m, a, length (write_head m a))"
  using read_write_head [of m "[]" a post] by simp

lemma parse_write_int:
  assumes "write_int i = Some b"
  shows "parse (Suc d) (b @ rest) = Some (CInteger i, rest)"
proof -
  have i: "- (2 ^ 63) \<le> i" "i < 2 ^ 63" using assms by (auto simp: write_int_def split: if_splits)
  have u: "uint (word_of_int x :: u64) = x" if "0 \<le> x" "x < 2 ^ 63" for x
    using that by (simp add: uint_word_of_int_eq take_bit_int_eq_self_iff)
  show ?thesis
  proof (cases "0 \<le> i")
    case True
    then show ?thesis using assms i u [of i] by (auto simp: write_int_def read_write_head0)
  next
    case False
    then have "b = write_head 1 (word_of_int (-1 - i))"
      using assms by (simp add: write_int_def split: if_splits)
    moreover have "uint (word_of_int (-1 - i) :: u64) = -1 - i" using False i by (intro u) auto
    ultimately show ?thesis
      by (simp only: parse.simps read_write_head0 unat_1) (simp add: Let_def)
  qed
qed

lemma normal_CMap:
  "normal p (CMap m) = CMap (map (\<lambda>(k, v). (k, normal p v)) (sort_key (key_bytes p) m))"
proof -
  have "sort_key (key_bytes p) (map (\<lambda>(k, v). (k, normal p v)) m)
      = map (\<lambda>(k, v). (k, normal p v)) (sort_key (key_bytes p \<circ> (\<lambda>(k, v). (k, normal p v))) m)"
    by (rule map_sort_key [symmetric])
  also have "key_bytes p \<circ> (\<lambda>(k, v). (k, normal p v)) = key_bytes p"
    by (auto simp: key_bytes_def)
  finally show ?thesis by simp
qed

lemma write_head_nonempty [simp]: "write_head m a \<noteq> []"
  by (simp add: write_head_def)

lemma write_value_nonempty: "write_value p l v = Some b \<Longrightarrow> b \<noteq> []"
  by (auto simp: write_value.simps [of p l] write_int_def write_text_def write_pairs_def Let_def
      split: cbor.splits if_splits bind_splits)

lemma write_key_nonempty: "write_key p k = Some b \<Longrightarrow> b \<noteq> []"
  using write_key_value [of p k b 0] write_value_nonempty by auto

lemma length_concat_ge:
  "\<forall>x \<in> set xs. enc x \<noteq> [] \<Longrightarrow> length xs \<le> length (concat (map enc xs))"
proof (induction xs)
  case (Cons x xs)
  then show ?case by (cases "enc x") auto
qed simp

lemma length_concat_ge2:
  "\<forall>x \<in> set xs. 2 \<le> length (enc x) \<Longrightarrow> 2 * length xs \<le> length (concat (map enc xs))"
  by (induction xs) auto

lemma length_concat_elem: "x \<in> set xs \<Longrightarrow> length (enc x) \<le> length (concat (map enc xs))"
  by (induction xs) auto

text \<open>What a successful encoding of a container fixes about its members, for inductions on size.\<close>

lemma array_parts:
  assumes "write_value p l (CArray a) = Some b" "length b < 2 ^ 64"
  shows "unat (of_nat (length a) :: u64) = length a"
    "\<And>x. x \<in> set a \<Longrightarrow> \<exists>xb. write_value p (l - 1) x = Some xb \<and> length xb < 2 ^ 64"
proof -
  let ?enc = "\<lambda>x. the (write_value p (l - 1) x)"
  have w: "0 \<le> l" "\<forall>x \<in> set a. write_value p (l - 1) x \<noteq> None"
    "length (concat (map ?enc a)) < 2 ^ 64"
    using assms by (auto simp: write_value_CArray)
  have "length a \<le> length (concat (map ?enc a))"
    by (intro length_concat_ge ballI) (use w(2) write_value_nonempty in force)
  with w(3) show "unat (of_nat (length a) :: u64) = length a" by (simp add: unat_of_nat)
  show "\<exists>xb. write_value p (l - 1) x = Some xb \<and> length xb < 2 ^ 64" if "x \<in> set a" for x
    using that w length_concat_elem [of x a ?enc] by force
qed

lemma map_parts:
  assumes "write_value p l (CMap m) = Some b" "length b < 2 ^ 64"
  shows "unat (of_nat (length m) :: u64) = length m" "2 * length m < 2 ^ 64"
    "\<And>k v. (k, v) \<in> set m \<Longrightarrow> \<exists>kb vb. write_key p k = Some kb \<and> write_value p (l - 1) v = Some vb
       \<and> length kb < 2 ^ 64 \<and> length vb < 2 ^ 64 \<and> key_bytes p (k, v) = kb \<and> pair_bytes p (l - 1) (k, v) = kb @ vb"
proof -
  let ?m = "sort_key (key_bytes p) m" and ?enc = "pair_bytes p (l - 1)"
  have w: "\<forall>kv \<in> set m. write_key p (fst kv) \<noteq> None \<and> write_value p (l - 1) (snd kv) \<noteq> None"
    "length (concat (map ?enc ?m)) < 2 ^ 64"
    using assms by (auto simp: write_value_CMap)
  have "2 \<le> length (?enc kv)" if m: "kv \<in> set m" for kv
  proof -
    obtain kb vb where kv: "write_key p (fst kv) = Some kb" "write_value p (l - 1) (snd kv) = Some vb"
      using w(1) [rule_format, OF m] by auto
    with write_key_nonempty [OF kv(1)] write_value_nonempty [OF kv(2)] show ?thesis
      by (cases kb; cases vb) (auto simp: pair_bytes_def key_bytes_def)
  qed
  then have "2 * length ?m \<le> length (concat (map ?enc ?m))" by (intro length_concat_ge2) simp
  with w(2) show *: "2 * length m < 2 ^ 64" by simp
  then show "unat (of_nat (length m) :: u64) = length m" by (simp add: unat_of_nat)
  fix k v assume kv: "(k, v) \<in> set m"
  then have "length (?enc (k, v)) < 2 ^ 64"
    using length_concat_elem [of "(k, v)" ?m ?enc] w(2) by simp
  with kv w(1) show "\<exists>kb vb. write_key p k = Some kb \<and> write_value p (l - 1) v = Some vb
       \<and> length kb < 2 ^ 64 \<and> length vb < 2 ^ 64 \<and> key_bytes p (k, v) = kb \<and> ?enc (k, v) = kb @ vb"
    by (force simp: pair_bytes_def key_bytes_def)
qed

lemma parse_bytes:
  "length bs < 2 ^ 64 \<Longrightarrow> parse (Suc d) (write_head 2 (of_nat (length bs)) @ bs @ rest) = Some (CBytes bs, rest)"
  by (simp add: read_write_head0 unat_of_nat)

lemma parse_text:
  "length s < 2 ^ 64 \<Longrightarrow>
     parse (Suc d) (write_head 3 (of_nat (length s)) @ as_bytes s @ rest) = Some (CText s, rest)"
  by (simp add: read_write_head0 unat_of_nat)

lemma parse_simple:
  "parse (Suc d) (0xf6 # rest) = Some (CNull, rest)"
  "parse (Suc d) (0xf5 # rest) = Some (CBool True, rest)"
  "parse (Suc d) (0xf4 # rest) = Some (CBool False, rest)"
  by (simp_all add: read_head_def)

declare parse.simps(2) [simp del]

lemma parse_write_key:
  "write_key p k = Some kb \<Longrightarrow> length kb < 2 ^ 64 \<Longrightarrow> parse (Suc d) (kb @ rest) = Some (k, rest)"
  by (auto simp: write_key_def write_text_def parse_write_int parse_text
      split: cbor.splits if_splits)

lemma parse_write_value:
  "write_value p l v = Some b \<Longrightarrow> length b < 2 ^ 64 \<Longrightarrow> parse (Suc (nat l)) (b @ rest) = Some (normal p v, rest)"
proof (induction p l v arbitrary: b rest rule: write_value.induct)
  case (1 p l v)
  have l: "0 \<le> l" using "1.prems"(1) by (rule write_value_Some_limit)
  show ?case
  proof (cases v)
    case (CArray a)
    note parts = array_parts [OF "1.prems" [unfolded CArray]]
    have b: "b = write_head 4 (of_nat (length a)) @ concat (map (\<lambda>x. the (write_value p (l - 1) x)) a)"
      using "1.prems"(1) CArray by (simp add: write_value_CArray)
    have el: "parse (nat l) (the (write_value p (l - 1) x) @ rest) = Some (normal p x, rest)"
      if x: "x \<in> set a" for x rest
    proof -
      obtain xb where xb: "write_value p (l - 1) x = Some xb" "length xb < 2 ^ 64"
        using parts(2) [OF x] by blast
      have "Suc (nat (l - 1)) = nat l" using write_value_Some_limit [OF xb(1)] by simp
      with xb show ?thesis using "1.IH"(1) [OF _ CArray x xb] l by simp
    qed
    show ?thesis
      using repeat_concat [of a "parse (nat l)" _ "normal p", OF el] parts(1) CArray
      by (simp add: b read_write_head0 parse.simps(2))
  next
    case (CMap m)
    note parts = map_parts [OF "1.prems" [unfolded CMap]]
    let ?m = "sort_key (key_bytes p) m"
    have b: "b = write_head 5 (of_nat (length ?m)) @ concat (map (pair_bytes p (l - 1)) ?m)"
      using "1.prems"(1) CMap by (simp add: write_value_CMap)
    have el: "in_turn (parse (nat l)) (parse (nat l)) (pair_bytes p (l - 1) kv @ rest)
        = Some ((\<lambda>(k, v). (k, normal p v)) kv, rest)" if kv: "kv \<in> set ?m" for kv rest
    proof -
      obtain k v where [simp]: "kv = (k, v)" by force
      have m: "(k, v) \<in> set m" using kv by simp
      obtain kb vb where pv: "write_key p k = Some kb" "write_value p (l - 1) v = Some vb"
        "length kb < 2 ^ 64" "length vb < 2 ^ 64" "pair_bytes p (l - 1) (k, v) = kb @ vb"
        using parts(3) [OF m] by blast
      have l1: "0 \<le> l - 1" by (rule write_value_Some_limit [OF pv(2)])
      then have n: "Suc (nat (l - 1)) = nat l" by simp
      have "parse (nat l) (kb @ vb @ rest) = Some (k, vb @ rest)"
        using parse_write_key [OF pv(1,3)] n by metis
      moreover have "parse (nat l) (vb @ rest) = Some (normal p v, rest)"
        using "1.IH"(2) [OF _ CMap m refl pv(2,4)] l n by simp
      ultimately show ?thesis by (simp add: in_turn_def pv(5))
    qed
    show ?thesis
      using repeat_concat [of ?m _ "pair_bytes p (l - 1)", OF el] parts(1) CMap
      by (simp add: b read_write_head0 parse.simps(2) normal_CMap del: normal.simps)
  qed (use "1.prems" l in \<open>auto simp: write_value_leaf parse_write_int write_text_def
      parse_text parse_bytes parse_simple split: if_splits\<close>)
qed


section \<open>Canonical encodings pass the scan\<close>

text \<open>The number of item heads in the encoding of a value.\<close>

fun heads :: "cbor \<Rightarrow> nat" where
  "heads (CArray a) = Suc (sum_list (map heads a))"
| "heads (CMap m) = Suc (sum_list (map (\<lambda>(k, v). Suc (heads v)) m))"
| "heads _ = Suc 0"

lemma sum_list_sort_key: "sum_list (map f (sort_key g xs)) = sum_list (map f xs)" for f :: "'a \<Rightarrow> nat"
proof -
  have "sum_list (map f (insort_key g x ys)) = f x + sum_list (map f ys)" for x ys
    by (induction ys) auto
  then show ?thesis by (induction xs) auto
qed

lemma seq_concat:
  assumes "\<And>x pre post. x \<in> set xs \<Longrightarrow>
      item_seq (pre @ enc x @ post) d w (length pre) (length pre + length (enc x)) (cnt x)"
  shows "item_seq (pre @ concat (map enc xs) @ post) d (w * length xs) (length pre)
      (length pre + length (concat (map enc xs))) (sum_list (map cnt xs))"
  using assms
proof (induction xs arbitrary: pre)
  case (Cons x xs)
  have "item_seq (pre @ enc x @ concat (map enc xs) @ post) d w (length pre) (length pre + length (enc x)) (cnt x)"
    by (rule Cons.prems) simp
  moreover have "item_seq ((pre @ enc x) @ concat (map enc xs) @ post) d (w * length xs) (length (pre @ enc x))
      (length (pre @ enc x) + length (concat (map enc xs))) (sum_list (map cnt xs))"
    by (rule Cons.IH) (use Cons.prems in auto)
  ultimately show ?case
    using seq_append [of "pre @ concat (map enc (x # xs)) @ post" d w "length pre"
        "length pre + length (enc x)" "cnt x" "w * length xs"]
    by (simp add: add.assoc)
qed simp

lemma seq_write_leaf:
  assumes "unat m < 6" "m \<notin> {2, 3}" "item_count m a = 0"
  shows "item_seq (pre @ write_head m a @ post) d 1 (length pre) (length pre + length (write_head m a)) 1"
  using item_seq.seq_leaf [OF read_write_head [OF assms(1)] assms(2,3) item_seq.seq_done] by simp

lemma seq_write_string:
  assumes "m \<in> {2, 3}" "length bs < 2 ^ 64"
  shows "item_seq (pre @ (write_head m (of_nat (length bs)) @ bs) @ post) d 1 (length pre)
      (length pre + length (write_head m (of_nat (length bs)) @ bs)) 1"
proof -
  have u: "unat (of_nat (length bs) :: u64) = length bs" using assms(2) by (simp add: unat_of_nat)
  have m: "unat m < 6" using assms(1) by auto
  show ?thesis
    using item_seq.seq_string [OF read_write_head [OF m, of pre "of_nat (length bs)" "bs @ post"] assms(1) _ item_seq.seq_done]
      u by (simp add: add.assoc)
qed

lemma seq_write_container:
  assumes m: "m \<in> {4, 5}" and n: "item_count m a = n" "n < 2 ^ 64"
    and d: "0 < n \<Longrightarrow> d = Suc d'"
    and body: "\<And>pre. 0 < n \<Longrightarrow> item_seq (pre @ body @ post) d' n (length pre) (length pre + length body) c"
    and none: "n = 0 \<Longrightarrow> body = [] \<and> c = 0"
  shows "item_seq (pre @ (write_head m a @ body) @ post) d 1 (length pre) (length pre + length (write_head m a @ body)) (Suc c)"
proof (cases "n = 0")
  case True
  then show ?thesis using seq_write_leaf [of m a pre post d] m n none by auto
next
  case False
  have m6: "unat m < 6" using m by auto
  have "item_seq (pre @ write_head m a @ body @ post) d' n (length pre + length (write_head m a))
      (length pre + length (write_head m a) + length body) c"
    using body [of "pre @ write_head m a"] False by simp
  then show ?thesis
    using item_seq.seq_container [OF read_write_head [OF m6, of pre a "body @ post"] n(1) _ n(2) _ item_seq.seq_done] False d
    by (simp add: add.assoc)
qed

lemma seq_write_int:
  "write_int i = Some b \<Longrightarrow> item_seq (pre @ b @ post) d 1 (length pre) (length pre + length b) 1"
  using seq_write_leaf [of 0 _ pre post d] seq_write_leaf [of 1 _ pre post d]
  by (auto simp: write_int_def item_count_def split: if_splits)

lemma seq_write_key:
  "write_key p k = Some b \<Longrightarrow> length b < 2 ^ 64 \<Longrightarrow>
     item_seq (pre @ b @ post) d 1 (length pre) (length pre + length b) 1"
  using seq_write_string [of 3 "as_bytes _" pre post d]
  by (auto simp: write_key_def write_text_def seq_write_int [simplified] split: cbor.splits if_splits)

lemma seq_write_simple:
  assumes "b \<in> {0xf4, 0xf5, 0xf6}"
  shows "item_seq (pre @ [b] @ post) d 1 (length pre) (length pre + 1) 1"
proof -
  have h: "read_head (pre @ [b] @ post) (length pre) = Some (7, 0, Suc (length pre))"
    using assms by (auto simp: read_head_def nth_append)
  show ?thesis using item_seq.seq_leaf [OF h _ _ item_seq.seq_done] by (simp add: item_count_def)
qed

lemma seq_write_value:
  "write_value p l v = Some b \<Longrightarrow> length b < 2 ^ 64 \<Longrightarrow>
     item_seq (pre @ b @ post) (nat l) 1 (length pre) (length pre + length b) (heads v)"
proof (induction p l v arbitrary: b pre post rule: write_value.induct)
  case (1 p l v)
  have l: "0 \<le> l" using "1.prems"(1) by (rule write_value_Some_limit)
  show ?case
  proof (cases v)
    case (CArray a)
    note parts = array_parts [OF "1.prems" [unfolded CArray]]
    let ?enc = "\<lambda>x. the (write_value p (l - 1) x)"
    have b: "b = write_head 4 (of_nat (length a)) @ concat (map ?enc a)"
      using "1.prems"(1) CArray by (simp add: write_value_CArray)
    have el: "item_seq (pre @ ?enc x @ post) (nat (l - 1)) 1 (length pre) (length pre + length (?enc x)) (heads x)"
      if x: "x \<in> set a" for x pre post
      using parts(2) [OF x] "1.IH"(1) [OF _ CArray x] l by auto
    have "item_seq (pre @ concat (map ?enc a) @ post) (nat (l - 1)) (length a) (length pre)
        (length pre + length (concat (map ?enc a))) (sum_list (map heads a))" for pre
      using seq_concat [OF el] by simp
    moreover have "nat l = Suc (nat (l - 1))" if "0 < length a"
      using that parts(2) write_value_Some_limit by (cases a) fastforce+
    moreover have "item_count 4 (of_nat (length a)) = length a" "length a < 2 ^ 64"
      using parts(1) unat_less_exp [of "of_nat (length a) :: u64"] by (simp_all add: item_count_def)
    ultimately show ?thesis unfolding b CArray heads.simps
      by (intro seq_write_container) auto
  next
    case (CMap m)
    note parts = map_parts [OF "1.prems" [unfolded CMap]]
    let ?m = "sort_key (key_bytes p) m" and ?enc = "pair_bytes p (l - 1)"
    have b: "b = write_head 5 (of_nat (length m)) @ concat (map ?enc ?m)"
      using "1.prems"(1) CMap by (simp add: write_value_CMap)
    have el: "item_seq (pre @ ?enc kv @ post) (nat (l - 1)) 2 (length pre) (length pre + length (?enc kv))
        ((\<lambda>(k, v). Suc (heads v)) kv)" if kv: "kv \<in> set ?m" for kv pre post
    proof -
      obtain k v where [simp]: "kv = (k, v)" by force
      have m: "(k, v) \<in> set m" using kv by simp
      obtain kb vb where pv: "write_key p k = Some kb" "write_value p (l - 1) v = Some vb"
        "length kb < 2 ^ 64" "length vb < 2 ^ 64" "?enc (k, v) = kb @ vb"
        using parts(3) [OF m] by blast
      have "item_seq ((pre @ kb) @ vb @ post) (nat (l - 1)) 1 (length (pre @ kb)) (length (pre @ kb) + length vb) (heads v)"
        by (rule "1.IH"(2) [OF _ CMap m refl pv(2,4)]) (use l in simp)
      then show ?thesis
        using seq_append [OF seq_write_key [OF pv(1,3), of pre "vb @ post"], of "nat (l - 1)" 1] pv(5)
        by (simp add: add.assoc numeral_2_eq_2)
    qed
    have "item_seq (pre @ concat (map ?enc ?m) @ post) (nat (l - 1)) (2 * length m) (length pre)
        (length pre + length (concat (map ?enc ?m))) (sum_list (map (\<lambda>(k, v). Suc (heads v)) ?m))" for pre
      using seq_concat [of ?m ?enc _ 2 "\<lambda>(k, v). Suc (heads v)", OF el] by simp
    moreover have "sum_list (map f ?m) = sum_list (map f m)" for f :: "_ \<Rightarrow> nat"
      by (rule sum_list_sort_key)
    moreover have "nat l = Suc (nat (l - 1))" if "0 < length m"
      using that parts(3) write_value_Some_limit by (cases m) fastforce+
    moreover have "item_count 5 (of_nat (length m)) = 2 * length m" "2 * length m < 2 ^ 64"
      using parts(1,2) by (simp_all add: item_count_def)
    ultimately show ?thesis unfolding b CMap heads.simps
      by (intro seq_write_container) auto
  qed (use "1.prems" l in \<open>auto simp: write_value_leaf seq_write_int [simplified] write_text_def
      seq_write_simple [simplified] seq_write_string [of 3 "as_bytes _", simplified] seq_write_string [of 2, simplified]
      split: if_splits\<close>)
qed


section \<open>Uniqueness\<close>

lemma write_value_mono: "write_value p l v = Some b \<Longrightarrow> l \<le> l' \<Longrightarrow> write_value p l' v = Some b"
proof (induction p l v arbitrary: b l' rule: write_value.induct)
  case (1 p l v)
  have l: "0 \<le> l" using "1.prems"(1) by (rule write_value_Some_limit)
  show ?case
  proof (cases v)
    case (CArray a)
    have "write_value p (l' - 1) x = write_value p (l - 1) x" if "x \<in> set a" for x
      using "1.IH"(1) [OF _ CArray that, of _ "l' - 1"] "1.prems" CArray l that
      by (auto simp: write_value_CArray)
    then show ?thesis using "1.prems" CArray
      by (auto simp: write_value_CArray cong: map_cong)
  next
    case (CMap m)
    have eq: "write_value p (l' - 1) (snd kv) = write_value p (l - 1) (snd kv)" if kv: "kv \<in> set m" for kv
    proof -
      obtain k v' where [simp]: "kv = (k, v')" by force
      show ?thesis
        using "1.IH"(2) [OF _ CMap kv, of k v' _ "l' - 1"] "1.prems" CMap l kv
        by (auto simp: write_value_CMap)
    qed
    have "map (pair_bytes p (l' - 1)) (sort_key (key_bytes p) m) = map (pair_bytes p (l - 1)) (sort_key (key_bytes p) m)"
      by (rule map_cong) (auto simp: pair_bytes_def eq)
    then show ?thesis using "1.prems" CMap eq by (auto simp: write_value_CMap simp del: map_eq_conv)
  qed (use "1.prems" l in \<open>auto simp: write_value_leaf\<close>)
qed

lemma write_value_unique:
  assumes b: "write_value p l v = Some b" "length b < 2 ^ 64"
    and b': "write_value p l' v' = Some b'" "length b' < 2 ^ 64"
    and e: "b @ rest = b' @ rest'"
  shows "normal p v = normal p v' \<and> b = b' \<and> rest = rest'"
proof -
  let ?l = "max l l'"
  have "parse (Suc (nat ?l)) (b @ rest) = Some (normal p v, rest)"
    by (rule parse_write_value [OF write_value_mono [OF b(1)] b(2)]) simp
  moreover have "parse (Suc (nat ?l)) (b' @ rest') = Some (normal p v', rest')"
    by (rule parse_write_value [OF write_value_mono [OF b'(1)] b'(2)]) simp
  ultimately show ?thesis using e by simp
qed

section \<open>Properties\<close>

text \<open>
  C37: the bounded iterative scan recognises exactly the recursive grammar. For every input, depth cap
  and item cap it reports the end \<open>j\<close> of the first item if and only if one well-formed item occupies
  the bytes up to \<open>j\<close> with non-empty containers nested at most \<open>max_depth\<close> deep and at most \<open>max_items\<close>
  heads in all: the explicit stack of 64-bit counts, the doubled map count and the early exit on a count
  larger than what is left neither reject nor admit anything else.
\<close>

theorem structural_scan_grammar:
  "structural_scan data max_depth max_items = Some j \<longleftrightarrow>
     (\<exists>c. item_seq data max_depth 1 0 j c \<and> c \<le> max_items)"
  using scan_loop_pending [of "[]" max_depth data max_items 0 0 j]
  by (simp add: structural_scan_def pending_def)

text \<open>
  Every canonical encoding passes the scan. If the emitter accepts a value under a nesting limit,
  the scan with that depth cap, and an item cap at least the number of heads of the value, ends exactly
  at the end of the encoding, whatever bytes follow.
\<close>

theorem structural_scan_canonical:
  assumes "canonical_bytes v limit p = Some b" "length b < 2 ^ 64" "heads v \<le> max_items"
  shows "structural_scan (b @ rest) (nat limit) max_items = Some (length b)"
  using scan_loop_pending [of "[]" "nat limit" "b @ rest" max_items 0 0 "length b"] assms(3)
    seq_write_value [OF assms(1) [unfolded canonical_bytes_def] assms(2), of "[]" rest]
  by (auto simp: structural_scan_def pending_def)

theorem structural_scan_canonical_witness:
  "canonical_bytes (CArray [CText ''a'', CMap [(CText ''k'', CArray [])]]) 2 \<lparr>int_keys = False, bools = True\<rparr>
     = Some [0x82, 0x61, 0x61, 0xa1, 0x61, 0x6b, 0x80] \<and>
   structural_scan [0x82, 0x61, 0x61, 0xa1, 0x61, 0x6b, 0x80, 0xff] 2 5 = Some 7"
proof -
  have e: "canonical_bytes (CArray [CText ''a'', CMap [(CText ''k'', CArray [])]]) 2 \<lparr>int_keys = False, bools = True\<rparr>
     = Some [0x82, 0x61, 0x61, 0xa1, 0x61, 0x6b, 0x80]"
    by code_simp
  then show ?thesis using structural_scan_canonical [OF e, of 5 "[0xff]"] by simp
qed

text \<open>
  C38: canonical encodings are unambiguous. Two accepted values whose encodings, followed by any bytes,
  give the same byte string are equal up to the order in which their maps list the entries, and the
  encodings and what follows them are equal: the encoding is injective and prefix-free, under any
  two nesting limits.
\<close>

theorem canonical_bytes_unique:
  assumes "canonical_bytes v l p = Some b" "length b < 2 ^ 64"
    and "canonical_bytes v' l' p = Some b'" "length b' < 2 ^ 64"
    and "b @ rest = b' @ rest'"
  shows "normal p v = normal p v' \<and> b = b' \<and> rest = rest'"
  using write_value_unique [of p l v b l' v' b' rest rest'] assms by (simp add: canonical_bytes_def)

theorem canonical_bytes_unique_witness:
  "normal \<lparr>int_keys = True, bools = False\<rparr> (CMap [(CText ''k'', CNull), (CInteger 1, CNull)])
     = normal \<lparr>int_keys = True, bools = False\<rparr> (CMap [(CInteger 1, CNull), (CText ''k'', CNull)])"
proof -
  have e: "canonical_bytes (CMap [(CText ''k'', CNull), (CInteger 1, CNull)]) 1 \<lparr>int_keys = True, bools = False\<rparr>
       = Some [0xa2, 0x01, 0xf6, 0x61, 0x6b, 0xf6]"
    "canonical_bytes (CMap [(CInteger 1, CNull), (CText ''k'', CNull)]) 3 \<lparr>int_keys = True, bools = False\<rparr>
       = Some [0xa2, 0x01, 0xf6, 0x61, 0x6b, 0xf6]"
    by code_simp+
  show ?thesis using canonical_bytes_unique [OF e(1) _ e(2), of "[]" "[]"] by simp
qed

text \<open>
  the item head reader inverts the head writer for every major type below 6 and every 64-bit
  argument, at any position of any buffer, and ends right after the head.
\<close>

theorem read_head_write_head:
  assumes "unat m < 6"
  shows "read_head (pre @ write_head m a @ post) (length pre) = Some (m, a, length pre + length (write_head m a))"
  using assms by (rule read_write_head)

theorem read_head_write_head_witness:
  "read_head [0xff, 0x19, 0x01, 0x00, 0xff] 1 = Some (0, 256, 4)"
proof -
  have h: "write_head 0 256 = [0x19, 0x01, 0x00]" by code_simp
  show ?thesis using read_head_write_head [of 0 "[0xff]" 256 "[0xff]"] by (simp add: h)
qed

end
