(* ===== verification/Json.thy ===== *)
theory Json
  imports Cbor_Wire "HOL-Library.Char_ord"
begin

text \<open>
  The JSON values the verifier works on (\<open>serde_json::Value\<close>, built without \<open>preserve_order\<close>: an
  object is a \<open>BTreeMap\<close>, so its entries are listed in the byte order of their keys) and the
  selectors the sources use of them. An absent member, a member of another type and an index of a
  value that is not an object are kept apart the way \<open>serde_json\<close> documents them. The third-party
  crates whose code is not part of the repository are the fields of the record \<open>crates\<close>.
\<close>

section \<open>Values\<close>

text \<open>\<open>Number\<close>: a non-negative integer of 64 bits, a negative one of \<open>i64\<close>, or the bits of a binary64.\<close>

datatype number = PosInt u64 | NegInt int | Float u64

datatype json =
    JNull
  | JBool bool
  | JNumber number
  | JString string
  | JArray "json list"
  | JObject "(string \<times> json) list"

definition get :: "json \<Rightarrow> string \<Rightarrow> json option" where
  "get v k = (case v of JObject m \<Rightarrow> map_of m k | _ \<Rightarrow> None)"

text \<open>\<open>v[k]\<close>: \<open>Null\<close> when there is no such member.\<close>

definition index :: "json \<Rightarrow> string \<Rightarrow> json" where
  "index v k = unwrap_or JNull (get v k)"

definition as_str :: "json \<Rightarrow> string option" where
  "as_str v = (case v of JString s \<Rightarrow> Some s | _ \<Rightarrow> None)"

definition as_bool :: "json \<Rightarrow> bool option" where
  "as_bool v = (case v of JBool b \<Rightarrow> Some b | _ \<Rightarrow> None)"

definition as_array :: "json \<Rightarrow> json list option" where
  "as_array v = (case v of JArray a \<Rightarrow> Some a | _ \<Rightarrow> None)"

definition as_object :: "json \<Rightarrow> (string \<times> json) list option" where
  "as_object v = (case v of JObject m \<Rightarrow> Some m | _ \<Rightarrow> None)"

definition number_as_u64 :: "number \<Rightarrow> u64 option" where
  "number_as_u64 n = (case n of PosInt w \<Rightarrow> Some w | _ \<Rightarrow> None)"

definition number_as_i64 :: "number \<Rightarrow> int option" where
  "number_as_i64 n =
     (case n of PosInt w \<Rightarrow> then_some (uint w < 2 ^ 63) (uint w) | NegInt i \<Rightarrow> Some i | Float _ \<Rightarrow> None)"

definition as_u64 :: "json \<Rightarrow> u64 option" where
  "as_u64 v = (case v of JNumber n \<Rightarrow> number_as_u64 n | _ \<Rightarrow> None)"

definition as_i64 :: "json \<Rightarrow> int option" where
  "as_i64 v = (case v of JNumber n \<Rightarrow> number_as_i64 n | _ \<Rightarrow> None)"

definition get_str :: "json \<Rightarrow> string \<Rightarrow> string option" where
  "get_str v k = Option.bind (get v k) as_str"

definition get_u64 :: "json \<Rightarrow> string \<Rightarrow> u64 option" where
  "get_u64 v k = Option.bind (get v k) as_u64"

definition get_i64 :: "json \<Rightarrow> string \<Rightarrow> int option" where
  "get_i64 v k = Option.bind (get v k) as_i64"

definition get_array :: "json \<Rightarrow> string \<Rightarrow> json list option" where
  "get_array v k = Option.bind (get v k) as_array"

definition get_object :: "json \<Rightarrow> string \<Rightarrow> (string \<times> json) list option" where
  "get_object v k = Option.bind (get v k) as_object"

definition get_bool :: "json \<Rightarrow> string \<Rightarrow> bool option" where
  "get_bool v k = Option.bind (get v k) as_bool"

definition contains_key :: "(string \<times> 'a) list \<Rightarrow> string \<Rightarrow> bool" where
  "contains_key m k = (map_of m k \<noteq> None)"

text \<open>A member that is missing and one that is \<open>null\<close> read the same.\<close>

definition absent :: "json option \<Rightarrow> bool" where
  "absent v = (v = None \<or> v = Some JNull)"

lemmas json_access = get_str_def get_u64_def get_i64_def get_array_def get_object_def get_bool_def
  as_str_def as_u64_def as_i64_def as_array_def as_object_def as_bool_def get_def index_def
  number_as_u64_def number_as_i64_def contains_key_def

text \<open>Structural induction, with the members of an object as pairs.\<close>

lemma json_induct [case_names JNull JBool JNumber JString JArray JObject]:
  assumes "P JNull" "\<And>b. P (JBool b)" "\<And>n. P (JNumber n)" "\<And>s. P (JString s)"
    and "\<And>a. (\<And>x. x \<in> set a \<Longrightarrow> P x) \<Longrightarrow> P (JArray a)"
    and "\<And>m. (\<And>k v. (k, v) \<in> set m \<Longrightarrow> P v) \<Longrightarrow> P (JObject m)"
  shows "P v"
  by (induction v) (use assms in \<open>force+\<close>)

section \<open>Binary64\<close>

definition f64_exponent :: "u64 \<Rightarrow> u64" where
  "f64_exponent b = drop_bit 52 b AND 0x7ff"

definition is_finite :: "u64 \<Rightarrow> bool" where
  "is_finite b = (f64_exponent b \<noteq> 2047)"

definition is_nan :: "u64 \<Rightarrow> bool" where
  "is_nan b = (f64_exponent b = 2047 \<and> b AND 0xfffffffffffff \<noteq> 0)"

definition f64_eq :: "u64 \<Rightarrow> u64 \<Rightarrow> bool" where
  "f64_eq a b = (\<not> is_nan a \<and> \<not> is_nan b \<and> (a = b \<or> push_bit 1 a = 0 \<and> push_bit 1 b = 0))"

text \<open>\<open>n as f64\<close> for a magnitude: round to nearest, ties to even; the carry of the significand runs
  into the exponent.\<close>

fun bit_width :: "int \<Rightarrow> nat" where
  "bit_width n = (if n \<le> 0 then 0 else Suc (bit_width (n div 2)))"

declare bit_width.simps [simp del]

definition f64_of_int :: "int \<Rightarrow> u64" where
  "f64_of_int n =
     (if n = 0 then 0
      else
        (let e = bit_width n - 1 in
         if e \<le> 52 then word_of_int ((int e + 1023) * 2 ^ 52 + (n * 2 ^ (52 - e) - 2 ^ 52))
         else
           (let s = e - 52; q = n div 2 ^ s; r = n mod 2 ^ s; h = 2 ^ (s - 1);
                q' = (if r > h \<or> r = h \<and> odd q then q + 1 else q) in
            word_of_int ((int e + 1023) * 2 ^ 52 + (q' - 2 ^ 52)))))"

definition number_as_f64 :: "number \<Rightarrow> u64" where
  "number_as_f64 n =
     (case n of PosInt w \<Rightarrow> f64_of_int (uint w)
      | NegInt i \<Rightarrow> f64_of_int (- i) OR 0x8000000000000000
      | Float b \<Rightarrow> b)"

section \<open>Equality of values\<close>

definition number_eq :: "number \<Rightarrow> number \<Rightarrow> bool" where
  "number_eq a b =
     (case (a, b) of (Float x, Float y) \<Rightarrow> f64_eq x y | _ \<Rightarrow> a = b)"

function (sequential) value_rel :: "(number \<Rightarrow> number \<Rightarrow> bool) \<Rightarrow> json \<Rightarrow> json \<Rightarrow> bool" where
  "value_rel R (JNumber a) (JNumber b) = R a b"
| "value_rel R (JArray a) (JArray b) = (length a = length b \<and> list_all (\<lambda>(x, y). value_rel R x y) (zip a b))"
| "value_rel R (JObject a) (JObject b) =
     (length a = length b \<and> list_all (\<lambda>((k, x), (k', y)). k = k' \<and> value_rel R x y) (zip a b))"
| "value_rel R a b = (a = b)"
  by pat_completeness auto
termination
  by (relation "measure (\<lambda>(_, v, _). size v)")
     (auto dest!: set_zip_leftD intro!: le_imp_less_Suc size_list_estimation' [of _ _ _ size]
       size_list_estimation' [of _ _ _ "size_prod (\<lambda>x. 0) size"])

text \<open>The \<open>PartialEq\<close> of \<open>Value\<close>: derived, with binary64 numbers compared as such.\<close>

definition value_eq :: "json \<Rightarrow> json \<Rightarrow> bool" where
  "value_eq = value_rel number_eq"

definition value_eq_opt :: "json option \<Rightarrow> json option \<Rightarrow> bool" where
  "value_eq_opt a b = (case (a, b) of (Some x, Some y) \<Rightarrow> value_eq x y | (None, None) \<Rightarrow> True | _ \<Rightarrow> False)"

lemma value_rel_array: "value_rel R (JArray a) (JArray b) = list_all2 (value_rel R) a b"
  by (simp add: list_all2_iff list_all_iff)

lemma value_rel_object:
  "value_rel R (JObject a) (JObject b) = list_all2 (\<lambda>(k, x) (k', y). k = k' \<and> value_rel R x y) a b"
  by (auto simp: list_all2_iff list_all_iff)

lemma value_rel_refl:
  assumes "\<And>n. R n n"
  shows "value_rel R v v"
proof (induction v)
  case (JArray a)
  then show ?case by (simp add: value_rel_array list_all2_same del: value_rel.simps)
next
  case (JObject m)
  then show ?case
    by (force simp: value_rel_object list_all2_same simp del: value_rel.simps)
qed (simp_all add: assms)

text \<open>The invariant of a \<open>BTreeMap\<close>: keys strictly increasing in byte order, at every level.\<close>

fun json_wf :: "json \<Rightarrow> bool" where
  "json_wf (JArray a) = list_all json_wf a"
| "json_wf (JObject m) = (sorted_wrt (<) (map fst m) \<and> list_all (\<lambda>(k, v). json_wf v) m)"
| "json_wf _ = True"

section \<open>Crates\<close>

text \<open>A JSON document as \<open>serde\<close> presents it to a visitor: members in document order, duplicates kept.\<close>

datatype doc =
    DUnit
  | DBool bool
  | DI64 int
  | DU64 u64
  | DF64 u64
  | DStr string
  | DSeq "doc list"
  | DMap "(string \<times> doc) list"

text \<open>
  \<open>sha2\<close>, \<open>ed25519-dalek\<close>, \<open>base64\<close>, \<open>serde_json\<close>'s reader and string writer, \<open>ryu-js\<close> and
  \<open>ciborium\<close>'s reader. Signatures take the key, the message and the signature.
\<close>

record crates =
  Sha256 :: "bytes \<Rightarrow> bytes"
  vk_from_bytes :: "bytes \<Rightarrow> bool"
  vk_verify :: "bytes \<Rightarrow> bytes \<Rightarrow> bytes \<Rightarrow> bool"
  B64_encode :: "bytes \<Rightarrow> string"
  B64_decode :: "string \<Rightarrow> bytes option"
  URL_SAFE_NO_PAD_encode :: "bytes \<Rightarrow> string"
  URL_SAFE_NO_PAD_decode :: "string \<Rightarrow> bytes option"
  json_from_slice :: "bytes \<Rightarrow> json option"
  json_deserialize :: "bytes \<Rightarrow> doc option"
  json_to_writer :: "string \<Rightarrow> bytes"
  format_finite :: "u64 \<Rightarrow> string"
  cbor_from_reader :: "bytes \<Rightarrow> cbor option"


text \<open>
  A concrete record of crates, used only where a witness evaluates a definition: a quoting string
  writer that escapes the quote and the backslash, a digest and a signature check of the right widths,
  and transparent base64 codecs.
\<close>

definition quoted :: "string \<Rightarrow> bytes" where
  "quoted s = 34 # concat (map (\<lambda>c. if c \<in> set [CHR 34, CHR 92] then [92, of_char c] else [of_char c]) s) @ [34]"

definition toy_sign :: "bytes \<Rightarrow> bytes \<Rightarrow> bytes" where
  "toy_sign key msg = toy_digest (key @ msg) @ toy_digest msg"

definition toy_base :: crates where
  "toy_base = \<lparr>Sha256 = toy_digest, vk_from_bytes = \<lambda>_. True, vk_verify = \<lambda>k m s. s = toy_sign k m,
     B64_encode = of_bytes, B64_decode = \<lambda>s. Some (as_bytes s), URL_SAFE_NO_PAD_encode = of_bytes,
     URL_SAFE_NO_PAD_decode = \<lambda>s. Some (as_bytes s), json_from_slice = \<lambda>_. None, json_deserialize = \<lambda>_. None,
     json_to_writer = quoted, format_finite = \<lambda>_. ''0'', cbor_from_reader = \<lambda>_. None\<rparr>"

lemma of_char_u8_inject: "((of_char c :: u8) = of_char d) = (c = d)"
  by (metis unat_of_char of_char_eq_iff)

lemma quoted_prefix_free: "quoted s @ x = quoted t @ y \<Longrightarrow> s = t \<and> x = y"
proof -
  let ?e = "\<lambda>c. if c \<in> set [CHR 34, CHR 92] then [92, of_char c] else [of_char c :: u8]"
  have q: "(of_char c :: u8) = 34 \<longleftrightarrow> c = CHR 34" "(of_char c :: u8) = 92 \<longleftrightarrow> c = CHR 92" for c
    using of_char_u8_inject [of c "CHR 34"] of_char_u8_inject [of c "CHR 92"] by simp_all
  have "concat (map ?e s) @ 34 # x = concat (map ?e t) @ 34 # y \<Longrightarrow> s = t \<and> x = y"
  proof (induction s arbitrary: t)
    case Nil
    then show ?case by (cases t) (auto simp: q split: if_splits)
  next
    case (Cons c s)
    then show ?case
      by (cases t) (auto simp: q of_char_u8_inject split: if_splits)
  qed
  then show "quoted s @ x = quoted t @ y \<Longrightarrow> s = t \<and> x = y" by (simp add: quoted_def)
qed

end
