(* ===== verification/Jcs.thy ===== *)
theory Jcs
  imports Json
begin

text \<open>
  \<open>verify-rs/src/jcs.rs\<close>: RFC 8785 canonicalisation with its number profile and nesting cap, and
  \<open>depth_exceeds\<close> of \<open>lib.rs\<close>. As in the CBOR emitter, a writer that returns whether it succeeded
  is a function to \<open>bytes option\<close>: every caller drops the buffer on failure.
\<close>

section \<open>The code\<close>

definition JCS_MAX_DEPTH :: int where
  "JCS_MAX_DEPTH = 64"

definition MAX_SAFE_INTEGER :: int where
  "MAX_SAFE_INTEGER = 9007199254740991"

definition number_text :: "crates \<Rightarrow> number \<Rightarrow> string option" where
  "number_text C n =
     (case number_as_i64 n of
        Some value \<Rightarrow> then_some (- MAX_SAFE_INTEGER \<le> value \<and> value \<le> MAX_SAFE_INTEGER) (int_to_string value)
      | None \<Rightarrow>
          (case number_as_u64 n of
             Some value \<Rightarrow> then_some (uint value \<le> MAX_SAFE_INTEGER) (int_to_string (uint value))
           | None \<Rightarrow> (let value = number_as_f64 n in then_some (is_finite value) (format_finite C value))))"

definition is_f64 :: "number \<Rightarrow> bool" where
  "is_f64 n = (case n of Float _ \<Rightarrow> True | _ \<Rightarrow> False)"

fun numbers_match :: "crates \<Rightarrow> json \<Rightarrow> bool \<Rightarrow> int \<Rightarrow> bool" where
  "numbers_match C v integers_only limit =
     (if limit < 0 then False
      else (case v of
        JNumber number \<Rightarrow> (\<not> integers_only \<or> \<not> is_f64 number) \<and> number_text C number \<noteq> None
      | JArray items \<Rightarrow> list_all (\<lambda>item. numbers_match C item integers_only (limit - 1)) items
      | JObject items \<Rightarrow> list_all (\<lambda>(k, item). numbers_match C item integers_only (limit - 1)) items
      | _ \<Rightarrow> True))"

definition numbers_within_profile :: "crates \<Rightarrow> json \<Rightarrow> bool" where
  "numbers_within_profile C v = numbers_match C v False JCS_MAX_DEPTH"

text \<open>The characters of a string (its UTF-8 decoded) and their UTF-16 units.\<close>

fun chars :: "string \<Rightarrow> int list" where
  "chars [] = []"
| "chars (a # s) =
     (let b = (of_char a :: int); cont = (\<lambda>i. (of_char (s ! i) :: int) mod 64) in
      if b < 128 then b # chars s
      else if b < 224 \<and> length s \<ge> 1 then ((b mod 32) * 64 + cont 0) # chars (drop 1 s)
      else if b < 240 \<and> length s \<ge> 2 then ((b mod 16) * 4096 + cont 0 * 64 + cont 1) # chars (drop 2 s)
      else if length s \<ge> 3 then
        ((b mod 8) * 262144 + cont 0 * 4096 + cont 1 * 64 + cont 2) # chars (drop 3 s)
      else b # chars s)"

definition encode_utf16 :: "string \<Rightarrow> int list" where
  "encode_utf16 s =
     concat (map (\<lambda>c. if c < 65536 then [c]
                     else [55296 + (c - 65536) div 1024, 56320 + (c - 65536) mod 1024]) (chars s))"

text \<open>\<open>keys.sort_by(utf16_cmp)\<close>, on the entries the keys index.\<close>

definition sort_by_utf16 :: "(string \<times> 'a) list \<Rightarrow> (string \<times> 'a) list" where
  "sort_by_utf16 m = sort_key (\<lambda>(k, v). encode_utf16 k) m"

lemma set_sort_by_utf16 [simp]: "set (sort_by_utf16 m) = set m"
  by (simp add: sort_by_utf16_def)

text \<open>The separators the two loops push before every element but the first.\<close>

fun commas :: "bytes list \<Rightarrow> bytes" where
  "commas [] = []"
| "commas (x # xs) = x @ concat (map (\<lambda>y. 44 # y) xs)"

fun jcs_write_value :: "crates \<Rightarrow> json \<Rightarrow> int \<Rightarrow> bytes option" where
  "jcs_write_value C v limit =
     (if limit < 0 then None
      else (case v of
        JNull \<Rightarrow> Some (as_bytes ''null'')
      | JBool b \<Rightarrow> Some (as_bytes (if b then ''true'' else ''false''))
      | JString s \<Rightarrow> Some (json_to_writer C s)
      | JNumber number \<Rightarrow> map_option as_bytes (number_text C number)
      | JArray a \<Rightarrow>
          map_option (\<lambda>items. [91] @ commas items @ [93])
            (collect_opt (\<lambda>e. jcs_write_value C e (limit - 1)) a)
      | JObject m \<Rightarrow>
          map_option (\<lambda>items. [123] @ commas items @ [125])
            (collect_opt (\<lambda>(k, e). map_option (\<lambda>b. json_to_writer C k @ [58] @ b) (jcs_write_value C e (limit - 1)))
              (sort_by_utf16 m))))"

definition canonical_checked :: "crates \<Rightarrow> json \<Rightarrow> bytes option" where
  "canonical_checked C v = jcs_write_value C v JCS_MAX_DEPTH"

definition canonical_integer_checked :: "crates \<Rightarrow> json \<Rightarrow> bytes option" where
  "canonical_integer_checked C v =
     (if numbers_match C v True JCS_MAX_DEPTH then canonical_checked C v else None)"

text \<open>The value is updated in place; every caller drops it when the result is \<open>false\<close>.\<close>

fun promote_jcs_integer_lexemes :: "json \<Rightarrow> json option" where
  "promote_jcs_integer_lexemes v =
     (case v of
        JNumber number \<Rightarrow>
          if is_some_and (number_as_i64 number) (\<lambda>value. \<not> (- MAX_SAFE_INTEGER \<le> value \<and> value \<le> MAX_SAFE_INTEGER))
             \<or> is_some_and (number_as_u64 number) (\<lambda>value. uint value > MAX_SAFE_INTEGER)
          then (let promoted = number_as_f64 number in
                if is_finite promoted then Some (JNumber (Float promoted)) else None)
          else Some v
      | JArray items \<Rightarrow> map_option JArray (collect_opt promote_jcs_integer_lexemes items)
      | JObject items \<Rightarrow>
          map_option JObject
            (collect_opt (\<lambda>(k, item). map_option (Pair k) (promote_jcs_integer_lexemes item)) items)
      | _ \<Rightarrow> Some v)"

fun depth_exceeds :: "json \<Rightarrow> int \<Rightarrow> bool" where
  "depth_exceeds v limit =
     (if limit < 0 then True
      else (case v of
        JArray a \<Rightarrow> list_ex (\<lambda>x. depth_exceeds x (limit - 1)) a
      | JObject m \<Rightarrow> list_ex (\<lambda>(k, x). depth_exceeds x (limit - 1)) m
      | _ \<Rightarrow> False))"

declare numbers_match.simps [simp del] jcs_write_value.simps [simp del]
  promote_jcs_integer_lexemes.simps [simp del] depth_exceeds.simps [simp del]


section \<open>One equation per constructor\<close>

lemma jcs_write_neg: "l < 0 \<Longrightarrow> jcs_write_value C v l = None"
  by (simp add: jcs_write_value.simps)

lemma jcs_write_leaf:
  assumes "0 \<le> l"
  shows "jcs_write_value C JNull l = Some (as_bytes ''null'')"
    "jcs_write_value C (JBool b) l = Some (as_bytes (if b then ''true'' else ''false''))"
    "jcs_write_value C (JString s) l = Some (json_to_writer C s)"
    "jcs_write_value C (JNumber n) l = map_option as_bytes (number_text C n)"
  using assms by (simp_all add: jcs_write_value.simps [of C _ l])

lemmas leaf_eqs =
  numbers_match.simps [of _ JNull] numbers_match.simps [of _ "JBool _"] numbers_match.simps [of _ "JString _"]
  numbers_match.simps [of _ "JNumber _"]
  depth_exceeds.simps [of JNull] depth_exceeds.simps [of "JBool _"] depth_exceeds.simps [of "JString _"]
  depth_exceeds.simps [of "JNumber _"]
  jcs_write_value.simps [of _ JNull] jcs_write_value.simps [of _ "JBool _"] jcs_write_value.simps [of _ "JString _"]
  jcs_write_value.simps [of _ "JNumber _"]

definition member_bytes :: "crates \<Rightarrow> int \<Rightarrow> string \<times> json \<Rightarrow> bytes" where
  "member_bytes C l kv = json_to_writer C (fst kv) @ [58] @ the (jcs_write_value C (snd kv) l)"

lemma jcs_write_array:
  "jcs_write_value C (JArray a) l = Some b \<longleftrightarrow> 0 \<le> l \<and>
     (\<forall>x \<in> set a. jcs_write_value C x (l - 1) \<noteq> None) \<and>
     b = [91] @ commas (map (\<lambda>x. the (jcs_write_value C x (l - 1))) a) @ [93]"
proof (cases "l < 0")
  case False
  have "collect_opt (\<lambda>e. jcs_write_value C e (l - 1)) a =
      (if \<forall>x \<in> set a. jcs_write_value C x (l - 1) \<noteq> None
       then Some (map (\<lambda>x. the (jcs_write_value C x (l - 1))) a) else None)"
    by (auto simp: collect_opt_None_iff collect_opt_Some_iff)
  with False show ?thesis by (auto simp: jcs_write_value.simps [of C _ l])
qed (simp add: jcs_write_neg)

lemma jcs_write_object:
  "jcs_write_value C (JObject m) l = Some b \<longleftrightarrow> 0 \<le> l \<and>
     (\<forall>kv \<in> set m. jcs_write_value C (snd kv) (l - 1) \<noteq> None) \<and>
     b = [123] @ commas (map (member_bytes C (l - 1)) (sort_by_utf16 m)) @ [125]"
proof (cases "l < 0")
  case False
  have "collect_opt (\<lambda>(k, e). map_option (\<lambda>b. json_to_writer C k @ [58] @ b) (jcs_write_value C e (l - 1)))
        (sort_by_utf16 m) =
      (if \<forall>kv \<in> set m. jcs_write_value C (snd kv) (l - 1) \<noteq> None
       then Some (map (member_bytes C (l - 1)) (sort_by_utf16 m)) else None)"
    by (auto simp: collect_opt_None_iff collect_opt_Some_iff member_bytes_def)
       (force simp: member_bytes_def)+
  with False show ?thesis by (auto simp: jcs_write_value.simps [of C _ l])
qed (simp add: jcs_write_neg)

lemma jcs_write_defined: "jcs_write_value C v l \<noteq> None \<longleftrightarrow> numbers_match C v False l"
proof (induction v arbitrary: l rule: json_induct)
  case (JArray a)
  have "jcs_write_value C (JArray a) l \<noteq> None \<longleftrightarrow> 0 \<le> l \<and> (\<forall>x \<in> set a. jcs_write_value C x (l - 1) \<noteq> None)"
    using jcs_write_array [of C a l] by blast
  then show ?case using JArray by (auto simp: numbers_match.simps [of C _ _ l] list_all_iff)
next
  case (JObject m)
  have "jcs_write_value C (JObject m) l \<noteq> None \<longleftrightarrow>
      0 \<le> l \<and> (\<forall>kv \<in> set m. jcs_write_value C (snd kv) (l - 1) \<noteq> None)"
    using jcs_write_object [of C m l] by blast
  moreover have "jcs_write_value C (snd kv) (l - 1) \<noteq> None \<longleftrightarrow> numbers_match C (snd kv) False (l - 1)"
    if "kv \<in> set m" for kv
    using JObject [of "fst kv" "snd kv"] that by simp
  ultimately show ?case
    by (simp add: numbers_match.simps [of C _ _ l] list_all_iff case_prod_unfold not_less del: not_None_eq)
qed (auto simp: leaf_eqs)

text \<open>Every number of a value.\<close>

fun numbers :: "json \<Rightarrow> number list" where
  "numbers (JNumber n) = [n]"
| "numbers (JArray a) = concat (map numbers a)"
| "numbers (JObject m) = concat (map (\<lambda>(k, v). numbers v) m)"
| "numbers _ = []"

lemma numbers_match_iff:
  "numbers_match C v io l \<longleftrightarrow> \<not> depth_exceeds v l \<and>
     (\<forall>n \<in> set (numbers v). (io \<longrightarrow> \<not> is_f64 n) \<and> number_text C n \<noteq> None)"
proof (induction v arbitrary: l rule: json_induct)
  case (JArray a)
  then show ?case
    by (auto simp: numbers_match.simps [of C _ _ l] depth_exceeds.simps [of _ l] list_all_iff list_ex_iff)
next
  case (JObject m)
  then show ?case
    by (auto simp: numbers_match.simps [of C _ _ l] depth_exceeds.simps [of _ l] list_all_iff list_ex_iff)
qed (auto simp: leaf_eqs)

section \<open>Unambiguous text\<close>

text \<open>What the emitter needs of the two writers it calls: a string literal starts with a quote and
  ends where it says, and a formatted binary64 consists of the characters of a JSON number.\<close>

definition number_char :: "char \<Rightarrow> bool" where
  "number_char c = (is_ascii_digit c \<or> c \<in> set ''+-.e'')"

definition string_writer_ok :: "(string \<Rightarrow> bytes) \<Rightarrow> bool" where
  "string_writer_ok w \<longleftrightarrow> (\<forall>s. w s \<noteq> [] \<and> hd (w s) = 34) \<and>
     (\<forall>s t x y. w s @ x = w t @ y \<longrightarrow> s = t \<and> x = y)"

definition float_writer_ok :: "(u64 \<Rightarrow> string) \<Rightarrow> bool" where
  "float_writer_ok w \<longleftrightarrow> (\<forall>f. is_finite f \<longrightarrow>
     w f \<noteq> [] \<and> list_all number_char (w f) \<and> (is_ascii_digit (hd (w f)) \<or> hd (w f) = CHR ''-''))"

definition stop :: "bytes \<Rightarrow> bool" where
  "stop x = (x = [] \<or> hd x \<in> {44, 93, 125})"

text \<open>The first byte of a number is a minus sign or a digit.\<close>

definition number_start :: "u8 \<Rightarrow> bool" where
  "number_start b = (b = 45 \<or> 48 \<le> unat b \<and> unat b \<le> 57)"

lemma int_to_string_ok:
  "int_to_string i \<noteq> []" "list_all number_char (int_to_string i)"
  "is_ascii_digit (hd (int_to_string i)) \<or> hd (int_to_string i) = CHR ''-''"
proof -
  have d: "list_all number_char (nat_to_string n)" "is_ascii_digit (hd (nat_to_string n))" for n
    using nat_to_string_digits [of n] by (auto simp: list_all_iff number_char_def)
  show "int_to_string i \<noteq> []" by (simp add: int_to_string_def)
  show "list_all number_char (int_to_string i)" using d by (auto simp: int_to_string_def number_char_def)
  show "is_ascii_digit (hd (int_to_string i)) \<or> hd (int_to_string i) = CHR ''-''"
    using d by (simp add: int_to_string_def)
qed

lemma number_text_ok:
  assumes "float_writer_ok (format_finite C)" "number_text C n = Some s"
  shows "s \<noteq> []" "list_all number_char s" "is_ascii_digit (hd s) \<or> hd s = CHR ''-''"
  using assms int_to_string_ok
  by (auto simp: number_text_def float_writer_ok_def Let_def split: option.splits)

lemma of_char_byte: "(of_char c :: u8) = w \<longleftrightarrow> (of_char c :: nat) = unat w"
  using unat_of_char [of c] by (metis word_unat_eq_iff)

lemma number_char_not_stop: "number_char c \<Longrightarrow> (of_char c :: u8) \<notin> {44, 93, 125}"
  by (auto simp: number_char_def is_ascii_digit_def of_char_byte)

lemma number_text_start:
  assumes "float_writer_ok (format_finite C)" "number_text C n = Some s"
  shows "as_bytes s \<noteq> []" "number_start (hd (as_bytes s))"
  using number_text_ok [OF assms]
  by (auto simp: as_bytes_def list.map_sel number_start_def unat_of_char is_ascii_digit_def of_char_byte)

text \<open>Texts over number characters end at the first stop byte.\<close>

lemma number_text_ends:
  assumes "list_all number_char s" "list_all number_char t" "stop x" "stop y"
    and "as_bytes s @ x = as_bytes t @ y"
  shows "s = t \<and> x = y"
  using assms
proof (induction s arbitrary: t)
  case Nil
  then show ?case
    by (cases t) (auto simp: as_bytes_def stop_def dest: number_char_not_stop)
next
  case (Cons c s)
  show ?case
  proof (cases t)
    case Nil
    with Cons.prems show ?thesis by (auto simp: as_bytes_def stop_def dest: number_char_not_stop)
  next
    case (Cons d t')
    with Cons.prems have "(of_char c :: u8) = of_char d" "as_bytes s @ x = as_bytes t' @ y"
      by (auto simp: as_bytes_def)
    moreover from this(1) have "c = d" by (metis unat_of_char of_char_eq_iff)
    ultimately show ?thesis using Cons.IH [of t'] Cons.prems \<open>t = d # t'\<close> by simp
  qed
qed


lemma stop_tail: "c \<in> {93, 125} \<Longrightarrow> stop (concat (map (\<lambda>v. 44 # f v) vs) @ c # x)"
  by (cases vs) (auto simp: stop_def)

lemma commas_tail_unique:
  assumes "\<And>v w x y. v \<in> set vs \<Longrightarrow> w \<in> set ws \<Longrightarrow> stop x \<Longrightarrow> stop y \<Longrightarrow> f v @ x = g w @ y \<Longrightarrow> R v w \<and> x = y"
    and "c \<in> {93, 125}"
    and "concat (map (\<lambda>v. 44 # f v) vs) @ c # x = concat (map (\<lambda>w. 44 # g w) ws) @ c # y"
  shows "list_all2 R vs ws \<and> x = y"
  using assms
proof (induction vs arbitrary: ws)
  case Nil
  then show ?case by (cases ws) auto
next
  case (Cons v vs)
  show ?case
  proof (cases ws)
    case Nil
    then show ?thesis using Cons.prems by auto
  next
    case (Cons w ws')
    let ?x = "concat (map (\<lambda>v. 44 # f v) vs) @ c # x" and ?y = "concat (map (\<lambda>w. 44 # g w) ws') @ c # y"
    have "stop ?x" "stop ?y" using stop_tail Cons.prems(2) by metis+
    moreover have "f v @ ?x = g w @ ?y" using Cons.prems(3) Cons by simp
    ultimately have e: "R v w" "?x = ?y" using Cons.prems(1) [of v w ?x ?y] Cons by auto
    have "list_all2 R vs ws' \<and> x = y"
      by (rule Cons.IH [OF _ Cons.prems(2) e(2)]) (use Cons.prems(1) Cons in auto)
    with e(1) Cons show ?thesis by simp
  qed
qed

lemma commas_unique:
  assumes el: "\<And>v w x y. v \<in> set vs \<Longrightarrow> w \<in> set ws \<Longrightarrow> stop x \<Longrightarrow> stop y \<Longrightarrow> f v @ x = g w @ y \<Longrightarrow> R v w \<and> x = y"
    and f: "\<And>v. v \<in> set vs \<Longrightarrow> \<not> stop (f v)" and g: "\<And>w. w \<in> set ws \<Longrightarrow> \<not> stop (g w)"
    and c: "c \<in> {93, 125}"
    and e: "commas (map f vs) @ c # x = commas (map g ws) @ c # y"
  shows "list_all2 R vs ws \<and> x = y"
proof (cases vs)
  case Nil
  then have "commas (map g ws) @ c # y = c # x" using e by simp
  then show ?thesis using g [of "hd ws"] c Nil by (cases ws) (auto simp: stop_def append_eq_Cons_conv)
next
  case (Cons v vs')
  note v = this
  show ?thesis
  proof (cases ws)
    case Nil
    then have "commas (map f vs) @ c # x = c # y" using e by simp
    then show ?thesis using f [of v] c v by (auto simp: stop_def append_eq_Cons_conv)
  next
    case (Cons w ws')
    let ?x = "concat (map (\<lambda>v. 44 # f v) vs') @ c # x" and ?y = "concat (map (\<lambda>w. 44 # g w) ws') @ c # y"
    have "stop ?x" "stop ?y" using stop_tail c by metis+
    moreover have "f v @ ?x = g w @ ?y" using e v Cons by (simp add: comp_def)
    ultimately have e': "R v w" "?x = ?y" using el [of v w ?x ?y] v Cons by auto
    have "list_all2 R vs' ws' \<and> x = y"
      by (rule commas_tail_unique [OF _ c e'(2)]) (use el v Cons in auto)
    with e'(1) v Cons show ?thesis by simp
  qed
qed

text \<open>The first byte of an encoding tells the constructor.\<close>

fun kind :: "json \<Rightarrow> nat" where
  "kind JNull = 0" | "kind (JBool True) = 1" | "kind (JBool False) = 2" | "kind (JNumber _) = 3"
| "kind (JString _) = 4" | "kind (JArray _) = 5" | "kind (JObject _) = 6"

fun starts :: "nat \<Rightarrow> u8 \<Rightarrow> bool" where
  "starts k b =
     (if k = 0 then b = 110 else if k = 1 then b = 116 else if k = 2 then b = 102
      else if k = 3 then number_start b else if k = 4 then b = 34 else if k = 5 then b = 91 else k = 6 \<and> b = 123)"

lemma starts_inject: "starts k b \<Longrightarrow> starts k' b \<Longrightarrow> k = k'"
  by (auto simp: number_start_def split: if_splits)

lemma write_starts:
  assumes str: "string_writer_ok (json_to_writer C)" and flt: "float_writer_ok (format_finite C)"
    and w: "jcs_write_value C v l = Some b"
  shows "b \<noteq> []" "starts (kind v) (hd b)"
proof -
  have l: "0 \<le> l" using w jcs_write_neg [of l C v] by (cases "l < 0") auto
  have "b \<noteq> [] \<and> starts (kind v) (hd b)"
  proof (cases v rule: kind.cases)
    case (4 n)
    then show ?thesis using w l number_text_start [OF flt] by (auto simp: jcs_write_leaf)
  next
    case (5 s)
    then show ?thesis using w l str by (auto simp: jcs_write_leaf string_writer_ok_def)
  qed (use w l in \<open>auto simp: jcs_write_leaf jcs_write_array jcs_write_object as_bytes_def\<close>)
  then show "b \<noteq> []" "starts (kind v) (hd b)" by auto
qed


lemma starts_not_stop: "b \<noteq> [] \<Longrightarrow> starts k (hd b) \<Longrightarrow> \<not> stop b"
  by (auto simp: stop_def number_start_def split: if_splits)

declare starts.simps [simp del]

text \<open>Two objects whose entries agree in the order of the text agree as maps.\<close>

lemma sorted_entries_agree:
  assumes m: "sorted_wrt (<) (map fst m)" "sorted_wrt (<) (map fst m')"
    and all: "list_all2 (\<lambda>kv kw. fst kv = fst kw \<and> R (snd kv) (snd kw)) (sort_by_utf16 m) (sort_by_utf16 m')"
  shows "list_all2 (\<lambda>(k, v) (k', w). k = k' \<and> R v w) m m'"
proof -
  have "map fst (sort_by_utf16 m) = map fst (sort_by_utf16 m')"
    using all by (auto simp: list_all2_conv_all_nth intro: nth_equalityI)
  then have "set (map fst m) = set (map fst m')" by (metis set_map set_sort_by_utf16)
  with m have k: "map fst m = map fst m'"
    by (intro sorted_distinct_set_unique) (auto simp: strict_sorted_iff)
  then have len: "length m = length m'" by (metis length_map)
  have "fst (m ! i) = fst (m' ! i) \<and> R (snd (m ! i)) (snd (m' ! i))" if i: "i < length m" for i
  proof -
    have f: "fst (m ! i) = fst (m' ! i)" using k i len by (metis nth_map)
    have "m ! i \<in> set (sort_by_utf16 m)" using i by simp
    then obtain j where j: "j < length (sort_by_utf16 m)" "sort_by_utf16 m ! j = m ! i"
      by (metis in_set_conv_nth)
    then have a: "fst (m ! i) = fst (sort_by_utf16 m' ! j)" "R (snd (m ! i)) (snd (sort_by_utf16 m' ! j))"
      using all by (auto simp: list_all2_conv_all_nth)
    have "j < length (sort_by_utf16 m')" using j(1) all by (simp add: list_all2_conv_all_nth)
    then have "sort_by_utf16 m' ! j \<in> set m'" using nth_mem set_sort_by_utf16 by blast
    then have "sort_by_utf16 m' ! j = m' ! i"
      using a(1) f i len m(2) by (metis eq_key_imp_eq_value nth_mem prod.collapse strict_sorted_iff)
    with a f show ?thesis by simp
  qed
  then show ?thesis using len by (auto simp: list_all2_conv_all_nth case_prod_unfold)
qed

definition same_text :: "crates \<Rightarrow> number \<Rightarrow> number \<Rightarrow> bool" where
  "same_text C a b = (number_text C a = number_text C b)"

lemma same_kind:
  assumes "string_writer_ok (json_to_writer C)" "float_writer_ok (format_finite C)"
    and "jcs_write_value C v l = Some b" "jcs_write_value C w l' = Some b'" "b @ x = b' @ y"
  shows "kind w = kind v"
proof -
  note b = write_starts [OF assms(1,2,3)] and b' = write_starts [OF assms(1,2,4)]
  have "hd b = hd b'" using arg_cong [OF assms(5), of hd] b(1) b'(1) by simp
  then show ?thesis using starts_inject [OF b'(2)] b(2) by simp
qed

lemma jcs_write_limit: "jcs_write_value C v l = Some b \<Longrightarrow> 0 \<le> l"
  using jcs_write_neg [of l C v] by (cases "l < 0") auto

lemma jcs_write_unique:
  assumes str: "string_writer_ok (json_to_writer C)" and flt: "float_writer_ok (format_finite C)"
  shows "json_wf v \<Longrightarrow> json_wf w \<Longrightarrow> jcs_write_value C v l = Some b \<Longrightarrow> jcs_write_value C w l' = Some b' \<Longrightarrow>
    stop x \<Longrightarrow> stop y \<Longrightarrow> b @ x = b' @ y \<Longrightarrow> value_rel (same_text C) v w \<and> x = y"
proof (induction v arbitrary: w l l' b b' x y rule: json_induct)
  case (JArray a)
  have nostop: "\<not> stop (the (jcs_write_value C u n))" if "jcs_write_value C u n \<noteq> None" for u n
    using starts_not_stop [OF write_starts [OF str flt]] that by auto
  from same_kind [OF str flt JArray.prems(3,4,7)] obtain a' where w: "w = JArray a'" by (cases w rule: kind.cases) auto
  let ?f = "\<lambda>x. the (jcs_write_value C x (l - 1))" and ?g = "\<lambda>x. the (jcs_write_value C x (l' - 1))"
  have p: "\<forall>x \<in> set a. jcs_write_value C x (l - 1) \<noteq> None" "\<forall>x \<in> set a'. jcs_write_value C x (l' - 1) \<noteq> None"
    "commas (map ?f a) @ 93 # x = commas (map ?g a') @ 93 # y"
    using JArray.prems(3,4,7) by (auto simp: w jcs_write_array)
  have "list_all2 (value_rel (same_text C)) a a' \<and> x = y"
  proof (rule commas_unique [OF _ _ _ _ p(3)])
    fix v w x y assume "v \<in> set a" "w \<in> set a'" "stop x" "stop y" "?f v @ x = ?g w @ y"
    then show "value_rel (same_text C) v w \<and> x = y"
      using JArray.IH [of v w "l - 1" "?f v" "l' - 1" "?g w" x y] p(1,2) JArray.prems(1,2)
      by (auto simp: w list_all_iff)
  qed (use p nostop in auto)
  then show ?case by (simp add: w value_rel_array del: value_rel.simps)
next
  case (JObject m)
  from same_kind [OF str flt JObject.prems(3,4,7)] obtain m' where w: "w = JObject m'" by (cases w rule: kind.cases) auto
  let ?f = "member_bytes C (l - 1)" and ?g = "member_bytes C (l' - 1)"
  have p: "\<forall>kv \<in> set m. jcs_write_value C (snd kv) (l - 1) \<noteq> None"
    "\<forall>kv \<in> set m'. jcs_write_value C (snd kv) (l' - 1) \<noteq> None"
    "commas (map ?f (sort_by_utf16 m)) @ 125 # x = commas (map ?g (sort_by_utf16 m')) @ 125 # y"
    using JObject.prems(3,4,7) by (auto simp: w jcs_write_object)
  let ?R = "\<lambda>kv kw. fst kv = fst kw \<and> value_rel (same_text C) (snd kv) (snd kw)"
  have nostop: "\<not> stop (member_bytes C n kv)" for n kv
    using str by (auto simp: member_bytes_def stop_def string_writer_ok_def)
  have "list_all2 ?R (sort_by_utf16 m) (sort_by_utf16 m') \<and> x = y"
  proof (rule commas_unique [OF _ _ _ _ p(3)])
    fix kv kw x y
    assume a: "kv \<in> set (sort_by_utf16 m)" "kw \<in> set (sort_by_utf16 m')" "stop x" "stop y" "?f kv @ x = ?g kw @ y"
    then have "fst kv = fst kw" "the (jcs_write_value C (snd kv) (l - 1)) @ x = the (jcs_write_value C (snd kw) (l' - 1)) @ y"
      using str by (force simp: member_bytes_def string_writer_ok_def)+
    moreover have "(fst kv, snd kv) \<in> set m" "json_wf (snd kv)" "json_wf (snd kw)"
      using a(1,2) JObject.prems(1,2) by (auto simp: w list_all_iff case_prod_unfold)
    moreover have "jcs_write_value C (snd kv) (l - 1) = Some (the (jcs_write_value C (snd kv) (l - 1)))"
      "jcs_write_value C (snd kw) (l' - 1) = Some (the (jcs_write_value C (snd kw) (l' - 1)))"
      using a(1,2) p(1,2) by (auto simp del: split_paired_All)
    ultimately show "?R kv kw \<and> x = y" using JObject.IH a(3,4) by blast
  qed (use nostop in auto)
  then show ?case using sorted_entries_agree [of m m'] JObject.prems(1,2)
    by (simp add: w value_rel_object del: value_rel.simps)
next
  case (JNumber n)
  from same_kind [OF str flt JNumber.prems(3,4,7)] obtain n' where w: "w = JNumber n'"
    by (cases w rule: kind.cases) auto
  obtain s s' where t: "number_text C n = Some s" "number_text C n' = Some s'" "b = as_bytes s" "b' = as_bytes s'"
    using JNumber.prems(3,4) jcs_write_limit by (auto simp: w jcs_write_leaf leaf_eqs split: if_splits)
  have "s = s' \<and> x = y"
    using number_text_ends [OF number_text_ok(2) [OF flt t(1)] number_text_ok(2) [OF flt t(2)] JNumber.prems(5,6)]
      JNumber.prems(7) t(3,4) by simp
  with t w show ?case by (simp add: same_text_def)
next
  case JNull
  from same_kind [OF str flt JNull.prems(3,4,7)] have "w = JNull" by (cases w rule: kind.cases) auto
  with JNull show ?case by (auto simp: leaf_eqs split: if_splits)
next
  case (JBool t)
  from same_kind [OF str flt JBool.prems(3,4,7)] have "w = JBool t" by (cases w rule: kind.cases; cases t) auto
  with JBool show ?case by (auto simp: leaf_eqs split: if_splits)
next
  case (JString s)
  from same_kind [OF str flt JString.prems(3,4,7)] obtain s' where w: "w = JString s'"
    by (cases w rule: kind.cases) auto
  have "json_to_writer C s @ x = json_to_writer C s' @ y"
    using JString.prems(3,4,7) by (auto simp: w leaf_eqs split: if_splits)
  then show ?case using str by (simp add: w string_writer_ok_def)
qed


section \<open>Properties\<close>

text \<open>
  Canonicalisation succeeds exactly on the values that \<open>numbers_within_profile\<close> admits, which are
  those nested at most 64 deep all of whose integers are safe and whose binary64 numbers are finite: the
  resource check that runs before any cryptographic work and the emitter agree on every value.
\<close>

theorem canonical_checked_defined:
  "(canonical_checked C v \<noteq> None) = numbers_within_profile C v \<and>
   numbers_within_profile C v = (\<not> depth_exceeds v 64 \<and>
     list_all (\<lambda>n. case n of PosInt w \<Rightarrow> unat w < 2 ^ 53 | NegInt i \<Rightarrow> \<bar>i\<bar> < 2 ^ 53 | Float f \<Rightarrow> is_finite f) (numbers v))"
proof -
  have "(number_text C n \<noteq> None) =
      (case n of PosInt w \<Rightarrow> unat w < 2 ^ 53 | NegInt i \<Rightarrow> \<bar>i\<bar> < 2 ^ 53 | Float f \<Rightarrow> is_finite f)" for n
  proof (cases n)
    case (PosInt w)
    obtain k where "uint w = int k" "unat w = k" by (rule that [of "unat w"]) simp_all
    then show ?thesis using PosInt
      by (auto simp: number_text_def number_as_i64_def number_as_u64_def MAX_SAFE_INTEGER_def split: option.splits)
  qed (auto simp: number_text_def number_as_i64_def number_as_u64_def number_as_f64_def MAX_SAFE_INTEGER_def
      Let_def)
  then show ?thesis
    using jcs_write_defined [of C v JCS_MAX_DEPTH]
    by (simp add: canonical_checked_def numbers_within_profile_def numbers_match_iff list_all_iff JCS_MAX_DEPTH_def)
qed



text \<open>Canonicalisation uses the two writers only.\<close>

lemma canonical_checked_writers:
  assumes "json_to_writer C = json_to_writer C'" "format_finite C = format_finite C'"
  shows "canonical_checked C v = canonical_checked C' v"
proof -
  have n: "number_text C n = number_text C' n" for n unfolding number_text_def assms(2) ..
  have "jcs_write_value C v l = jcs_write_value C' v l" for l
  proof (induction v arbitrary: l rule: json_induct)
    case (JArray a)
    have "collect_opt (\<lambda>e. jcs_write_value C e (l - 1)) a = collect_opt (\<lambda>e. jcs_write_value C' e (l - 1)) a"
      by (rule collect_opt_cong) (use JArray in auto)
    then show ?case by (simp add: jcs_write_value.simps [of _ "JArray a"])
  next
    case (JObject m)
    have "collect_opt (\<lambda>(k, e). map_option (\<lambda>b. json_to_writer C k @ [58] @ b) (jcs_write_value C e (l - 1))) (sort_by_utf16 m)
        = collect_opt (\<lambda>(k, e). map_option (\<lambda>b. json_to_writer C' k @ [58] @ b) (jcs_write_value C' e (l - 1))) (sort_by_utf16 m)"
      by (rule collect_opt_cong) (use JObject in \<open>auto simp: assms(1)\<close>)
    then show ?case by (simp add: jcs_write_value.simps [of _ "JObject m"])
  qed (simp_all add: leaf_eqs n assms(1))
  then show ?thesis by (simp add: canonical_checked_def)
qed

text \<open>The crates of the witnesses, able to read back the given documents.\<close>

definition toy_crates :: "json list \<Rightarrow> crates" where
  "toy_crates docs = toy_base\<lparr>json_from_slice := \<lambda>b. find (\<lambda>v. canonical_checked toy_base v = Some b) docs\<rparr>"

lemma toy_canonical [simp]: "canonical_checked (toy_crates docs) v = canonical_checked toy_base v"
  by (rule canonical_checked_writers) (simp_all add: toy_crates_def)

lemma toy_writers [crate_laws]:
  "string_writer_ok (json_to_writer (toy_crates docs))" "float_writer_ok (format_finite (toy_crates docs))"
proof -
  show "string_writer_ok (json_to_writer (toy_crates docs))"
    using quoted_prefix_free by (auto simp: string_writer_ok_def toy_crates_def toy_base_def) (simp_all add: quoted_def)
  show "float_writer_ok (format_finite (toy_crates docs))"
    by (simp add: float_writer_ok_def toy_crates_def toy_base_def number_char_def is_ascii_digit_def)
qed


end
