(* ===== verification/Cbor.thy ===== *)
theory Cbor
  imports Jcs
begin

text \<open>
  \<open>verify-rs/src/cbor.rs\<close>: the certificate profile of the shared emitter, and the decoder that
  accepts exactly the bytes the emitter would produce. \<open>ciborium\<close>'s reader is a parameter: it
  materialises a value, and the re-encoding comparison decides.
\<close>

section \<open>The code\<close>

definition MAX_DEPTH :: int where
  "MAX_DEPTH = 64"

definition MAX_BYTES :: nat where
  "MAX_BYTES = 16 * 1024 * 1024"

definition MAX_ITEMS :: nat where
  "MAX_ITEMS = 100000"

definition CERT_PROFILE :: profile where
  "CERT_PROFILE = \<lparr>int_keys = False, bools = True\<rparr>"

definition canonical_cbor :: "cbor \<Rightarrow> bytes option" where
  "canonical_cbor v = canonical_bytes v MAX_DEPTH CERT_PROFILE"

definition decode_cbor :: "crates \<Rightarrow> bytes \<Rightarrow> nat \<Rightarrow> nat \<Rightarrow> cbor option" where
  "decode_cbor C data max_depth max_bytes =
     (if length data > max_bytes then None
      else (case structural_scan data max_depth MAX_ITEMS of
        None \<Rightarrow> None
      | Some n \<Rightarrow>
          if n \<noteq> length data then None
          else (case cbor_from_reader C data of
            None \<Rightarrow> None
          | Some value \<Rightarrow>
              (case canonical_cbor value of None \<Rightarrow> None | Some b \<Rightarrow> then_some (b = data) value))))"

section \<open>The contract of a canonical encoding\<close>

text \<open>
  What the verifier relies on wherever it compares a re-encoding with the bytes it was given: the
  encoding is injective up to \<open>norm\<close> and no encoding is a proper prefix of another.
\<close>

locale canonical_codec =
  fixes enc :: "'v \<Rightarrow> bytes option" and norm :: "'v \<Rightarrow> 'v"
  assumes enc_unique:
    "enc v = Some b \<Longrightarrow> length b < 2 ^ 64 \<Longrightarrow> enc w = Some c \<Longrightarrow> length c < 2 ^ 64 \<Longrightarrow> b @ x = c @ y \<Longrightarrow>
       norm v = norm w \<and> b = c \<and> x = y"
begin

lemma readers_agree:
  "enc v = Some data \<Longrightarrow> enc w = Some data \<Longrightarrow> length data < 2 ^ 64 \<Longrightarrow> norm v = norm w"
  using enc_unique [of v data w data "[]" "[]"] by simp

lemma prefix_free:
  "enc v = Some b \<Longrightarrow> length b < 2 ^ 64 \<Longrightarrow> enc w = Some (b @ x) \<Longrightarrow> length (b @ x) < 2 ^ 64 \<Longrightarrow> x = []"
  using enc_unique [of v b w "b @ x" x "[]"] by simp

lemma sequences_agree:
  assumes "collect_opt enc vs = Some bs" "collect_opt enc ws = Some cs"
    and "\<forall>b \<in> set bs \<union> set cs. length b < 2 ^ 64" "length vs = length ws"
    and "concat bs @ x = concat cs @ y"
  shows "map norm vs = map norm ws \<and> x = y"
  using assms
proof (induction vs arbitrary: bs ws cs)
  case Nil
  then show ?case by simp
next
  case (Cons v vs)
  obtain w ws' where ws: "ws = w # ws'" using Cons.prems(4) by (cases ws) auto
  obtain b bs' where b: "enc v = Some b" "collect_opt enc vs = Some bs'" "bs = b # bs'"
    using Cons.prems(1) by (auto split: option.splits)
  obtain c cs' where c: "enc w = Some c" "collect_opt enc ws' = Some cs'" "cs = c # cs'"
    using Cons.prems(2) ws by (auto split: option.splits)
  have u: "norm v = norm w" "concat bs' @ x = concat cs' @ y"
    using enc_unique [OF b(1) _ c(1), of "concat bs' @ x" "concat cs' @ y"] Cons.prems(3,5) b(3) c(3) by auto
  have "map norm vs = map norm ws' \<and> x = y"
    by (rule Cons.IH [OF b(2) c(2) _ _ u(2)]) (use Cons.prems ws b(3) c(3) in auto)
  with u(1) ws show ?case by simp
qed

end

interpretation cert: canonical_codec canonical_cbor "normal CERT_PROFILE"
  by unfold_locales (auto simp: canonical_cbor_def canonical_bytes_def dest: write_value_unique)

section \<open>The decoder\<close>

lemma decode_cbor_iff:
  "decode_cbor C data max_depth max_bytes = Some v \<longleftrightarrow>
     length data \<le> max_bytes \<and> structural_scan data max_depth MAX_ITEMS = Some (length data) \<and>
     cbor_from_reader C data = Some v \<and> canonical_cbor v = Some data"
  by (auto simp: decode_cbor_def split: option.splits)

lemma seq_mono: "item_seq data d n i j c \<Longrightarrow> d \<le> d' \<Longrightarrow> item_seq data d' n i j c"
proof (induction arbitrary: d' rule: item_seq.induct)
  case (seq_container i major arg k count d k' c n j c')
  then obtain e where "d' = Suc e" "d \<le> e" by (cases d') auto
  with seq_container show ?case using item_seq.seq_container [of data i major arg k count e k' c n j c'] by simp
qed (auto intro: item_seq.intros)

lemma seq_heads: "item_seq data d n i j c \<Longrightarrow> i + c \<le> j"
proof (induction rule: item_seq.induct)
  case (seq_leaf i major arg k d n j c)
  then show ?case using read_head_bounds [OF seq_leaf.hyps(1)] by auto
next
  case (seq_string i major arg k d n j c)
  then show ?case using read_head_bounds [OF seq_string.hyps(1)] by auto
next
  case (seq_container i major arg k count d k' c n j c')
  then show ?case using read_head_bounds [OF seq_container.hyps(1)] by auto
qed auto

lemma structural_scan_seq:
  "structural_scan data d mi = Some j \<longleftrightarrow> (\<exists>c. item_seq data d 1 0 j c \<and> c \<le> mi)"
  using scan_loop_pending [of "[]" d data mi 0 0 j] by (simp add: structural_scan_def pending_def)

lemma scan_item_cap_free:
  assumes "length data \<le> mi"
  shows "structural_scan data d mi = Some j \<longleftrightarrow> (\<exists>c. item_seq data d 1 0 j c)"
proof -
  have "c \<le> mi" if "item_seq data d 1 0 j c" for c
    using seq_heads [OF that] seq_end [OF that] assms by simp
  then show ?thesis by (auto simp: structural_scan_seq)
qed

lemma scan_item_caps_agree:
  "length data \<le> mi \<Longrightarrow> length data \<le> mi' \<Longrightarrow> structural_scan data d mi = structural_scan data d mi'"
  using scan_item_cap_free [of data mi d] scan_item_cap_free [of data mi' d] by (metis option.exhaust)

lemma sort_key_sorted: "sorted (map f xs) \<Longrightarrow> sort_key f xs = xs"
  by (induction xs) (auto simp: insort_is_Cons)

lemma write_value_normal: "write_value p l (normal p v) = write_value p l v"
proof (induction p l v rule: write_value.induct)
  case (1 p l v)
  show ?case
  proof (cases "l < 0")
    case False
    show ?thesis
    proof (cases v)
      case (CArray a)
      have "write_value p l (CArray (map (normal p) a)) = Some b \<longleftrightarrow> write_value p l (CArray a) = Some b" for b
        using "1.IH"(1) [OF False CArray] by (simp add: write_value_CArray comp_def cong: map_cong)
      then show ?thesis using CArray by (metis normal.simps(1) not_Some_eq)
    next
      case (CMap m)
      let ?h = "\<lambda>(k, v). (k, normal p v)"
      have h: "key_bytes p (?h kv) = key_bytes p kv" "fst (?h kv) = fst kv" for kv
        by (simp_all add: key_bytes_def case_prod_unfold)
      have w: "write_value p (l - 1) (snd (?h kv)) = write_value p (l - 1) (snd kv)" if "kv \<in> set m" for kv
        using "1.IH"(2) [OF False CMap that, of "fst kv" "snd kv"] by (simp add: case_prod_unfold)
      let ?s = "sort_key (key_bytes p) m"
      have s: "sort_key (key_bytes p) (map ?h ?s) = map ?h ?s"
        by (rule sort_key_sorted) (simp add: comp_def h cong: map_cong)
      have "map (pair_bytes p (l - 1)) (map ?h ?s) = map (pair_bytes p (l - 1)) ?s"
        by (simp add: comp_def pair_bytes_def h w)
      moreover have "distinct (map (key_bytes p) (map ?h ?s)) = distinct (map (key_bytes p) m)"
        by (simp add: comp_def h distinct_map cong: map_cong)
      ultimately have "write_value p l (CMap (map ?h ?s)) = Some b \<longleftrightarrow> write_value p l (CMap m) = Some b" for b
        using w h by (simp add: write_value_CMap s del: map_map map_eq_conv)
      then show ?thesis using CMap by (metis normal_CMap not_Some_eq)
    qed simp_all
  qed (simp add: write_value_neg)
qed


section \<open>Properties\<close>

text \<open>
  decoding depends on the bytes alone. Whatever the two readers materialise, if both decoders
  accept the same bytes then the values agree up to the order in which maps list their entries: a
  reader cannot make the verifier see another value behind accepted bytes.
\<close>

theorem decode_cbor_reader_independent:
  assumes "decode_cbor C data d m = Some v" "decode_cbor C' data d' m' = Some w" "length data < 2 ^ 64"
  shows "normal CERT_PROFILE v = normal CERT_PROFILE w"
  using assms cert.readers_agree by (auto simp: decode_cbor_iff)

text \<open>
  every value of the certificate model round-trips. A canonical encoding within the byte cap and
  the item cap decodes to its value, with maps in canonical order, under every depth cap of at least 64,
  provided the reader returns the entries in the order of the bytes.
\<close>

theorem decode_cbor_canonical:
  assumes "canonical_cbor v = Some b" "length b \<le> max_bytes" "length b < 2 ^ 64"
    and "heads v \<le> MAX_ITEMS" "64 \<le> max_depth"
    and "cbor_from_reader C b = Some (normal CERT_PROFILE v)"
  shows "decode_cbor C b max_depth max_bytes = Some (normal CERT_PROFILE v)"
proof -
  have w: "write_value CERT_PROFILE 64 v = Some b"
    using assms(1) by (simp add: canonical_cbor_def canonical_bytes_def MAX_DEPTH_def)
  have "item_seq b max_depth 1 0 (length b) (heads v)"
    using seq_mono [OF seq_write_value [OF w assms(3), of "[]" "[]"]] assms(5) by simp
  then have "structural_scan b max_depth MAX_ITEMS = Some (length b)"
    using assms(4) by (auto simp: structural_scan_seq)
  moreover have "canonical_cbor (normal CERT_PROFILE v) = Some b"
    using assms(1) by (simp add: canonical_cbor_def canonical_bytes_def write_value_normal)
  ultimately show ?thesis using assms(2,6) by (simp add: decode_cbor_iff)
qed

definition toy_value :: cbor where
  "toy_value = CMap [(CText ''b'', CBool True), (CText ''a'', CArray [CInteger (-1), CNull])]"

definition toy_value_bytes :: bytes where
  "toy_value_bytes = [0xa2, 0x61, 0x61, 0x82, 0x20, 0xf6, 0x61, 0x62, 0xf5]"

lemma toy_value_canonical: "canonical_cbor toy_value = Some toy_value_bytes"
  by code_simp

lemma toy_value_scan: "structural_scan toy_value_bytes 2 9 = Some 9"
  by code_simp

theorem decode_cbor_canonical_witness:
  "decode_cbor (toy_base\<lparr>cbor_from_reader := \<lambda>_. Some (normal CERT_PROFILE toy_value)\<rparr>) toy_value_bytes 64 100
     = Some (normal CERT_PROFILE toy_value)"
  by (rule decode_cbor_canonical [OF toy_value_canonical])
     (simp_all add: toy_value_bytes_def toy_value_def MAX_ITEMS_def)

theorem decode_cbor_reader_independent_witness:
  "normal CERT_PROFILE toy_value = normal CERT_PROFILE (normal CERT_PROFILE toy_value)"
proof -
  have d: "decode_cbor (toy_base\<lparr>cbor_from_reader := \<lambda>_. Some toy_value\<rparr>) toy_value_bytes 2 100 = Some toy_value"
    "decode_cbor (toy_base\<lparr>cbor_from_reader := \<lambda>_. Some (normal CERT_PROFILE toy_value)\<rparr>) toy_value_bytes 2 90
       = Some (normal CERT_PROFILE toy_value)"
    using toy_value_scan scan_item_caps_agree [of toy_value_bytes MAX_ITEMS 9 2] toy_value_canonical
    by (simp_all add: decode_cbor_iff canonical_cbor_def canonical_bytes_def write_value_normal
        MAX_ITEMS_def toy_value_bytes_def)
  show ?thesis
    by (rule decode_cbor_reader_independent [OF d]) (simp add: toy_value_bytes_def)
qed

text \<open>
  the aggregate item cap never binds on inputs of at most \<open>MAX_ITEMS\<close> bytes, because every item
  costs at least one byte: with such a cap the scan accepts the same inputs as with no cap at all.
\<close>

theorem structural_scan_item_cap:
  assumes "length data \<le> MAX_ITEMS"
  shows "structural_scan data max_depth MAX_ITEMS = Some j \<longleftrightarrow> (\<exists>max_items. structural_scan data max_depth max_items = Some j)"
  using scan_item_cap_free [OF assms] by (auto simp: structural_scan_seq)

theorem structural_scan_item_cap_witness:
  "structural_scan toy_value_bytes 2 MAX_ITEMS = Some 9"
proof -
  have "length toy_value_bytes \<le> MAX_ITEMS" by (simp add: toy_value_bytes_def MAX_ITEMS_def)
  then show ?thesis using structural_scan_item_cap toy_value_scan by blast
qed

end
