(* ===== verification/Keys.thy ===== *)
theory Keys
  imports Cbor
begin

text \<open>
  Keys, signatures and the byte-level encodings around them, from \<open>lib.rs\<close> and \<open>scitt.rs\<close>: the DSSE
  pre-authentication encoding, JWK parsing with its key-id binding, the Ed25519 entry point, and
  the one hex codec of the verifier. Fixed-width arrays are byte lists whose length the code checks.
\<close>

section \<open>The code\<close>

definition is_ascii_alphanumeric :: "char \<Rightarrow> bool" where
  "is_ascii_alphanumeric c =
     (let b = (of_char c :: int) in 48 \<le> b \<and> b \<le> 57 \<or> 65 \<le> b \<and> b \<le> 90 \<or> 97 \<le> b \<and> b \<le> 122)"

definition sha256 :: "crates \<Rightarrow> bytes \<Rightarrow> bytes" where
  "sha256 C data = Sha256 C data"

definition pae :: "string \<Rightarrow> bytes \<Rightarrow> bytes" where
  "pae payload_type payload =
     as_bytes ''DSSEv1 '' @ as_bytes (nat_to_string (length payload_type)) @ [32] @ as_bytes payload_type @ [32]
     @ as_bytes (nat_to_string (length payload)) @ [32] @ payload"

definition b64url_decode :: "crates \<Rightarrow> string \<Rightarrow> bytes option" where
  "b64url_decode C s =
     (if s = [] \<or> length s mod 4 = 1 \<or> \<not> list_all (\<lambda>c. is_ascii_alphanumeric c \<or> c = CHR ''-'' \<or> c = CHR ''_'') s
      then None else URL_SAFE_NO_PAD_decode C s)"

definition jwk_raw_key :: "crates \<Rightarrow> json \<Rightarrow> bytes option" where
  "jwk_raw_key C jwk =
     (case (get_str jwk ''kty'', get_str jwk ''crv'') of
        (Some kty, Some crv) \<Rightarrow>
          if kty \<noteq> ''OKP'' \<or> crv \<noteq> ''Ed25519'' then None
          else (case get_str jwk ''x'' of
                  None \<Rightarrow> None
                | Some x \<Rightarrow>
                    (case b64url_decode C x of
                       None \<Rightarrow> None
                     | Some raw \<Rightarrow> if length raw \<noteq> 32 then None else Some raw))
      | _ \<Rightarrow> None)"

definition key_from_jwk :: "crates \<Rightarrow> json \<Rightarrow> (bytes \<times> string) option" where
  "key_from_jwk C jwk =
     (case jwk_raw_key C jwk of
        None \<Rightarrow> None
      | Some k \<Rightarrow>
          (let full = URL_SAFE_NO_PAD_encode C (sha256 C k); kid = take 16 full in
           case get jwk ''kid'' of
             None \<Rightarrow> Some (k, kid)
           | Some JNull \<Rightarrow> Some (k, kid)
           | Some (JString claimed) \<Rightarrow> if claimed = kid then Some (k, kid) else None
           | Some _ \<Rightarrow> None))"

definition ed25519_verify :: "crates \<Rightarrow> bytes \<Rightarrow> bytes \<Rightarrow> bytes \<Rightarrow> bool" where
  "ed25519_verify C pubkey msg sig =
     (if \<not> vk_from_bytes C pubkey then False
      else if length sig \<noteq> 64 then False
      else vk_verify C pubkey msg sig)"

definition hex_digit :: "nat \<Rightarrow> char" where
  "hex_digit n = char_of (if n < 10 then 48 + n else 87 + n)"

definition hex :: "bytes \<Rightarrow> string" where
  "hex b = concat (map (\<lambda>x. [hex_digit (unat x div 16), hex_digit (unat x mod 16)]) b)"

definition hex_nibble :: "char \<Rightarrow> u8 option" where
  "hex_nibble c =
     (let b = of_char c in
      if 48 \<le> b \<and> b \<le> 57 then Some (b - 48)
      else if 97 \<le> b \<and> b \<le> 102 then Some (b - 97 + 10)
      else if 65 \<le> b \<and> b \<le> 70 then Some (b - 65 + 10)
      else None)"

fun hex_loop :: "string \<Rightarrow> bytes option" where
  "hex_loop (a # b # s) =
     (case hex_nibble a of None \<Rightarrow> None
      | Some hi \<Rightarrow>
          (case hex_nibble b of None \<Rightarrow> None
           | Some lo \<Rightarrow> map_option (Cons (push_bit 4 hi OR lo)) (hex_loop s)))"
| "hex_loop _ = Some []"

definition hex_to_bytes :: "string \<Rightarrow> bytes option" where
  "hex_to_bytes s = (if odd (length s) then None else hex_loop s)"

definition proof_hashes :: "json option \<Rightarrow> bytes list option" where
  "proof_hashes v =
     (case v of
        None \<Rightarrow> Some []
      | Some JNull \<Rightarrow> Some []
      | Some (JArray items) \<Rightarrow>
          collect_opt (\<lambda>x. ofilter (\<lambda>b. length b = 32) (Option.bind (as_str x) hex_to_bytes)) items
      | Some _ \<Rightarrow> None)"

section \<open>The pre-authentication encoding\<close>

lemma as_bytes_append [simp]: "as_bytes (s @ t) = as_bytes s @ as_bytes t"
  by (simp add: as_bytes_def)

lemma as_bytes_inject [simp]: "as_bytes s = as_bytes t \<longleftrightarrow> s = t"
  by (metis of_bytes_as_bytes)

lemma decimal_field_unique:
  assumes "as_bytes (nat_to_string n) @ 32 # x = as_bytes (nat_to_string m) @ 32 # y"
  shows "n = m \<and> x = y"
proof -
  have d: "(32 :: u8) \<notin> set (as_bytes (nat_to_string k))" for k
    using nat_to_string_digits [of k]
    by (auto simp: as_bytes_def list_all_iff is_ascii_digit_def of_char_byte eq_commute [of 32])
  from split_at_separator [OF d d, of n x m y] assms
  have "as_bytes (nat_to_string n) = as_bytes (nat_to_string m) \<and> x = y" by simp
  then have "nat_to_string n = nat_to_string m" "x = y" by auto
  then show ?thesis by (metis digits_value_to_string)
qed

lemma pae_inject: "pae t p = pae t' p' \<longleftrightarrow> t = t' \<and> p = p'"
proof
  assume e: "pae t p = pae t' p'"
  then have "length t = length t' \<and>
      as_bytes t @ 32 # as_bytes (nat_to_string (length p)) @ 32 # p
        = as_bytes t' @ 32 # as_bytes (nat_to_string (length p')) @ 32 # p'"
    using decimal_field_unique [of "length t" _ "length t'"] by (simp add: pae_def)
  then have "t = t'" and "as_bytes (nat_to_string (length p)) @ 32 # p = as_bytes (nat_to_string (length p')) @ 32 # p'"
    by auto
  then show "t = t' \<and> p = p'" using decimal_field_unique [of "length p" p "length p'" p'] by simp
qed simp


section \<open>Hex\<close>

lemma hex_nibble_digit: "n < 16 \<Longrightarrow> hex_nibble (hex_digit n) = Some (of_nat n)"
proof -
  have "list_all (\<lambda>n. hex_nibble (hex_digit n) = Some (of_nat n)) [0..<16]" by code_simp
  then show "n < 16 \<Longrightarrow> hex_nibble (hex_digit n) = Some (of_nat n)" by (simp add: list_all_iff)
qed

lemma nibbles_join: "push_bit 4 (of_nat (unat x div 16)) OR of_nat (unat x mod 16) = (x :: u8)"
proof -
  have "of_nat (unat x div 16) = drop_bit 4 x"
    using unat_less_exp [of x] by (simp add: word_unat_eq_iff unat_of_nat unat_drop_bit_eq drop_bit_eq_div unat_div)
  moreover have "of_nat (unat x mod 16) = take_bit 4 x"
    by (simp add: word_unat_eq_iff unat_of_nat unsigned_take_bit_eq take_bit_eq_mod unat_mod)
  ultimately show ?thesis
    by simp (rule bit_word_eqI, auto simp: bit_simps)
qed

lemma hex_to_bytes_hex [simp]: "hex_to_bytes (hex b) = Some b"
proof -
  have e: "even (length (hex b))" by (induction b) (auto simp: hex_def)
  have "hex_loop (hex b) = Some b"
    by (induction b) (simp_all add: hex_def hex_nibble_digit nibbles_join [simplified] unat_less_exp [where 'a = 8, simplified]
        less_mult_imp_div_less [of _ 16 16, simplified])
  with e show ?thesis by (simp add: hex_to_bytes_def)
qed

lemma hex_inject: "hex a = hex b \<longleftrightarrow> a = b"
  by (metis hex_to_bytes_hex option.inject)

lemma length_hex [simp]: "length (hex b) = 2 * length b"
  by (induction b) (auto simp: hex_def)


section \<open>Properties\<close>

text \<open>
  The pre-authentication encoding is injective in both arguments, so a signature over it covers
  exactly one payload type and one payload: the length prefixes leave no way to move bytes across
  the fields.
\<close>

theorem pae_injective: "pae t p = pae t' p' \<longleftrightarrow> t = t' \<and> p = p'"
  by (rule pae_inject)

text \<open>
  a key read from a JWK has 32 bytes and a key id that the key alone determines: any two JWKs with
  the same key material have the same key id, whatever \<open>kid\<close> they claim, and a claimed key id that is
  not that of the material, or not a string, is refused.
\<close>

theorem key_from_jwk_binds:
  assumes "key_from_jwk C jwk = Some (k, kid)"
  shows "length k = 32 \<and> kid = take 16 (URL_SAFE_NO_PAD_encode C (Sha256 C k)) \<and>
    (\<forall>claim. get jwk ''kid'' = Some claim \<longrightarrow> claim = JNull \<or> claim = JString kid)"
  using assms
  by (auto simp: key_from_jwk_def jwk_raw_key_def sha256_def Let_def split: option.splits if_splits json.splits)

definition toy_jwk :: json where
  "toy_jwk = JObject [(''crv'', JString ''Ed25519''), (''kty'', JString ''OKP''), (''x'', JString (replicate 32 CHR ''a''))]"

lemma toy_jwk_key: "key_from_jwk toy_base toy_jwk = Some (replicate 32 0x61, replicate 16 CHR 0x20)"
  by code_simp

theorem key_from_jwk_binds_witness:
  "length (replicate 32 (0x61 :: u8)) = 32 \<and>
   replicate 16 CHR 0x20 = take 16 (URL_SAFE_NO_PAD_encode toy_base (Sha256 toy_base (replicate 32 0x61))) \<and>
   get toy_jwk ''kid'' = None"
  using key_from_jwk_binds [OF toy_jwk_key] by (simp add: toy_jwk_def get_def)

end
