(* ===== verification/Time.thy ===== *)
theory Time
  imports Keys
begin

text \<open>
  Canonical UTC timestamps: \<open>decimal\<close>, \<open>canonical_utc\<close> and \<open>utc_epoch_micros\<close> of \<open>lib.rs\<close>, and the
  string normaliser \<open>nts\<close> of \<open>action.rs\<close>. A \<open>u32\<close> accumulator that holds at most six decimal digits is
  a \<open>nat\<close>; the \<open>i64\<close> arithmetic of the epoch is on \<open>int\<close>, and its bounds are proved below.
\<close>

section \<open>The code\<close>

fun decimal_fold :: "nat \<Rightarrow> string \<Rightarrow> nat option" where
  "decimal_fold n [] = Some n"
| "decimal_fold n (c # s) =
     (if is_ascii_digit c then decimal_fold (n * 10 + (of_char c - 48)) s else None)"

definition decimal :: "string \<Rightarrow> nat option" where
  "decimal s = decimal_fold 0 s"

text \<open>\<open>b[a..z]\<close>\<close>

definition byte_range :: "nat \<Rightarrow> nat \<Rightarrow> 'a list \<Rightarrow> 'a list" where
  "byte_range a z s = take (z - a) (drop a s)"

definition leap_year :: "nat \<Rightarrow> bool" where
  "leap_year y = (y mod 4 = 0 \<and> (y mod 100 \<noteq> 0 \<or> y mod 400 = 0))"

definition month_days :: "nat \<Rightarrow> nat list" where
  "month_days y = [0, 31, 28 + of_bool (leap_year y), 31, 30, 31, 30, 31, 31, 30, 31, 30, 31]"

definition canonical_utc :: "string \<Rightarrow> bool" where
  "canonical_utc b =
     (if \<not> (length b = 20 \<or> 22 \<le> length b \<and> length b \<le> 27)
         \<or> b ! 4 \<noteq> CHR ''-'' \<or> b ! 7 \<noteq> CHR ''-'' \<or> b ! 10 \<noteq> CHR ''T'' \<or> b ! 13 \<noteq> CHR '':'' \<or> b ! 16 \<noteq> CHR '':''
         \<or> last b \<noteq> CHR ''Z''
         \<or> length b > 20 \<and> (b ! 19 \<noteq> CHR ''.'' \<or> decimal (byte_range 20 (length b - 1) b) = None)
      then False
      else
        (case (decimal (byte_range 0 4 b), decimal (byte_range 5 7 b), decimal (byte_range 8 10 b),
               decimal (byte_range 11 13 b), decimal (byte_range 14 16 b), decimal (byte_range 17 19 b)) of
           (Some y, Some m, Some d, Some h, Some n, Some sec) \<Rightarrow>
             y > 0 \<and> 1 \<le> m \<and> m \<le> 12 \<and> d > 0 \<and> d \<le> month_days y ! m \<and> h < 24 \<and> n < 60 \<and> sec < 60
         | _ \<Rightarrow> False))"

text \<open>\<open>str::parse::<i64>\<close>\<close>

definition parse_i64 :: "string \<Rightarrow> int option" where
  "parse_i64 s =
     (let (neg, ds) = (case s of [] \<Rightarrow> (False, [])
                       | c # r \<Rightarrow> if c = CHR ''-'' then (True, r) else if c = CHR ''+'' then (False, r) else (False, s)) in
      if ds = [] then None
      else (case decimal ds of
              None \<Rightarrow> None
            | Some n \<Rightarrow> (let i = (if neg then - int n else int n) in
                         if - (2 ^ 63) \<le> i \<and> i < 2 ^ 63 then Some i else None)))"

text \<open>\<open>format!("{:0<6}", s)\<close>\<close>

definition pad6 :: "string \<Rightarrow> string" where
  "pad6 s = s @ replicate (6 - length s) CHR ''0''"

definition utc_epoch_micros :: "string \<Rightarrow> int option" where
  "utc_epoch_micros ts =
     (if \<not> canonical_utc ts then None
      else do {
        y \<leftarrow> parse_i64 (byte_range 0 4 ts);
        m \<leftarrow> parse_i64 (byte_range 5 7 ts);
        d \<leftarrow> parse_i64 (byte_range 8 10 ts);
        h \<leftarrow> parse_i64 (byte_range 11 13 ts);
        mi \<leftarrow> parse_i64 (byte_range 14 16 ts);
        s \<leftarrow> parse_i64 (byte_range 17 19 ts);
        micros \<leftarrow> (if length ts > 20 then parse_i64 (pad6 (byte_range 20 (length ts - 1) ts)) else Some 0);
        let years = (if m \<le> 2 then y - 1 else y);
            era = years div 400;
            yoe = years - era * 400;
            doy = (153 * (if m > 2 then m - 3 else m + 9) + 2) div 5 + d - 1;
            doe = yoe * 365 + yoe div 4 - yoe div 100 + doy;
            days = era * 146097 + doe - 719468
        in Some ((days * 86400 + h * 3600 + mi * 60 + s) * 1000000 + micros)
      })"

text \<open>\<open>split_once('.')\<close>, or the whole string and the empty one.\<close>

definition split_fraction :: "string \<Rightarrow> string \<times> string" where
  "split_fraction s =
     (let w = takeWhile (\<lambda>c. c \<noteq> CHR ''.'') s in (w, if length w < length s then drop (Suc (length w)) s else []))"

definition nts :: "json \<Rightarrow> string option" where
  "nts t =
     (case as_str t of
        None \<Rightarrow> None
      | Some t \<Rightarrow>
          if \<not> canonical_utc t then None
          else (let base = butlast t; (whole, frac) = split_fraction base in Some (whole @ ''.'' @ pad6 frac @ ''Z'')))"

section \<open>Fields of a timestamp\<close>

lemma decimal_fold_digits:
  "decimal_fold n s = (if list_all is_ascii_digit s then Some (foldl (\<lambda>n c. n * 10 + (of_char c - 48)) n s) else None)"
  by (induction s arbitrary: n) auto

lemma decimal_eq: "decimal s = (if list_all is_ascii_digit s then Some (digits_value s) else None)"
  by (simp add: decimal_def decimal_fold_digits digits_value_def)

lemma digits_value_Cons:
  "digits_value (c # s) = (of_char c - 48) * 10 ^ length s + digits_value s"
proof -
  have f: "foldl (\<lambda>n c. n * 10 + (of_char c - 48)) k s = k * 10 ^ length s + digits_value s" for k
  proof (induction s arbitrary: k)
    case (Cons d s)
    have "digits_value (d # s) = (of_char d - 48) * 10 ^ length s + digits_value s"
      using Cons [of "of_char d - 48"] by (simp add: digits_value_def)
    then show ?case using Cons [of "k * 10 + (of_char d - 48)"] by (simp add: algebra_simps)
  qed (simp add: digits_value_def)
  show ?thesis using f [of "of_char c - 48"] by (simp add: digits_value_def [of "c # s"])
qed

lemma digits_value_bound: "list_all is_ascii_digit s \<Longrightarrow> digits_value s < 10 ^ length s"
proof (induction s)
  case (Cons c s)
  then have "of_char c - 48 \<le> (9 :: nat)" by (auto simp: is_ascii_digit_def)
  then have "(of_char c - 48) * 10 ^ length s \<le> 9 * (10 :: nat) ^ length s" by (rule mult_right_mono) simp
  moreover have "digits_value s < 10 ^ length s" using Cons by simp
  ultimately show ?case unfolding digits_value_Cons list.size(4) by (simp only: add_0_right add_Suc_right power_Suc)
qed (simp add: digits_value_def)

lemma parse_i64_digits:
  assumes "list_all is_ascii_digit s" "s \<noteq> []" "length s \<le> 18"
  shows "parse_i64 s = Some (int (digits_value s))"
proof -
  obtain c r where s: "s = c # r" "is_ascii_digit c" using assms(1,2) by (cases s) auto
  then have "c \<noteq> CHR ''-''" "c \<noteq> CHR ''+''" by (auto simp: is_ascii_digit_def)
  moreover have "digits_value s < 10 ^ 18"
    using digits_value_bound [OF assms(1)] power_increasing [OF assms(3), of "10 :: nat"] by linarith
  ultimately show ?thesis using assms(1) s(1) by (simp add: parse_i64_def decimal_eq)
qed


definition digits_at :: "nat \<Rightarrow> nat \<Rightarrow> string \<Rightarrow> nat" where
  "digits_at a z ts = digits_value (byte_range a z ts)"

definition fraction :: "string \<Rightarrow> string" where
  "fraction ts = (if length ts > 20 then byte_range 20 (length ts - 1) ts else [])"

definition micros_field :: "string \<Rightarrow> nat" where
  "micros_field ts = digits_value (pad6 (fraction ts))"

lemma length_byte_range: "z \<le> length s \<Longrightarrow> length (byte_range a z s) = z - a"
  by (simp add: byte_range_def)

lemma canonical_utc_iff:
  "canonical_utc b \<longleftrightarrow>
     (length b = 20 \<or> 22 \<le> length b \<and> length b \<le> 27) \<and>
     b ! 4 = CHR ''-'' \<and> b ! 7 = CHR ''-'' \<and> b ! 10 = CHR ''T'' \<and> b ! 13 = CHR '':'' \<and> b ! 16 = CHR '':'' \<and>
     last b = CHR ''Z'' \<and> (length b > 20 \<longrightarrow> b ! 19 = CHR ''.'') \<and> list_all is_ascii_digit (fraction b) \<and>
     list_all is_ascii_digit (byte_range 0 4 b) \<and> list_all is_ascii_digit (byte_range 5 7 b) \<and>
     list_all is_ascii_digit (byte_range 8 10 b) \<and> list_all is_ascii_digit (byte_range 11 13 b) \<and>
     list_all is_ascii_digit (byte_range 14 16 b) \<and> list_all is_ascii_digit (byte_range 17 19 b) \<and>
     0 < digits_at 0 4 b \<and> 1 \<le> digits_at 5 7 b \<and> digits_at 5 7 b \<le> 12 \<and>
     0 < digits_at 8 10 b \<and> digits_at 8 10 b \<le> month_days (digits_at 0 4 b) ! digits_at 5 7 b \<and>
     digits_at 11 13 b < 24 \<and> digits_at 14 16 b < 60 \<and> digits_at 17 19 b < 60"
proof (cases "(length b = 20 \<or> 22 \<le> length b \<and> length b \<le> 27) \<and> b ! 4 = CHR ''-'' \<and> b ! 7 = CHR ''-'' \<and>
     b ! 10 = CHR ''T'' \<and> b ! 13 = CHR '':'' \<and> b ! 16 = CHR '':'' \<and> last b = CHR ''Z'' \<and>
     (length b > 20 \<longrightarrow> b ! 19 = CHR ''.'') \<and> list_all is_ascii_digit (fraction b)")
  case True
  then show ?thesis unfolding canonical_utc_def
    by (auto simp: decimal_eq digits_at_def fraction_def)
next
  case False
  then show ?thesis unfolding canonical_utc_def
    by (auto simp: decimal_eq fraction_def split: if_splits)
qed

lemma fraction_length: "canonical_utc b \<Longrightarrow> length (fraction b) \<le> 6"
  by (auto simp: canonical_utc_iff fraction_def length_byte_range)

lemma pad6_digits:
  assumes "list_all is_ascii_digit s" "length s \<le> 6"
  shows "list_all is_ascii_digit (pad6 s)" "length (pad6 s) = 6"
proof -
  have z: "is_ascii_digit CHR ''0''" by (simp add: is_ascii_digit_def)
  show "list_all is_ascii_digit (pad6 s)" using assms(1) z by (auto simp: pad6_def list_all_iff)
  show "length (pad6 s) = 6" using assms(2) by (simp add: pad6_def)
qed

lemma micros_field_bound: "canonical_utc b \<Longrightarrow> micros_field b < 1000000"
  using digits_value_bound [OF pad6_digits(1), of "fraction b"] pad6_digits(2) [of "fraction b"] fraction_length [of b]
  by (simp add: canonical_utc_iff micros_field_def)

lemma digits_at_bound: "list_all is_ascii_digit (byte_range a z b) \<Longrightarrow> z \<le> length b \<Longrightarrow> digits_at a z b < 10 ^ (z - a)"
  using digits_value_bound [of "byte_range a z b"] by (simp add: digits_at_def length_byte_range)

section \<open>The calendar\<close>

text \<open>The reference: lengths of whole years and months before the date, counted from 1 January of year 1.\<close>

definition year_length :: "nat \<Rightarrow> nat" where
  "year_length y = 365 + of_bool (leap_year y)"

definition civil_days :: "nat \<Rightarrow> nat \<Rightarrow> nat \<Rightarrow> nat" where
  "civil_days y m d = sum_list (map year_length [1..<y]) + sum_list (take m (month_days y)) + (d - 1)"

definition before_year :: "int \<Rightarrow> int" where
  "before_year k = 365 * k + k div 4 - k div 100 + k div 400"

lemma before_year_Suc: "before_year (int (Suc k)) = before_year (int k) + int (year_length (Suc k))"
proof -
  have i: "int n div 4 = int (n div 4)" "int n div 100 = int (n div 100)" "int n div 400 = int (n div 400)" for n
    by (simp_all add: zdiv_int)
  have "Suc k mod 400 = 0 \<Longrightarrow> Suc k mod 100 = 0" "Suc k mod 100 = 0 \<Longrightarrow> Suc k mod 4 = 0" by presburger+
  then show ?thesis
    unfolding before_year_def i year_length_def leap_year_def
    by (simp only: div_Suc [of k 4] div_Suc [of k 100] div_Suc [of k 400])
       (cases "Suc k mod 4 = 0"; cases "Suc k mod 100 = 0"; cases "Suc k mod 400 = 0"; simp)
qed

lemma before_year_sum: "before_year (int k) = int (sum_list (map year_length [1..<Suc k]))"
proof (induction k)
  case (Suc k)
  then show ?case using before_year_Suc [of k] by simp
qed (simp add: before_year_def)

text \<open>The era arithmetic of the code, for years counted from March.\<close>

lemma era_arithmetic:
  "years div 400 * 146097 + ((years - years div 400 * 400) * 365 + (years - years div 400 * 400) div 4
     - (years - years div 400 * 400) div 100) = before_year years" for years :: int
proof -
  obtain e r where y: "years = 400 * e + r" "0 \<le> r" "r < 400" "years div 400 = e"
    by (rule that [of "years div 400" "years mod 400"]) simp_all
  have "years div 4 = 100 * e + r div 4" "years div 100 = 4 * e + r div 100"
    using div_mult_self4 [of 4 "100 * e" r] div_mult_self4 [of 100 "4 * e" r] by (simp_all add: y(1))
  with y show ?thesis by (simp add: before_year_def)
qed

lemma civil_days_code:
  assumes m: "1 \<le> m" "m \<le> 12" and y: "0 < y" and d: "0 < d"
  shows "(let years = (if int m \<le> 2 then int y - 1 else int y); era = years div 400; yoe = years - era * 400;
              doy = (153 * (if int m > 2 then int m - 3 else int m + 9) + 2) div 5 + int d - 1;
              doe = yoe * 365 + yoe div 4 - yoe div 100 + doy
          in era * 146097 + doe - 719468) = int (civil_days y m d) - 719162"
proof -
  obtain k where k: "y = Suc k" using y by (cases y) auto
  have c: "int (civil_days y m d) = before_year (int y - 1) + int (sum_list (take m (month_days y))) + int d - 1"
    using d before_year_sum [of k] by (simp add: civil_days_def k of_nat_diff)
  have b: "before_year (int y) = before_year (int y - 1) + 365 + of_bool (leap_year y)"
    using before_year_Suc [of k] by (simp add: k year_length_def)
  have e: "years div 400 * 146097 + ((years - years div 400 * 400) * 365 + (years - years div 400 * 400) div 4
     - (years - years div 400 * 400) div 100 + q) - 719468 = before_year years + q - 719468" for years q :: int
    using era_arithmetic [of years] by simp
  have "m \<in> {1, 2, 3, 4, 5, 6, 7, 8, 9, 10, 11, 12}" using m by simp presburger
  then show ?thesis unfolding Let_def e c
    by (elim insertE emptyE) (simp_all add: b month_days_def)
qed


definition valid_date :: "nat \<Rightarrow> nat \<Rightarrow> nat \<Rightarrow> bool" where
  "valid_date y m d = (0 < y \<and> 1 \<le> m \<and> m \<le> 12 \<and> 0 < d \<and> d \<le> month_days y ! m)"

lemma length_month_days [simp]: "length (month_days y) = 13"
  by (simp add: month_days_def)

lemma month_starts_mono:
  assumes "m < m'"
  shows "sum_list (take m (month_days y)) + (if m \<le> 12 then month_days y ! m else 0) \<le> sum_list (take m' (month_days y))"
proof -
  have "sum_list (take (Suc m) (month_days y)) \<le> sum_list (take m' (month_days y))"
    using assms by (metis Suc_leI le_add1 le_Suc_ex sum_list_append take_add)
  then show ?thesis by (cases "m < 13") (auto simp: take_Suc_conv_app_nth)
qed

lemma year_length_months: "sum_list (take 13 (month_days y)) = year_length y"
  by (simp add: month_days_def year_length_def)

lemma civil_days_within_year:
  assumes "valid_date y m d"
  shows "civil_days y m d < sum_list (map year_length [1..<Suc y])"
    "sum_list (map year_length [1..<y]) \<le> civil_days y m d"
  using assms month_starts_mono [of m 13 y] year_length_months [of y]
  by (auto simp: civil_days_def valid_date_def)

lemma year_starts_mono: "y \<le> y' \<Longrightarrow> sum_list (map year_length [1..<y]) \<le> sum_list (map year_length [1..<y'])"
proof (cases "y = 0")
  case False
  moreover assume "y \<le> y'"
  ultimately have "[1..<y'] = [1..<y] @ [y..<y']" by (metis le_add_diff_inverse less_one not_le upt_add_eq_append)
  then show ?thesis by simp
qed simp

lemma civil_days_less:
  assumes v: "valid_date y m d" "valid_date y' m' d'"
    and l: "y < y' \<or> y = y' \<and> (m < m' \<or> m = m' \<and> d < d')"
  shows "civil_days y m d < civil_days y' m' d'"
proof -
  consider "y < y'" | "y = y'" "m < m'" | "y = y'" "m = m'" "d < d'" using l by blast
  then show ?thesis
  proof cases
    case 1
    then show ?thesis
      using civil_days_within_year(1) [OF v(1)] civil_days_within_year(2) [OF v(2)] year_starts_mono [of "Suc y" y']
      by simp
  next
    case 2
    then show ?thesis using v month_starts_mono [of m m' y] by (auto simp: civil_days_def valid_date_def)
  qed (use v in \<open>auto simp: civil_days_def valid_date_def\<close>)
qed

lemma civil_days_less_iff:
  assumes "valid_date y m d" "valid_date y' m' d'"
  shows "civil_days y m d < civil_days y' m' d' \<longleftrightarrow> y < y' \<or> y = y' \<and> (m < m' \<or> m = m' \<and> d < d')"
  using civil_days_less [OF assms] civil_days_less [OF assms(2,1)]
  by (metis less_asym' less_irrefl linorder_cases)

lemma civil_days_eq_iff:
  assumes "valid_date y m d" "valid_date y' m' d'"
  shows "civil_days y m d = civil_days y' m' d' \<longleftrightarrow> y = y' \<and> m = m' \<and> d = d'"
  using civil_days_less [OF assms] civil_days_less [OF assms(2,1)]
  by (metis less_irrefl linorder_cases)

section \<open>The instant\<close>

definition day_of :: "string \<Rightarrow> nat" where
  "day_of ts = civil_days (digits_at 0 4 ts) (digits_at 5 7 ts) (digits_at 8 10 ts)"

lemma canonical_valid_date: "canonical_utc ts \<Longrightarrow> valid_date (digits_at 0 4 ts) (digits_at 5 7 ts) (digits_at 8 10 ts)"
  by (simp add: canonical_utc_iff valid_date_def)

lemma utc_epoch_micros_fields:
  assumes c: "canonical_utc ts"
  shows "utc_epoch_micros ts =
    Some (((int (day_of ts) - 719162) * 86400 + int (digits_at 11 13 ts) * 3600 + int (digits_at 14 16 ts) * 60
      + int (digits_at 17 19 ts)) * 1000000 + int (micros_field ts))"
proof -
  have len: "20 \<le> length ts" using c by (auto simp: canonical_utc_iff)
  have p: "parse_i64 (byte_range a z ts) = Some (int (digits_at a z ts))"
    if "list_all is_ascii_digit (byte_range a z ts)" "a < z" "z \<le> a + 18" "z \<le> length ts" for a z
  proof -
    have "length (byte_range a z ts) = z - a" using that by (simp add: length_byte_range)
    then show ?thesis using parse_i64_digits [OF that(1)] that by (force simp: digits_at_def)
  qed
  have f: "parse_i64 (byte_range 0 4 ts) = Some (int (digits_at 0 4 ts))" "parse_i64 (byte_range 5 7 ts) = Some (int (digits_at 5 7 ts))"
    "parse_i64 (byte_range 8 10 ts) = Some (int (digits_at 8 10 ts))" "parse_i64 (byte_range 11 13 ts) = Some (int (digits_at 11 13 ts))"
    "parse_i64 (byte_range 14 16 ts) = Some (int (digits_at 14 16 ts))" "parse_i64 (byte_range 17 19 ts) = Some (int (digits_at 17 19 ts))"
    using c len by (auto simp: canonical_utc_iff intro!: p)
  have d: "list_all is_ascii_digit (pad6 (fraction ts))" "length (pad6 (fraction ts)) = 6"
    using pad6_digits fraction_length [OF c] c by (simp_all add: canonical_utc_iff)
  have mf: "parse_i64 (pad6 (fraction ts)) = Some (int (micros_field ts))"
    using parse_i64_digits [OF d(1)] d(2) by (force simp: micros_field_def)
  have us: "(if length ts > 20 then parse_i64 (pad6 (byte_range 20 (length ts - 1) ts)) else Some 0) = Some (int (micros_field ts))"
  proof (cases "length ts > 20")
    case True
    then show ?thesis using mf by (simp add: fraction_def)
  next
    case False
    then show ?thesis by (simp add: micros_field_def fraction_def pad6_def digits_value_def numeral_eq_Suc)
  qed
  have v: "1 \<le> digits_at 5 7 ts" "digits_at 5 7 ts \<le> 12" "0 < digits_at 0 4 ts" "0 < digits_at 8 10 ts"
    using canonical_valid_date [OF c] by (simp_all add: valid_date_def)
  show ?thesis
    by (simp only: utc_epoch_micros_def c not_True_eq_False if_False f us Option.bind.bind_lunit
        Let_def civil_days_code [OF v, unfolded Let_def] day_of_def)
qed

lemma day_of_bound: "canonical_utc ts \<Longrightarrow> day_of ts < 3652059"
proof -
  assume c: "canonical_utc ts"
  then have "digits_at 0 4 ts < 10 ^ (4 - 0)" by (intro digits_at_bound) (auto simp: canonical_utc_iff)
  then have "sum_list (map year_length [1..<Suc (digits_at 0 4 ts)]) \<le> sum_list (map year_length [1..<Suc 9999])"
    by (intro year_starts_mono) simp
  moreover have "int (sum_list (map year_length [1..<Suc 9999])) = before_year 9999"
    using before_year_sum [of 9999] by simp
  moreover have "before_year 9999 = 3652059" by (simp add: before_year_def)
  ultimately show "day_of ts < 3652059"
    using civil_days_within_year(1) [OF canonical_valid_date [OF c]] unfolding day_of_def by linarith
qed


section \<open>The normalised string\<close>

lemma join_byte_ranges:
  assumes "a \<le> z" "z < z'" "z' \<le> length s"
  shows "byte_range a z s @ s ! z # byte_range (Suc z) z' s = byte_range a z' s"
proof -
  have "byte_range a z' s = take (z - a) (drop a s) @ take (z' - z) (drop z s)"
    using assms take_add [of "z - a" "z' - z" "drop a s"] by (simp add: byte_range_def)
  moreover have "take (z' - z) (drop z s) = s ! z # byte_range (Suc z) z' s"
    using assms by (simp add: byte_range_def Cons_nth_drop_Suc [symmetric] Suc_diff_Suc [symmetric] del: drop_Suc_Cons)
  ultimately show ?thesis by (simp add: byte_range_def)
qed

lemma take_19:
  assumes c: "canonical_utc b"
  shows "take 19 b = byte_range 0 4 b @ ''-'' @ byte_range 5 7 b @ ''-'' @ byte_range 8 10 b @ ''T'' @
     byte_range 11 13 b @ '':'' @ byte_range 14 16 b @ '':'' @ byte_range 17 19 b"
proof -
  have len: "20 \<le> length b" and sep: "b ! 4 = CHR ''-''" "b ! 7 = CHR ''-''" "b ! 10 = CHR ''T''" "b ! 13 = CHR '':''" "b ! 16 = CHR '':''"
    using c by (auto simp: canonical_utc_iff)
  have "byte_range 14 19 b = byte_range 14 16 b @ '':'' @ byte_range 17 19 b"
    using join_byte_ranges [of 14 16 19 b] len sep by simp
  moreover have "byte_range 11 19 b = byte_range 11 13 b @ '':'' @ byte_range 14 19 b"
    using join_byte_ranges [of 11 13 19 b] len sep by simp
  moreover have "byte_range 8 19 b = byte_range 8 10 b @ ''T'' @ byte_range 11 19 b"
    using join_byte_ranges [of 8 10 19 b] len sep by simp
  moreover have "byte_range 5 19 b = byte_range 5 7 b @ ''-'' @ byte_range 8 19 b"
    using join_byte_ranges [of 5 7 19 b] len sep by simp
  moreover have "byte_range 0 19 b = byte_range 0 4 b @ ''-'' @ byte_range 5 19 b"
    using join_byte_ranges [of 0 4 19 b] len sep by simp
  ultimately show ?thesis by (simp add: byte_range_def [of 0 19])
qed

lemma nts_canonical:
  assumes c: "canonical_utc b"
  shows "nts (JString b) = Some (take 19 b @ ''.'' @ pad6 (fraction b) @ ''Z'')"
proof -
  have nodot: "\<forall>x \<in> set (take 19 b). x \<noteq> CHR ''.''"
    unfolding take_19 [OF c] using c by (auto simp: canonical_utc_iff list_all_iff is_ascii_digit_def)
  have "split_fraction (butlast b) = (take 19 b, fraction b)"
  proof (cases "length b > 20")
    case True
    then have l: "22 \<le> length b" "b ! 19 = CHR ''.''" using c by (auto simp: canonical_utc_iff)
    have "butlast b = take 19 b @ CHR ''.'' # byte_range 20 (length b - 1) b"
    proof -
      have "butlast b = byte_range 0 (length b - 1) b" by (simp add: byte_range_def butlast_conv_take)
      also have "\<dots> = byte_range 0 19 b @ b ! 19 # byte_range 20 (length b - 1) b"
        using join_byte_ranges [of 0 19 "length b - 1" b] l by simp
      finally show ?thesis using l(2) by (simp add: byte_range_def [of 0 19])
    qed
    moreover have "takeWhile (\<lambda>c. c \<noteq> CHR ''.'') (take 19 b @ CHR ''.'' # x) = take 19 b" for x
      using nodot by (simp add: takeWhile_append)
    moreover have "length (take 19 b) = 19" using l by simp
    ultimately show ?thesis using True
      by (simp add: split_fraction_def fraction_def Let_def)
  next
    case False
    then have "butlast b = take 19 b" using c by (auto simp: canonical_utc_iff butlast_conv_take)
    moreover have "takeWhile (\<lambda>c. c \<noteq> CHR ''.'') (take 19 b) = take 19 b"
      using nodot by (simp add: takeWhile_eq_all_conv)
    ultimately show ?thesis using False by (simp only: split_fraction_def fraction_def Let_def) simp
  qed
  then show ?thesis using c by (simp add: nts_def as_str_def)
qed

text \<open>Lexicographic order on fixed-width decimal fields.\<close>

lemma append_less: "length a = length b \<Longrightarrow> a @ x < b @ y \<longleftrightarrow> a < b \<or> a = b \<and> x < y" for a :: "'a::linorder list"
proof (induction a arbitrary: b)
  case (Cons c a)
  then show ?case by (cases b) auto
qed simp

lemma digits_less:
  assumes "length a = length b" "list_all is_ascii_digit a" "list_all is_ascii_digit b"
  shows "(a < b \<longleftrightarrow> digits_value a < digits_value b) \<and> (a = b \<longleftrightarrow> digits_value a = digits_value b)"
  using assms
proof (induction a arbitrary: b)
  case Nil
  then show ?case by simp
next
  case (Cons c a)
  then obtain d b' where b: "b = d # b'" by (cases b) auto
  let ?P = "10 ^ length a :: nat"
  have v: "digits_value a < ?P" "digits_value b' < ?P"
    using digits_value_bound [of a] digits_value_bound [of b'] Cons.prems b by auto
  have cd: "48 \<le> (of_char c :: nat)" "48 \<le> (of_char d :: nat)" using Cons.prems b by (auto simp: is_ascii_digit_def)
  have IH: "(a < b' \<longleftrightarrow> digits_value a < digits_value b') \<and> (a = b' \<longleftrightarrow> digits_value a = digits_value b')"
    using Cons.IH [of b'] Cons.prems b by simp
  have step: "x * ?P + digits_value a < y * ?P + digits_value b'" "x * ?P + digits_value b' < y * ?P + digits_value a"
    if "x < y" for x y :: nat
  proof -
    have "Suc x * ?P \<le> y * ?P" using that by (intro mult_right_mono) auto
    then show "x * ?P + digits_value a < y * ?P + digits_value b'" "x * ?P + digits_value b' < y * ?P + digits_value a"
      using v by auto
  qed
  have l: "length b' = length a" using Cons.prems b by simp
  consider "(of_char c :: nat) < of_char d" | "c = d" | "(of_char d :: nat) < of_char c"
    by (metis linorder_less_linear of_char_eq_iff)
  then show ?case
  proof cases
    case 1
    then have "c < d" "c \<noteq> d" by (auto simp: less_char_def)
    moreover have "of_char c - 48 < (of_char d - 48 :: nat)" using 1 cd by linarith
    ultimately show ?thesis using step(1) [of "of_char c - 48" "of_char d - 48"] by (simp add: b digits_value_Cons l)
  next
    case 2
    then show ?thesis using IH by (auto simp: b digits_value_Cons l)
  next
    case 3
    then have "d < c" "c \<noteq> d" by (auto simp: less_char_def)
    moreover have "of_char d - 48 < (of_char c - 48 :: nat)" using 3 cd by linarith
    ultimately show ?thesis using step(2) [of "of_char d - 48" "of_char c - 48"] by (simp add: b digits_value_Cons l)
  qed
qed


definition instant_less :: "string \<Rightarrow> string \<Rightarrow> bool" where
  "instant_less a b \<longleftrightarrow>
     digits_at 0 4 a < digits_at 0 4 b \<or> digits_at 0 4 a = digits_at 0 4 b \<and>
     (digits_at 5 7 a < digits_at 5 7 b \<or> digits_at 5 7 a = digits_at 5 7 b \<and>
     (digits_at 8 10 a < digits_at 8 10 b \<or> digits_at 8 10 a = digits_at 8 10 b \<and>
     (digits_at 11 13 a < digits_at 11 13 b \<or> digits_at 11 13 a = digits_at 11 13 b \<and>
     (digits_at 14 16 a < digits_at 14 16 b \<or> digits_at 14 16 a = digits_at 14 16 b \<and>
     (digits_at 17 19 a < digits_at 17 19 b \<or> digits_at 17 19 a = digits_at 17 19 b \<and> micros_field a < micros_field b)))))"

lemma nts_less:
  assumes a: "canonical_utc a" and b: "canonical_utc b"
  shows "the (nts (JString a)) < the (nts (JString b)) \<longleftrightarrow> instant_less a b"
proof -
  have f: "length (byte_range i j a) = length (byte_range i j b)" if "j \<le> 19" for i j
    using a b that by (auto simp: canonical_utc_iff length_byte_range)
  have step: "(byte_range i j a @ x < byte_range i j b @ y) \<longleftrightarrow> digits_at i j a < digits_at i j b \<or> digits_at i j a = digits_at i j b \<and> x < y"
    if "j \<le> 19" "list_all is_ascii_digit (byte_range i j a)" "list_all is_ascii_digit (byte_range i j b)" for i j x y
    using digits_less [OF f [OF that(1)] that(2,3)] append_less [OF f [OF that(1)], of i x y] by (simp add: digits_at_def)
  have da: "list_all is_ascii_digit (byte_range 0 4 x)" "list_all is_ascii_digit (byte_range 5 7 x)"
    "list_all is_ascii_digit (byte_range 8 10 x)" "list_all is_ascii_digit (byte_range 11 13 x)"
    "list_all is_ascii_digit (byte_range 14 16 x)" "list_all is_ascii_digit (byte_range 17 19 x)"
    if "canonical_utc x" for x using that by (simp_all add: canonical_utc_iff)
  have steps:
    "(byte_range 0 4 a @ x < byte_range 0 4 b @ y) \<longleftrightarrow> digits_at 0 4 a < digits_at 0 4 b \<or> digits_at 0 4 a = digits_at 0 4 b \<and> x < y"
    "(byte_range 5 7 a @ x < byte_range 5 7 b @ y) \<longleftrightarrow> digits_at 5 7 a < digits_at 5 7 b \<or> digits_at 5 7 a = digits_at 5 7 b \<and> x < y"
    "(byte_range 8 10 a @ x < byte_range 8 10 b @ y) \<longleftrightarrow> digits_at 8 10 a < digits_at 8 10 b \<or> digits_at 8 10 a = digits_at 8 10 b \<and> x < y"
    "(byte_range 11 13 a @ x < byte_range 11 13 b @ y) \<longleftrightarrow> digits_at 11 13 a < digits_at 11 13 b \<or> digits_at 11 13 a = digits_at 11 13 b \<and> x < y"
    "(byte_range 14 16 a @ x < byte_range 14 16 b @ y) \<longleftrightarrow> digits_at 14 16 a < digits_at 14 16 b \<or> digits_at 14 16 a = digits_at 14 16 b \<and> x < y"
    "(byte_range 17 19 a @ x < byte_range 17 19 b @ y) \<longleftrightarrow> digits_at 17 19 a < digits_at 17 19 b \<or> digits_at 17 19 a = digits_at 17 19 b \<and> x < y"
    for x y
    by (rule step; simp add: da [OF a] da [OF b])+
  have l6: "length (pad6 (fraction a)) = length (pad6 (fraction b))"
    using pad6_digits(2) [of "fraction a"] pad6_digits(2) [of "fraction b"] fraction_length [OF a] fraction_length [OF b] a b
    by (simp add: canonical_utc_iff)
  have dp: "list_all is_ascii_digit (pad6 (fraction a))" "list_all is_ascii_digit (pad6 (fraction b))"
    using pad6_digits(1) fraction_length [OF a] fraction_length [OF b] a b by (simp_all add: canonical_utc_iff)
  have p: "pad6 (fraction a) @ ''Z'' < pad6 (fraction b) @ ''Z'' \<longleftrightarrow> micros_field a < micros_field b"
    using digits_less [OF l6 dp] append_less [OF l6, of "''Z''" "''Z''"] by (simp add: micros_field_def)
  show ?thesis
    unfolding nts_canonical [OF a] nts_canonical [OF b] take_19 [OF a] take_19 [OF b] option.sel instant_less_def
    by (simp only: append_assoc append_Cons append_Nil steps Cons_less_Cons less_irrefl simp_thms p)
qed

lemma radix_less:
  assumes "0 \<le> r" "r < B" "0 \<le> r'" "r' < B"
  shows "x * B + r < x' * B + r' \<longleftrightarrow> x < x' \<or> x = x' \<and> r < (r' :: int)"
proof -
  have "x * B + r < y * B + q" if "x < y" "r < B" "0 \<le> q" for x y r q :: int
  proof -
    have "(x + 1) * B \<le> y * B" using that assms(1,2) by (intro mult_right_mono) auto
    then show ?thesis using that by (simp add: algebra_simps)
  qed
  from this [of x x' r r'] this [of x' x r' r] assms show ?thesis
    by (cases x x' rule: linorder_cases) auto
qed

lemma radix_eq:
  assumes "0 \<le> r" "r < B" "0 \<le> r'" "r' < B"
  shows "x * B + r = x' * B + r' \<longleftrightarrow> x = x' \<and> r = (r' :: int)"
  using radix_less [OF assms, of x x'] radix_less [OF assms(3,4,1,2), of x' x] by (metis less_irrefl linorder_cases)

lemma epoch_less:
  assumes a: "canonical_utc a" and b: "canonical_utc b"
  shows "the (utc_epoch_micros a) < the (utc_epoch_micros b) \<longleftrightarrow> instant_less a b"
proof -
  have bounds: "int (digits_at 11 13 x) < 24" "int (digits_at 14 16 x) < 60" "int (digits_at 17 19 x) < 60"
    "int (micros_field x) < 1000000"
    if "canonical_utc x" for x using that micros_field_bound [OF that] by (auto simp: canonical_utc_iff)
  have "the (utc_epoch_micros a) < the (utc_epoch_micros b) \<longleftrightarrow>
      day_of a < day_of b \<or> day_of a = day_of b \<and>
     (digits_at 11 13 a < digits_at 11 13 b \<or> digits_at 11 13 a = digits_at 11 13 b \<and>
     (digits_at 14 16 a < digits_at 14 16 b \<or> digits_at 14 16 a = digits_at 14 16 b \<and>
     (digits_at 17 19 a < digits_at 17 19 b \<or> digits_at 17 19 a = digits_at 17 19 b \<and> micros_field a < micros_field b)))"
  proof -
    have e: "the (utc_epoch_micros x) = ((((int (day_of x) - 719162) * 24 + int (digits_at 11 13 x)) * 60 + int (digits_at 14 16 x)) * 60
        + int (digits_at 17 19 x)) * 1000000 + int (micros_field x)" if "canonical_utc x" for x
      by (simp add: utc_epoch_micros_fields [OF that])
    show ?thesis
      unfolding e [OF a] e [OF b]
      by (simp only: radix_less radix_eq bounds [OF a] bounds [OF b] of_nat_0_le_iff) auto
  qed
  then show ?thesis
    using civil_days_less_iff [OF canonical_valid_date [OF a] canonical_valid_date [OF b]]
      civil_days_eq_iff [OF canonical_valid_date [OF a] canonical_valid_date [OF b]]
    unfolding day_of_def instant_less_def by blast
qed

section \<open>Properties\<close>

text \<open>
  C40: the epoch arithmetic is the Gregorian calendar. A canonical timestamp of the years 1 to 9999 has
  an epoch value; it counts the days of the whole years and months before the date by the leap-year
  rule, and the value, and the value plus the 300 s skew in microseconds, stay far inside \<open>i64\<close>. Any
  other string has none.
\<close>

theorem utc_epoch_micros_calendar:
  "utc_epoch_micros ts =
    (if canonical_utc ts then
       Some (((int (civil_days (digits_at 0 4 ts) (digits_at 5 7 ts) (digits_at 8 10 ts)) - int (civil_days 1970 1 1)) * 86400
         + int (digits_at 11 13 ts) * 3600 + int (digits_at 14 16 ts) * 60 + int (digits_at 17 19 ts)) * 1000000 + int (micros_field ts))
     else None) \<and>
   (\<forall>us. utc_epoch_micros ts = Some us \<longrightarrow> -62135596800000000 \<le> us \<and> us + 300 * 1000000 < 2 ^ 58)"
proof (cases "canonical_utc ts")
  case True
  have e: "civil_days 1970 1 1 = 719162"
    using before_year_sum [of 1969] by (simp add: civil_days_def before_year_def month_days_def)
  have b: "digits_at 11 13 ts < 24" "digits_at 14 16 ts < 60" "digits_at 17 19 ts < 60" "micros_field ts < 1000000" "day_of ts < 3652059"
    using True micros_field_bound day_of_bound by (auto simp: canonical_utc_iff)
  show ?thesis using True b e unfolding utc_epoch_micros_fields [OF True] day_of_def by simp
qed (simp add: utc_epoch_micros_def)

theorem utc_epoch_micros_calendar_witness:
  "\<exists>us. utc_epoch_micros ''2024-02-29T12:00:00Z'' = Some us \<and> -62135596800000000 \<le> us \<and> us + 300 * 1000000 < 2 ^ 58"
proof -
  have "utc_epoch_micros ''2024-02-29T12:00:00Z'' = Some 1709208000000000" by code_simp
  then show ?thesis using utc_epoch_micros_calendar [of "''2024-02-29T12:00:00Z''"] by blast
qed

text \<open>
  The two ways the verifier compares times agree. For canonical timestamps the lexicographic order
  of the normalised strings, which the claim rules use, is the order of the epoch microseconds, which
  the checkpoint rules use, and equal strings are equal instants.
\<close>

theorem nts_order:
  assumes "canonical_utc a" "canonical_utc b"
  shows "(the (nts (JString a)) < the (nts (JString b)) \<longleftrightarrow> the (utc_epoch_micros a) < the (utc_epoch_micros b)) \<and>
    (the (nts (JString a)) = the (nts (JString b)) \<longleftrightarrow> the (utc_epoch_micros a) = the (utc_epoch_micros b))"
proof -
  have eq: "x = y \<longleftrightarrow> \<not> x < y \<and> \<not> y < x" for x y :: "'a::linorder" by auto
  show ?thesis
    unfolding eq [of "the (nts (JString a))"] eq [of "the (utc_epoch_micros a)"]
    using nts_less [OF assms] epoch_less [OF assms] nts_less [OF assms(2,1)] epoch_less [OF assms(2,1)] by simp
qed

theorem nts_order_witness:
  "the (nts (JString ''2024-02-29T23:59:59.9Z'')) < the (nts (JString ''2024-03-01T00:00:00Z''))
   \<longleftrightarrow> the (utc_epoch_micros ''2024-02-29T23:59:59.9Z'') < the (utc_epoch_micros ''2024-03-01T00:00:00Z'')"
proof -
  have "canonical_utc ''2024-02-29T23:59:59.9Z''" "canonical_utc ''2024-03-01T00:00:00Z''"
    by (simp_all add: canonical_utc_def decimal_def byte_range_def is_ascii_digit_def month_days_def leap_year_def)
  then show ?thesis using nts_order by blast
qed

end
