(* ===== verification/Receipts.thy ===== *)
theory Receipts
  imports Time
begin

text \<open>
  Signed receipts (\<open>lib.rs\<close>): the DSSE envelope and its signatures, the receipt hash, the canonical
  payload and the closed shape of a receipt body.
\<close>

section \<open>Envelopes\<close>

definition payload_of :: "crates \<Rightarrow> json \<Rightarrow> bytes option" where
  "payload_of C env = Option.bind (get_str env ''payload'') (B64_decode C)"

definition envelope_message :: "crates \<Rightarrow> json \<Rightarrow> bytes option" where
  "envelope_message C env =
     (case get_str env ''payloadType'' of
        None \<Rightarrow> None
      | Some t \<Rightarrow> map_option (pae t) (payload_of C env))"

definition is_string :: "json \<Rightarrow> bool" where
  "is_string v = (as_str v \<noteq> None)"

definition signature_valid :: "crates \<Rightarrow> json \<Rightarrow> bytes \<Rightarrow> bytes \<Rightarrow> bool" where
  "signature_valid C sig message pubkey =
     (case as_object sig of
        None \<Rightarrow> False
      | Some ob \<Rightarrow>
          contains_key ob ''keyid''
          \<and> list_all (\<lambda>(n, v). (n = ''keyid'' \<or> n = ''sig'' \<or> n = ''alg'') \<and> is_string v) ob
          \<and> is_none_or (map_of ob ''alg'') (\<lambda>v. as_str v = Some ''EdDSA'')
          \<and> is_some_and (Option.bind (get_str sig ''sig'') (B64_decode C)) (\<lambda>raw. ed25519_verify C pubkey message raw))"

definition env_signed_by :: "crates \<Rightarrow> json \<Rightarrow> string \<Rightarrow> bytes \<Rightarrow> bool" where
  "env_signed_by C env kid pubkey =
     (case envelope_message C env of
        None \<Rightarrow> False
      | Some message \<Rightarrow>
          is_some_and (get_array env ''signatures'')
            (list_ex (\<lambda>sig. get_str sig ''keyid'' = Some kid \<and> signature_valid C sig message pubkey)))"

definition receipt_hash_hex :: "crates \<Rightarrow> json \<Rightarrow> string option" where
  "receipt_hash_hex C env = map_option (\<lambda>p. hex (sha256 C p)) (payload_of C env)"

definition canonical_body :: "crates \<Rightarrow> bytes \<Rightarrow> json option" where
  "canonical_body C raw =
     (case json_from_slice C raw of
        None \<Rightarrow> None
      | Some v \<Rightarrow>
          (case promote_jcs_integer_lexemes v of
             None \<Rightarrow> None
           | Some body \<Rightarrow>
               (case canonical_checked C body of None \<Rightarrow> None | Some b \<Rightarrow> then_some (b = raw) body)))"

section \<open>Receipt bodies\<close>

definition is_lower_or_digit :: "char \<Rightarrow> bool" where
  "is_lower_or_digit c = (let b = (of_char c :: int) in 97 \<le> b \<and> b \<le> 122 \<or> 48 \<le> b \<and> b \<le> 57)"

text \<open>\<open>str::split\<close> on a set of characters.\<close>

fun split_on :: "(char \<Rightarrow> bool) \<Rightarrow> string \<Rightarrow> string list" where
  "split_on P [] = [[]]"
| "split_on P (c # s) =
     (if P c then [] # split_on P s else (case split_on P s of w # ws \<Rightarrow> (c # w) # ws | [] \<Rightarrow> [[c]]))"

definition namespaced_action :: "string \<Rightarrow> bool" where
  "namespaced_action value =
     (let parts = split_on (\<lambda>c. c \<in> set ''._-'') value in
      length parts > 1 \<and> list_all (\<lambda>part. part \<noteq> [] \<and> list_all is_lower_or_digit part) parts)"

definition is_lower_hex :: "char \<Rightarrow> bool" where
  "is_lower_hex c = (let b = (of_char c :: int) in 48 \<le> b \<and> b \<le> 57 \<or> 97 \<le> b \<and> b \<le> 102)"

definition lower_sha256 :: "string \<Rightarrow> bool" where
  "lower_sha256 value = (length value = 64 \<and> list_all is_lower_hex value)"

definition safe_identity_text :: "string \<Rightarrow> bool" where
  "safe_identity_text value =
     (value \<noteq> [] \<and> list_all (\<lambda>c. let b = (of_char c :: int) in 33 \<le> b \<and> b \<le> 126) value)"

definition disclosure_text :: "string \<Rightarrow> bool" where
  "disclosure_text value = (value \<noteq> [] \<and> list_all (\<lambda>c. \<not> (c \<le> 0x1f \<or> 0x7f \<le> c \<and> c \<le> 0x9f)) (chars value))"

definition RECEIPT_TYPE :: string where
  "RECEIPT_TYPE = ''application/vnd.evd.receipt.v1+json''"

definition RECEIPT_SCHEMA :: string where
  "RECEIPT_SCHEMA = ''evd/receipt/v1''"

definition RECEIPT_MAX_PARENTS :: nat where
  "RECEIPT_MAX_PARENTS = 32"

definition RECEIPT_REQUIRED :: "string list" where
  "RECEIPT_REQUIRED = [''schema'', ''tenant_id'', ''agent_id'', ''seq'', ''action_type'', ''commitments'', ''context'',
     ''parents'', ''ts_client'', ''ts_server'', ''idempotency_key'']"

definition RECEIPT_OPTIONAL :: "string list" where
  "RECEIPT_OPTIONAL = [''alg'', ''session_id'', ''session_inferred'']"

definition receipt_text :: "json \<Rightarrow> string \<Rightarrow> string option" where
  "receipt_text body field = ofilter safe_identity_text (get_str body field)"

definition receipt_commitments :: "json \<Rightarrow> bool" where
  "receipt_commitments body =
     is_some_and (get_object body ''commitments'')
       (list_all (\<lambda>(name, value). name \<noteq> [] \<and> is_some_and (as_str value) lower_sha256))"

definition receipt_parents :: "json \<Rightarrow> bool" where
  "receipt_parents body =
     is_some_and (get_array body ''parents'')
       (\<lambda>items. is_some_and (collect_opt as_str items)
          (\<lambda>values. length values \<le> RECEIPT_MAX_PARENTS \<and> list_all lower_sha256 values \<and> distinct values))"

definition receipt_session :: "json \<Rightarrow> bool" where
  "receipt_session body =
     (case (get body ''session_id'', get body ''session_inferred'') of
        (None, None) \<Rightarrow> True
      | (Some sid, Some inferred) \<Rightarrow> is_some_and (as_str sid) safe_identity_text \<and> as_bool inferred \<noteq> None
      | _ \<Rightarrow> False)"

definition receipt_body_valid :: "json \<Rightarrow> string option \<Rightarrow> bool" where
  "receipt_body_valid body expected_tenant =
     (case as_object body of
        None \<Rightarrow> False
      | Some ob \<Rightarrow>
          if list_ex (\<lambda>field. \<not> contains_key ob field) RECEIPT_REQUIRED
             \<or> list_ex (\<lambda>(field, _). field \<notin> set RECEIPT_REQUIRED \<and> field \<notin> set RECEIPT_OPTIONAL) ob
          then False
          else (case (receipt_text body ''tenant_id'', receipt_text body ''agent_id'',
                      receipt_text body ''action_type'', receipt_text body ''idempotency_key'') of
             (Some tenant, Some _, Some action, Some _) \<Rightarrow>
               if receipt_text body ''schema'' \<noteq> Some RECEIPT_SCHEMA
                  \<or> is_some_and expected_tenant (\<lambda>expected. tenant \<noteq> expected)
                  \<or> \<not> namespaced_action action
                  \<or> is_none_or (get_u64 body ''seq'') (\<lambda>seq. seq = 0 \<or> uint seq > MAX_SAFE_INTEGER)
               then False
               else receipt_commitments body
                  \<and> is_some_and (get body ''context'') (\<lambda>c. as_object c \<noteq> None)
                  \<and> receipt_parents body
                  \<and> is_some_and (get_str body ''ts_client'') canonical_utc
                  \<and> is_some_and (get_str body ''ts_server'') canonical_utc
                  \<and> receipt_session body
                  \<and> is_none_or (get body ''alg'') (\<lambda>alg. as_str alg = Some ''EdDSA'')
           | _ \<Rightarrow> False))"

definition body_of :: "crates \<Rightarrow> json \<Rightarrow> json option" where
  "body_of C env =
     (case payload_of C env of
        None \<Rightarrow> None
      | Some raw \<Rightarrow>
          (case canonical_body C raw of
             None \<Rightarrow> None
           | Some body \<Rightarrow> then_some (receipt_body_valid body None) body))"

definition tenant_from_origin :: "string \<Rightarrow> string option" where
  "tenant_from_origin origin =
     (if safe_identity_text origin then ofilter (\<lambda>tenant. tenant \<noteq> []) (Some (last (split_on (\<lambda>c. c = CHR ''/'') origin)))
      else None)"

definition starts_with :: "string \<Rightarrow> string \<Rightarrow> bool" where
  "starts_with s prefix = (take (length prefix) s = prefix)"

definition MANAGED_PREFIXES :: "string list" where
  "MANAGED_PREFIXES = [''evd.key.'', ''authority.'', ''source.'', ''action.'', ''lineage.'', ''node.'', ''evd.finding.'',
     ''evd.gap.'', ''evd.coverage.'', ''registration.'']"

definition forbidden_managed_edge_cosign :: "json \<Rightarrow> json \<Rightarrow> bool" where
  "forbidden_managed_edge_cosign body env =
     (let multi = is_some_and (get_array env ''signatures'') (\<lambda>s. length s > 1);
          agent = unwrap_or [] (get_str body ''agent_id'');
          action = unwrap_or [] (get_str body ''action_type'') in
      multi \<and> (starts_with agent ''_'' \<or> list_ex (starts_with action) MANAGED_PREFIXES))"


section \<open>Lemmas\<close>

lemma canonical_body_iff:
  "canonical_body C raw = Some body \<longleftrightarrow>
     (\<exists>v. json_from_slice C raw = Some v \<and> promote_jcs_integer_lexemes v = Some body \<and> canonical_checked C body = Some raw)"
  by (auto simp: canonical_body_def split: option.splits)

lemma body_of_iff:
  "body_of C env = Some body \<longleftrightarrow>
     (\<exists>raw. payload_of C env = Some raw \<and> canonical_body C raw = Some body \<and> receipt_body_valid body None)"
  by (auto simp: body_of_def split: option.splits)

lemma env_signed_by_iff:
  "env_signed_by C env kid key \<longleftrightarrow>
     (\<exists>t raw sigs sig. get_str env ''payloadType'' = Some t \<and> payload_of C env = Some raw \<and>
        get_array env ''signatures'' = Some sigs \<and> sig \<in> set sigs \<and> get_str sig ''keyid'' = Some kid \<and>
        signature_valid C sig (pae t raw) key)"
  by (auto simp: env_signed_by_def envelope_message_def is_some_and_iff list_ex_iff split: option.splits)

lemma receipt_body_valid_fields:
  assumes "receipt_body_valid body tenant"
  shows "\<exists>ts. get_str body ''ts_server'' = Some ts \<and> canonical_utc ts"
    "\<exists>ctx. get body ''context'' = Some ctx \<and> as_object ctx \<noteq> None"
    "\<exists>seq. get_u64 body ''seq'' = Some seq \<and> seq \<noteq> 0 \<and> uint seq \<le> MAX_SAFE_INTEGER"
    "get_str body ''schema'' = Some RECEIPT_SCHEMA"
  using assms
  by (auto simp: receipt_body_valid_def is_some_and_iff is_none_or_iff receipt_text_def split: option.splits if_splits)

section \<open>Properties\<close>

text \<open>
  The receipt hash is the hash of the body. Two envelopes that carry the same accepted body carry
  the same payload bytes, so their receipt hashes are equal, and the hash is that of the body's canonical
  form: nothing in an accepted receipt body escapes the hash that other receipts and proofs refer to.
\<close>

theorem receipt_hash_of_body:
  assumes "body_of C env = Some body" "body_of C env' = Some body"
  shows "\<exists>raw. canonical_checked C body = Some raw \<and> payload_of C env = Some raw \<and> payload_of C env' = Some raw \<and>
    receipt_hash_hex C env = Some (hex (Sha256 C raw)) \<and> receipt_hash_hex C env' = receipt_hash_hex C env"
  using assms by (auto simp: body_of_iff canonical_body_iff receipt_hash_hex_def sha256_def)

text \<open>
  what a verified envelope signature covers. It is an Ed25519 signature of 64 bytes, made over the
  pre-authentication encoding of the declared payload type and the decoded payload, carried by an entry
  of the signature list that names this key id and has no members but \<open>keyid\<close>, \<open>sig\<close> and \<open>alg\<close>, with
  \<open>alg\<close> absent or EdDSA.
\<close>

theorem env_signed_by_covers:
  assumes "env_signed_by C env kid key"
  shows "\<exists>t raw sigs m sg. get_str env ''payloadType'' = Some t \<and> payload_of C env = Some raw \<and>
    get_array env ''signatures'' = Some sigs \<and> JObject m \<in> set sigs \<and> get_str (JObject m) ''keyid'' = Some kid \<and>
    fst ` set m \<subseteq> {''keyid'', ''sig'', ''alg''} \<and> (get (JObject m) ''alg'' \<in> {None, Some (JString ''EdDSA'')}) \<and>
    Option.bind (get_str (JObject m) ''sig'') (B64_decode C) = Some sg \<and> length sg = 64 \<and>
    vk_verify C key (pae t raw) sg"
proof -
  obtain t raw sigs sig where e: "get_str env ''payloadType'' = Some t" "payload_of C env = Some raw"
    "get_array env ''signatures'' = Some sigs" "sig \<in> set sigs" "get_str sig ''keyid'' = Some kid"
    and v: "signature_valid C sig (pae t raw) key"
    using assms unfolding env_signed_by_iff by blast
  obtain m where m: "sig = JObject m" using v by (cases sig) (auto simp: signature_valid_def as_object_def)
  have p: "list_all (\<lambda>(n, v). (n = ''keyid'' \<or> n = ''sig'' \<or> n = ''alg'') \<and> is_string v) m"
    "is_none_or (map_of m ''alg'') (\<lambda>v. as_str v = Some ''EdDSA'')"
    and sg: "is_some_and (Option.bind (get_str (JObject m) ''sig'') (B64_decode C)) (\<lambda>raw'. ed25519_verify C key (pae t raw) raw')"
    using v by (simp_all add: signature_valid_def m as_object_def)
  have k: "fst ` set m \<subseteq> {''keyid'', ''sig'', ''alg''}" using p(1) by (force simp: list_all_iff)
  have a: "get (JObject m) ''alg'' \<in> {None, Some (JString ''EdDSA'')}"
    using p(2) by (cases "map_of m ''alg''") (auto simp: get_def as_str_def split: json.splits)
  obtain raw' where s: "Option.bind (get_str (JObject m) ''sig'') (B64_decode C) = Some raw'"
    and ok: "ed25519_verify C key (pae t raw) raw'"
    using sg unfolding is_some_and_iff by blast
  have l: "length raw' = 64" "vk_verify C key (pae t raw) raw'"
    using ok by (simp_all add: ed25519_verify_def split: if_splits)
  show ?thesis
    by (intro exI conjI) (rule e(1), rule e(2), rule e(3), rule e(4) [unfolded m], rule e(5) [unfolded m], rule k, rule a, rule s, rule l(1), rule l(2))
qed

text \<open>A small receipt and its envelope, for the witnesses here and in the theories that build on this one.\<close>

definition toy_receipt :: "string \<Rightarrow> string \<Rightarrow> u64 \<Rightarrow> json \<Rightarrow> json" where
  "toy_receipt action agent seq ctx = JObject [(''action_type'', JString action), (''agent_id'', JString agent),
     (''commitments'', JObject []), (''context'', ctx), (''idempotency_key'', JString ''i''), (''parents'', JArray []),
     (''schema'', JString RECEIPT_SCHEMA), (''seq'', JNumber (PosInt seq)), (''tenant_id'', JString ''t''),
     (''ts_client'', JString ''2024-01-01T00:00:00Z''), (''ts_server'', JString ''2024-01-01T00:00:00Z'')]"

definition toy_env :: "(string \<times> bytes) list \<Rightarrow> json \<Rightarrow> json" where
  "toy_env signers body =
     (let raw = the (canonical_checked toy_base body); msg = pae RECEIPT_TYPE raw in
      JObject [(''payload'', JString (of_bytes raw)), (''payloadType'', JString RECEIPT_TYPE),
        (''signatures'', JArray (map (\<lambda>(kid, key). JObject [(''keyid'', JString kid),
            (''sig'', JString (of_bytes (toy_sign key msg)))]) signers))])"

definition toy_body :: json where
  "toy_body = toy_receipt ''a.b'' ''agent'' 1 (JObject [])"

lemma toy_env_fields:
  "get_str (toy_env ss b) ''payloadType'' = Some RECEIPT_TYPE"
  "payload_of (toy_crates ds) (toy_env ss b) = Some (the (canonical_checked toy_base b))"
  by (simp_all add: toy_env_def payload_of_def toy_crates_def toy_base_def json_access Let_def)

lemma toy_env_signed:
  assumes "(kid, key) \<in> set ss"
  shows "env_signed_by (toy_crates ds) (toy_env ss b) kid key"
proof -
  let ?msg = "pae RECEIPT_TYPE (the (canonical_checked toy_base b))"
  let ?sig = "JObject [(''keyid'', JString kid), (''sig'', JString (of_bytes (toy_sign key ?msg)))]"
  have "signature_valid (toy_crates ds) ?sig ?msg key"
    by (simp add: signature_valid_def json_access is_string_def ed25519_verify_def toy_crates_def toy_base_def toy_sign_def)
  moreover have "get_array (toy_env ss b) ''signatures'' = Some (map (\<lambda>(kid, key). JObject [(''keyid'', JString kid),
      (''sig'', JString (of_bytes (toy_sign key ?msg)))]) ss)"
    by (simp add: toy_env_def json_access Let_def)
  moreover have "?sig \<in> set (map (\<lambda>(kid, key). JObject [(''keyid'', JString kid),
      (''sig'', JString (of_bytes (toy_sign key ?msg)))]) ss)" using assms by force
  moreover have "get_str ?sig ''keyid'' = Some kid" by (simp add: json_access)
  ultimately show ?thesis using toy_env_fields unfolding env_signed_by_iff by blast
qed

lemma toy_env_body:
  assumes "find (\<lambda>v. canonical_checked toy_base v = canonical_checked toy_base b) ds = Some b"
    "promote_jcs_integer_lexemes b = Some b" "canonical_checked toy_base b \<noteq> None" "receipt_body_valid b None"
  shows "body_of (toy_crates ds) (toy_env ss b) = Some b"
  using assms by (auto simp: body_of_iff toy_env_fields canonical_body_iff) (auto simp: toy_crates_def)

lemma toy_body_read:
  "body_of (toy_crates [toy_body]) (toy_env ss toy_body) = Some toy_body"
proof (rule toy_env_body)
  show "promote_jcs_integer_lexemes toy_body = Some toy_body" by code_simp
  show "canonical_checked toy_base toy_body \<noteq> None" by code_simp
  show "receipt_body_valid toy_body None" by code_simp
qed simp

theorem receipt_hash_of_body_witness:
  "receipt_hash_hex (toy_crates [toy_body]) (toy_env [] toy_body)
     = receipt_hash_hex (toy_crates [toy_body]) (toy_env [(''k'', [1])] toy_body)"
  using receipt_hash_of_body [OF toy_body_read toy_body_read] by auto

theorem env_signed_by_covers_witness:
  "\<exists>t raw m sg. get_str (toy_env [(''k'', [1])] toy_body) ''payloadType'' = Some t \<and>
     payload_of (toy_crates [toy_body]) (toy_env [(''k'', [1])] toy_body) = Some raw \<and>
     get_str (JObject m) ''keyid'' = Some ''k'' \<and> length sg = 64 \<and> vk_verify (toy_crates [toy_body]) [1] (pae t raw) sg"
proof -
  have "env_signed_by (toy_crates [toy_body]) (toy_env [(''k'', [1])] toy_body) ''k'' [1]"
    by (rule toy_env_signed) simp
  from env_signed_by_covers [OF this] show ?thesis by blast
qed

end
