(* ===== verification/KeyLog.thy ===== *)
theory KeyLog
  imports Receipts
begin

text \<open>
  The key log of a bundle (\<open>lib.rs\<close>): the replay of the \<open>evd.key.*\<close> receipts that introduces,
  rotates and revokes signing keys, and the predicates that read it. \<open>BTreeMap\<close>s are partial maps.
  An operation that mutates the log and returns whether it was applied is a function to the new log,
  or \<open>None\<close>; every early return of the source happens before its first mutation, so the log is then
  unchanged.
\<close>

section \<open>The code\<close>

record KeyState =
  introduced :: "u64 \<times> int"
  revoked_at :: "(u64 \<times> string) option"
  non_issuer :: bool
  recorder :: bool
  scitt :: bool

record KeyLog =
  kl_keys :: "string \<rightharpoonup> bytes"
  kl_state :: "string \<rightharpoonup> KeyState"
  kl_ok :: bool

definition KeyLog_default :: KeyLog where
  "KeyLog_default = \<lparr>kl_keys = Map.empty, kl_state = Map.empty, kl_ok = False\<rparr>"

definition is_key_body :: "json \<Rightarrow> bool" where
  "is_key_body body =
     (get_str body ''agent_id'' = Some ''_system''
      \<and> is_some_and (get_str body ''action_type'') (\<lambda>a. starts_with a ''evd.key.''))"

definition collect_key_entries :: "crates \<Rightarrow> json list \<Rightarrow> (u64 \<times> json \<times> json) list" where
  "collect_key_entries C entries =
     sort_key fst
       (List.map_filter
         (\<lambda>e. case body_of C (index e ''envelope'') of
                None \<Rightarrow> None
              | Some body \<Rightarrow>
                  if is_key_body body
                  then Some (unwrap_or 0 (get_u64 e ''leaf_index''), index e ''envelope'', body) else None)
         entries)"

definition key_entries_well_formed :: "(u64 \<times> json \<times> json) list \<Rightarrow> bool" where
  "key_entries_well_formed key_entries =
     (case key_entries of
        [] \<Rightarrow> False
      | (leaf, _, body) # _ \<Rightarrow>
          if leaf \<noteq> 0 \<or> get_str body ''action_type'' \<noteq> Some ''evd.key.created'' then False
          else list_all (\<lambda>(i, t). unwrap_or (-1) (get_i64 (snd (snd t)) ''seq'') = int i + 1)
                 (List.enumerate 0 key_entries))"

definition key_active :: "KeyLog \<Rightarrow> string \<Rightarrow> string \<Rightarrow> u64 \<Rightarrow> bool" where
  "key_active kl kid at observed_size =
     (case kl_state kl kid of
        None \<Rightarrow> False
      | Some state \<Rightarrow>
          (case utc_epoch_micros at of
             None \<Rightarrow> False
           | Some at \<Rightarrow>
               fst (introduced state) < observed_size \<and> snd (introduced state) \<le> at
               \<and> is_none_or (revoked_at state)
                   (\<lambda>(leaf, ts). observed_size \<le> leaf \<and> is_some_and (utc_epoch_micros ts) (\<lambda>revoked. at \<le> revoked))))"

definition signed_by_active_key :: "crates \<Rightarrow> json \<Rightarrow> KeyLog \<Rightarrow> string \<Rightarrow> u64 \<Rightarrow> bool \<Rightarrow> bool" where
  "signed_by_active_key C env kl ts observed_size issuer_only =
     is_some_and (get_array env ''signatures'')
       (list_ex (\<lambda>s.
          let kid = unwrap_or [] (get_str s ''keyid'') in
          (\<not> issuer_only \<or> \<not> is_some_and (kl_state kl kid) non_issuer)
          \<and> key_active kl kid ts observed_size
          \<and> env_signed_by C env kid (the (kl_keys kl kid))))"

definition key_role_ok :: "nat \<Rightarrow> string \<Rightarrow> json \<Rightarrow> bool" where
  "key_role_ok pos action ctx =
     (case get ctx ''role'' of
        None \<Rightarrow> True
      | Some JNull \<Rightarrow> True
      | Some (JString role) \<Rightarrow> pos > 0 \<and> action = ''evd.key.created'' \<and> (role = ''recorder'' \<or> role = ''scitt-issuer'')
      | _ \<Rightarrow> False)"

definition insert_key :: "KeyLog \<Rightarrow> string \<Rightarrow> bytes \<Rightarrow> KeyState \<Rightarrow> KeyLog" where
  "insert_key kl kid material st = kl\<lparr>kl_keys := (kl_keys kl)(kid \<mapsto> material), kl_state := (kl_state kl)(kid \<mapsto> st)\<rparr>"

definition apply_key_created ::
  "crates \<Rightarrow> KeyLog \<Rightarrow> nat \<Rightarrow> u64 \<Rightarrow> json \<Rightarrow> json \<Rightarrow> string \<Rightarrow> int \<Rightarrow> string \<Rightarrow> bytes \<Rightarrow> KeyLog option" where
  "apply_key_created C kl pos leaf env ctx ts effective kid material =
     (let role = get_str ctx ''role'' in
      if kl_keys kl kid \<noteq> None then None
      else
        (case (if pos = 0 then (if \<not> env_signed_by C env kid material then None else Some True)
               else if \<not> signed_by_active_key C env kl ts leaf False then None
               else Some (signed_by_active_key C env kl ts leaf True)) of
           None \<Rightarrow> None
         | Some issuer_sponsored \<Rightarrow>
             if role \<noteq> None \<and> \<not> issuer_sponsored then None
             else Some (insert_key kl kid material
                    \<lparr>introduced = (leaf, effective), revoked_at = None,
                     non_issuer = (role \<noteq> None \<or> \<not> issuer_sponsored),
                     recorder = (role = Some ''recorder''), scitt = (role = Some ''scitt-issuer'')\<rparr>)))"

definition apply_key_rotated ::
  "crates \<Rightarrow> KeyLog \<Rightarrow> u64 \<Rightarrow> json \<Rightarrow> json \<Rightarrow> json \<Rightarrow> string \<Rightarrow> int \<Rightarrow> string \<Rightarrow> bytes \<Rightarrow> KeyLog option" where
  "apply_key_rotated C kl leaf env ctx jwk ts effective kid material =
     (let prev_kid = unwrap_or [] (get_str ctx ''prev_kid''); continuity = get_str ctx ''continuity_sig'' in
      if prev_kid = [] \<or> continuity = None \<or> kl_keys kl kid \<noteq> None then None
      else if \<not> key_active kl prev_kid ts leaf then None
      else if \<not> env_signed_by C env prev_kid (the (kl_keys kl prev_kid)) then None
      else
        (case canonical_checked C jwk of
           None \<Rightarrow> None
         | Some jwk_canon \<Rightarrow>
             (case B64_decode C (the continuity) of
                None \<Rightarrow> None
              | Some cont \<Rightarrow>
                  if \<not> ed25519_verify C (the (kl_keys kl prev_kid)) jwk_canon cont then None
                  else Some (insert_key kl kid material
                         \<lparr>introduced = (leaf, effective), revoked_at = None,
                          non_issuer = is_some_and (kl_state kl prev_kid) non_issuer,
                          recorder = False, scitt = False\<rparr>))))"

definition apply_key_revoked :: "crates \<Rightarrow> KeyLog \<Rightarrow> u64 \<Rightarrow> json \<Rightarrow> json \<Rightarrow> string \<Rightarrow> string \<Rightarrow> KeyLog option" where
  "apply_key_revoked C kl leaf env ctx ts kid =
     (if kl_keys kl kid = None \<or> is_none_or (kl_state kl kid) (\<lambda>state. revoked_at state \<noteq> None) then None
      else if \<not> signed_by_active_key C env kl ts leaf False then None
      else
        (let eff = unwrap_or [] (get_str ctx ''effective_ts'') in
         if \<not> canonical_utc eff then None
         else Some (kl\<lparr>kl_state := (kl_state kl)(kid := map_option (\<lambda>st. st\<lparr>revoked_at := Some (leaf, eff)\<rparr>) (kl_state kl kid))\<rparr>)))"

text \<open>One iteration of the replay loop; \<open>None\<close> is the early \<open>return kl\<close>.\<close>

definition replay_step :: "crates \<Rightarrow> KeyLog \<Rightarrow> nat \<Rightarrow> u64 \<times> json \<times> json \<Rightarrow> KeyLog option" where
  "replay_step C kl pos entry =
     (case entry of (leaf, env, body) \<Rightarrow>
        let action = unwrap_or [] (get_str body ''action_type'');
            ctx = index body ''context'' in
        if \<not> key_role_ok pos action ctx then None
        else
          (let jwk = index ctx ''jwk''; ts = unwrap_or [] (get_str body ''ts_server'') in
           case Option.bind (get_str ctx ''effective_ts'') utc_epoch_micros of
             None \<Rightarrow> None
           | Some effective \<Rightarrow>
               if \<not> canonical_utc ts then None
               else
                 (case key_from_jwk C jwk of
                    None \<Rightarrow> None
                  | Some (material, kid) \<Rightarrow>
                      if action = ''evd.key.created'' then apply_key_created C kl pos leaf env ctx ts effective kid material
                      else if action = ''evd.key.rotated'' then apply_key_rotated C kl leaf env ctx jwk ts effective kid material
                      else if action = ''evd.key.revoked'' then apply_key_revoked C kl leaf env ctx ts kid
                      else None)))"

fun replay_loop :: "crates \<Rightarrow> KeyLog \<Rightarrow> nat \<Rightarrow> (u64 \<times> json \<times> json) list \<Rightarrow> KeyLog" where
  "replay_loop C kl pos [] = kl\<lparr>kl_ok := True\<rparr>"
| "replay_loop C kl pos (entry # entries) =
     (case replay_step C kl pos entry of
        None \<Rightarrow> kl
      | Some kl' \<Rightarrow> replay_loop C kl' (pos + 1) entries)"

definition replay_key_log :: "crates \<Rightarrow> json list \<Rightarrow> KeyLog" where
  "replay_key_log C entries =
     (let key_entries = collect_key_entries C entries in
      if \<not> key_entries_well_formed key_entries then KeyLog_default
      else replay_loop C KeyLog_default 0 key_entries)"


section \<open>Guarded replays\<close>

text \<open>
  A loop that applies one guarded step per entry and stops at the first refusal. What every step keeps
  the loop keeps, and what every step extends the loop extends.
\<close>

locale guarded_replay =
  fixes step :: "'s \<Rightarrow> nat \<Rightarrow> 'e \<Rightarrow> 's option"
    and loop :: "'s \<Rightarrow> nat \<Rightarrow> 'e list \<Rightarrow> 's"
    and finish :: "'s \<Rightarrow> 's"
    and inv :: "'s \<Rightarrow> bool"
    and le :: "'s \<Rightarrow> 's \<Rightarrow> bool"
  assumes loop_Nil: "loop s n [] = finish s"
    and loop_Cons: "loop s n (e # es) = (case step s n e of None \<Rightarrow> s | Some s' \<Rightarrow> loop s' (n + 1) es)"
    and inv_step: "inv s \<Longrightarrow> step s n e = Some s' \<Longrightarrow> inv s'"
    and inv_finish: "inv s \<Longrightarrow> inv (finish s)"
    and le_refl: "le s s"
    and le_trans: "le s t \<Longrightarrow> le t u \<Longrightarrow> le s u"
    and le_step: "inv s \<Longrightarrow> step s n e = Some s' \<Longrightarrow> le s s'"
    and le_finish: "le s (finish s)"
begin

lemma loop_inv: "inv s \<Longrightarrow> inv (loop s n es)"
  by (induction es arbitrary: s n) (auto simp: loop_Nil loop_Cons inv_finish split: option.splits dest: inv_step)

lemma loop_le: "inv s \<Longrightarrow> le s (loop s n es)"
proof (induction es arbitrary: s n)
  case (Cons e es)
  show ?case
  proof (cases "step s n e")
    case (Some s')
    then show ?thesis using Cons.IH [of s' "n + 1"] inv_step [OF Cons.prems Some] le_step [OF Cons.prems Some]
      by (auto simp: loop_Cons intro: le_trans)
  qed (simp add: loop_Cons le_refl)
qed (simp add: loop_Nil le_finish)

text \<open>Running a prefix of the entries first gives a state that the whole run extends.\<close>

lemma loop_prefix_le:
  "inv s \<Longrightarrow> loop s n (es @ fs) = t \<Longrightarrow> \<exists>u. (u = loop s n es \<or> finish u = loop s n es) \<and> inv u \<and> le u t"
proof (induction es arbitrary: s n)
  case Nil
  then show ?case using loop_le [of s n fs] by (auto simp: loop_Nil)
next
  case (Cons e es)
  show ?case
  proof (cases "step s n e")
    case None
    then show ?thesis using Cons.prems by (auto simp: loop_Cons le_refl)
  next
    case (Some s')
    then show ?thesis using Cons.IH [of s' "n + 1"] Cons.prems inv_step [OF Cons.prems(1) Some]
      by (simp add: loop_Cons)
  qed
qed

end

section \<open>What every step keeps\<close>

definition bound_kid :: "crates \<Rightarrow> bytes \<Rightarrow> string" where
  "bound_kid C key = take 16 (URL_SAFE_NO_PAD_encode C (Sha256 C key))"

definition log_inv :: "crates \<Rightarrow> KeyLog \<Rightarrow> bool" where
  "log_inv C kl \<longleftrightarrow> dom (kl_keys kl) = dom (kl_state kl) \<and>
     (\<forall>kid key. kl_keys kl kid = Some key \<longrightarrow> length key = 32 \<and> kid = bound_kid C key) \<and>
     (\<forall>kid st. kl_state kl kid = Some st \<longrightarrow>
        (recorder st \<or> scitt st \<longrightarrow> non_issuer st) \<and> \<not> (recorder st \<and> scitt st) \<and>
        (\<forall>leaf ts. revoked_at st = Some (leaf, ts) \<longrightarrow> canonical_utc ts))"

definition same_role :: "KeyState \<Rightarrow> KeyState \<Rightarrow> bool" where
  "same_role a b \<longleftrightarrow> introduced a = introduced b \<and> non_issuer a = non_issuer b \<and> recorder a = recorder b \<and> scitt a = scitt b"

definition log_extends :: "KeyLog \<Rightarrow> KeyLog \<Rightarrow> bool" where
  "log_extends kl kl' \<longleftrightarrow> kl_keys kl \<subseteq>\<^sub>m kl_keys kl' \<and>
     (\<forall>kid st. kl_state kl kid = Some st \<longrightarrow>
        (\<exists>st'. kl_state kl' kid = Some st' \<and> same_role st st' \<and>
           (revoked_at st \<noteq> None \<longrightarrow> revoked_at st' = revoked_at st)))"

lemma log_extends_refl: "log_extends kl kl"
  by (auto simp: log_extends_def same_role_def)

lemma log_extends_trans: "log_extends a b \<Longrightarrow> log_extends b c \<Longrightarrow> log_extends a c"
  by (fastforce simp: log_extends_def same_role_def intro: map_le_trans)

lemma insert_key_inv:
  assumes "log_inv C kl" "length material = 32" "kid = bound_kid C material"
    and "recorder st \<or> scitt st \<longrightarrow> non_issuer st" "\<not> (recorder st \<and> scitt st)" "revoked_at st = None"
  shows "log_inv C (insert_key kl kid material st)"
  using assms by (auto simp: log_inv_def insert_key_def)

lemma insert_key_extends:
  assumes "log_inv C kl" "kl_keys kl kid = None"
  shows "log_extends kl (insert_key kl kid material st)"
proof -
  have "kl_state kl kid = None" using assms unfolding log_inv_def by (metis domIff)
  then show ?thesis using assms(2)
    by (auto simp: log_extends_def insert_key_def same_role_def map_le_def)
qed

lemma key_from_jwk_kid: "key_from_jwk C jwk = Some (k, kid) \<Longrightarrow> length k = 32 \<and> kid = bound_kid C k"
  by (auto simp: key_from_jwk_def jwk_raw_key_def sha256_def bound_kid_def Let_def
      split: option.splits if_splits json.splits)

text \<open>What an applied step is: one of the three transitions, on a key whose id its material fixes.\<close>

lemma replay_step_cases:
  assumes "replay_step C kl pos (leaf, env, body) = Some kl'"
  obtains ctx ts effective material kid where
    "ctx = index body ''context''" "get_str body ''ts_server'' = Some ts" "canonical_utc ts"
    "Option.bind (get_str ctx ''effective_ts'') utc_epoch_micros = Some effective"
    "key_from_jwk C (index ctx ''jwk'') = Some (material, kid)"
    "key_role_ok pos (unwrap_or [] (get_str body ''action_type'')) ctx"
    "get_str body ''action_type'' = Some ''evd.key.created'' \<and>
       apply_key_created C kl pos leaf env ctx ts effective kid material = Some kl' \<or>
     get_str body ''action_type'' = Some ''evd.key.rotated'' \<and>
       apply_key_rotated C kl leaf env ctx (index ctx ''jwk'') ts effective kid material = Some kl' \<or>
     get_str body ''action_type'' = Some ''evd.key.revoked'' \<and> apply_key_revoked C kl leaf env ctx ts kid = Some kl'"
proof -
  have e: "\<not> canonical_utc []" by (simp add: canonical_utc_def)
  obtain ts where ts: "unwrap_or [] (get_str body ''ts_server'') = ts" by simp
  have "canonical_utc ts" using assms ts by (auto simp: replay_step_def Let_def split: option.splits if_splits)
  with ts e have t: "get_str body ''ts_server'' = Some ts" "canonical_utc ts"
    by (cases "get_str body ''ts_server''"; auto)+
  show thesis
    using assms that [of "index body ''context''" ts] t
    by (cases "get_str body ''action_type''")
       (auto simp: replay_step_def Let_def split: option.splits if_splits prod.splits)
qed


lemma apply_key_created_Some:
  assumes "apply_key_created C kl pos leaf env ctx ts effective kid material = Some kl'"
  obtains sponsored where "kl_keys kl kid = None"
    "if pos = 0 then sponsored \<and> env_signed_by C env kid material
     else signed_by_active_key C env kl ts leaf False \<and> sponsored = signed_by_active_key C env kl ts leaf True"
    "get_str ctx ''role'' \<noteq> None \<longrightarrow> sponsored"
    "kl' = insert_key kl kid material
       \<lparr>introduced = (leaf, effective), revoked_at = None, non_issuer = (get_str ctx ''role'' \<noteq> None \<or> \<not> sponsored),
        recorder = (get_str ctx ''role'' = Some ''recorder''), scitt = (get_str ctx ''role'' = Some ''scitt-issuer'')\<rparr>"
  using assms that by (auto simp: apply_key_created_def Let_def split: if_splits option.splits)

lemma apply_key_rotated_Some:
  assumes "apply_key_rotated C kl leaf env ctx jwk ts effective kid material = Some kl'"
  obtains prev canon cont where "kl_keys kl kid = None" "get_str ctx ''prev_kid'' = Some prev" "key_active kl prev ts leaf"
    "env_signed_by C env prev (the (kl_keys kl prev))" "canonical_checked C jwk = Some canon"
    "Option.bind (get_str ctx ''continuity_sig'') (B64_decode C) = Some cont"
    "ed25519_verify C (the (kl_keys kl prev)) canon cont"
    "kl' = insert_key kl kid material
       \<lparr>introduced = (leaf, effective), revoked_at = None, non_issuer = is_some_and (kl_state kl prev) non_issuer,
        recorder = False, scitt = False\<rparr>"
  using assms that
  by (cases "get_str ctx ''prev_kid''") (auto simp: apply_key_rotated_def Let_def split: if_splits option.splits)

lemma apply_key_revoked_Some:
  assumes "apply_key_revoked C kl leaf env ctx ts kid = Some kl'"
  obtains st eff where "kl_state kl kid = Some st" "revoked_at st = None" "signed_by_active_key C env kl ts leaf False"
    "get_str ctx ''effective_ts'' = Some eff" "canonical_utc eff"
    "kl' = kl\<lparr>kl_state := (kl_state kl)(kid \<mapsto> st\<lparr>revoked_at := Some (leaf, eff)\<rparr>)\<rparr>"
proof -
  have e: "\<not> canonical_utc []" by (simp add: canonical_utc_def)
  let ?eff = "unwrap_or [] (get_str ctx ''effective_ts'')"
  have c: "is_some_and (kl_state kl kid) (\<lambda>st. revoked_at st = None)" "signed_by_active_key C env kl ts leaf False"
    "canonical_utc ?eff"
    "kl' = kl\<lparr>kl_state := (kl_state kl)(kid := map_option (\<lambda>st. st\<lparr>revoked_at := Some (leaf, ?eff)\<rparr>) (kl_state kl kid))\<rparr>"
    using assms by (auto simp: apply_key_revoked_def Let_def is_none_or_def is_some_and_def split: if_splits option.splits)
       (metis not_None_eq surj_pair)
  obtain st where st: "kl_state kl kid = Some st" "revoked_at st = None" using c(1) by (auto simp: is_some_and_iff)
  obtain eff where "get_str ctx ''effective_ts'' = Some eff" using c(3) e by (cases "get_str ctx ''effective_ts''") auto
  then show thesis using that [OF st c(2)] c(3,4) st(1) by simp
qed

lemma replay_step_inv:
  assumes inv: "log_inv C kl" and s: "replay_step C kl pos e = Some kl'"
  shows "log_inv C kl' \<and> log_extends kl kl'"
proof -
  obtain leaf env body where e: "e = (leaf, env, body)" by (cases e) auto
  from s [unfolded e] obtain ctx ts effective material kid where
    k: "key_from_jwk C (index ctx ''jwk'') = Some (material, kid)" and
    t: "(apply_key_created C kl pos leaf env ctx ts effective kid material = Some kl' \<or>
     apply_key_rotated C kl leaf env ctx (index ctx ''jwk'') ts effective kid material = Some kl') \<or>
     apply_key_revoked C kl leaf env ctx ts kid = Some kl'"
    by (rule replay_step_cases) blast
  note kid = key_from_jwk_kid [OF k]
  have ins: "log_inv C (insert_key kl kid material st) \<and> log_extends kl (insert_key kl kid material st)"
    if "kl_keys kl kid = None" "recorder st \<or> scitt st \<longrightarrow> non_issuer st" "\<not> (recorder st \<and> scitt st)" "revoked_at st = None" for st
    using insert_key_inv [OF inv] insert_key_extends [OF inv that(1)] kid that by simp
  from t show ?thesis
  proof (elim disjE)
    assume "apply_key_created C kl pos leaf env ctx ts effective kid material = Some kl'"
    then show ?thesis by (rule apply_key_created_Some) (use ins in auto)
  next
    assume "apply_key_rotated C kl leaf env ctx (index ctx ''jwk'') ts effective kid material = Some kl'"
    then show ?thesis by (rule apply_key_rotated_Some) (use ins in auto)
  next
    assume "apply_key_revoked C kl leaf env ctx ts kid = Some kl'"
    then show ?thesis
    proof (rule apply_key_revoked_Some)
      fix st eff assume st: "kl_state kl kid = Some st" "revoked_at st = None" "canonical_utc eff"
        and kl': "kl' = kl\<lparr>kl_state := (kl_state kl)(kid \<mapsto> st\<lparr>revoked_at := Some (leaf, eff)\<rparr>)\<rparr>"
      have "kid \<in> dom (kl_keys kl)" using inv st(1) unfolding log_inv_def by blast
      then have "log_inv C kl'" using inv st unfolding log_inv_def kl' by (auto simp: insert_absorb)
      moreover have "log_extends kl kl'" using st by (auto simp: log_extends_def same_role_def kl')
      ultimately show ?thesis ..
    qed
  qed
qed

lemma default_inv: "log_inv C KeyLog_default"
  by (simp add: log_inv_def KeyLog_default_def)

interpretation replay: guarded_replay "replay_step C" "replay_loop C" "\<lambda>kl. kl\<lparr>kl_ok := True\<rparr>" "log_inv C" log_extends for C
proof unfold_locales
  fix s :: KeyLog
  show "log_inv C s \<Longrightarrow> log_inv C (s\<lparr>kl_ok := True\<rparr>)" by (simp add: log_inv_def)
  show "log_extends s (s\<lparr>kl_ok := True\<rparr>)" by (auto simp: log_extends_def same_role_def)
  show "replay_loop C s n (e # es) = (case replay_step C s n e of None \<Rightarrow> s | Some s' \<Rightarrow> replay_loop C s' (n + 1) es)"
    for n e es by simp
  show "log_extends s t \<Longrightarrow> log_extends t u \<Longrightarrow> log_extends s u" for t u by (rule log_extends_trans)
  show "log_inv C s \<Longrightarrow> replay_step C s n e = Some s' \<Longrightarrow> log_inv C s'"
    "log_inv C s \<Longrightarrow> replay_step C s n e = Some s' \<Longrightarrow> log_extends s s'" for n e s'
    using replay_step_inv by blast+
qed (simp_all add: log_extends_refl)


section \<open>Reading the log\<close>

definition issuer :: "KeyLog \<Rightarrow> string \<Rightarrow> bool" where
  "issuer kl kid = is_some_and (kl_state kl kid) (\<lambda>st. \<not> non_issuer st)"

lemma signed_by_active_key_iff:
  assumes "log_inv C kl"
  shows "signed_by_active_key C env kl ts observed io \<longleftrightarrow>
    (\<exists>kid key. kl_keys kl kid = Some key \<and> key_active kl kid ts observed \<and> (io \<longrightarrow> issuer kl kid) \<and> env_signed_by C env kid key)"
    (is "?L \<longleftrightarrow> ?R")
proof
  assume ?L
  then obtain kid where k: "io \<longrightarrow> \<not> is_some_and (kl_state kl kid) non_issuer" "key_active kl kid ts observed"
    "env_signed_by C env kid (the (kl_keys kl kid))"
    by (auto simp: signed_by_active_key_def is_some_and_iff list_ex_iff Let_def)
  from k(2) obtain st where st: "kl_state kl kid = Some st" by (auto simp: key_active_def split: option.splits)
  then have "kid \<in> dom (kl_keys kl)" using assms unfolding log_inv_def by blast
  then obtain key where "kl_keys kl kid = Some key" by blast
  with k st show ?R by (intro exI [of _ kid] exI [of _ key]) (auto simp: issuer_def)
next
  assume ?R
  then obtain kid key where k: "kl_keys kl kid = Some key" "key_active kl kid ts observed" "io \<longrightarrow> issuer kl kid"
    "env_signed_by C env kid key" by blast
  then obtain sigs sig where s: "get_array env ''signatures'' = Some sigs" "sig \<in> set sigs" "get_str sig ''keyid'' = Some kid"
    unfolding env_signed_by_iff by blast
  with k have "\<exists>s \<in> set sigs. let kid = unwrap_or [] (get_str s ''keyid'') in
          (\<not> io \<or> \<not> is_some_and (kl_state kl kid) non_issuer) \<and> key_active kl kid ts observed
          \<and> env_signed_by C env kid (the (kl_keys kl kid))"
    by (intro bexI [OF _ s(2)]) (auto simp: issuer_def is_some_and_iff)
  with s(1) show ?L by (simp add: signed_by_active_key_def list_ex_iff)
qed

lemma key_active_extends:
  assumes "log_extends kl kl'" "kl_state kl kid = Some st" "revoked_at st = Some (leaf, ts)" "key_active kl' kid at observed"
  shows "observed \<le> leaf \<and> (\<exists>i j. utc_epoch_micros at = Some i \<and> utc_epoch_micros ts = Some j \<and> i \<le> j)"
proof -
  obtain st' where "kl_state kl' kid = Some st'" "revoked_at st' = Some (leaf, ts)"
    using assms(1-3) unfolding log_extends_def by fastforce
  then show ?thesis using assms(4) by (auto simp: key_active_def is_some_and_iff split: option.splits)
qed

section \<open>Properties\<close>

lemma replayed_inv: "log_inv C (replay_key_log C entries)"
  using replay.loop_inv [OF default_inv] default_inv by (simp add: replay_key_log_def Let_def)

text \<open>
  Every key log the replay returns, whether or not it was accepted, is well formed: keys and states
  have the same key ids, so no lookup of the code can fail on an active key; every key has 32 bytes and
  is stored under the id its material determines; a recorder or SCITT key is never an issuer and no key
  is both; and every revocation time is canonical.
\<close>

theorem replay_key_log_inv: "log_inv C (replay_key_log C entries)"
  by (rule replayed_inv)

text \<open>
  C6: custody. When an entry of the replay makes a key an issuer, it is the first entry and the key
  signed its own introduction, or a key that is already an issuer, active at the entry's time and
  position, signed the entry: no sequence of entries lets a non-issuer key create or rotate to an issuer.
\<close>

theorem issuer_custody:
  assumes inv: "log_inv C kl" and s: "replay_step C kl pos (leaf, env, body) = Some kl'"
    and new: "issuer kl' kid" "\<not> issuer kl kid"
  shows "kl_keys kl kid = None \<and> (\<exists>key. kl_keys kl' kid = Some key \<and>
    (pos = 0 \<and> env_signed_by C env kid key \<or>
     (\<exists>sponsor key' ts. issuer kl sponsor \<and> kl_keys kl sponsor = Some key' \<and> get_str body ''ts_server'' = Some ts \<and>
        key_active kl sponsor ts leaf \<and> env_signed_by C env sponsor key')))"
proof -
  from s obtain ctx ts effective material k where
    ts: "get_str body ''ts_server'' = Some ts" and
    t: "(apply_key_created C kl pos leaf env ctx ts effective k material = Some kl' \<or>
     apply_key_rotated C kl leaf env ctx (index ctx ''jwk'') ts effective k material = Some kl') \<or>
     apply_key_revoked C kl leaf env ctx ts k = Some kl'"
    by (rule replay_step_cases) blast
  have ins: "kid = k \<and> \<not> non_issuer st" if "kl' = insert_key kl k material st" for st
    using new that by (auto simp: issuer_def insert_key_def split: if_splits)
  from t show ?thesis
  proof (elim disjE)
    assume "apply_key_created C kl pos leaf env ctx ts effective k material = Some kl'"
    then show ?thesis
    proof (rule apply_key_created_Some)
      fix sponsored
      assume a: "kl_keys kl k = None" "if pos = 0 then sponsored \<and> env_signed_by C env k material
         else signed_by_active_key C env kl ts leaf False \<and> sponsored = signed_by_active_key C env kl ts leaf True"
        and kl': "kl' = insert_key kl k material
       \<lparr>introduced = (leaf, effective), revoked_at = None, non_issuer = (get_str ctx ''role'' \<noteq> None \<or> \<not> sponsored),
        recorder = (get_str ctx ''role'' = Some ''recorder''), scitt = (get_str ctx ''role'' = Some ''scitt-issuer'')\<rparr>"
      have k: "kid = k" "sponsored" using ins [OF kl'] by auto
      have "pos \<noteq> 0 \<Longrightarrow> signed_by_active_key C env kl ts leaf True" using a(2) k by simp
      with a k ts show ?thesis unfolding signed_by_active_key_iff [OF inv]
        by (auto simp: kl' insert_key_def split: if_splits)
    qed
  next
    assume "apply_key_rotated C kl leaf env ctx (index ctx ''jwk'') ts effective k material = Some kl'"
    then show ?thesis
    proof (rule apply_key_rotated_Some)
      fix prev canon cont
      assume a: "kl_keys kl k = None" "key_active kl prev ts leaf" "env_signed_by C env prev (the (kl_keys kl prev))"
        and kl': "kl' = insert_key kl k material
       \<lparr>introduced = (leaf, effective), revoked_at = None, non_issuer = is_some_and (kl_state kl prev) non_issuer,
        recorder = False, scitt = False\<rparr>"
      from a(2) obtain st where st: "kl_state kl prev = Some st" by (auto simp: key_active_def split: option.splits)
      then have "prev \<in> dom (kl_keys kl)" using inv unfolding log_inv_def by blast
      with a st ts ins [OF kl'] show ?thesis by (auto simp: kl' insert_key_def issuer_def)
    qed
  next
    assume "apply_key_revoked C kl leaf env ctx ts k = Some kl'"
    then show ?thesis
      by (rule apply_key_revoked_Some) (use new in \<open>auto simp: issuer_def is_some_and_iff split: if_splits\<close>)
  qed
qed

text \<open>
  C7: revocation and roles are final. Whatever entries follow, the log that the loop ends with keeps
  every key, its introduction and its roles, and a key revoked before them is active, in that log, only
  for tree sizes up to the revoking leaf and times up to the revocation's effective time.
\<close>

theorem revocation_final:
  assumes "log_inv C kl" "kl_state kl kid = Some st" "revoked_at st = Some (leaf, ts)"
  shows "let kl' = replay_loop C kl pos entries in
    log_extends kl kl' \<and>
    (\<forall>at observed. key_active kl' kid at observed \<longrightarrow>
       observed \<le> leaf \<and> (\<exists>i j. utc_epoch_micros at = Some i \<and> utc_epoch_micros ts = Some j \<and> i \<le> j))"
  using key_active_extends [OF replay.loop_le [OF assms(1)] assms(2,3)] replay.loop_le [OF assms(1)]
  by (auto simp: Let_def)


text \<open>A genesis key and a second key that it sponsors.\<close>

definition toy_kid :: "char \<Rightarrow> string" where
  "toy_kid c = replicate 16 c"

definition toy_key_jwk :: "char \<Rightarrow> json" where
  "toy_key_jwk c = JObject [(''crv'', JString ''Ed25519''), (''kty'', JString ''OKP''), (''x'', JString (replicate 32 c))]"

definition toy_key_context :: "char \<Rightarrow> json" where
  "toy_key_context c = JObject [(''effective_ts'', JString ''2024-01-01T00:00:00Z''), (''jwk'', toy_key_jwk c)]"

definition toy_key_body :: "u64 \<Rightarrow> char \<Rightarrow> json" where
  "toy_key_body n c = toy_receipt ''evd.key.created'' ''_system'' n (toy_key_context c)"

definition toy_key_state :: "u64 \<Rightarrow> (u64 \<times> string) option \<Rightarrow> KeyState" where
  "toy_key_state leaf revoked =
     \<lparr>introduced = (leaf, 1704067200000000), revoked_at = revoked, non_issuer = False, recorder = False, scitt = False\<rparr>"

definition toy_log :: "(u64 \<times> string) option \<Rightarrow> KeyLog" where
  "toy_log revoked = insert_key KeyLog_default (toy_kid CHR 0x20) (replicate 32 0x61) (toy_key_state 0 revoked)"

lemma toy_key_facts:
  "utc_epoch_micros ''2024-01-01T00:00:00Z'' = Some 1704067200000000"
  "canonical_utc ''2024-01-01T00:00:00Z''"
  "key_from_jwk (toy_crates []) (toy_key_jwk CHR ''b'') = Some (replicate 32 0x62, toy_kid CHR ''@'')"
  "bound_kid (toy_crates []) (replicate 32 0x61) = toy_kid CHR 0x20"
  by code_simp+

lemma toy_log_inv:
  assumes "\<And>leaf ts. revoked = Some (leaf, ts) \<Longrightarrow> canonical_utc ts"
  shows "log_inv (toy_crates []) (toy_log revoked)"
  using assms toy_key_facts(4)
  by (simp add: log_inv_def toy_log_def insert_key_def KeyLog_default_def toy_key_state_def)

lemma toy_sponsored_step:
  "replay_step (toy_crates []) (toy_log None) 1
     (1, toy_env [(toy_kid CHR 0x20, replicate 32 0x61)] (toy_key_body 2 CHR ''b''), toy_key_body 2 CHR ''b'')
   = Some (insert_key (toy_log None) (toy_kid CHR ''@'') (replicate 32 0x62) (toy_key_state 1 None))"
proof -
  let ?env = "toy_env [(toy_kid CHR 0x20, replicate 32 0x61)] (toy_key_body 2 CHR ''b'')"
  have inv: "log_inv (toy_crates []) (toy_log None)" by (rule toy_log_inv) simp
  have active: "key_active (toy_log None) (toy_kid CHR 0x20) ''2024-01-01T00:00:00Z'' 1"
    by (simp add: key_active_def toy_log_def insert_key_def toy_key_facts toy_key_state_def)
  have key: "kl_keys (toy_log None) (toy_kid CHR 0x20) = Some (replicate 32 0x61)" "issuer (toy_log None) (toy_kid CHR 0x20)"
    by (simp_all add: toy_log_def insert_key_def issuer_def toy_key_state_def)
  have new: "kl_keys (toy_log None) (toy_kid CHR ''@'') = None"
    by (simp add: toy_log_def insert_key_def KeyLog_default_def toy_kid_def numeral_eq_Suc)
  have signed: "signed_by_active_key (toy_crates []) ?env (toy_log None) ''2024-01-01T00:00:00Z'' 1 io" for io
    unfolding signed_by_active_key_iff [OF inv] using active key toy_env_signed by force
  have fields: "get_str (toy_key_body 2 CHR ''b'') ''action_type'' = Some ''evd.key.created''"
    "index (toy_key_body 2 CHR ''b'') ''context'' = toy_key_context CHR ''b''"
    "get_str (toy_key_body 2 CHR ''b'') ''ts_server'' = Some ''2024-01-01T00:00:00Z''"
    "index (toy_key_context CHR ''b'') ''jwk'' = toy_key_jwk CHR ''b''" "get (toy_key_context CHR ''b'') ''role'' = None"
    "get_str (toy_key_context CHR ''b'') ''effective_ts'' = Some ''2024-01-01T00:00:00Z''"
    "get_str (toy_key_context CHR ''b'') ''role'' = None"
    by (simp_all add: toy_key_body_def toy_receipt_def toy_key_context_def json_access)
  show ?thesis
    by (simp add: replay_step_def fields key_role_ok_def toy_key_facts apply_key_created_def new signed toy_key_state_def)
qed

theorem issuer_custody_witness:
  "\<exists>sponsor. issuer (toy_log None) sponsor \<and> key_active (toy_log None) sponsor ''2024-01-01T00:00:00Z'' 1"
proof -
  have inv: "log_inv (toy_crates []) (toy_log None)" by (rule toy_log_inv) simp
  have new: "issuer (insert_key (toy_log None) (toy_kid CHR ''@'') (replicate 32 0x62) (toy_key_state 1 None)) (toy_kid CHR ''@'')"
    "\<not> issuer (toy_log None) (toy_kid CHR ''@'')"
    by (simp_all add: issuer_def insert_key_def toy_key_state_def toy_log_def KeyLog_default_def toy_kid_def numeral_eq_Suc)
  from issuer_custody [OF inv toy_sponsored_step new] show ?thesis
    by (auto simp: toy_key_body_def toy_receipt_def json_access)
qed

theorem revocation_final_witness:
  "\<not> key_active (replay_loop (toy_crates []) (toy_log (Some (2, ''2024-01-01T00:00:00Z''))) 1 []) (toy_kid CHR 0x20)
      ''2024-01-01T00:00:00Z'' 3"
proof -
  have inv: "log_inv (toy_crates []) (toy_log (Some (2, ''2024-01-01T00:00:00Z'')))"
    by (rule toy_log_inv) (simp add: toy_key_facts)
  have st: "kl_state (toy_log (Some (2, ''2024-01-01T00:00:00Z''))) (toy_kid CHR 0x20)
      = Some (toy_key_state 0 (Some (2, ''2024-01-01T00:00:00Z'')))" by (simp add: toy_log_def insert_key_def)
  have "\<not> (3 :: u64) \<le> 2" by simp
  moreover have r: "revoked_at (toy_key_state 0 (Some (2, ''2024-01-01T00:00:00Z''))) = Some (2, ''2024-01-01T00:00:00Z'')"
    by (simp add: toy_key_state_def)
  ultimately show ?thesis using revocation_final [OF inv st r, of 1 "[]"] unfolding Let_def by blast
qed

end
