(* ===== verification/Merkle.thy ===== *)
theory Merkle
  imports Prelude
begin

text \<open>
  \<open>verify-rs/src/merkle.rs\<close>: verification of RFC 9162 inclusion and consistency proofs.
  SHA-256 is the parameter \<open>sha\<close>. The mapped definitions work on 64-bit words exactly as the
  code does; the second half gives the RFC's tree (\<open>mth\<close>), the honest proofs
  (\<open>audit_path\<close>, \<open>consistency_path\<close>) and proves the verifier complete and sound against them.
\<close>

section \<open>The code\<close>

definition node :: "(bytes \<Rightarrow> bytes) \<Rightarrow> bytes \<Rightarrow> bytes \<Rightarrow> bytes" where
  "node sha l r = sha (0x01 # l @ r)"

definition lsb :: "u64 \<Rightarrow> bool" where
  "lsb n = (n AND 1 = 1)"

text \<open>\<open>while !lsb(fnn) && fnn != 0 { fnn >>= 1; sn >>= 1; }\<close>\<close>

function skip_even :: "u64 \<Rightarrow> u64 \<Rightarrow> u64 \<times> u64" where
  "skip_even fnn sn =
     (if \<not> lsb fnn \<and> fnn \<noteq> 0 then skip_even (drop_bit 1 fnn) (drop_bit 1 sn) else (fnn, sn))"
  by pat_completeness auto
termination
  by (relation "measure (\<lambda>(fnn, sn). unat fnn)") (auto simp: width_simps intro!: div_less_dividend)

text \<open>\<open>while lsb(fnn) { fnn >>= 1; sn >>= 1; }\<close>\<close>

function skip_odd :: "u64 \<Rightarrow> u64 \<Rightarrow> u64 \<times> u64" where
  "skip_odd fnn sn =
     (if lsb fnn then skip_odd (drop_bit 1 fnn) (drop_bit 1 sn) else (fnn, sn))"
  by pat_completeness auto
termination
proof (relation "measure (\<lambda>(fnn, sn). unat fnn)")
  fix fnn sn :: u64
  assume "lsb fnn"
  then have "fnn \<noteq> 0" by (auto simp: lsb_def)
  then show "((drop_bit 1 fnn, drop_bit 1 sn), fnn, sn) \<in> measure (\<lambda>(fnn, sn). unat fnn)"
    by (auto simp: width_simps intro!: div_less_dividend)
qed simp

text \<open>The \<open>for p in proof\<close> loop of \<open>verify_inclusion\<close>; \<open>None\<close> is its early \<open>return false\<close>.\<close>

fun inclusion_loop :: "(bytes \<Rightarrow> bytes) \<Rightarrow> u64 \<Rightarrow> u64 \<Rightarrow> bytes \<Rightarrow> bytes list \<Rightarrow> (u64 \<times> bytes) option" where
  "inclusion_loop sha fnn sn r [] = Some (sn, r)"
| "inclusion_loop sha fnn sn r (p # ps) =
     (if sn = 0 then None
      else if lsb fnn \<or> fnn = sn then
        (let r' = node sha p r;
             (fnn', sn') = (if \<not> lsb fnn then skip_even fnn sn else (fnn, sn))
         in inclusion_loop sha (drop_bit 1 fnn') (drop_bit 1 sn') r' ps)
      else inclusion_loop sha (drop_bit 1 fnn) (drop_bit 1 sn) (node sha r p) ps)"

definition verify_inclusion ::
  "(bytes \<Rightarrow> bytes) \<Rightarrow> bytes \<Rightarrow> u64 \<Rightarrow> u64 \<Rightarrow> bytes list \<Rightarrow> bytes \<Rightarrow> bool" where
  "verify_inclusion sha leaf_hash leaf_index tree_size path root =
     (if leaf_index \<ge> tree_size \<or> length leaf_hash \<noteq> 32 then False
      else (case inclusion_loop sha leaf_index (tree_size - 1) leaf_hash path of
              None \<Rightarrow> False
            | Some (sn, r) \<Rightarrow> sn = 0 \<and> r = root))"

text \<open>The seed, together with what is left of the proof iterator.\<close>

definition consistency_seed :: "u64 \<Rightarrow> bytes \<Rightarrow> bytes list \<Rightarrow> (bytes \<times> bytes list) option" where
  "consistency_seed fnn first_root it =
     (if fnn \<noteq> 0 then (case it of [] \<Rightarrow> None | p # ps \<Rightarrow> Some (p, ps))
      else if length first_root \<noteq> 32 then None
      else Some (first_root, it))"

text \<open>The four variables the step mutates, in the order of its parameters.\<close>

definition consistency_step ::
  "(bytes \<Rightarrow> bytes) \<Rightarrow> bytes \<Rightarrow> u64 \<times> u64 \<times> bytes \<times> bytes \<Rightarrow> (u64 \<times> u64 \<times> bytes \<times> bytes) option" where
  "consistency_step sha c = (\<lambda>(fnn, sn, fr, sr).
     if sn = 0 then None
     else if lsb fnn \<or> fnn = sn then
       (let fr' = node sha c fr; sr' = node sha c sr;
            (fnn', sn') = (if \<not> lsb fnn then skip_even fnn sn else (fnn, sn))
        in Some (drop_bit 1 fnn', drop_bit 1 sn', fr', sr'))
     else Some (drop_bit 1 fnn, drop_bit 1 sn, fr, node sha sr c))"

fun consistency_loop ::
  "(bytes \<Rightarrow> bytes) \<Rightarrow> bytes list \<Rightarrow> u64 \<times> u64 \<times> bytes \<times> bytes \<Rightarrow> (u64 \<times> u64 \<times> bytes \<times> bytes) option" where
  "consistency_loop sha [] s = Some s"
| "consistency_loop sha (c # cs) s =
     (case consistency_step sha c s of None \<Rightarrow> None | Some s' \<Rightarrow> consistency_loop sha cs s')"

definition verify_consistency ::
  "(bytes \<Rightarrow> bytes) \<Rightarrow> u64 \<Rightarrow> u64 \<Rightarrow> bytes \<Rightarrow> bytes \<Rightarrow> bytes list \<Rightarrow> bool" where
  "verify_consistency sha first second first_root second_root path =
     (if first > second \<or> first = 0 then False
      else if first = second then path = [] \<and> first_root = second_root
      else (case skip_odd (first - 1) (second - 1) of (fnn, sn) \<Rightarrow>
        (case consistency_seed fnn first_root path of
           None \<Rightarrow> False
         | Some (seed, it) \<Rightarrow>
             (case consistency_loop sha it (fnn, sn, seed, seed) of
                None \<Rightarrow> False
              | Some (fnn', sn', fr, sr) \<Rightarrow> sn' = 0 \<and> fr = first_root \<and> sr = second_root))))"

declare skip_even.simps [simp del] skip_odd.simps [simp del]

section \<open>The tree of RFC 9162 and the honest proofs\<close>

text \<open>The largest power of two below \<open>n\<close> (for \<open>n \<ge> 2\<close>).\<close>

fun split_point :: "nat \<Rightarrow> nat" where
  "split_point n = (if n \<le> 2 then 1 else 2 * split_point ((n + 1) div 2))"

declare split_point.simps [simp del]

lemma split_point_bounds: "2 \<le> n \<Longrightarrow> 0 < split_point n \<and> split_point n < n"
proof (induction n rule: split_point.induct)
  case (1 n)
  show ?case
  proof (cases "n \<le> 2")
    case True
    with "1.prems" have "n = 2" by simp
    then show ?thesis by (simp add: split_point.simps)
  next
    case False
    then have "0 < split_point ((n + 1) div 2) \<and> split_point ((n + 1) div 2) < (n + 1) div 2"
      by (intro "1.IH") auto
    with False show ?thesis by (simp add: split_point.simps [of n]) linarith
  qed
qed

text \<open>The Merkle tree hash over a list of leaf hashes (RFC 9162, section 2.1.1).\<close>

function mth :: "(bytes \<Rightarrow> bytes) \<Rightarrow> bytes list \<Rightarrow> bytes" where
  "mth sha hs =
     (if length hs = 0 then sha []
      else if length hs = 1 then hs ! 0
      else node sha (mth sha (take (split_point (length hs)) hs))
                    (mth sha (drop (split_point (length hs)) hs)))"
  by pat_completeness auto
termination
proof (relation "measure (\<lambda>(sha, hs). length hs)", goal_cases)
  case (2 sha hs)
  then have "2 \<le> length hs" by (cases hs) (auto simp: neq_Nil_conv)
  then show ?case using split_point_bounds [of "length hs"] by auto
next
  case (3 sha hs)
  then have "2 \<le> length hs" by (cases hs) (auto simp: neq_Nil_conv)
  then show ?case using split_point_bounds [of "length hs"] by auto
qed simp

declare mth.simps [simp del]

text \<open>The same tree level by level: adjacent nodes are joined, a last odd one is promoted.\<close>

fun pairup :: "(bytes \<Rightarrow> bytes) \<Rightarrow> bytes list \<Rightarrow> bytes list" where
  "pairup sha (a # b # hs) = node sha a b # pairup sha hs"
| "pairup sha hs = hs"

lemma length_pairup [simp]: "length (pairup sha hs) = (length hs + 1) div 2"
  by (induction sha hs rule: pairup.induct) auto

function audit_path :: "(bytes \<Rightarrow> bytes) \<Rightarrow> nat \<Rightarrow> bytes list \<Rightarrow> bytes list" where
  "audit_path sha i hs =
     (if length hs \<le> 1 then []
      else (if odd i then [hs ! (i - 1)] else if Suc i = length hs then [] else [hs ! Suc i])
           @ audit_path sha (i div 2) (pairup sha hs))"
  by pat_completeness auto
termination
  by (relation "measure (\<lambda>(sha, i, hs). length hs)") auto

text \<open>The level at which the first tree ends in a complete subtree, with its last index there.\<close>

function consistency_level :: "(bytes \<Rightarrow> bytes) \<Rightarrow> nat \<Rightarrow> bytes list \<Rightarrow> nat \<times> bytes list" where
  "consistency_level sha i hs =
     (if odd i then consistency_level sha (i div 2) (pairup sha hs) else (i, hs))"
  by pat_completeness auto
termination
  by (relation "measure (\<lambda>(sha, i, hs). i)") (auto elim: oddE)

definition consistency_path :: "(bytes \<Rightarrow> bytes) \<Rightarrow> nat \<Rightarrow> bytes list \<Rightarrow> bytes list" where
  "consistency_path sha m hs =
     (if m = length hs then []
      else (case consistency_level sha (m - 1) hs of
              (i, A) \<Rightarrow> (if i = 0 then [] else [A ! i]) @ audit_path sha i A))"

declare audit_path.simps [simp del] consistency_level.simps [simp del]

text \<open>What the tree hashes, and a collision between two explicit lists of hash inputs.\<close>

fun pair_inputs :: "bytes list \<Rightarrow> bytes list" where
  "pair_inputs (a # b # hs) = (0x01 # a @ b) # pair_inputs hs"
| "pair_inputs hs = []"

function tree_inputs :: "(bytes \<Rightarrow> bytes) \<Rightarrow> bytes list \<Rightarrow> bytes list" where
  "tree_inputs sha hs =
     (if length hs \<le> 1 then [] else pair_inputs hs @ tree_inputs sha (pairup sha hs))"
  by pat_completeness auto
termination
  by (relation "measure (\<lambda>(sha, hs). length hs)") auto

declare tree_inputs.simps [simp del]

definition collides :: "(bytes \<Rightarrow> bytes) \<Rightarrow> bytes list \<Rightarrow> bytes list \<Rightarrow> bool" where
  "collides sha xs ys = (\<exists>x \<in> set xs. \<exists>y \<in> set ys. x \<noteq> y \<and> sha x = sha y)"

section \<open>The loops, on natural numbers\<close>

text \<open>
  One level of the tree per recursive call: a lone last node is promoted without consuming a
  proof element. The code's inner loop jumps over such levels at once.
\<close>

function climb :: "(bytes \<Rightarrow> bytes) \<Rightarrow> nat \<Rightarrow> nat \<Rightarrow> bytes \<Rightarrow> bytes list \<Rightarrow> bytes option" where
  "climb sha i l r ps =
     (if l = 0 then (if ps = [] then Some r else None)
      else if odd i then
        (case ps of [] \<Rightarrow> None | p # ps' \<Rightarrow> climb sha (i div 2) (l div 2) (node sha p r) ps')
      else if i = l then climb sha (i div 2) (l div 2) r ps
      else (case ps of [] \<Rightarrow> None | p # ps' \<Rightarrow> climb sha (i div 2) (l div 2) (node sha r p) ps'))"
  by pat_completeness auto
termination
  by (relation "measure (\<lambda>(sha, i, l, r, ps). l)") auto

declare climb.simps [simp del]

lemma climb_0: "climb sha i 0 r ps = (if ps = [] then Some r else None)"
  by (simp add: climb.simps)

lemma climb_odd:
  "0 < l \<Longrightarrow> odd i \<Longrightarrow> climb sha i l r (p # ps) = climb sha (i div 2) (l div 2) (node sha p r) ps"
  by (simp add: climb.simps [of sha i])

lemma climb_last:
  "0 < l \<Longrightarrow> even l \<Longrightarrow> climb sha l l r ps = climb sha (l div 2) (l div 2) r ps"
  by (simp add: climb.simps [of sha l])

lemma climb_even:
  "0 < l \<Longrightarrow> even i \<Longrightarrow> i \<noteq> l \<Longrightarrow>
     climb sha i l r (p # ps) = climb sha (i div 2) (l div 2) (node sha r p) ps"
  by (simp add: climb.simps [of sha i])

lemma climb_Nil: "i \<le> l \<Longrightarrow> climb sha i l r [] = (if l = 0 then Some r else None)"
proof (induction sha i l r "[] :: bytes list" rule: climb.induct)
  case (1 sha i l r)
  show ?case
  proof (cases "0 < l \<and> even i \<and> i = l")
    case True
    then have "0 < l div 2" by auto
    moreover have "climb sha (i div 2) (l div 2) r [] = (if l div 2 = 0 then Some r else None)"
      using True by (intro "1.hyps") auto
    ultimately show ?thesis using True climb_last [of l sha r "[]"] by force
  next
    case False
    then show ?thesis by (auto simp: climb.simps [of sha i])
  qed
qed

lemma lsb_unat: "lsb w = odd (unat w)"
  by (simp add: lsb_def width_simps)

text \<open>From equal positions the inner loop strips the factors of two: it stops at the odd part.\<close>

lemma skip_even_odd_part:
  "w \<noteq> 0 \<Longrightarrow> \<exists>x k. skip_even w w = (x, x) \<and> odd (unat x) \<and> unat w = unat x * 2 ^ k"
proof (induction "unat w" arbitrary: w rule: less_induct)
  case less
  show ?case
  proof (cases "lsb w")
    case True
    then show ?thesis
      by (intro exI [of _ w] exI [of _ 0]) (auto simp: skip_even.simps [of w w] lsb_unat)
  next
    case False
    with less.prems have ev: "even (unat w)" and pos: "0 < unat w"
      by (auto simp: lsb_unat width_simps)
    then have half: "unat (drop_bit 1 w) = unat w div 2" "0 < unat w div 2" "unat w div 2 < unat w"
      using half_even [OF ev pos] by (auto simp: width_simps)
    then have "drop_bit 1 w \<noteq> 0"
      by (metis unat_0 less_irrefl)
    from less.hyps [OF _ this] half obtain x k where
      x: "skip_even (drop_bit 1 w) (drop_bit 1 w) = (x, x)" "odd (unat x)" "unat w div 2 = unat x * 2 ^ k"
      by auto
    then have "unat w = unat x * 2 ^ Suc k" using ev by (auto elim!: evenE)
    then show ?thesis
      using False less.prems x
      by (intro exI [of _ x] exI [of _ "Suc k"]) (simp add: skip_even.simps [of w])
  qed
qed

lemma climb_promote: "0 < x \<Longrightarrow> climb sha (x * 2 ^ k) (x * 2 ^ k) r ps = climb sha x x r ps"
  by (induction k) (simp_all add: climb_last)

lemma inclusion_loop_climb:
  "unat fnn \<le> unat sn \<Longrightarrow>
     (case inclusion_loop sha fnn sn r ps of
        None \<Rightarrow> None | Some (sn', r') \<Rightarrow> if sn' = 0 then Some r' else None)
     = climb sha (unat fnn) (unat sn) r ps"
proof (induction ps arbitrary: fnn sn r)
  case Nil
  then show ?case by (simp add: climb_Nil width_simps)
next
  case (Cons p ps)
  have le: "unat (drop_bit 1 a) \<le> unat (drop_bit 1 b)" if "unat a \<le> unat b" for a b :: u64
    using that by (simp add: width_simps div_le_mono)
  consider "sn = 0" | "sn \<noteq> 0" "lsb fnn" | "sn \<noteq> 0" "\<not> lsb fnn" "fnn = sn"
    | "sn \<noteq> 0" "\<not> lsb fnn" "fnn \<noteq> sn" by blast
  then show ?case
  proof cases
    case 1
    then show ?thesis by (simp add: climb_0)
  next
    case 2
    with Cons.IH [OF le [OF Cons.prems]] show ?thesis
      by (simp add: climb_odd lsb_unat width_simps)
  next
    case 3
    then obtain x k where x: "skip_even sn sn = (x, x)" "odd (unat x)" "unat sn = unat x * 2 ^ k"
      using skip_even_odd_part by blast
    have "0 < unat x" using x(2) by (cases "unat x") auto
    with 3 x Cons.IH [of "drop_bit 1 x" "drop_bit 1 x" "node sha p r"] show ?thesis
      by (simp add: climb_promote climb_odd width_simps)
  next
    case 4
    then have "unat fnn \<noteq> unat sn" "0 < unat sn" "even (unat fnn)"
      by (simp_all add: lsb_unat unat_gt_0) (simp add: word_unat_eq_iff)
    from climb_even [OF this(2,3,1)] 4 Cons.IH [OF le [OF Cons.prems]] show ?thesis
      by (simp add: width_simps)
  qed
qed

lemma verify_inclusion_climb:
  "verify_inclusion sha h i n ps root \<longleftrightarrow>
     i < n \<and> length h = 32 \<and> climb sha (unat i) (unat n - 1) h ps = Some root"
proof (cases "i < n")
  case True
  then have "n \<noteq> 0" by auto
  then have n: "unat (n - 1) = unat n - 1" by (simp add: width_simps)
  have "unat i \<le> unat (n - 1)"
    using True by (simp add: n word_less_nat_alt)
  from inclusion_loop_climb [OF this, of sha h ps] n True show ?thesis
    by (auto simp: verify_inclusion_def split: option.splits if_splits)
next
  case False
  then show ?thesis by (simp add: verify_inclusion_def not_less)
qed

section \<open>The level view of the tree\<close>

lemma pairup_append: "even (length xs) \<Longrightarrow> pairup sha (xs @ ys) = pairup sha xs @ pairup sha ys"
  by (induction sha xs rule: pairup.induct) auto

lemma pairup_take: "pairup sha (take (2 * j) hs) = take j (pairup sha hs)"
proof (induction sha hs arbitrary: j rule: pairup.induct)
  case (1 sha a b hs)
  then show ?case by (cases j) auto
qed (auto simp: take_Cons')

lemma pairup_drop: "pairup sha (drop (2 * j) hs) = drop j (pairup sha hs)"
proof (induction sha hs arbitrary: j rule: pairup.induct)
  case (1 sha a b hs)
  then show ?case by (cases j) auto
qed (auto simp: drop_Cons')

lemma nth_pairup:
  "i < (length hs + 1) div 2 \<Longrightarrow>
     pairup sha hs ! i
     = (if Suc (2 * i) < length hs then node sha (hs ! (2 * i)) (hs ! Suc (2 * i)) else hs ! (2 * i))"
  by (induction sha hs arbitrary: i rule: pairup.induct) (auto simp: nth_Cons' less_Suc_eq_0_disj)

lemma pair_inputs_nth:
  "Suc (2 * i) < length hs \<Longrightarrow> (0x01 # hs ! (2 * i) @ hs ! Suc (2 * i)) \<in> set (pair_inputs hs)"
proof (induction hs arbitrary: i rule: pair_inputs.induct)
  case (1 a b hs)
  then show ?case by (cases i) auto
qed auto

lemma set_pairup_length:
  assumes "\<And>x. length (sha x) = 32" "\<forall>h \<in> set hs. length h = 32"
  shows "\<forall>h \<in> set (pairup sha hs). length h = 32"
  using assms by (induction sha hs rule: pairup.induct) (auto simp: node_def)

lemma mth_single [simp]: "mth sha [h] = h"
  by (simp add: mth.simps)

lemma split_point_2 [simp]: "split_point (Suc (Suc 0)) = 1"
  by (simp add: split_point.simps)

lemma mth_two: "mth sha [a, b] = node sha a b"
  by (simp add: mth.simps [of sha "[a, b]"])

lemma mth_pairup: "hs \<noteq> [] \<Longrightarrow> mth sha (pairup sha hs) = mth sha hs"
proof (induction hs rule: length_induct)
  case (1 hs)
  consider "length hs = 1" | "length hs = 2" | "length hs > 2"
    using "1.prems" by (cases "length hs") force+
  then show ?case
  proof cases
    case 1
    then show ?thesis by (cases hs) auto
  next
    case 2
    then obtain a b where "hs = [a, b]"
      by (auto simp: length_Suc_conv numeral_2_eq_2)
    then show ?thesis by (simp add: mth_two)
  next
    case 3
    let ?n = "length hs" let ?m = "(length hs + 1) div 2"
    let ?j = "split_point ?m" let ?k = "split_point (length hs)"
    have k: "?k = 2 * ?j" using 3 by (simp add: split_point.simps [of ?n])
    have m: "2 \<le> ?m" using 3 by simp
    have b: "0 < ?k" "?k < ?n" using split_point_bounds [of ?n] 3 by auto
    have t: "mth sha (pairup sha (take ?k hs)) = mth sha (take ?k hs)"
      using b by (intro "1.IH" [rule_format]) auto
    have d: "mth sha (pairup sha (drop ?k hs)) = mth sha (drop ?k hs)"
      using b by (intro "1.IH" [rule_format]) auto
    have "mth sha (pairup sha hs)
        = node sha (mth sha (take ?j (pairup sha hs))) (mth sha (drop ?j (pairup sha hs)))"
      using m by (simp add: mth.simps [of sha "pairup sha hs"])
    also have "\<dots> = node sha (mth sha (take ?k hs)) (mth sha (drop ?k hs))"
      using t d by (simp only: k flip: pairup_take pairup_drop)
    also have "\<dots> = mth sha hs"
      using 3 by (auto simp: mth.simps [of sha hs])
    finally show ?thesis .
  qed
qed

section \<open>Completeness and soundness of the climb\<close>

lemma climb_complete:
  "i < length hs \<Longrightarrow> climb sha i (length hs - 1) (hs ! i) (audit_path sha i hs) = Some (mth sha hs)"
proof (induction sha i hs rule: audit_path.induct)
  case (1 sha i hs)
  show ?case
  proof (cases "length hs \<le> 1")
    case True
    with "1.prems" obtain h where "hs = [h]" by (cases hs) auto
    with "1.prems" show ?thesis by (simp add: audit_path.simps climb_0)
  next
    case False
    then have l: "0 < length hs - 1" by auto
    have d: "length (pairup sha hs) - 1 = (length hs - 1) div 2" by simp
    have i: "i div 2 < length (pairup sha hs)" using "1.prems" by auto
    have root: "mth sha (pairup sha hs) = mth sha hs" using "1.prems" by (intro mth_pairup) auto
    note IH = "1.IH" [OF False i, unfolded d root]
    consider "odd i" | "even i" "Suc i = length hs" | "even i" "Suc i < length hs"
      using "1.prems" by linarith
    then show ?thesis
    proof cases
      case 1
      then obtain j where j: "i = Suc (2 * j)" by (auto elim!: oddE)
      then have "pairup sha hs ! (i div 2) = node sha (hs ! (i - 1)) (hs ! i)"
        using "1.prems" by (simp add: nth_pairup)
      with IH show ?thesis
        using False l 1 by (simp add: audit_path.simps [of sha i hs] climb_odd)
    next
      case 2
      then obtain j where j: "i = 2 * j" by (auto elim!: evenE)
      then have "pairup sha hs ! (i div 2) = hs ! i" "i = length hs - 1"
        using 2 by (simp_all add: nth_pairup flip: 2(2))
      moreover have "audit_path sha i hs = audit_path sha (i div 2) (pairup sha hs)"
        using False 2 by (simp add: audit_path.simps [of sha i hs])
      ultimately show ?thesis
        using IH l 2 climb_last [of i sha "hs ! i"] by simp
    next
      case 3
      then obtain j where j: "i = 2 * j" by (auto elim!: evenE)
      then have "pairup sha hs ! (i div 2) = node sha (hs ! i) (hs ! Suc i)"
        using 3 by (simp add: nth_pairup)
      with IH show ?thesis
        using False l 3 by (simp add: audit_path.simps [of sha i hs] climb_even)
    qed
  qed
qed

text \<open>The hash inputs of the verifier's own run.\<close>

function climb_inputs :: "(bytes \<Rightarrow> bytes) \<Rightarrow> nat \<Rightarrow> nat \<Rightarrow> bytes \<Rightarrow> bytes list \<Rightarrow> bytes list" where
  "climb_inputs sha i l r ps =
     (if l = 0 then []
      else if odd i then
        (case ps of [] \<Rightarrow> []
         | p # ps' \<Rightarrow> (0x01 # p @ r) # climb_inputs sha (i div 2) (l div 2) (node sha p r) ps')
      else if i = l then climb_inputs sha (i div 2) (l div 2) r ps
      else (case ps of [] \<Rightarrow> []
            | p # ps' \<Rightarrow> (0x01 # r @ p) # climb_inputs sha (i div 2) (l div 2) (node sha r p) ps'))"
  by pat_completeness auto
termination
  by (relation "measure (\<lambda>(sha, i, l, r, ps). l)") auto

declare climb_inputs.simps [simp del]

lemma collides_mono: "collides sha xs ys \<Longrightarrow> set xs \<subseteq> set xs' \<Longrightarrow> set ys \<subseteq> set ys' \<Longrightarrow> collides sha xs' ys'"
  unfolding collides_def by blast

lemma node_agree:
  assumes "node sha a b = node sha c d" "length a = length c"
  shows "a = c \<and> b = d \<or> collides sha [0x01 # a @ b] [0x01 # c @ d]"
  using assms by (auto simp: node_def collides_def)

lemma climb_step_sound:
  assumes up: "r' = pairup sha hs ! (i div 2) \<and> ps = qs \<or> collides sha us vs"
    and r': "r' = node sha a b" and up_i: "pairup sha hs ! (i div 2) = node sha c d"
    and len: "length a = length c"
    and us: "set us \<subseteq> set us'" "(0x01 # a @ b) \<in> set us'"
    and vs: "set vs \<subseteq> set vs'" "(0x01 # c @ d) \<in> set vs'"
  shows "(a = c \<and> b = d) \<and> ps = qs \<or> collides sha us' vs'"
proof (cases "collides sha us vs")
  case True
  then show ?thesis using us(1) vs(1) by (blast intro: collides_mono)
next
  case False
  with up r' up_i have "node sha a b = node sha c d" "ps = qs" by auto
  with node_agree [of sha a b c d] len us(2) vs(2) show ?thesis
    by (auto intro: collides_mono)
qed

lemma climb_sound:
  assumes sha: "\<And>x. length (sha x) = 32"
  shows "climb sha i (length hs - 1) r ps = Some (mth sha hs) \<Longrightarrow> i < length hs \<Longrightarrow>
     \<forall>h \<in> set hs. length h = 32 \<Longrightarrow> length r = 32 \<Longrightarrow> \<forall>p \<in> set ps. length p = 32 \<Longrightarrow>
     r = hs ! i \<and> ps = audit_path sha i hs
     \<or> collides sha (climb_inputs sha i (length hs - 1) r ps) (tree_inputs sha hs)"
proof (induction hs arbitrary: i r ps rule: length_induct)
  case (1 hs)
  note c = "1.prems"(1) and i = "1.prems"(2) and len = "1.prems"(3-5)
  show ?case
  proof (cases "length hs \<le> 1")
    case True
    with i have "length hs = 1" "i = 0" by auto
    with c show ?thesis
      by (auto simp: climb_0 audit_path.simps mth.simps split: if_splits)
  next
    case False
    let ?l = "length hs - 1" and ?up = "pairup sha hs"
    have l: "0 < ?l" "length ?up - 1 = ?l div 2" "length ?up < length hs" "i div 2 < length ?up"
      using False i by auto
    have root: "mth sha ?up = mth sha hs" using i by (intro mth_pairup) auto
    have lens: "\<forall>h \<in> set ?up. length h = 32" by (rule set_pairup_length [OF sha len(1)])
    have IH: "r' = ?up ! (i div 2) \<and> qs = audit_path sha (i div 2) ?up
       \<or> collides sha (climb_inputs sha (i div 2) (?l div 2) r' qs) (tree_inputs sha ?up)"
      if "climb sha (i div 2) (?l div 2) r' qs = Some (mth sha hs)"
        "length r' = 32" "\<forall>p \<in> set qs. length p = 32" for r' qs
      using "1.IH" [rule_format, OF l(3), of "i div 2" r' qs, unfolded root l(2)] l(4) lens that
      by blast
    have tree: "tree_inputs sha hs = pair_inputs hs @ tree_inputs sha ?up"
      using False by (simp add: tree_inputs.simps [of sha hs])
    consider "odd i" | "even i" "i = ?l" | "even i" "i \<noteq> ?l" by blast
    then show ?thesis
    proof cases
      case 1
      with c l(1) obtain p qs where ps: "ps = p # qs"
        by (cases ps) (auto simp: climb.simps [of sha i])
      obtain j where j: "i = Suc (2 * j)" using 1 by (auto elim!: oddE)
      have ci: "climb_inputs sha i ?l r ps
          = (0x01 # p @ r) # climb_inputs sha (i div 2) (?l div 2) (node sha p r) qs"
        using 1 l(1) ps by (simp add: climb_inputs.simps [of sha i])
      have "(p = hs ! (i - 1) \<and> r = hs ! i) \<and> qs = audit_path sha (i div 2) ?up
         \<or> collides sha (climb_inputs sha i ?l r ps) (tree_inputs sha hs)"
        using c l ps 1 i len sha pair_inputs_nth [of j hs] unfolding ci tree
        by (intro climb_step_sound [OF IH [of "node sha p r" qs]])
           (auto simp: climb_odd node_def nth_pairup j)
      then show ?thesis using 1 False ps by (auto simp: audit_path.simps [of sha i hs])
    next
      case 2
      obtain j where j: "i = 2 * j" using 2(1) by (auto elim!: evenE)
      have "?up ! (i div 2) = hs ! i" using i 2 j l by (auto simp: nth_pairup)
      moreover have "climb sha (i div 2) (?l div 2) r ps = Some (mth sha hs)"
        using c 2 l(1) climb_last [of ?l] by simp
      moreover have "climb_inputs sha i ?l r ps = climb_inputs sha (i div 2) (?l div 2) r ps"
        using 2 l(1) by (subst climb_inputs.simps) simp
      moreover have "audit_path sha i hs = audit_path sha (i div 2) ?up"
        using i False 2(1) by (subst audit_path.simps) (use 2(2) in simp)
      ultimately show ?thesis
        using IH [of r ps] len unfolding tree by (auto intro: collides_mono)
    next
      case 3
      with c l(1) obtain p qs where ps: "ps = p # qs"
        by (cases ps) (auto simp: climb.simps [of sha i])
      obtain j where j: "i = 2 * j" using 3 by (auto elim!: evenE)
      have ci: "climb_inputs sha i ?l r ps
          = (0x01 # r @ p) # climb_inputs sha (i div 2) (?l div 2) (node sha r p) qs"
        using 3 l(1) ps by (simp add: climb_inputs.simps [of sha i])
      have "(r = hs ! i \<and> p = hs ! Suc i) \<and> qs = audit_path sha (i div 2) ?up
         \<or> collides sha (climb_inputs sha i ?l r ps) (tree_inputs sha hs)"
        using c l ps 3 i len sha pair_inputs_nth [of j hs] unfolding ci tree
        by (intro climb_step_sound [OF IH [of "node sha r p" qs]])
           (auto simp: climb_even node_def nth_pairup j)
      then show ?thesis using 3 False ps i by (auto simp: audit_path.simps [of sha i hs])
    qed
  qed
qed

section \<open>Consistency: two accumulators on one path\<close>

function climb2 ::
  "(bytes \<Rightarrow> bytes) \<Rightarrow> nat \<Rightarrow> nat \<Rightarrow> bytes \<Rightarrow> bytes \<Rightarrow> bytes list \<Rightarrow> (bytes \<times> bytes) option" where
  "climb2 sha i l fr sr ps =
     (if l = 0 then (if ps = [] then Some (fr, sr) else None)
      else if odd i then
        (case ps of [] \<Rightarrow> None
         | c # ps' \<Rightarrow> climb2 sha (i div 2) (l div 2) (node sha c fr) (node sha c sr) ps')
      else if i = l then climb2 sha (i div 2) (l div 2) fr sr ps
      else (case ps of [] \<Rightarrow> None
            | c # ps' \<Rightarrow> climb2 sha (i div 2) (l div 2) fr (node sha sr c) ps'))"
  by pat_completeness auto
termination
  by (relation "measure (\<lambda>(sha, i, l, fr, sr, ps). l)") auto

declare climb2.simps [simp del]

lemma climb2_0: "climb2 sha i 0 fr sr ps = (if ps = [] then Some (fr, sr) else None)"
  by (simp add: climb2.simps)

lemma climb2_odd:
  "0 < l \<Longrightarrow> odd i \<Longrightarrow> climb2 sha i l fr sr (c # ps)
     = climb2 sha (i div 2) (l div 2) (node sha c fr) (node sha c sr) ps"
  by (simp add: climb2.simps [of sha i])

lemma climb2_last:
  "0 < l \<Longrightarrow> even l \<Longrightarrow> climb2 sha l l fr sr ps = climb2 sha (l div 2) (l div 2) fr sr ps"
  by (simp add: climb2.simps [of sha l])

lemma climb2_even:
  "0 < l \<Longrightarrow> even i \<Longrightarrow> i \<noteq> l \<Longrightarrow>
     climb2 sha i l fr sr (c # ps) = climb2 sha (i div 2) (l div 2) fr (node sha sr c) ps"
  by (simp add: climb2.simps [of sha i])

text \<open>The second accumulator alone is the inclusion climb.\<close>

lemma climb2_snd: "map_option snd (climb2 sha i l fr sr ps) = climb sha i l sr ps"
proof (induction sha i l fr sr ps rule: climb2.induct)
  case (1 sha i l fr sr ps)
  then show ?case
    by (subst climb2.simps, subst climb.simps) (auto split: list.split)
qed

lemma pairup_snoc:
  assumes "i < length A"
  shows "pairup sha (take i A @ [x])
    = take (i div 2) (pairup sha A) @ [if odd i then node sha (A ! (i - 1)) x else x]"
proof (cases "odd i")
  case True
  then obtain j where j: "i = Suc (2 * j)" by (auto elim!: oddE)
  with assms have "take i A @ [x] = take (2 * j) A @ [A ! (2 * j), x]"
    by (simp add: take_Suc_conv_app_nth)
  then show ?thesis using j assms by (simp add: pairup_append pairup_take)
next
  case False
  then obtain j where j: "i = 2 * j" by (auto elim!: evenE)
  with assms show ?thesis by (simp add: pairup_append pairup_take)
qed

text \<open>Along the honest path the first accumulator rebuilds the root of the shorter tree.\<close>

lemma climb2_audit_path:
  "i < length A \<Longrightarrow>
     \<exists>b. climb2 sha i (length A - 1) fr sr (audit_path sha i A) = Some (mth sha (take i A @ [fr]), b)"
proof (induction A arbitrary: i fr sr rule: length_induct)
  case (1 A)
  show ?case
  proof (cases "length A \<le> 1")
    case True
    with "1.prems" have "length A = 1" "i = 0" by auto
    then show ?thesis by (simp add: audit_path.simps climb2_0)
  next
    case False
    let ?up = "pairup sha A" and ?l = "length A - 1"
    have l: "0 < ?l" "length ?up - 1 = ?l div 2" "length ?up < length A" "i div 2 < length ?up"
      using False "1.prems" by auto
    define fr' where "fr' = (if odd i then node sha (A ! (i - 1)) fr else fr)"
    have root: "mth sha (take (i div 2) ?up @ [fr']) = mth sha (take i A @ [fr])"
      using mth_pairup [of "take i A @ [fr]" sha] pairup_snoc [OF "1.prems"] by (simp add: fr'_def)
    have IH: "\<exists>b. climb2 sha (i div 2) (?l div 2) fr' sr' (audit_path sha (i div 2) ?up)
        = Some (mth sha (take i A @ [fr]), b)" for sr'
      using "1.IH" l(3,4) unfolding root [symmetric] l(2) [symmetric] by blast
    consider "odd i" | "even i" "i = ?l" | "even i" "i \<noteq> ?l" by blast
    then show ?thesis
    proof cases
      case 1
      then show ?thesis using IH l(1) False
        by (simp add: audit_path.simps [of sha i A] climb2_odd fr'_def)
    next
      case 2
      then have "Suc i = length A" using False by simp
      then have "audit_path sha i A = audit_path sha (i div 2) ?up"
        using False 2(1) by (simp add: audit_path.simps [of sha i A])
      moreover have "fr' = fr" using 2(1) by (simp add: fr'_def)
      ultimately show ?thesis using IH [of sr] l(1) 2 climb2_last [of i sha fr sr] by simp
    next
      case 3
      then show ?thesis using IH l(1) False "1.prems"
        by (auto simp add: audit_path.simps [of sha i A] climb2_even fr'_def)
    qed
  qed
qed

lemma climb2_complete:
  "i < length A \<Longrightarrow> climb2 sha i (length A - 1) fr (A ! i) (audit_path sha i A)
     = Some (mth sha (take i A @ [fr]), mth sha A)"
  using climb2_audit_path [of i A sha fr "A ! i"] climb_complete [of i A sha]
    climb2_snd [of sha i "length A - 1" fr "A ! i" "audit_path sha i A"] by auto

lemma climb2_Nil: "i \<le> l \<Longrightarrow> climb2 sha i l fr sr [] = (if l = 0 then Some (fr, sr) else None)"
  using climb2_snd [of sha i l fr sr "[]"] climb_Nil [of i l sha sr]
  by (auto simp: climb2_0 split: if_splits)

lemma climb2_promote:
  "0 < x \<Longrightarrow> climb2 sha (x * 2 ^ k) (x * 2 ^ k) fr sr ps = climb2 sha x x fr sr ps"
  by (induction k) (simp_all add: climb2_last)

definition loop_result :: "(u64 \<times> u64 \<times> bytes \<times> bytes) option \<Rightarrow> (bytes \<times> bytes) option" where
  "loop_result s = (case s of None \<Rightarrow> None | Some (fnn, sn, fr, sr) \<Rightarrow> then_some (sn = 0) (fr, sr))"

lemma consistency_loop_climb2:
  "unat fnn \<le> unat sn \<Longrightarrow>
     loop_result (consistency_loop sha ps (fnn, sn, fr, sr)) = climb2 sha (unat fnn) (unat sn) fr sr ps"
proof (induction ps arbitrary: fnn sn fr sr)
  case Nil
  then show ?case by (simp add: climb2_Nil loop_result_def width_simps)
next
  case (Cons c ps)
  have le: "unat (drop_bit 1 a) \<le> unat (drop_bit 1 b)" if "unat a \<le> unat b" for a b :: u64
    using that by (simp add: width_simps div_le_mono)
  consider "sn = 0" | "sn \<noteq> 0" "lsb fnn" | "sn \<noteq> 0" "\<not> lsb fnn" "fnn = sn"
    | "sn \<noteq> 0" "\<not> lsb fnn" "fnn \<noteq> sn" by blast
  then show ?case
  proof cases
    case 1
    then show ?thesis by (simp add: climb2_0 consistency_step_def loop_result_def)
  next
    case 2
    with Cons.IH [OF le [OF Cons.prems]] show ?thesis
      by (simp add: climb2_odd consistency_step_def lsb_unat width_simps)
  next
    case 3
    then obtain x k where x: "skip_even sn sn = (x, x)" "odd (unat x)" "unat sn = unat x * 2 ^ k"
      using skip_even_odd_part by blast
    have "0 < unat x" using x(2) by (cases "unat x") auto
    with 3 x Cons.IH [of "drop_bit 1 x" "drop_bit 1 x"] show ?thesis
      by (simp add: climb2_promote climb2_odd consistency_step_def width_simps)
  next
    case 4
    then have "unat fnn \<noteq> unat sn" "0 < unat sn" "even (unat fnn)"
      by (simp_all add: lsb_unat unat_gt_0) (simp add: word_unat_eq_iff)
    from climb2_even [OF this(2,3,1)] 4 Cons.IH [OF le [OF Cons.prems]] show ?thesis
      by (simp add: consistency_step_def width_simps)
  qed
qed

text \<open>Levels at which the first tree is complete: both trees keep their roots.\<close>

lemma consistency_level_spec:
  "consistency_level sha i hs = (j, A) \<Longrightarrow> i < length hs \<Longrightarrow>
     even j \<and> j < length A \<and> mth sha A = mth sha hs \<and>
     mth sha (take (Suc j) A) = mth sha (take (Suc i) hs) \<and> set (tree_inputs sha A) \<subseteq> set (tree_inputs sha hs)"
proof (induction sha i hs arbitrary: j A rule: consistency_level.induct)
  case (1 sha i hs)
  show ?case
  proof (cases "odd i")
    case False
    with "1.prems" show ?thesis by (simp add: consistency_level.simps [of sha i hs])
  next
    case True
    then obtain k where k: "i = Suc (2 * k)" by (auto elim!: oddE)
    have lt: "i div 2 < length (pairup sha hs)" using "1.prems"(2) by auto
    have "consistency_level sha (i div 2) (pairup sha hs) = (j, A)"
      using True "1.prems"(1) by (simp add: consistency_level.simps [of sha i hs])
    note IH = "1.IH" [OF True this lt]
    have "hs \<noteq> []" "length hs > 1" using "1.prems"(2) k by auto
    moreover have "take (Suc (i div 2)) (pairup sha hs) = pairup sha (take (Suc i) hs)"
      using pairup_take [of sha "Suc k" hs] k by simp
    ultimately show ?thesis
      using IH mth_pairup [of hs sha] mth_pairup [of "take (Suc i) hs" sha]
      by (auto simp: tree_inputs.simps [of sha hs])
  qed
qed

lemma consistency_level_lengths:
  assumes "\<And>x. length (sha x) = 32"
  shows "consistency_level sha i hs = (j, A) \<Longrightarrow> \<forall>h \<in> set hs. length h = 32 \<Longrightarrow> \<forall>h \<in> set A. length h = 32"
  using assms
proof (induction sha i hs arbitrary: j A rule: consistency_level.induct)
  case (1 sha i hs)
  then show ?case
    using set_pairup_length [of sha hs] by (simp add: consistency_level.simps [of sha i hs] split: if_splits)
qed

lemma skip_odd_level:
  "length hs = Suc (unat sn) \<Longrightarrow> unat fnn \<le> unat sn \<Longrightarrow> skip_odd fnn sn = (f, t) \<Longrightarrow>
     \<exists>A. consistency_level sha (unat fnn) hs = (unat f, A) \<and> length A = Suc (unat t)"
proof (induction fnn sn arbitrary: hs rule: skip_odd.induct)
  case (1 fnn sn)
  show ?case
  proof (cases "lsb fnn")
    case False
    with "1.prems" have "f = fnn" "t = sn" "even (unat fnn)"
      by (simp_all add: skip_odd.simps [of fnn] lsb_unat)
    with "1.prems"(1) show ?thesis by (simp add: consistency_level.simps)
  next
    case True
    have "length (pairup sha hs) = Suc (unat (drop_bit 1 sn))"
      using "1.prems"(1) by (simp add: width_simps)
    moreover have "unat (drop_bit 1 fnn) \<le> unat (drop_bit 1 sn)"
      using "1.prems"(2) by (simp add: width_simps div_le_mono)
    moreover have "skip_odd (drop_bit 1 fnn) (drop_bit 1 sn) = (f, t)"
      using True "1.prems"(3) by (simp add: skip_odd.simps [of fnn])
    ultimately show ?thesis
      using "1.IH" [OF True] True
      by (simp add: consistency_level.simps [of sha "unat fnn"] lsb_unat width_simps)
  qed
qed

text \<open>One shape for the main branch of \<open>verify_consistency\<close>: the level at which it starts, and the
  check it makes there.\<close>

definition start_level ::
  "(bytes \<Rightarrow> bytes) \<Rightarrow> u64 \<Rightarrow> u64 \<Rightarrow> bytes list \<Rightarrow> u64 \<Rightarrow> u64 \<Rightarrow> bytes list \<Rightarrow> bool" where
  "start_level sha m n hs f t A \<longleftrightarrow>
     skip_odd (m - 1) (n - 1) = (f, t) \<and> consistency_level sha (unat m - 1) hs = (unat f, A) \<and>
     length A = Suc (unat t) \<and> unat f \<le> unat t \<and> mth sha A = mth sha hs \<and>
     mth sha (take (Suc (unat f)) A) = mth sha (take (unat m) hs) \<and>
     set (tree_inputs sha A) \<subseteq> set (tree_inputs sha hs) \<and>
     (\<forall>r1 r2 path. verify_consistency sha m n r1 r2 path \<longleftrightarrow>
        (\<exists>seed it. consistency_seed f r1 path = Some (seed, it) \<and>
           climb2 sha (unat f) (unat t) seed seed it = Some (r1, r2)))"

lemma verify_consistency_level:
  assumes m: "m \<noteq> 0" "m < n" and hs: "length hs = unat n"
  shows "\<exists>f t A. start_level sha m n hs f t A"
proof -
  obtain f t where ft: "skip_odd (m - 1) (n - 1) = (f, t)" by force
  have n: "n \<noteq> 0" using m by auto
  have u: "unat (m - 1) = unat m - 1" "unat (n - 1) = unat n - 1" "unat m \<noteq> 0" "unat m < unat n"
    using m n by (auto simp: width_simps word_less_nat_alt simp del: unat_eq_0_iff' dest: unat_eq_zero [THEN iffD1])
  have "length hs = Suc (unat (n - 1))" "unat (m - 1) \<le> unat (n - 1)" using u hs by linarith+
  from skip_odd_level [OF this ft, of sha] u obtain A where
    A: "consistency_level sha (unat m - 1) hs = (unat f, A)" "length A = Suc (unat t)" by auto
  have "unat m - 1 < length hs" using u hs by linarith
  note spec = consistency_level_spec [OF A(1) this]
  have le: "unat f \<le> unat t" using spec A(2) by auto
  have "verify_consistency sha m n r1 r2 path \<longleftrightarrow>
       (\<exists>seed it. consistency_seed f r1 path = Some (seed, it) \<and>
          climb2 sha (unat f) (unat t) seed seed it = Some (r1, r2))" for r1 r2 path
    using m ft consistency_loop_climb2 [OF le, of sha]
    by (auto simp: verify_consistency_def loop_result_def split: option.splits prod.splits
        simp flip: consistency_loop_climb2 [OF le])
  then show ?thesis
    using ft A le spec u unfolding start_level_def by (intro exI [of _ f] exI [of _ t] exI [of _ A]) auto
qed

definition consistency_inputs :: "(bytes \<Rightarrow> bytes) \<Rightarrow> u64 \<Rightarrow> u64 \<Rightarrow> bytes \<Rightarrow> bytes list \<Rightarrow> bytes list" where
  "consistency_inputs sha m n r1 path =
     (case skip_odd (m - 1) (n - 1) of (f, t) \<Rightarrow>
        (case consistency_seed f r1 path of None \<Rightarrow> []
         | Some (seed, it) \<Rightarrow> climb_inputs sha (unat f) (unat t) seed it))"

text \<open>The number of proof elements a climb consumes depends on the position alone.\<close>

function path_len :: "nat \<Rightarrow> nat \<Rightarrow> nat" where
  "path_len i l =
     (if l = 0 then 0 else (if even i \<and> i = l then 0 else 1) + path_len (i div 2) (l div 2))"
  by pat_completeness auto
termination
  by (relation "measure (\<lambda>(i, l). l)") auto

declare path_len.simps [simp del]

lemma climb_length: "climb sha i l r ps = Some x \<Longrightarrow> length ps = path_len i l"
proof (induction sha i l r ps rule: climb.induct)
  case (1 sha i l r ps)
  then show ?case
    by (auto simp: climb.simps [of sha i l r ps] path_len.simps [of i l] split: if_splits list.splits)
qed

lemma consistency_length:
  assumes "consistency_seed f r1 path = Some (seed, it)"
    and "climb2 sha (unat f) (unat t) seed seed it = Some x"
  shows "length path = (if f = 0 then 0 else 1) + path_len (unat f) (unat t)"
proof -
  have "length it = path_len (unat f) (unat t)"
    using climb2_snd [of sha "unat f" "unat t" seed seed it] assms(2)
    by (intro climb_length [of sha _ _ seed it "snd x"]) simp
  with assms(1) show ?thesis by (auto simp: consistency_seed_def split: if_splits list.splits)
qed

section \<open>Properties\<close>

text \<open>(inclusion is complete): for every log of fewer than \<open>2 ^ 64\<close> leaves and every index in
  it, the code accepts the audit path of the RFC's tree for that leaf, against the RFC's root.\<close>

theorem verify_inclusion_complete:
  assumes "length hs = unat n" and "i < n" and "\<forall>h \<in> set hs. length h = 32"
  shows "verify_inclusion sha (hs ! unat i) i n (audit_path sha (unat i) hs) (mth sha hs)"
proof -
  have "unat i < length hs" using assms(1,2) by (simp add: word_less_nat_alt)
  with climb_complete [OF this, of sha] assms show ?thesis
    by (simp add: verify_inclusion_climb)
qed

theorem verify_inclusion_complete_witness:
  "verify_inclusion toy_digest (replicate 32 2) 1 3
     (audit_path toy_digest 1 [replicate 32 1, replicate 32 2, replicate 32 3])
     (mth toy_digest [replicate 32 1, replicate 32 2, replicate 32 3])"
  using verify_inclusion_complete [of "[replicate 32 1, replicate 32 2, replicate 32 3]" 3 1 toy_digest]
  by simp

lemma inclusion_sound:
  assumes "\<And>x. length (sha x) = 32" and "length hs = unat n" and "\<forall>h \<in> set hs. length h = 32"
    and "\<forall>p \<in> set path. length p = 32"
    and "verify_inclusion sha leaf i n path (mth sha hs)"
  shows "leaf = hs ! unat i \<and> path = audit_path sha (unat i) hs
    \<or> collides sha (climb_inputs sha (unat i) (unat n - 1) leaf path) (tree_inputs sha hs)"
  using climb_sound [of sha "unat i" hs leaf path] assms
  by (auto simp: verify_inclusion_climb word_less_nat_alt)

text \<open>One path and one root admit one leaf: two runs along the same path that meet in the same root started from
  the same leaf hash, or two different inputs of theirs have the same digest.\<close>

lemma climb_unique:
  "climb sha i l r ps = Some x \<Longrightarrow> climb sha i l r' ps = Some x \<Longrightarrow>
     r = r' \<or> collides sha (climb_inputs sha i l r ps) (climb_inputs sha i l r' ps)"
proof (induction sha i l r ps arbitrary: r' rule: climb.induct)
  case (1 sha i l r ps)
  note unfolded = climb.simps [of sha i l] climb_inputs.simps [of sha i l]
  consider "l = 0" | "l \<noteq> 0" "odd i" | "l \<noteq> 0" "even i" "i = l" | "l \<noteq> 0" "even i" "i \<noteq> l" by blast
  then show ?case
  proof cases
    case 1
    then show ?thesis using "1.prems" by (auto simp: climb_0 split: if_splits)
  next
    case 2
    then obtain p ps' where ps: "ps = p # ps'" using "1.prems"(1) by (auto simp: unfolded split: list.splits)
    with 2 "1.prems" have "node sha p r = node sha p r' \<or>
        collides sha (climb_inputs sha (i div 2) (l div 2) (node sha p r) ps') (climb_inputs sha (i div 2) (l div 2) (node sha p r') ps')"
      using "1.IH"(1) [OF 2 ps] by (simp add: unfolded)
    then show ?thesis
      using node_agree [of sha p r p r'] 2 by (auto simp: unfolded ps collides_def)
  next
    case 3
    then show ?thesis using "1.IH"(2) [of r'] "1.prems" by (simp add: climb_last climb_inputs.simps [of sha l])
  next
    case 4
    then obtain p ps' where ps: "ps = p # ps'" using "1.prems"(1) by (auto simp: unfolded split: list.splits)
    with 4 "1.prems" have "node sha r p = node sha r' p \<or>
        collides sha (climb_inputs sha (i div 2) (l div 2) (node sha r p) ps') (climb_inputs sha (i div 2) (l div 2) (node sha r' p) ps')"
      using "1.IH"(3) [OF 4(1) _ 4(3) ps] by (simp add: unfolded)
    then show ?thesis using 4 by (auto simp: unfolded ps collides_def node_def)
  qed
qed

text \<open>
  What the clients of an inclusion check rely on. Receipts and signed statements enter a log as the hash of
  a zero byte and their own hash; whatever the checker, its soundness on leaf hashes gives that an accepted
  proof names the data that really stands at the index, or exhibits a collision between what the verifier hashed
  (\<open>leaf_inputs\<close>) and what was hashed to build the log (\<open>log_inputs\<close>).
\<close>

definition data_leaf :: "(bytes \<Rightarrow> bytes) \<Rightarrow> bytes \<Rightarrow> bytes" where
  "data_leaf sha d = sha (0 # sha d)"

definition leaf_inputs :: "(bytes \<Rightarrow> bytes) \<Rightarrow> bytes \<Rightarrow> u64 \<Rightarrow> nat \<Rightarrow> bytes list \<Rightarrow> bytes list" where
  "leaf_inputs sha d i n path = d # (0 # sha d) # climb_inputs sha (unat i) (n - 1) (data_leaf sha d) path"

definition log_inputs :: "(bytes \<Rightarrow> bytes) \<Rightarrow> bytes list \<Rightarrow> bytes list" where
  "log_inputs sha ds = ds @ map (\<lambda>d. 0 # sha d) ds @ tree_inputs sha (map (data_leaf sha) ds)"

locale inclusion_checker =
  fixes accepts :: "(bytes \<Rightarrow> bytes) \<Rightarrow> bytes \<Rightarrow> u64 \<Rightarrow> u64 \<Rightarrow> bytes list \<Rightarrow> bytes \<Rightarrow> bool"
  assumes index_bound: "accepts sha leaf i n path root \<Longrightarrow> i < n"
    and leaf_sound: "(\<And>x. length (sha x) = 32) \<Longrightarrow> length hs = unat n \<Longrightarrow> \<forall>h \<in> set hs. length h = 32 \<Longrightarrow>
      \<forall>p \<in> set path. length p = 32 \<Longrightarrow> accepts sha leaf i n path (mth sha hs) \<Longrightarrow>
      leaf = hs ! unat i \<or> collides sha (climb_inputs sha (unat i) (unat n - 1) leaf path) (tree_inputs sha hs)"
    and leaf_unique: "accepts sha leaf i n path root \<Longrightarrow> accepts sha leaf' i n path root \<Longrightarrow>
      leaf = leaf' \<or> collides sha (climb_inputs sha (unat i) (unat n - 1) leaf path) (climb_inputs sha (unat i) (unat n - 1) leaf' path)"
begin

lemma data_included:
  assumes sha: "\<And>x. length (sha x) = 32" and n: "length ds = unat n" and path: "\<forall>p \<in> set path. length p = 32"
    and acc: "accepts sha (data_leaf sha d) i n path (mth sha (map (data_leaf sha) ds))"
  shows "unat i < length ds \<and> (d = ds ! unat i \<or> collides sha (leaf_inputs sha d i (length ds) path) (log_inputs sha ds))"
proof -
  have i: "unat i < length ds" using index_bound [OF acc] n by (simp add: word_less_nat_alt)
  have hs: "\<forall>h \<in> set (map (data_leaf sha) ds). length h = 32" using sha by (simp add: data_leaf_def)
  have "data_leaf sha d = map (data_leaf sha) ds ! unat i \<or>
      collides sha (climb_inputs sha (unat i) (unat n - 1) (data_leaf sha d) path) (tree_inputs sha (map (data_leaf sha) ds))"
    using leaf_sound [OF sha _ hs path acc] n by simp
  then consider "data_leaf sha d = data_leaf sha (ds ! unat i)"
    | "collides sha (climb_inputs sha (unat i) (unat n - 1) (data_leaf sha d) path) (tree_inputs sha (map (data_leaf sha) ds))"
    using i by auto
  then show ?thesis
  proof cases
    case 1
    then have "d = ds ! unat i \<or> collides sha [d, 0 # sha d] [ds ! unat i, 0 # sha (ds ! unat i)]"
      by (auto simp: data_leaf_def collides_def)
    moreover have "set [d, 0 # sha d] \<subseteq> set (leaf_inputs sha d i (length ds) path)"
      "set [ds ! unat i, 0 # sha (ds ! unat i)] \<subseteq> set (log_inputs sha ds)"
      using i by (auto simp: leaf_inputs_def log_inputs_def)
    ultimately show ?thesis using i collides_mono by blast
  next
    case 2
    moreover have "set (climb_inputs sha (unat i) (unat n - 1) (data_leaf sha d) path) \<subseteq> set (leaf_inputs sha d i (length ds) path)"
      "set (tree_inputs sha (map (data_leaf sha) ds)) \<subseteq> set (log_inputs sha ds)"
      by (auto simp: leaf_inputs_def log_inputs_def n)
    ultimately show ?thesis using i collides_mono by blast
  qed
qed

lemma data_unique:
  assumes "accepts sha (data_leaf sha d) i n path root" "accepts sha (data_leaf sha d') i n path root"
  shows "d = d' \<or> collides sha (leaf_inputs sha d i (unat n) path) (leaf_inputs sha d' i (unat n) path)"
proof (cases "data_leaf sha d = data_leaf sha d'")
  case True
  then show ?thesis by (auto simp: data_leaf_def collides_def leaf_inputs_def)
next
  case False
  with leaf_unique [OF assms] show ?thesis by (auto simp: collides_def leaf_inputs_def)
qed

end

interpretation merkle: inclusion_checker verify_inclusion
proof unfold_locales
  show "i < n" if "verify_inclusion sha leaf i n path root" for sha leaf i n path root
    using that by (auto simp: verify_inclusion_def not_le split: if_splits)
  show "leaf = leaf' \<or> collides sha (climb_inputs sha (unat i) (unat n - 1) leaf path) (climb_inputs sha (unat i) (unat n - 1) leaf' path)"
    if "verify_inclusion sha leaf i n path root" "verify_inclusion sha leaf' i n path root" for sha leaf leaf' i n path root
    using that climb_unique by (auto simp: verify_inclusion_climb)
qed (use inclusion_sound in blast)

text \<open>C3 (inclusion is sound): a proof the code accepts against the root of a tree is the audit path
  of the leaf that really stands at that index, and the claimed leaf is that leaf; the only other
  possibility is a pair of distinct inputs with equal digests, one hashed by the verifier's own run
  and one hashed when the tree was built.\<close>

theorem verify_inclusion_sound:
  assumes "\<And>x. length (sha x) = 32" and "length hs = unat n" and "\<forall>h \<in> set hs. length h = 32"
    and "\<forall>p \<in> set path. length p = 32"
    and "verify_inclusion sha leaf i n path (mth sha hs)"
  shows "leaf = hs ! unat i \<and> path = audit_path sha (unat i) hs
    \<or> collides sha (climb_inputs sha (unat i) (unat n - 1) leaf path) (tree_inputs sha hs)"
  using assms by (rule inclusion_sound)

theorem verify_inclusion_sound_witness:
  "let leaf = replicate 32 7; hs = [leaf, replicate 32 9] in
     verify_inclusion toy_digest leaf 0 2 [replicate 32 9] (mth toy_digest hs) \<and>
     (leaf = hs ! 0 \<and> [replicate 32 9] = audit_path toy_digest 0 hs
      \<or> collides toy_digest (climb_inputs toy_digest 0 1 leaf [replicate 32 9]) (tree_inputs toy_digest hs))"
proof -
  let ?hs = "[replicate 32 7, replicate 32 9] :: bytes list"
  have v: "verify_inclusion toy_digest (replicate 32 7) 0 2 [replicate 32 9] (mth toy_digest ?hs)"
    by (simp add: verify_inclusion_climb climb_even climb_0 mth_two)
  show ?thesis
    using v verify_inclusion_sound [of toy_digest ?hs 2 "[replicate 32 9]" "replicate 32 7" 0] by simp
qed

text \<open>(consistency is complete): the honest proof between two sizes of one log is accepted.\<close>

theorem verify_consistency_complete:
  assumes "\<And>x. length (sha x) = 32" and "length hs = unat n" and "\<forall>h \<in> set hs. length h = 32"
    and "m \<noteq> 0" and "m \<le> n"
  shows "verify_consistency sha m n (mth sha (take (unat m) hs)) (mth sha hs)
    (consistency_path sha (unat m) hs)"
proof (cases "m = n")
  case True
  with assms show ?thesis by (simp add: verify_consistency_def consistency_path_def)
next
  case False
  then have lt: "m < n" using assms(5) by simp
  then have "unat m \<noteq> length hs" using assms(2) by (simp add: word_less_nat_alt)
  obtain f t A where level: "start_level sha m n hs f t A"
    using verify_consistency_level [OF assms(4) lt assms(2), of sha] by blast
  then have ft: "skip_odd (m - 1) (n - 1) = (f, t)" and
    A: "consistency_level sha (unat m - 1) hs = (unat f, A)" "length A = Suc (unat t)"
      "unat f \<le> unat t" "mth sha A = mth sha hs" "mth sha (take (Suc (unat f)) A) = mth sha (take (unat m) hs)"
      "set (tree_inputs sha A) \<subseteq> set (tree_inputs sha hs)"
    by (simp_all add: start_level_def)
  have v: "verify_consistency sha m n r1 r2 path \<longleftrightarrow>
       (\<exists>seed it. consistency_seed f r1 path = Some (seed, it) \<and>
          climb2 sha (unat f) (unat t) seed seed it = Some (r1, r2))" for r1 r2 path
    using level by (simp add: start_level_def)
  have i: "unat f < length A" using A(2,3) by simp
  have snoc: "take (unat f) A @ [A ! unat f] = take (Suc (unat f)) A"
    using i by (simp add: take_Suc_conv_app_nth)
  have c: "climb2 sha (unat f) (unat t) (A ! unat f) (A ! unat f) (audit_path sha (unat f) A)
      = Some (mth sha (take (unat m) hs), mth sha hs)"
    using climb2_complete [OF i, of sha "A ! unat f"] A by (simp add: snoc)
  have "consistency_seed f (mth sha (take (unat m) hs)) (consistency_path sha (unat m) hs)
      = Some (A ! unat f, audit_path sha (unat f) A)"
  proof (cases "f = 0")
    case True
    have "A ! 0 \<in> set A" using A(2) by (cases A) auto
    with consistency_level_lengths [OF assms(1) A(1) assms(3)] True A(5) i show ?thesis
      using \<open>unat m \<noteq> length hs\<close> A(1) by (cases A) (auto simp: consistency_seed_def consistency_path_def)
  next
    case False
    then show ?thesis using \<open>unat m \<noteq> length hs\<close> A(1)
      by (simp add: consistency_seed_def consistency_path_def unat_eq_zero)
  qed
  with c v show ?thesis by blast
qed

theorem verify_consistency_complete_witness:
  "let hs = [replicate 32 1, replicate 32 2, replicate 32 3] in
     verify_consistency toy_digest 2 3 (mth toy_digest (take 2 hs)) (mth toy_digest hs)
       (consistency_path toy_digest 2 hs)"
  using verify_consistency_complete [of toy_digest "[replicate 32 1, replicate 32 2, replicate 32 3]" 3 2]
  by simp

lemma consistency_sound:
  assumes "\<And>x. length (sha x) = 32" and "length hs = unat n" and "\<forall>h \<in> set hs. length h = 32"
    and "\<forall>p \<in> set path. length p = 32"
    and acc: "verify_consistency sha m n r1 (mth sha hs) path"
  shows "r1 = mth sha (take (unat m) hs) \<and> path = consistency_path sha (unat m) hs
    \<or> collides sha (consistency_inputs sha m n r1 path) (tree_inputs sha hs)"
proof (cases "m = n")
  case True
  with acc assms(2) show ?thesis
    by (auto simp: verify_consistency_def consistency_path_def split: if_splits)
next
  case False
  with acc have m: "m \<noteq> 0" "m < n" by (auto simp: verify_consistency_def split: if_splits)
  have mn: "unat m \<noteq> length hs" using m assms(2) by (simp add: word_less_nat_alt)
  obtain f t A where level: "start_level sha m n hs f t A"
    using verify_consistency_level [OF m assms(2), of sha] by blast
  then have ft: "skip_odd (m - 1) (n - 1) = (f, t)" and
    A: "consistency_level sha (unat m - 1) hs = (unat f, A)" "length A = Suc (unat t)"
      "unat f \<le> unat t" "mth sha A = mth sha hs" "mth sha (take (Suc (unat f)) A) = mth sha (take (unat m) hs)"
      "set (tree_inputs sha A) \<subseteq> set (tree_inputs sha hs)"
    by (simp_all add: start_level_def)
  have v: "verify_consistency sha m n r1 r2 path \<longleftrightarrow>
       (\<exists>seed it. consistency_seed f r1 path = Some (seed, it) \<and>
          climb2 sha (unat f) (unat t) seed seed it = Some (r1, r2))" for r1 r2 path
    using level by (simp add: start_level_def)
  from acc v obtain seed it where seed: "consistency_seed f r1 path = Some (seed, it)"
    and c: "climb2 sha (unat f) (unat t) seed seed it = Some (r1, mth sha A)"
    using A(4) by metis
  have i: "unat f < length A" using A(2,3) by simp
  have snoc: "take (unat f) A @ [A ! unat f] = take (Suc (unat f)) A"
    using i by (simp add: take_Suc_conv_app_nth)
  have lens: "length seed = 32" "\<forall>p \<in> set it. length p = 32"
    using seed assms(4) by (auto simp: consistency_seed_def split: if_splits list.splits)
  have "climb sha (unat f) (length A - 1) seed it = Some (mth sha A)"
    using climb2_snd [of sha "unat f" "unat t" seed seed it] c A(2) by simp
  from climb_sound [OF assms(1) this i _ lens] consistency_level_lengths [OF assms(1) A(1) assms(3)]
  consider "seed = A ! unat f" "it = audit_path sha (unat f) A"
    | "collides sha (consistency_inputs sha m n r1 path) (tree_inputs sha A)"
    using A(2) ft seed by (auto simp: consistency_inputs_def)
  then show ?thesis
  proof cases
    case 1
    have "r1 = mth sha (take (unat m) hs)"
      using climb2_complete [OF i, of sha "A ! unat f"] c A 1 by (simp add: snoc)
    moreover have "path = consistency_path sha (unat m) hs"
      using seed 1 mn A(1) by (auto simp: consistency_path_def consistency_seed_def unat_eq_zero
          split: if_splits list.splits)
    ultimately show ?thesis by simp
  next
    case 2
    then show ?thesis using A(6) by (blast intro: collides_mono)
  qed
qed

text \<open>C4 (consistency is sound): when the second root is the root of a log, a proof the code accepts
  shows that the first root is the root of that log's own prefix of the first size, and it is the
  honest proof; the only other possibility is an explicit collision, as for inclusion.\<close>

theorem verify_consistency_sound:
  assumes "\<And>x. length (sha x) = 32" and "length hs = unat n" and "\<forall>h \<in> set hs. length h = 32"
    and "\<forall>p \<in> set path. length p = 32"
    and acc: "verify_consistency sha m n r1 (mth sha hs) path"
  shows "r1 = mth sha (take (unat m) hs) \<and> path = consistency_path sha (unat m) hs
    \<or> collides sha (consistency_inputs sha m n r1 path) (tree_inputs sha hs)"
  using assms by (rule consistency_sound)

theorem verify_consistency_sound_witness:
  "let a = replicate 32 1; b = replicate 32 2; hs = [a, b] in
     verify_consistency toy_digest 1 2 a (mth toy_digest hs) [b] \<and>
     (a = mth toy_digest (take 1 hs) \<and> [b] = consistency_path toy_digest 1 hs
      \<or> collides toy_digest (consistency_inputs toy_digest 1 2 a [b]) (tree_inputs toy_digest hs))"
proof -
  let ?a = "replicate 32 1 :: bytes" and ?b = "replicate 32 2 :: bytes"
  have v: "verify_consistency toy_digest 1 2 ?a (mth toy_digest [?a, ?b]) [?b]"
    by (simp add: verify_consistency_def skip_odd.simps lsb_def consistency_seed_def
        consistency_step_def mth_two)
  show ?thesis
    using v verify_consistency_sound [of toy_digest "[?a, ?b]" 2 "[?b]" 1 ?a] by simp
qed

text \<open>(the number of hashes is fixed by the sizes): whatever the roots and the hash function, two
  consistency proofs the code accepts for the same two sizes have the same length. A truncated or
  padded proof therefore never passes: the code compares \<open>sn\<close> (the height left) with 0, where
  comparing \<open>fnn\<close> would accept the first hash of a genuine (1, 3) proof on its own.\<close>

theorem verify_consistency_length:
  assumes "verify_consistency sha m n r1 r2 p" and "verify_consistency sha' m n r1' r2' q"
  shows "length p = length q"
proof (cases "m = n")
  case True
  with assms show ?thesis by (simp add: verify_consistency_def split: if_splits)
next
  case False
  with assms(1) have m: "m \<noteq> 0" "m < n" by (auto simp: verify_consistency_def split: if_splits)
  define hs :: "bytes list" where "hs = replicate (unat n) []"
  have hs: "length hs = unat n" by (simp add: hs_def)
  obtain f t A where A: "start_level sha m n hs f t A" using verify_consistency_level [OF m hs] by blast
  obtain f' t' A' where A': "start_level sha' m n hs f' t' A'" using verify_consistency_level [OF m hs] by blast
  have eq: "f' = f" "t' = t" using A A' by (auto simp: start_level_def)
  have "length p = (if f = 0 then 0 else 1) + path_len (unat f) (unat t)"
    using A assms(1) by (auto simp: start_level_def dest: consistency_length)
  moreover have "length q = (if f = 0 then 0 else 1) + path_len (unat f) (unat t)"
    using A' assms(2) eq by (auto simp: start_level_def dest: consistency_length)
  ultimately show ?thesis by simp
qed

theorem verify_consistency_length_witness:
  "let a = replicate 32 1; b = replicate 32 2 in
     verify_consistency toy_digest 1 2 a (node toy_digest a b) [b] \<and> length [b] = length [b]"
proof -
  let ?a = "replicate 32 1 :: bytes" and ?b = "replicate 32 2 :: bytes"
  have v: "verify_consistency toy_digest 1 2 ?a (node toy_digest ?a ?b) [?b]"
    by (simp add: verify_consistency_def skip_odd.simps lsb_def consistency_seed_def consistency_step_def)
  show ?thesis using v verify_consistency_length [OF v v] by simp
qed

end
