(* ===== verification/Checkpoints.thy ===== *)
theory Checkpoints
  imports KeyLog Merkle
begin

text \<open>
  Signed checkpoints and the presented chain of them (\<open>lib.rs\<close>): signatures under the key log, linkage
  by body hash and consistency proof, origins, and the operator's continuity assertions over the
  intervals a sparse chain elides.
\<close>

section \<open>Checkpoints\<close>

definition CHECKPOINT_TYPE :: string where
  "CHECKPOINT_TYPE = ''application/vnd.evd.checkpoint.v1+json''"

definition CHECKPOINT_MEMBERS :: "string list" where
  "CHECKPOINT_MEMBERS = [''schema'', ''origin'', ''tree_size'', ''root_hash'', ''ts'', ''prev_hash'', ''alg'']"

definition body_str :: "json \<Rightarrow> string \<Rightarrow> string option" where
  "body_str cp k = Option.bind (get cp ''body'') (\<lambda>b. get_str b k)"

definition body_u64 :: "json \<Rightarrow> string \<Rightarrow> u64 option" where
  "body_u64 cp k = Option.bind (get cp ''body'') (\<lambda>b. get_u64 b k)"

definition checkpoint_body_hash :: "crates \<Rightarrow> json \<Rightarrow> string option" where
  "checkpoint_body_hash C cp =
     Option.bind (get cp ''body'') (\<lambda>body. map_option (\<lambda>b. hex (sha256 C b)) (canonical_checked C body))"

definition verify_checkpoint_sig :: "crates \<Rightarrow> json \<Rightarrow> (string \<rightharpoonup> bytes) \<Rightarrow> bool" where
  "verify_checkpoint_sig C cp keys =
     (case get_str cp ''kid'' of None \<Rightarrow> False | Some kid \<Rightarrow>
     (case keys kid of None \<Rightarrow> False | Some pubkey \<Rightarrow>
     (case get cp ''body'' of None \<Rightarrow> False | Some body \<Rightarrow>
     (case as_object body of None \<Rightarrow> False | Some ob \<Rightarrow>
        if list_ex (\<lambda>(k, _). k \<notin> set CHECKPOINT_MEMBERS) ob
           \<or> is_some_and (get body ''alg'') (\<lambda>alg. as_str alg \<noteq> Some ''EdDSA'')
        then False
        else
          (case Option.bind (get_str cp ''sig'') (B64_decode C) of None \<Rightarrow> False | Some sig \<Rightarrow>
          (case canonical_checked C body of None \<Rightarrow> False | Some canon \<Rightarrow>
             ed25519_verify C pubkey (pae CHECKPOINT_TYPE canon) sig))))))"

text \<open>The loop over the JWKS collects the key ids it admits; \<open>None\<close> is an early \<open>return false\<close>.\<close>

fun listed_keys :: "crates \<Rightarrow> KeyLog \<Rightarrow> json list \<Rightarrow> string set option" where
  "listed_keys C kl [] = Some {}"
| "listed_keys C kl (jwk # jwks) =
     (case key_from_jwk C jwk of
        None \<Rightarrow> None
      | Some (mat, kid) \<Rightarrow>
          if kl_keys kl kid = Some mat then map_option (insert kid) (listed_keys C kl jwks) else None)"

definition check_jwks_match_log :: "crates \<Rightarrow> json \<Rightarrow> KeyLog \<Rightarrow> bool" where
  "check_jwks_match_log C bundle kl =
     (case Option.bind (get bundle ''jwks'') (\<lambda>v. get_array v ''keys'') of
        None \<Rightarrow> False
      | Some jwks \<Rightarrow>
          if jwks = [] then False
          else (case listed_keys C kl jwks of
                  None \<Rightarrow> False
                | Some listed \<Rightarrow>
                    (\<forall>(kid, state) \<in> Map.graph (kl_state kl). revoked_at state \<noteq> None \<or> kid \<in> listed)))"

definition issuer_active :: "KeyLog \<Rightarrow> json \<Rightarrow> bool" where
  "issuer_active kl cp =
     (let ts = unwrap_or [] (body_str cp ''ts''); tree_size = unwrap_or 0 (body_u64 cp ''tree_size'');
          kid = unwrap_or [] (get_str cp ''kid'') in
      \<not> is_some_and (kl_state kl kid) non_issuer \<and> key_active kl kid ts tree_size)"

definition check_target_checkpoint :: "crates \<Rightarrow> json \<Rightarrow> KeyLog \<Rightarrow> bool" where
  "check_target_checkpoint C target kl = (verify_checkpoint_sig C target (kl_keys kl) \<and> issuer_active kl target)"

section \<open>The chain\<close>

definition check_chain_consistency :: "crates \<Rightarrow> json \<Rightarrow> json \<Rightarrow> json \<Rightarrow> u64 \<Rightarrow> u64 \<Rightarrow> bool" where
  "check_chain_consistency C prev cp entry prev_size cur_size =
     (case proof_hashes (get entry ''consistency_from_prev'') of
        None \<Rightarrow> False
      | Some path \<Rightarrow>
          (let prev_root = unwrap_or [] (body_str prev ''root_hash''); cur_root = unwrap_or [] (body_str cp ''root_hash'') in
           case (hex_to_bytes prev_root, hex_to_bytes cur_root) of
             (Some pr, Some cr) \<Rightarrow> verify_consistency (sha256 C) prev_size cur_size pr cr path
           | _ \<Rightarrow> False))"

definition check_chain_link :: "crates \<Rightarrow> json \<Rightarrow> json \<Rightarrow> json \<Rightarrow> bool \<Rightarrow> bool" where
  "check_chain_link C prev cp entry sparse =
     (case checkpoint_body_hash C prev of
        None \<Rightarrow> False
      | Some prev_bh \<Rightarrow>
          (let cur_prev = unwrap_or [] (body_str cp ''prev_hash'');
               prev_size = unwrap_or 0 (body_u64 prev ''tree_size'');
               cur_size = unwrap_or 0 (body_u64 cp ''tree_size'') in
           if sparse \<and> cur_prev = [] \<or> \<not> sparse \<and> cur_prev \<noteq> prev_bh then False
           else if cur_size < prev_size then False
           else if body_str prev ''origin'' \<noteq> body_str cp ''origin'' then False
           else if prev_size > 0 \<and> \<not> check_chain_consistency C prev cp entry prev_size cur_size then False
           else True))"

text \<open>The loop, with the previous checkpoint in place of the index.\<close>

fun chain_loop :: "crates \<Rightarrow> KeyLog \<Rightarrow> bool \<Rightarrow> json option \<Rightarrow> (json \<times> json) list \<Rightarrow> bool" where
  "chain_loop C kl sparse prev [] = True"
| "chain_loop C kl sparse prev ((cp, entry) # rest) =
     (if \<not> verify_checkpoint_sig C cp (kl_keys kl) then False
      else if \<not> issuer_active kl cp then False
      else if is_some_and prev (\<lambda>p. \<not> check_chain_link C p cp entry sparse) then False
      else chain_loop C kl sparse (Some cp) rest)"

definition check_checkpoint_chain :: "crates \<Rightarrow> json list \<Rightarrow> json list \<Rightarrow> KeyLog \<Rightarrow> bool \<Rightarrow> bool" where
  "check_checkpoint_chain C chain chain_entries kl sparse =
     (if (case chain of [] \<Rightarrow> None | cp # _ \<Rightarrow> body_str cp ''prev_hash'') \<noteq> Some [] then False
      else chain_loop C kl sparse None (zip chain chain_entries))"

definition check_bundle_origin :: "json \<Rightarrow> json \<Rightarrow> json list \<Rightarrow> bool" where
  "check_bundle_origin bundle target chain =
     (case get_str bundle ''origin'' of
        None \<Rightarrow> False
      | Some origin \<Rightarrow>
          body_str target ''origin'' = Some origin \<and> list_all (\<lambda>cp. body_str cp ''origin'' = Some origin) chain)"

definition chain_head_matches :: "crates \<Rightarrow> json list \<Rightarrow> json \<Rightarrow> bool" where
  "chain_head_matches C chain target =
     (case (checkpoint_body_hash C (last chain), checkpoint_body_hash C target) of
        (Some head, Some want) \<Rightarrow> head = want
      | _ \<Rightarrow> False)"

section \<open>Continuity assertions\<close>

definition continuity_authority_hash :: "json option \<Rightarrow> bool" where
  "continuity_authority_hash value =
     is_some_and (Option.bind value as_str) (\<lambda>s. length s = 64 \<and> list_all is_lower_hex s)"

definition continuity_self_consistent :: "json \<Rightarrow> bool" where
  "continuity_self_consistent assertion =
     (case get assertion ''body'' of
        None \<Rightarrow> False
      | Some b \<Rightarrow>
          (case (get_i64 b ''from_tree_size'', get_i64 b ''to_tree_size'', get_i64 b ''appended'') of
             (Some from_size, Some to_size, Some appended) \<Rightarrow>
               (case (get_str b ''from_hash'', get_str b ''to_hash'') of
                  (Some fh, Some th) \<Rightarrow>
                    (as_str (index b ''schema'') = Some ''evd/continuity/v1''
                     \<or> as_str (index b ''schema'') = Some ''evd/continuity/v2''
                       \<and> continuity_authority_hash (get b ''authority_checkpoint_hash''))
                    \<and> from_size \<ge> 0 \<and> to_size \<ge> from_size \<and> appended = to_size - from_size \<and> fh \<noteq> th
                | _ \<Rightarrow> False)
           | _ \<Rightarrow> False))"

definition continuity_gaps :: "crates \<Rightarrow> json list \<Rightarrow> json list \<Rightarrow> nat" where
  "continuity_gaps C chain assertions =
     (let covered = List.map_filter
            (\<lambda>a. Option.bind (get a ''body'') (\<lambda>b.
               Option.bind (get_str b ''from_hash'') (\<lambda>f. map_option (Pair f) (get_str b ''to_hash''))))
            (filter continuity_self_consistent assertions) in
      length (filter
        (\<lambda>(p, q). case (checkpoint_body_hash C p, checkpoint_body_hash C q) of
           (Some first, Some second) \<Rightarrow>
             if body_str q ''prev_hash'' = Some first then False
             else \<not> list_ex (\<lambda>(f, t). f = first \<and> t = second) covered
         | _ \<Rightarrow> True)
        (zip chain (tl chain))))"

definition CONTINUITY_MEMBERS :: "string list" where
  "CONTINUITY_MEMBERS = [''schema'', ''origin'', ''from_hash'', ''to_hash'', ''from_tree_size'', ''to_tree_size'', ''appended'']"

definition continuity_admissible :: "crates \<Rightarrow> json \<Rightarrow> KeyLog \<Rightarrow> json option \<Rightarrow> bool" where
  "continuity_admissible C item kl origin =
     (case (as_object item, get_object item ''body'') of
        (Some outer, Some body) \<Rightarrow>
          (let issuer_bound = (Option.bind (map_of body ''schema'') as_str = Some ''evd/continuity/v2'');
               authority_shape = (\<not> issuer_bound \<or> continuity_authority_hash (map_of body ''authority_checkpoint_hash''));
               shaped = (authority_shape \<and> length outer = 3 \<and> length body = (if issuer_bound then 8 else 7)
                 \<and> list_all (contains_key body) CONTINUITY_MEMBERS
                 \<and> list_all (\<lambda>m. as_u64 (unwrap_or JNull (map_of body m)) \<noteq> None) [''from_tree_size'', ''to_tree_size'', ''appended'']
                 \<and> list_all (\<lambda>m. is_some_and (as_str (unwrap_or JNull (map_of body m))) (\<lambda>t. t \<noteq> [])) [''origin'', ''from_hash'', ''to_hash'']) in
           case (Option.bind (get_str item ''kid'') (kl_keys kl), Option.bind (get_str item ''sig'') (B64_decode C)) of
             (Some key, Some sig) \<Rightarrow>
               shaped \<and> value_eq_opt (map_of body ''origin'') origin \<and> continuity_self_consistent item
               \<and> is_some_and (canonical_checked C (index item ''body'')) (\<lambda>canon. ed25519_verify C key canon sig)
           | _ \<Rightarrow> False)
      | _ \<Rightarrow> False)"

text \<open>\<open>iter().position(p)\<close>\<close>

fun position :: "('a \<Rightarrow> bool) \<Rightarrow> 'a list \<Rightarrow> nat option" where
  "position P [] = None"
| "position P (x # xs) = (if P x then Some 0 else map_option Suc (position P xs))"

definition continuity_authority :: "crates \<Rightarrow> json \<Rightarrow> json \<Rightarrow> json list \<Rightarrow> KeyLog \<Rightarrow> bool" where
  "continuity_authority C item bundle chain kl =
     (let b = index item ''body'' in
      if as_str (index b ''schema'') = Some ''evd/continuity/v1'' then True
      else
        (case (as_str (index b ''authority_checkpoint_hash''), as_str (index item ''kid''),
               as_str (index b ''from_hash''), as_str (index b ''to_hash'')) of
           (Some hash, Some kid, Some first, Some last_hash) \<Rightarrow>
             (let find_cp = (\<lambda>h. position (\<lambda>cp. checkpoint_body_hash C cp = Some h) chain) in
              case (find_cp hash, find_cp first, find_cp last_hash) of
                (Some authority, Some start, Some finish) \<Rightarrow>
                  (let cp = chain ! authority in
                   case (as_str (index (index cp ''body'') ''ts''), as_u64 (index (index cp ''body'') ''tree_size'')) of
                     (Some ts, Some tree_size) \<Rightarrow>
                       value_eq cp (index bundle ''target_checkpoint'') \<and> as_str (index cp ''kid'') = Some kid
                       \<and> \<not> is_some_and (kl_state kl kid) non_issuer \<and> key_active kl kid ts tree_size \<and> start < finish
                       \<and> value_eq (index (index (chain ! start) ''body'') ''tree_size'') (index b ''from_tree_size'')
                       \<and> value_eq (index (index (chain ! finish) ''body'') ''tree_size'') (index b ''to_tree_size'')
                   | _ \<Rightarrow> False)
              | _ \<Rightarrow> False)
         | _ \<Rightarrow> False))"

definition assess_continuity :: "crates \<Rightarrow> json \<Rightarrow> json list \<Rightarrow> KeyLog \<Rightarrow> bool \<times> bool \<times> nat" where
  "assess_continuity C bundle chain kl =
     (case ofilter (\<lambda>v. v \<noteq> JNull) (get bundle ''continuity'') of
        None \<Rightarrow> (False, True, continuity_gaps C chain [])
      | Some raw \<Rightarrow>
          (case as_array raw of
             None \<Rightarrow> (False, False, 0)
           | Some items \<Rightarrow>
               if \<not> list_all (\<lambda>item. continuity_admissible C item kl (get bundle ''origin'')
                                 \<and> continuity_authority C item bundle chain kl) items
               then (items \<noteq> [], False, 0)
               else (let gaps = continuity_gaps C chain items in (items \<noteq> [], items = [] \<or> gaps = 0, gaps))))"


section \<open>What an accepted chain shows\<close>

definition size_of :: "json \<Rightarrow> u64" where
  "size_of cp = unwrap_or 0 (body_u64 cp ''tree_size'')"

definition root_of :: "json \<Rightarrow> bytes option" where
  "root_of cp = hex_to_bytes (unwrap_or [] (body_str cp ''root_hash''))"

lemma proof_hashes_32:
  assumes "proof_hashes v = Some path"
  shows "\<forall>p \<in> set path. length p = 32"
proof (cases "\<exists>items. v = Some (JArray items)")
  case True
  let ?f = "\<lambda>x. ofilter (\<lambda>b. length b = 32) (Option.bind (as_str x) hex_to_bytes)"
  from True obtain items where "collect_opt ?f items = Some path"
    using assms by (auto simp: proof_hashes_def)
  then have m: "map ?f items = map Some path" by (simp only: collect_opt_Some_iff)
  show ?thesis
  proof
    fix p assume "p \<in> set path"
    then have "Some p \<in> set (map ?f items)" unfolding m by simp
    then have "Some p \<in> ?f ` set items" by (simp only: list.set_map)
    then obtain x where "Some p = ?f x" by (rule imageE)
    from this [symmetric] show "length p = 32" by simp
  qed
next
  case False
  then show ?thesis using assms by (auto simp: proof_hashes_def split: option.splits json.splits)
qed

lemma chain_link:
  assumes "check_chain_link C prev cp entry sparse"
  shows "size_of prev \<le> size_of cp" "body_str prev ''origin'' = body_str cp ''origin''"
    "size_of prev \<noteq> 0 \<Longrightarrow> \<exists>path pr cr. proof_hashes (get entry ''consistency_from_prev'') = Some path \<and>
       root_of prev = Some pr \<and> root_of cp = Some cr \<and> verify_consistency (sha256 C) (size_of prev) (size_of cp) pr cr path"
  using assms
  by (auto simp: check_chain_link_def check_chain_consistency_def size_of_def root_of_def Let_def not_less
      word_gt_0 split: option.splits if_splits)

text \<open>An explicit hash collision, between an input of this link's consistency check and an input of the
  tree of the later checkpoint.\<close>

definition link_collision :: "crates \<Rightarrow> bytes list \<Rightarrow> json \<Rightarrow> json \<Rightarrow> json \<Rightarrow> bool" where
  "link_collision C hs prev cp entry \<longleftrightarrow>
     (\<exists>path pr. proof_hashes (get entry ''consistency_from_prev'') = Some path \<and> root_of prev = Some pr \<and>
        collides (Sha256 C) (consistency_inputs (Sha256 C) (size_of prev) (size_of cp) pr path)
          (tree_inputs (Sha256 C) (take (unat (size_of cp)) hs)))"

definition chain_collision :: "crates \<Rightarrow> bytes list \<Rightarrow> (json \<times> json) list \<Rightarrow> bool" where
  "chain_collision C hs ps \<longleftrightarrow>
     (\<exists>i. Suc i < length ps \<and> link_collision C hs (fst (ps ! i)) (fst (ps ! Suc i)) (snd (ps ! Suc i)))"

lemma chain_collision_Cons: "chain_collision C hs ps \<Longrightarrow> chain_collision C hs (p # ps)"
  unfolding chain_collision_def by (metis Suc_less_eq length_Cons nth_Cons_Suc)

lemma chain_prefix_roots:
  assumes sha: "\<And>x. length (Sha256 C x) = 32" and hs: "\<forall>h \<in> set hs. length h = 32"
  shows "chain_loop C kl sparse prev ps \<Longrightarrow> ps \<noteq> [] \<Longrightarrow>
    root_of (fst (last ps)) = Some (mth (Sha256 C) hs) \<Longrightarrow> length hs = unat (size_of (fst (last ps))) \<Longrightarrow>
    chain_collision C hs ps \<or>
    (\<forall>p \<in> set ps. size_of (fst p) \<le> size_of (fst (last ps)) \<and>
       (size_of (fst p) \<noteq> 0 \<longrightarrow> root_of (fst p) = Some (mth (Sha256 C) (take (unat (size_of (fst p))) hs))))"
proof (induction ps arbitrary: prev)
  case (Cons p ps)
  obtain cp entry where p: "p = (cp, entry)" by force
  have loop: "chain_loop C kl sparse (Some cp) ps" using Cons.prems(1) p by (auto split: if_splits)
  show ?case
  proof (cases ps)
    case Nil
    then show ?thesis using Cons.prems(3,4) p by simp
  next
    case (Cons q qs)
    obtain cp' entry' where q: "q = (cp', entry')" by force
    have last: "last (p # ps) = last ps" using Cons by simp
    from loop Cons q have link: "check_chain_link C cp cp' entry' sparse" by (auto split: if_splits)
    consider "chain_collision C hs ps"
      | (ok) "\<forall>p \<in> set ps. size_of (fst p) \<le> size_of (fst (last ps)) \<and>
         (size_of (fst p) \<noteq> 0 \<longrightarrow> root_of (fst p) = Some (mth (Sha256 C) (take (unat (size_of (fst p))) hs)))"
      using Cons.IH [OF loop] Cons.prems(3,4) last Cons by auto
    then show ?thesis
    proof cases
      case 1
      then show ?thesis using chain_collision_Cons by blast
    next
      case ok
      have le: "size_of cp \<le> size_of cp'" "size_of cp' \<le> size_of (fst (last ps))"
        using chain_link(1) [OF link] ok Cons q by auto
      show ?thesis
      proof (cases "size_of cp = 0")
        case True
        then show ?thesis using ok p last le by auto
      next
        case False
        obtain path pr cr where c: "proof_hashes (get entry' ''consistency_from_prev'') = Some path" "root_of cp = Some pr"
          "root_of cp' = Some cr" "verify_consistency (Sha256 C) (size_of cp) (size_of cp') pr cr path"
          using chain_link(3) [OF link False] by (auto simp: sha256_def [abs_def])
        let ?hs = "take (unat (size_of cp')) hs"
        have nz: "size_of cp' \<noteq> 0" using le False by (metis word_le_0_iff)
        have cr: "cr = mth (Sha256 C) ?hs" using ok Cons q nz c(3) by auto
        have len: "length ?hs = unat (size_of cp')"
          using le(2) Cons.prems(4) last by (simp add: word_le_nat_alt)
        have "pr = mth (Sha256 C) (take (unat (size_of cp)) ?hs) \<or>
            collides (Sha256 C) (consistency_inputs (Sha256 C) (size_of cp) (size_of cp') pr path) (tree_inputs (Sha256 C) ?hs)"
          using consistency_sound [OF sha len _ proof_hashes_32 [OF c(1)] c(4) [unfolded cr]] hs
          by (meson in_set_takeD)
        then show ?thesis
        proof
          assume "pr = mth (Sha256 C) (take (unat (size_of cp)) ?hs)"
          moreover have "take (unat (size_of cp)) ?hs = take (unat (size_of cp)) hs"
            using le(1) by (simp add: word_le_nat_alt)
          ultimately show ?thesis using ok p last le c(2) by auto
        next
          assume "collides (Sha256 C) (consistency_inputs (Sha256 C) (size_of cp) (size_of cp') pr path) (tree_inputs (Sha256 C) ?hs)"
          then have "link_collision C hs cp cp' entry'" using c by (auto simp: link_collision_def)
          then have "chain_collision C hs (p # ps)"
            unfolding chain_collision_def using Cons p q by (intro exI [of _ 0]) simp
          then show ?thesis ..
        qed
      qed
    qed
  qed
qed simp

lemma chain_loop_origin:
  "chain_loop C kl sparse (Some p) ps \<Longrightarrow> (cp, e) \<in> set ps \<Longrightarrow> body_str cp ''origin'' = body_str p ''origin''"
proof (induction ps arbitrary: p)
  case (Cons q qs)
  obtain c f where q: "q = (c, f)" by force
  have l: "check_chain_link C p c f sparse" "chain_loop C kl sparse (Some c) qs"
    using Cons.prems(1) unfolding q by (auto split: if_splits)
  show ?case using Cons.IH [OF l(2)] Cons.prems(2) chain_link(2) [OF l(1)] unfolding q by auto
qed simp

lemma chain_loop_origin_hd:
  assumes "chain_loop C kl sparse None (zip chain entries)" "(cp, e) \<in> set (zip chain entries)"
  shows "body_str cp ''origin'' = body_str (hd chain) ''origin''"
proof (cases "zip chain entries")
  case (Cons q qs)
  then have "fst q = hd chain" by (cases chain; cases entries) auto
  moreover have "chain_loop C kl sparse (Some (fst q)) qs" using assms(1) unfolding Cons by (cases q) (auto split: if_splits)
  ultimately show ?thesis using assms(2) unfolding Cons by (auto dest: chain_loop_origin)
qed (use assms in auto)

lemma chain_loop_members:
  "chain_loop C kl sparse prev ps \<Longrightarrow> (cp, e) \<in> set ps \<Longrightarrow> verify_checkpoint_sig C cp (kl_keys kl) \<and> issuer_active kl cp"
  by (induction ps arbitrary: prev) (auto split: if_splits)


text \<open>The contract of a signed checkpoint: a valid signature over the canonical bytes of a closed body, by
  an issuer key of the log that is active at the checkpoint's own time and size.\<close>

definition issued_checkpoint :: "crates \<Rightarrow> KeyLog \<Rightarrow> json \<Rightarrow> bool" where
  "issued_checkpoint C kl cp \<longleftrightarrow>
     (\<exists>kid key m canon sig ts. get_str cp ''kid'' = Some kid \<and> kl_keys kl kid = Some key \<and> issuer kl kid \<and>
        get cp ''body'' = Some (JObject m) \<and> fst ` set m \<subseteq> set CHECKPOINT_MEMBERS \<and>
        canonical_checked C (JObject m) = Some canon \<and>
        Option.bind (get_str cp ''sig'') (B64_decode C) = Some sig \<and> ed25519_verify C key (pae CHECKPOINT_TYPE canon) sig \<and>
        get_str (JObject m) ''ts'' = Some ts \<and> key_active kl kid ts (size_of cp))"

lemma checkpoint_issued:
  assumes v: "verify_checkpoint_sig C cp (kl_keys kl)" "issuer_active kl cp"
  shows "issued_checkpoint C kl cp"
proof -
  obtain kid key body ob canon sig where k: "get_str cp ''kid'' = Some kid" "kl_keys kl kid = Some key" "get cp ''body'' = Some body"
    and ob: "as_object body = Some ob" "\<not> list_ex (\<lambda>(k, _). k \<notin> set CHECKPOINT_MEMBERS) ob"
    and s: "canonical_checked C body = Some canon" "Option.bind (get_str cp ''sig'') (B64_decode C) = Some sig"
    "ed25519_verify C key (pae CHECKPOINT_TYPE canon) sig"
    using v(1) unfolding verify_checkpoint_sig_def by (auto split: option.splits if_splits)
  have m: "body = JObject ob" using ob(1) by (cases body) (auto simp: as_object_def)
  have c: "fst ` set ob \<subseteq> set CHECKPOINT_MEMBERS" using ob(2) by (auto simp: list_ex_iff)
  have a: "key_active kl kid (unwrap_or [] (get_str body ''ts'')) (size_of cp)" "\<not> is_some_and (kl_state kl kid) non_issuer"
    using v(2) k(1,3) by (simp_all add: issuer_active_def Let_def size_of_def body_str_def)
  have "\<not> canonical_utc []" by (simp add: canonical_utc_def)
  then have "utc_epoch_micros [] = None" by (simp add: utc_epoch_micros_def)
  with a(1) obtain ts where t: "get_str body ''ts'' = Some ts"
    by (cases "get_str body ''ts''") (auto simp: key_active_def split: option.splits)
  have i: "issuer kl kid" using a by (auto simp: issuer_def key_active_def split: option.splits)
  show ?thesis
    unfolding issued_checkpoint_def using k s c t i a(1) unfolding m by auto
qed


lemma chain_issued:
  assumes "check_checkpoint_chain C chain chain_entries kl sparse" "length chain_entries = length chain"
    and "cp \<in> set chain"
  shows "issued_checkpoint C kl cp" "body_str (hd chain) ''prev_hash'' = Some []" "body_str cp ''origin'' = body_str (hd chain) ''origin''"
proof -
  have loop: "chain_loop C kl sparse None (zip chain chain_entries)"
    using assms(1) by (auto simp: check_checkpoint_chain_def split: if_splits)
  show "body_str (hd chain) ''prev_hash'' = Some []"
    using assms(1) by (auto simp: check_checkpoint_chain_def split: if_splits list.splits)
  obtain e where e: "(cp, e) \<in> set (zip chain chain_entries)"
    using assms(2,3) by (metis in_set_impl_in_set_zip1)
  show "issued_checkpoint C kl cp" using chain_loop_members [OF loop e] by (auto intro: checkpoint_issued)
  show "body_str cp ''origin'' = body_str (hd chain) ''origin''" by (rule chain_loop_origin_hd [OF loop e])
qed


section \<open>Properties\<close>

text \<open>
  C8: append-only history. If the last checkpoint of an accepted chain commits to a log, then every
  checkpoint of the chain with a non-zero size commits to the prefix of that log of its own size, and its
  size is at most the last one's; the only other possibility is an explicit hash collision between an input
  of one link's proof check and an input of the later tree. It holds for dense and sparse chains.
\<close>

theorem chain_append_only:
  assumes "\<And>x. length (Sha256 C x) = 32" and "\<forall>h \<in> set hs. length h = 32"
    and "check_checkpoint_chain C chain chain_entries kl sparse" "length chain_entries = length chain"
    and "root_of (last chain) = Some (mth (Sha256 C) hs)" "length hs = unat (size_of (last chain))"
  shows "chain_collision C hs (zip chain chain_entries) \<or>
    (\<forall>cp \<in> set chain. size_of cp \<le> size_of (last chain) \<and>
       (size_of cp \<noteq> 0 \<longrightarrow> root_of cp = Some (mth (Sha256 C) (take (unat (size_of cp)) hs))))"
proof -
  let ?ps = "zip chain chain_entries"
  have loop: "chain_loop C kl sparse None ?ps" and ne: "chain \<noteq> []"
    using assms(3) by (auto simp: check_checkpoint_chain_def split: if_splits)
  have f: "map fst ?ps = chain" using assms(4) by simp
  have ne': "?ps \<noteq> []" using ne assms(4) by (cases chain; cases chain_entries) auto
  have l: "fst (last ?ps) = last chain" using ne' f by (metis last_map)
  have s: "set chain = fst ` set ?ps" using f by (metis set_map)
  show ?thesis
    using chain_prefix_roots [OF assms(1,2) loop ne', unfolded l, OF assms(5,6)] unfolding s by simp
qed

text \<open>
  Who signed an accepted chain. It starts at a genesis checkpoint (an empty previous hash), and every
  checkpoint carries a valid signature over the canonical bytes of its own body, whose members are a closed
  set, by an issuer key of the replayed log that was active at the checkpoint's time and size; all of them
  name the same origin.
\<close>

theorem chain_signed_by_issuers:
  assumes "check_checkpoint_chain C chain chain_entries kl sparse" "length chain_entries = length chain"
    and "cp \<in> set chain"
  shows "body_str (hd chain) ''prev_hash'' = Some [] \<and> body_str cp ''origin'' = body_str (hd chain) ''origin'' \<and>
    issued_checkpoint C kl cp"
  using chain_issued [OF assms] by blast

text \<open>
  Continuity assertions tile. With no gap reported, every step of the presented chain is either dense
  (the later checkpoint names the hash of the earlier one) or covered by a self-consistent assertion
  between exactly those two hashes.
\<close>

theorem continuity_no_gaps:
  assumes "continuity_gaps C chain assertions = 0" "Suc i < length chain"
  shows "\<exists>h h'. checkpoint_body_hash C (chain ! i) = Some h \<and> checkpoint_body_hash C (chain ! Suc i) = Some h' \<and>
    (body_str (chain ! Suc i) ''prev_hash'' = Some h \<or>
     (\<exists>a \<in> set assertions. continuity_self_consistent a \<and>
        body_str a ''from_hash'' = Some h \<and> body_str a ''to_hash'' = Some h'))"
proof -
  have "(chain ! i, chain ! Suc i) \<in> set (zip chain (tl chain))"
    using assms(2) by (auto simp: in_set_zip nth_tl intro!: exI [of _ i])
  then have ng: "\<not> (case (checkpoint_body_hash C (chain ! i), checkpoint_body_hash C (chain ! Suc i)) of
           (Some first, Some second) \<Rightarrow>
             if body_str (chain ! Suc i) ''prev_hash'' = Some first then False
             else \<not> list_ex (\<lambda>(f, t). f = first \<and> t = second)
               (List.map_filter
                 (\<lambda>a. Option.bind (get a ''body'') (\<lambda>b.
                    Option.bind (get_str b ''from_hash'') (\<lambda>f. map_option (Pair f) (get_str b ''to_hash''))))
                 (filter continuity_self_consistent assertions))
         | _ \<Rightarrow> True)"
    using assms(1) unfolding continuity_gaps_def Let_def length_0_conv filter_empty_conv by blast
  then obtain h h' where h: "checkpoint_body_hash C (chain ! i) = Some h" "checkpoint_body_hash C (chain ! Suc i) = Some h'"
    by (auto split: option.splits)
  show ?thesis
  proof (cases "body_str (chain ! Suc i) ''prev_hash'' = Some h")
    case False
    then have "list_ex (\<lambda>(f, t). f = h \<and> t = h')
               (List.map_filter
                 (\<lambda>a. Option.bind (get a ''body'') (\<lambda>b.
                    Option.bind (get_str b ''from_hash'') (\<lambda>f. map_option (Pair f) (get_str b ''to_hash''))))
                 (filter continuity_self_consistent assertions))"
      using ng h by simp
    then show ?thesis using h
      by (auto simp: list_ex_iff map_filter_def body_str_def bind_eq_Some_conv)
  qed (use h in blast)
qed


text \<open>A two-checkpoint history of a log with two leaves, signed by the genesis key of \<open>toy_log\<close>.\<close>

definition toy_leaves :: "bytes list" where
  "toy_leaves = [replicate 32 1, replicate 32 2]"

definition toy_cp_body :: "u64 \<Rightarrow> string \<Rightarrow> bytes \<Rightarrow> json" where
  "toy_cp_body n prev root = JObject [(''origin'', JString ''t''), (''prev_hash'', JString prev), (''root_hash'', JString (hex root)),
     (''schema'', JString ''evd/checkpoint/v1''), (''tree_size'', JNumber (PosInt n)), (''ts'', JString ''2024-01-01T00:00:00Z'')]"

definition toy_cp :: "u64 \<Rightarrow> string \<Rightarrow> bytes \<Rightarrow> json" where
  "toy_cp n prev root = JObject [(''body'', toy_cp_body n prev root), (''kid'', JString (toy_kid CHR 0x20)),
     (''sig'', JString (of_bytes (toy_sign (replicate 32 0x61) (pae CHECKPOINT_TYPE (the (canonical_checked toy_base (toy_cp_body n prev root)))))))]"

definition toy_chain :: "json list" where
  "toy_chain = [toy_cp 1 [] (replicate 32 1), toy_cp 2 ''x'' (mth toy_digest toy_leaves)]"

definition toy_chain_entries :: "json list" where
  "toy_chain_entries = [JObject [], JObject [(''consistency_from_prev'', JArray [JString (hex (replicate 32 2))])]]"

lemma toy_cp_fields:
  "body_str (toy_cp n prev root) ''origin'' = Some ''t''" "body_str (toy_cp n prev root) ''prev_hash'' = Some prev"
  "size_of (toy_cp n prev root) = n" "root_of (toy_cp n prev root) = Some root"
  "get (toy_cp n prev root) ''body'' = Some (toy_cp_body n prev root)"
  by (simp_all add: toy_cp_def toy_cp_body_def body_str_def body_u64_def size_of_def root_of_def json_access)

lemma toy_signature [simp]:
  "ed25519_verify (toy_crates ds) k m (toy_sign k m)" "B64_decode (toy_crates ds) s = Some (as_bytes s)"
  by (simp_all add: ed25519_verify_def toy_crates_def toy_base_def toy_sign_def)

lemma toy_cp_signed:
  assumes "canonical_checked toy_base (toy_cp_body n prev root) \<noteq> None"
  shows "verify_checkpoint_sig (toy_crates ds) (toy_cp n prev root) (kl_keys (toy_log None))"
proof -
  obtain canon where "canonical_checked toy_base (toy_cp_body n prev root) = Some canon" using assms by auto
  then show ?thesis
    by (simp add: verify_checkpoint_sig_def toy_cp_fields toy_cp_def toy_cp_body_def json_access CHECKPOINT_MEMBERS_def
        toy_log_def insert_key_def)
qed

lemma toy_cp_active: "0 < n \<Longrightarrow> issuer_active (toy_log None) (toy_cp n prev root)"
  by (simp add: issuer_active_def toy_cp_def toy_cp_body_def body_str_def body_u64_def json_access toy_log_def
      insert_key_def key_active_def toy_key_facts toy_key_state_def)

lemma toy_canonical_bodies:
  "canonical_checked toy_base (toy_cp_body 1 [] (replicate 32 1)) \<noteq> None"
  "canonical_checked toy_base (toy_cp_body 2 ''x'' (mth toy_digest toy_leaves)) \<noteq> None"
  using jcs_write_defined [of toy_base _ JCS_MAX_DEPTH]
  by (simp_all add: canonical_checked_def JCS_MAX_DEPTH_def numbers_match.simps toy_cp_body_def
      number_text_def number_as_i64_def MAX_SAFE_INTEGER_def)

lemma toy_chain_ok: "check_checkpoint_chain (toy_crates []) toy_chain toy_chain_entries (toy_log None) True"
proof -
  have link: "verify_consistency toy_digest 1 2 (replicate 32 1) (mth toy_digest toy_leaves) [replicate 32 2]"
    by code_simp
  have h: "hex (replicate 32 (2 :: u8)) \<noteq> []" using length_hex [of "replicate 32 (2 :: u8)"] by force
  have c: "check_chain_link (toy_crates []) (toy_cp 1 [] (replicate 32 1)) (toy_cp 2 ''x'' (mth toy_digest toy_leaves))
      (JObject [(''consistency_from_prev'', JArray [JString (hex (replicate 32 2))])]) True"
  proof -
    obtain bh where bh: "checkpoint_body_hash (toy_crates []) (toy_cp 1 [] (replicate 32 1)) = Some bh"
      using toy_canonical_bodies(1) by (auto simp: checkpoint_body_hash_def toy_cp_fields)
    have r: "hex_to_bytes (unwrap_or [] (body_str (toy_cp n p root) ''root_hash'')) = Some root"
      "unwrap_or 0 (body_u64 (toy_cp n p root) ''tree_size'') = n" for n p root
      using toy_cp_fields(3,4) [of n p root] by (simp_all add: size_of_def root_of_def)
    have p: "proof_hashes (get (JObject [(''consistency_from_prev'', JArray [JString (hex (replicate 32 2))])]) ''consistency_from_prev'')
        = Some [replicate 32 2]"
      by (simp add: proof_hashes_def get_def as_str_def)
    have sh: "sha256 (toy_crates []) = toy_digest" by (simp add: sha256_def [abs_def] toy_crates_def toy_base_def)
    show ?thesis
      using link by (simp add: check_chain_link_def bh r toy_cp_fields check_chain_consistency_def p sh)
  qed
  show ?thesis
    by (simp add: check_checkpoint_chain_def toy_chain_def toy_chain_entries_def toy_cp_fields toy_cp_signed
        toy_canonical_bodies toy_cp_active c)
qed

theorem chain_append_only_witness:
  "chain_collision (toy_crates []) toy_leaves (zip toy_chain toy_chain_entries) \<or>
   (\<forall>cp \<in> set toy_chain. size_of cp \<le> 2 \<and>
      (size_of cp \<noteq> 0 \<longrightarrow> root_of cp = Some (mth toy_digest (take (unat (size_of cp)) toy_leaves))))"
proof -
  have s: "Sha256 (toy_crates []) = toy_digest" by (simp add: toy_crates_def toy_base_def)
  have l: "last toy_chain = toy_cp 2 ''x'' (mth toy_digest toy_leaves)" by (simp add: toy_chain_def)
  have "length toy_leaves = unat (2 :: u64)" "\<forall>h \<in> set toy_leaves. length h = 32" by (simp_all add: toy_leaves_def)
  then show ?thesis
    using chain_append_only [OF _ _ toy_chain_ok, of toy_leaves] unfolding l toy_cp_fields s
    by (simp add: toy_chain_def toy_chain_entries_def)
qed

theorem chain_signed_by_issuers_witness:
  "body_str (hd toy_chain) ''prev_hash'' = Some [] \<and>
   issued_checkpoint (toy_crates []) (toy_log None) (toy_cp 2 ''x'' (mth toy_digest toy_leaves))"
  using chain_signed_by_issuers [OF toy_chain_ok, of "toy_cp 2 ''x'' (mth toy_digest toy_leaves)"]
  by (simp add: toy_chain_def toy_chain_entries_def)

theorem continuity_no_gaps_witness:
  "\<exists>h. checkpoint_body_hash (toy_crates []) (toy_cp 1 [] (replicate 32 1)) = Some h \<and>
     body_str (toy_cp 2 h (replicate 32 3)) ''prev_hash'' = Some h"
proof -
  obtain h where h: "checkpoint_body_hash (toy_crates []) (toy_cp 1 [] (replicate 32 1)) = Some h"
    using toy_canonical_bodies(1) by (auto simp: checkpoint_body_hash_def toy_cp_fields)
  let ?chain = "[toy_cp 1 [] (replicate 32 1), toy_cp 2 h (replicate 32 3)]"
  have "canonical_checked toy_base (toy_cp_body 2 h (replicate 32 3)) \<noteq> None"
    using jcs_write_defined [of toy_base _ JCS_MAX_DEPTH]
    by (simp add: canonical_checked_def JCS_MAX_DEPTH_def numbers_match.simps toy_cp_body_def
      number_text_def number_as_i64_def MAX_SAFE_INTEGER_def)
  then obtain h' where "checkpoint_body_hash (toy_crates []) (toy_cp 2 h (replicate 32 3)) = Some h'"
    by (auto simp: checkpoint_body_hash_def toy_cp_fields)
  then have "continuity_gaps (toy_crates []) ?chain [] = 0"
    using h by (simp add: continuity_gaps_def toy_cp_fields)
  from continuity_no_gaps [OF this, of 0] show ?thesis using h toy_cp_fields(2) [of 2 h] by auto
qed

end
