(* ===== verification/Trust.thy ===== *)
theory Trust
  imports Receipts
begin

text \<open>
  \<open>verify-rs/src/trust.rs\<close>: anchors a relying party supplies out of band, and the proofs checked under
  them: domain-separated signatures, HMAC-SHA256, and webhook deliveries read by the strict parser.
  The visitor of the source runs over the document that \<open>serde_json\<close>'s deserialiser presents, which is
  the parameter \<open>json_deserialize\<close>; it includes the check that nothing follows the document.
\<close>

section \<open>Anchors\<close>

definition KEY_CATEGORIES :: "string list" where
  "KEY_CATEGORIES = [''source_keys'', ''mac_keys'', ''evaluator_keys'', ''node_keys'', ''node_roots'', ''temporal_keys'',
     ''population_keys'', ''accountability_keys'', ''scitt_ts_keys'', ''log_keys'', ''recorder_keys'', ''tsa_roots'']"

definition decode_b64 :: "crates \<Rightarrow> string \<Rightarrow> bytes option" where
  "decode_b64 C s =
     (case B64_decode C s of None \<Rightarrow> None | Some raw \<Rightarrow> then_some (B64_encode C raw = s) raw)"

definition decode_material :: "crates \<Rightarrow> json option \<Rightarrow> bytes option" where
  "decode_material C v =
     (case Option.bind v as_str of
        None \<Rightarrow> None
      | Some s \<Rightarrow>
          if s = [] then None
          else (case hex_to_bytes s of Some b \<Rightarrow> Some b | None \<Rightarrow> decode_b64 C s))"

definition key_for :: "crates \<Rightarrow> json option \<Rightarrow> string \<Rightarrow> string option \<Rightarrow> bytes option" where
  "key_for C trust category name =
     (if category \<notin> set KEY_CATEGORIES then None
      else do {
        t \<leftarrow> trust;
        table \<leftarrow> get_object t category;
        n \<leftarrow> name;
        decode_material C (map_of table n)
      })"

definition is_whitespace :: "int \<Rightarrow> bool" where
  "is_whitespace c = (9 \<le> c \<and> c \<le> 13 \<or> c = 32 \<or> c = 0x85 \<or> c = 0xa0 \<or> c = 0x1680 \<or> 0x2000 \<le> c \<and> c \<le> 0x200a
     \<or> c = 0x2028 \<or> c = 0x2029 \<or> c = 0x202f \<or> c = 0x205f \<or> c = 0x3000)"

fun join_lines :: "string list \<Rightarrow> string" where
  "join_lines [] = []"
| "join_lines [s] = s"
| "join_lines (s # ss) = s @ [CHR 0x0a] @ join_lines ss"

definition tsa_roots_pem :: "json option \<Rightarrow> string option" where
  "tsa_roots_pem trust =
     (case Option.bind trust (\<lambda>t. get_object t ''tsa_roots'') of
        None \<Rightarrow> None
      | Some table \<Rightarrow>
          (let pems = filter (\<lambda>s. \<not> list_all is_whitespace (chars s)) (List.map_filter (\<lambda>(k, v). as_str v) table) in
           if pems = [] then None else Some (join_lines pems)))"

section \<open>Signed statements\<close>

definition ends_with :: "string \<Rightarrow> string \<Rightarrow> bool" where
  "ends_with s suffix = (length suffix \<le> length s \<and> drop (length s - length suffix) s = suffix)"

definition stripped :: "(string \<times> json) list \<Rightarrow> (string \<times> json) list" where
  "stripped m = filter (\<lambda>(k, v). k \<noteq> ''signature'' \<and> \<not> ends_with k ''_sig'') m"

definition signed_bytes :: "crates \<Rightarrow> string \<Rightarrow> json \<Rightarrow> bytes option" where
  "signed_bytes C domain payload =
     (case as_object payload of
        None \<Rightarrow> None
      | Some m \<Rightarrow>
          map_option (\<lambda>b. as_bytes ''evd/v1/'' @ as_bytes domain @ [0] @ b)
            (canonical_integer_checked C (JObject (stripped m))))"

definition signed_proof :: "crates \<Rightarrow> json \<Rightarrow> string \<Rightarrow> (bytes \<times> bytes) option" where
  "signed_proof C payload domain =
     (if as_object payload = None then None
      else do {
        sig \<leftarrow> decode_material C (get payload ''signature'');
        msg \<leftarrow> signed_bytes C domain payload;
        Some (sig, msg)
      })"

definition verified :: "crates \<Rightarrow> json option \<Rightarrow> string \<Rightarrow> string option \<Rightarrow> string \<Rightarrow> json \<Rightarrow> bool" where
  "verified C trust category name domain payload =
     (case key_for C trust category name of
        None \<Rightarrow> False
      | Some pub_bytes \<Rightarrow>
          if length pub_bytes \<noteq> 32 then False
          else (case signed_proof C payload domain of
                  None \<Rightarrow> False
                | Some (sig, msg) \<Rightarrow> ed25519_verify C pub_bytes msg sig))"

section \<open>HMAC\<close>

definition hmac_sha256 :: "crates \<Rightarrow> bytes \<Rightarrow> bytes \<Rightarrow> bytes" where
  "hmac_sha256 C key msg =
     (let k = (if length key > 64 then Sha256 C key @ replicate 32 0 else key @ replicate (64 - length key) 0);
          ipad = map (\<lambda>b. 0x36 XOR b) k;
          opad = map (\<lambda>b. 0x5c XOR b) k;
          inner = Sha256 C (ipad @ msg)
      in Sha256 C (opad @ inner))"

definition ct_eq :: "bytes \<Rightarrow> bytes \<Rightarrow> bool" where
  "ct_eq a b =
     (if length a \<noteq> length b then False
      else foldl (\<lambda>acc (x, y). acc OR (x XOR y)) 0 (zip a b) = 0)"

definition mac_verified :: "crates \<Rightarrow> json option \<Rightarrow> string option \<Rightarrow> string \<Rightarrow> json \<Rightarrow> bool" where
  "mac_verified C trust name domain payload =
     (case key_for C trust ''mac_keys'' name of
        None \<Rightarrow> False
      | Some secret \<Rightarrow>
          (case signed_proof C payload domain of
             None \<Rightarrow> False
           | Some (mac, msg) \<Rightarrow> ct_eq (hmac_sha256 C secret msg) mac))"

section \<open>Strict parsing\<close>

text \<open>\<open>Map::insert\<close> of a fresh key into a \<open>BTreeMap\<close>.\<close>

definition btree_insert :: "string \<Rightarrow> json \<Rightarrow> (string \<times> json) list \<Rightarrow> (string \<times> json) list" where
  "btree_insert k v m = insort_key fst (k, v) m"

fun strict_visit :: "doc \<Rightarrow> json option" and strict_members :: "(string \<times> json) list \<Rightarrow> (string \<times> doc) list \<Rightarrow> (string \<times> json) list option" where
  "strict_visit DUnit = Some JNull"
| "strict_visit (DBool b) = Some (JBool b)"
| "strict_visit (DI64 i) =
     (if - MAX_SAFE_INTEGER \<le> i \<and> i \<le> MAX_SAFE_INTEGER
      then Some (JNumber (if i < 0 then NegInt i else PosInt (word_of_int i))) else None)"
| "strict_visit (DU64 w) = (if uint w > MAX_SAFE_INTEGER then None else Some (JNumber (PosInt w)))"
| "strict_visit (DF64 f) = (if is_finite f then Some (JNumber (Float f)) else None)"
| "strict_visit (DStr s) = Some (JString s)"
| "strict_visit (DSeq ds) = map_option JArray (collect_opt strict_visit ds)"
| "strict_visit (DMap ms) = map_option JObject (strict_members [] ms)"
| "strict_members out [] = Some out"
| "strict_members out ((key, d) # ms) =
     (if contains_key out key then None
      else (case strict_visit d of
              None \<Rightarrow> None
            | Some v \<Rightarrow> strict_members (btree_insert key v out) ms))"

definition MAX_JSON_NUMBER_TOKEN_BYTES :: nat where
  "MAX_JSON_NUMBER_TOKEN_BYTES = 128"

text \<open>\<open>str::parse::<u64>\<close>\<close>

definition parse_u64 :: "string \<Rightarrow> u64 option" where
  "parse_u64 s =
     (let ds = (case s of c # r \<Rightarrow> if c = CHR ''+'' then r else s | [] \<Rightarrow> []) in
      if ds = [] \<or> \<not> list_all is_ascii_digit ds then None
      else (let n = foldl (\<lambda>n c. n * 10 + (of_char c - 48)) (0 :: int) ds in
            if n < 2 ^ 64 then Some (word_of_int n) else None))"

definition json_number_token_ok :: "bytes \<Rightarrow> bool" where
  "json_number_token_ok token =
     (length token \<le> MAX_JSON_NUMBER_TOKEN_BYTES
      \<and> (list_ex (\<lambda>b. b = 46 \<or> b = 69 \<or> b = 101) token
         \<or> is_some_and
             (Option.bind (from_utf8 (case token of b # r \<Rightarrow> if b = 45 then r else token | [] \<Rightarrow> [])) parse_u64)
             (\<lambda>value. uint value \<le> MAX_SAFE_INTEGER)))"

definition number_byte :: "u8 \<Rightarrow> bool" where
  "number_byte b = (b \<in> {43, 45, 46, 69, 101} \<or> within 48 57 b)"

definition lex_start :: "nat \<Rightarrow> u8 \<Rightarrow> bool \<times> nat option" where
  "lex_start idx b =
     (if b = 34 then (True, None) else if b = 45 \<or> within 48 57 b then (False, Some idx) else (False, None))"

fun lex_loop :: "bytes \<Rightarrow> nat \<Rightarrow> bytes \<Rightarrow> bool \<Rightarrow> bool \<Rightarrow> nat option \<Rightarrow> bool" where
  "lex_loop raw idx [] in_string escaped num_start =
     (\<not> in_string \<and> is_none_or num_start (\<lambda>start. json_number_token_ok (drop start raw)))"
| "lex_loop raw idx (byte # rest) in_string escaped num_start =
     (if in_string then
        (if escaped then lex_loop raw (idx + 1) rest True False num_start
         else if byte = 92 then lex_loop raw (idx + 1) rest True True num_start
         else if byte = 34 then lex_loop raw (idx + 1) rest False escaped num_start
         else lex_loop raw (idx + 1) rest True escaped num_start)
      else
        (case num_start of
           Some start \<Rightarrow>
             if number_byte byte then lex_loop raw (idx + 1) rest False escaped num_start
             else if \<not> json_number_token_ok (byte_range start idx raw) then False
             else (case lex_start idx byte of (s, n) \<Rightarrow> lex_loop raw (idx + 1) rest s escaped n)
         | None \<Rightarrow> (case lex_start idx byte of (s, n) \<Rightarrow> lex_loop raw (idx + 1) rest s escaped n)))"

definition json_numbers_lexically_bounded :: "bytes \<Rightarrow> bool" where
  "json_numbers_lexically_bounded raw = lex_loop raw 0 raw False False None"

definition strict_json :: "crates \<Rightarrow> bytes \<Rightarrow> json option" where
  "strict_json C raw =
     (if \<not> json_numbers_lexically_bounded raw then None
      else (case json_deserialize C raw of
              None \<Rightarrow> None
            | Some d \<Rightarrow>
                (case strict_visit d of
                   None \<Rightarrow> None
                 | Some value \<Rightarrow> then_some (\<not> depth_exceeds value JCS_MAX_DEPTH) value)))"

section \<open>Webhook deliveries\<close>

definition SOURCE_WEBHOOK_SIGNATURE_CONTEXT :: string where
  "SOURCE_WEBHOOK_SIGNATURE_CONTEXT = ''evd/source-webhook-body-jcs/v1''"

definition MAX_SOURCE_PROOF_MATERIAL_BYTES :: nat where
  "MAX_SOURCE_PROOF_MATERIAL_BYTES = 1024 * 1024"

definition source_webhook_material :: "crates \<Rightarrow> json \<Rightarrow> bytes option" where
  "source_webhook_material C payload =
     (if get_str payload ''signature_context'' \<noteq> Some SOURCE_WEBHOOK_SIGNATURE_CONTEXT then None
      else (case Option.bind (get_str payload ''material'') (decode_b64 C) of
              None \<Rightarrow> None
            | Some material \<Rightarrow>
                if material = [] \<or> length material > MAX_SOURCE_PROOF_MATERIAL_BYTES then None
                else if get_str payload ''material_digest'' \<noteq> Some (hex (Sha256 C material)) then None
                else Some material))"

definition source_envelope_closed :: "(string \<times> json) list \<Rightarrow> string option \<Rightarrow> bool" where
  "source_envelope_closed envelope name =
     (length envelope = 3 \<and> list_all (contains_key envelope) [''body'', ''kid'', ''signature'']
      \<and> is_some_and (map_of envelope ''body'') (\<lambda>v. as_object v \<noteq> None)
      \<and> Option.bind (map_of envelope ''kid'') as_str = name)"

definition source_webhook_statement :: "crates \<Rightarrow> string option \<Rightarrow> json \<Rightarrow> (string \<times> bytes) option" where
  "source_webhook_statement C name payload = do {
     material \<leftarrow> source_webhook_material C payload;
     delivery \<leftarrow> strict_json C material;
     if depth_exceeds delivery 16 then None
     else do {
       envelope \<leftarrow> as_object delivery;
       if \<not> source_envelope_closed envelope name then None
       else do {
         signature \<leftarrow> Option.bind (map_of envelope ''signature'') as_str;
         message \<leftarrow> canonical_integer_checked C (unwrap_or JNull (map_of envelope ''body''));
         Some (signature, message)
       }
     }
   }"

definition source_webhook_ed25519 :: "crates \<Rightarrow> json option \<Rightarrow> string option \<Rightarrow> string \<Rightarrow> bytes \<Rightarrow> bool" where
  "source_webhook_ed25519 C trust name signature message =
     (case key_for C trust ''source_keys'' name of
        None \<Rightarrow> False
      | Some public \<Rightarrow>
          if length public \<noteq> 32 then False
          else (case decode_b64 C signature of
                  None \<Rightarrow> False
                | Some sig \<Rightarrow> ed25519_verify C public message sig))"

definition source_webhook_mac :: "crates \<Rightarrow> json option \<Rightarrow> string option \<Rightarrow> string \<Rightarrow> bytes \<Rightarrow> bool" where
  "source_webhook_mac C trust name signature message =
     (case key_for C trust ''mac_keys'' name of
        None \<Rightarrow> False
      | Some secret \<Rightarrow>
          (case hex_to_bytes signature of
             None \<Rightarrow> False
           | Some mac \<Rightarrow> length mac = 32 \<and> hex mac = signature \<and> ct_eq (hmac_sha256 C secret message) mac))"

definition source_webhook_verified :: "crates \<Rightarrow> json option \<Rightarrow> string option \<Rightarrow> string option \<Rightarrow> json \<Rightarrow> bool" where
  "source_webhook_verified C trust name algorithm_family payload =
     (case source_webhook_statement C name payload of
        None \<Rightarrow> False
      | Some (signature, message) \<Rightarrow>
          (case (get_str payload ''proof_type'', algorithm_family) of
             (Some p, Some f) \<Rightarrow>
               if p = ''asymmetric_signature'' \<and> f = ''ed25519'' then source_webhook_ed25519 C trust name signature message
               else if p = ''mac'' \<and> f = ''hmac-sha256'' then source_webhook_mac C trust name signature message
               else False
           | _ \<Rightarrow> False))"


section \<open>Constant-time comparison\<close>

lemma or_fold_zero: "foldl (\<lambda>acc (x, y). acc OR (x XOR y)) (a :: u8) ps = 0 \<longleftrightarrow> a = 0 \<and> (\<forall>(x, y) \<in> set ps. x = y)"
proof (induction ps arbitrary: a)
  case (Cons p ps)
  obtain x y where [simp]: "p = (x, y)" by force
  have "a OR (x XOR y) = 0 \<longleftrightarrow> a = 0 \<and> x = y"
    by (metis or_eq_0_iff xor_self_eq bit.xor_left_self xor.right_neutral)
  then show ?case using Cons by auto
qed simp

lemma ct_eq_iff: "ct_eq a b \<longleftrightarrow> a = b"
proof (cases "length a = length b")
  case True
  then have "(\<forall>(x, y) \<in> set (zip a b). x = y) \<longleftrightarrow> a = b" by (auto simp: list_eq_iff_zip_eq)
  with True show ?thesis by (simp add: ct_eq_def or_fold_zero)
qed (auto simp: ct_eq_def)

section \<open>Domain separation\<close>

lemma numbers_match_integers: "numbers_match C v True l \<Longrightarrow> numbers_match C v False l"
  by (auto simp: numbers_match_iff)

lemma canonical_integer_checked_iff:
  "canonical_integer_checked C v = Some b \<longleftrightarrow> numbers_match C v True JCS_MAX_DEPTH \<and> canonical_checked C v = Some b"
  by (auto simp: canonical_integer_checked_def)

lemma stripped_wf: "json_wf (JObject m) \<Longrightarrow> json_wf (JObject (stripped m))"
  by (auto simp: stripped_def list_all_iff sorted_wrt_map intro: sorted_wrt_filter)

section \<open>What the strict parser admits\<close>

fun no_duplicates :: "doc \<Rightarrow> bool" where
  "no_duplicates (DSeq ds) = list_all no_duplicates ds"
| "no_duplicates (DMap ms) = (distinct (map fst ms) \<and> list_all (\<lambda>(k, d). no_duplicates d) ms)"
| "no_duplicates _ = True"

definition number_ok :: "number \<Rightarrow> bool" where
  "number_ok n = (case n of PosInt w \<Rightarrow> uint w \<le> MAX_SAFE_INTEGER
     | NegInt i \<Rightarrow> - MAX_SAFE_INTEGER \<le> i \<and> i < 0 | Float f \<Rightarrow> is_finite f)"

definition admitted :: "json \<Rightarrow> bool" where
  "admitted v \<longleftrightarrow> json_wf v \<and> list_all number_ok (numbers v)"

lemma uint_ge_neg [simp]: "- numeral k \<le> uint (w :: u64)"
  by (rule order_trans [of _ 0]) simp_all

lemma number_ok_text: "number_ok n \<Longrightarrow> number_text C n \<noteq> None"
proof (cases n)
  case (PosInt w)
  moreover assume "number_ok n"
  ultimately show ?thesis
    by (auto simp: number_ok_def number_text_def number_as_i64_def number_as_u64_def MAX_SAFE_INTEGER_def split: option.splits)
qed (auto simp: number_ok_def number_text_def number_as_i64_def number_as_u64_def number_as_f64_def MAX_SAFE_INTEGER_def
      Let_def)

lemma admitted_insert:
  assumes "admitted (JObject out)" "admitted v" "map_of out k = None"
  shows "admitted (JObject (btree_insert k v out))"
proof -
  have "k \<notin> fst ` set out" using assms(3) by (simp add: map_of_eq_None_iff)
  moreover have s: "sorted_wrt (<) (map fst out)" using assms(1) by (simp add: admitted_def)
  moreover have "map fst (btree_insert k v out) = insort k (map fst out)"
    unfolding btree_insert_def by (induction out) auto
  ultimately have "sorted_wrt (<) (map fst (btree_insert k v out))"
    by (simp add: strict_sorted_iff sorted_insort distinct_insort)
  moreover have "set (btree_insert k v out) = insert (k, v) (set out)"
    by (simp add: btree_insert_def set_insort_key)
  ultimately show ?thesis using assms(1,2) by (auto simp: admitted_def list_all_iff)
qed

lemma strict_visit_admitted:
  "strict_visit d = Some v \<Longrightarrow> admitted v \<and> no_duplicates d"
  "strict_members out ms = Some m \<Longrightarrow> admitted (JObject out) \<Longrightarrow>
     admitted (JObject m) \<and> list_all (\<lambda>(k, d). no_duplicates d) ms \<and> distinct (map fst ms) \<and>
     fst ` set out \<inter> fst ` set ms = {}"
proof (induction d and out ms arbitrary: v and m rule: strict_visit_strict_members.induct)
  case (7 ds)
  then obtain vs where vs: "collect_opt strict_visit ds = Some vs" "v = JArray vs" by auto
  have "admitted (vs ! i) \<and> no_duplicates (ds ! i)" if "i < length ds" for i
    using 7(1) [of "ds ! i"] that collect_opt_nth [OF vs(1) that] by simp
  then have "\<forall>x \<in> set vs. admitted x" "\<forall>d \<in> set ds. no_duplicates d"
    using collect_opt_length [OF vs(1)] by (auto simp: in_set_conv_nth)
  then show ?case by (auto simp: vs(2) admitted_def list_all_iff)
next
  case (8 ms)
  then obtain m where m: "strict_members [] ms = Some m" "v = JObject m" by auto
  then show ?case using 8(1) [OF m(1)] by (simp add: admitted_def)
next
  case (3 i)
  have "uint (word_of_int i :: u64) = i" if "0 \<le> i" "i \<le> 9007199254740991"
    using that by (simp add: uint_word_of_int_eq take_bit_int_eq_self_iff)
  with 3 show ?case by (auto simp: admitted_def number_ok_def MAX_SAFE_INTEGER_def split: if_splits)
next
  case (10 out key d ms)
  then obtain v where v: "\<not> contains_key out key" "strict_visit d = Some v"
    "strict_members (btree_insert key v out) ms = Some m"
    by (auto split: if_splits option.splits)
  have k: "map_of out key = None" using v(1) by (simp add: contains_key_def)
  have d: "admitted v" "no_duplicates d" using 10(1) [OF v(1,2)] by auto
  have "admitted (JObject (btree_insert key v out))" by (rule admitted_insert [OF 10(4) d(1) k])
  from 10(2) [OF v this] have r: "admitted (JObject m)" "list_all (\<lambda>(k, d). no_duplicates d) ms" "distinct (map fst ms)"
    "fst ` set (btree_insert key v out) \<inter> fst ` set ms = {}" by auto
  have "set (btree_insert key v out) = insert (key, v) (set out)" by (simp add: btree_insert_def set_insort_key)
  then show ?case using r d(2) k by (auto simp: map_of_eq_None_iff)
qed (auto simp: admitted_def number_ok_def MAX_SAFE_INTEGER_def split: if_splits)

lemma admitted_profile: "admitted v \<Longrightarrow> \<not> depth_exceeds v JCS_MAX_DEPTH \<Longrightarrow> numbers_within_profile C v"
  using number_ok_text by (auto simp: admitted_def numbers_within_profile_def numbers_match_iff list_all_iff)


section \<open>Properties\<close>

text \<open>
  A favourable value needs an anchor of the relying party. A payload verifies only if the
  separately supplied trust context names, in a known category and under this name, a key of 32 bytes,
  and the payload's signature verifies under it over the domain-separated canonical bytes of everything in
  the payload except its signature members; with no context, or none in the category, nothing verifies.
\<close>

theorem verified_anchored:
  assumes "verified C trust category name domain payload"
  shows "\<exists>t table n key m sig msg. trust = Some t \<and> category \<in> set KEY_CATEGORIES \<and> get_object t category = Some table \<and>
    name = Some n \<and> decode_material C (map_of table n) = Some key \<and> length key = 32 \<and>
    payload = JObject m \<and> decode_material C (map_of m ''signature'') = Some sig \<and> length sig = 64 \<and>
    signed_bytes C domain payload = Some msg \<and> vk_verify C key msg sig"
proof -
  obtain key sig msg where k: "key_for C trust category name = Some key" "length key = 32"
    "signed_proof C payload domain = Some (sig, msg)" "ed25519_verify C key msg sig"
    using assms by (auto simp: verified_def split: option.splits if_splits)
  obtain m where m: "payload = JObject m"
    using k(3) by (cases payload) (auto simp: signed_proof_def as_object_def)
  obtain t table n where t: "trust = Some t" "category \<in> set KEY_CATEGORIES" "get_object t category = Some table"
    "name = Some n" "decode_material C (map_of table n) = Some key"
    using k(1) by (auto simp: key_for_def bind_eq_Some_conv split: if_splits)
  have s: "decode_material C (map_of m ''signature'') = Some sig" "signed_bytes C domain payload = Some msg"
    using k(3) by (auto simp: signed_proof_def m as_object_def get_def bind_eq_Some_conv)
  have "length sig = 64" "vk_verify C key msg sig" using k(4) by (auto simp: ed25519_verify_def split: if_splits)
  with t k(2) m s show ?thesis by blast
qed

text \<open>
  Domain separation. Signed bytes determine the domain they were made for and, up to the text of
  their numbers, every member of the payload except the signature members: a proof made for one purpose or
  one payload is never the bytes of another. Domains of the sources contain no NUL.
\<close>

theorem signed_bytes_separate:
  assumes "string_writer_ok (json_to_writer C)" "float_writer_ok (format_finite C)"
    and "signed_bytes C d p = Some m" "signed_bytes C d' p' = Some m"
    and "CHR 0x00 \<notin> set d" "CHR 0x00 \<notin> set d'" "json_wf p" "json_wf p'"
  shows "d = d' \<and> (\<exists>f f'. p = JObject f \<and> p' = JObject f' \<and>
    value_rel (same_text C) (JObject (stripped f)) (JObject (stripped f')))"
proof -
  obtain f b where f: "p = JObject f" "canonical_integer_checked C (JObject (stripped f)) = Some b"
    "m = as_bytes ''evd/v1/'' @ as_bytes d @ [0] @ b"
    using assms(3) by (cases p) (auto simp: signed_bytes_def as_object_def)
  obtain f' b' where f': "p' = JObject f'" "canonical_integer_checked C (JObject (stripped f')) = Some b'"
    "m = as_bytes ''evd/v1/'' @ as_bytes d' @ [0] @ b'"
    using assms(4) by (cases p') (auto simp: signed_bytes_def as_object_def)
  have nz: "(0 :: u8) \<notin> set (as_bytes s)" if "CHR 0x00 \<notin> set s" for s
  proof -
    have z: "(of_char c :: u8) = 0 \<longleftrightarrow> c = CHR 0x00" for c
      using of_char_u8_inject [of c "CHR 0x00"] by simp
    show ?thesis
    proof
      assume "(0 :: u8) \<in> set (as_bytes s)"
      then have "(0 :: u8) \<in> of_char ` set s" by (simp only: as_bytes_def list.set_map)
      then obtain c where "(0 :: u8) = of_char c" "c \<in> set s" by (rule imageE)
      with z [of c] that show False by metis
    qed
  qed
  have "as_bytes d = as_bytes d' \<and> b = b'"
    using split_at_separator [OF nz [OF assms(5)] nz [OF assms(6)], of b b'] f(3) f'(3) by simp
  moreover have "canonical_checked C (JObject (stripped f)) = Some b" "canonical_checked C (JObject (stripped f')) = Some b'"
    using f(2) f'(2) by (simp_all add: canonical_integer_checked_iff)
  moreover have "json_wf (JObject (stripped f))" "json_wf (JObject (stripped f'))"
    using assms(7,8) f(1) f'(1) stripped_wf by auto
  ultimately show ?thesis
    using jcs_write_unique [OF assms(1,2), of "JObject (stripped f)" "JObject (stripped f')" JCS_MAX_DEPTH b JCS_MAX_DEPTH b "[]" "[]"]
      f(1) f'(1) by (auto simp: canonical_checked_def stop_def)
qed

text \<open>
  C14: what the strict parser returns. Every object of the document had distinct member names, the value
  is a well-formed one, its nesting is at most 64 and every number is in the exact domain, so the
  canonical form of the value exists.
\<close>

theorem strict_json_admits:
  assumes "strict_json C raw = Some v"
  shows "\<exists>d. json_deserialize C raw = Some d \<and> no_duplicates d \<and> json_wf v \<and> \<not> depth_exceeds v 64 \<and>
    numbers_within_profile C v \<and> canonical_checked C v \<noteq> None"
proof -
  obtain d where d: "json_deserialize C raw = Some d" "strict_visit d = Some v" "\<not> depth_exceeds v JCS_MAX_DEPTH"
    using assms by (auto simp: strict_json_def split: option.splits if_splits)
  then have n: "numbers_within_profile C v" using strict_visit_admitted(1) admitted_profile by blast
  moreover have "canonical_checked C v \<noteq> None"
    using jcs_write_defined [of C v JCS_MAX_DEPTH] n by (simp add: canonical_checked_def numbers_within_profile_def)
  ultimately show ?thesis using d strict_visit_admitted(1) [OF d(2)] by (auto simp: admitted_def JCS_MAX_DEPTH_def)
qed

text \<open>
  the constant-time comparison is equality, so a MAC is accepted exactly when it is the HMAC of the
  signed bytes under the secret the relying party named.
\<close>

theorem mac_verified_exact:
  "ct_eq a b = (a = b) \<and>
   mac_verified C trust name domain payload =
     (\<exists>secret msg. key_for C trust ''mac_keys'' name = Some secret \<and>
        signed_proof C payload domain = Some (hmac_sha256 C secret msg, msg))"
  by (auto simp: mac_verified_def ct_eq_iff split: option.splits)


text \<open>A relying party that names one node key, and a payload signed under it.\<close>

definition toy_trust :: json where
  "toy_trust = JObject [(''node_keys'', JObject [(''n'', JString (hex (replicate 32 1)))])]"

definition toy_payload :: json where
  "toy_payload = JObject [(''a'', JNull), (''signature'',
     JString (hex (toy_sign (replicate 32 1) (the (signed_bytes toy_base ''d'' (JObject [(''a'', JNull)]))))))]"

lemma toy_message_exists: "signed_bytes toy_base ''d'' (JObject [(''a'', JNull)]) \<noteq> None"
  by code_simp

lemma toy_payload_verified: "verified toy_base (Some toy_trust) ''node_keys'' (Some ''n'') ''d'' toy_payload"
proof -
  have m: "decode_material toy_base (Some (JString (hex b))) = Some b" if "b \<noteq> []" for b
  proof -
    have "hex b \<noteq> []" using that length_hex [of b] by (metis length_0_conv mult_eq_0_iff zero_neq_numeral)
    then show ?thesis by (simp add: decode_material_def as_str_def)
  qed
  have k: "key_for toy_base (Some toy_trust) ''node_keys'' (Some ''n'') = Some (replicate 32 1)"
    by (simp add: key_for_def KEY_CATEGORIES_def toy_trust_def json_access m)
  obtain msg where msg: "signed_bytes toy_base ''d'' (JObject [(''a'', JNull)]) = Some msg"
    by (metis option.exhaust toy_message_exists)
  have s: "signed_bytes toy_base ''d'' toy_payload = Some msg"
    using msg by (simp add: signed_bytes_def toy_payload_def as_object_def stripped_def ends_with_def)
  have g: "decode_material toy_base (get toy_payload ''signature'') = Some (toy_sign (replicate 32 1) msg)"
    using msg m [of "toy_sign (replicate 32 1) msg"] by (simp add: toy_payload_def get_def toy_sign_def toy_digest_def)
  show ?thesis
    using k s g by (simp add: verified_def signed_proof_def ed25519_verify_def)
      (simp add: toy_payload_def as_object_def toy_base_def toy_sign_def)
qed

theorem verified_anchored_witness:
  "\<exists>key sig msg. length key = 32 \<and> length sig = 64 \<and> signed_bytes toy_base ''d'' toy_payload = Some msg \<and>
     vk_verify toy_base key msg sig"
  using verified_anchored [OF toy_payload_verified] by blast

theorem signed_bytes_separate_witness:
  "value_rel (same_text (toy_crates [])) (JObject (stripped [(''a'', JNull), (''b_sig'', JNull)])) (JObject (stripped [(''a'', JNull)]))"
proof -
  let ?m = "as_bytes ''evd/v1/d'' @ 0 # as_bytes [CHR 123, CHR 34, CHR 97, CHR 34, CHR 58, CHR 110, CHR 117, CHR 108, CHR 108, CHR 125]"
  have e: "signed_bytes (toy_crates []) ''d'' (JObject [(''a'', JNull), (''b_sig'', JNull)]) = Some ?m"
    "signed_bytes (toy_crates []) ''d'' (JObject [(''a'', JNull)]) = Some ?m"
    by code_simp+
  have w: "json_wf (JObject [(''a'', JNull), (''b_sig'', JNull)])" "json_wf (JObject [(''a'', JNull)])" by code_simp+
  have n: "CHR 0x00 \<notin> set ''d''" by simp
  from signed_bytes_separate [OF toy_writers e n n w] show ?thesis by simp
qed

theorem strict_json_admits_witness:
  "\<exists>d. json_deserialize (toy_base\<lparr>json_deserialize := \<lambda>_. Some (DMap [(''b'', DU64 1), (''a'', DUnit)])\<rparr>) (as_bytes ''1'') = Some d
     \<and> no_duplicates d \<and> json_wf (JObject [(''a'', JNull), (''b'', JNumber (PosInt 1))])"
proof -
  have "strict_json (toy_base\<lparr>json_deserialize := \<lambda>_. Some (DMap [(''b'', DU64 1), (''a'', DUnit)])\<rparr>) (as_bytes ''1'')
      = Some (JObject [(''a'', JNull), (''b'', JNumber (PosInt 1))])"
    by code_simp
  from strict_json_admits [OF this] show ?thesis by blast
qed

end
