(* ===== verification/Entries.thy ===== *)
theory Entries
  imports Checkpoints Trust
begin

text \<open>
  The entries of a bundle (\<open>lib.rs\<close>): resource caps, each entry's envelope, signatures, time and
  inclusion, the signed export manifest, per-agent sequence numbers and lineage. A \<open>BTreeSet\<close> is a set.
  \<open>partition_point\<close> is the documented one: its result on a slice that is not partitioned is
  unspecified, and a chain that is not monotone is refused elsewhere.
\<close>

section \<open>Caps\<close>

definition MAX_BUNDLE_BYTES :: nat where
  "MAX_BUNDLE_BYTES = 64 * 1024 * 1024"

definition MAX_ENTRIES :: nat where
  "MAX_ENTRIES = 200000"

definition MAX_INCLUSION_PROOF_LEN :: nat where
  "MAX_INCLUSION_PROOF_LEN = 64"

definition MAX_CHECKPOINT_CHAIN_LEN :: nat where
  "MAX_CHECKPOINT_CHAIN_LEN = 100000"

definition MAX_SIGNATURES_PER_ENVELOPE :: nat where
  "MAX_SIGNATURES_PER_ENVELOPE = 9"

definition RECEIPT_CHECKPOINT_SKEW_S :: int where
  "RECEIPT_CHECKPOINT_SKEW_S = 300"

definition EXPORT_MANIFEST_TYPE :: string where
  "EXPORT_MANIFEST_TYPE = ''application/vnd.evd.export-manifest.v1+json''"

definition entry_within_caps :: "json \<Rightarrow> bool" where
  "entry_within_caps e =
     (if is_some_and (get_array e ''inclusion_proof'') (\<lambda>path. length path > MAX_INCLUSION_PROOF_LEN) then False
      else if is_some_and (Option.bind (get e ''envelope'') (\<lambda>v. get_array v ''signatures''))
             (\<lambda>sigs. length sigs > MAX_SIGNATURES_PER_ENVELOPE) then False
      else True)"

definition within_caps :: "crates \<Rightarrow> json \<Rightarrow> bool" where
  "within_caps C bundle =
     (if is_some_and (get_array bundle ''entries'')
           (\<lambda>entries. length entries > MAX_ENTRIES \<or> \<not> list_all entry_within_caps entries) then False
      else if is_some_and (get_array bundle ''checkpoint_chain'') (\<lambda>chain. length chain > MAX_CHECKPOINT_CHAIN_LEN) then False
      else numbers_within_profile C bundle)"

section \<open>One entry\<close>

definition check_entry_sig :: "crates \<Rightarrow> json \<Rightarrow> bytes \<Rightarrow> json \<Rightarrow> u64 \<Rightarrow> KeyLog \<Rightarrow> bool" where
  "check_entry_sig C s message body leaf kl =
     (let kid = unwrap_or [] (get_str s ''keyid'') in
      case kl_keys kl kid of
        None \<Rightarrow> False
      | Some pubkey \<Rightarrow>
          (let genesis = (leaf = 0 \<and> get_str body ''action_type'' = Some ''evd.key.created''
                 \<and> Option.bind (Option.bind (get body ''context'') (\<lambda>ctx. get ctx ''jwk'')) (\<lambda>jwk. get_str jwk ''kid'') = Some kid);
               ts_server = unwrap_or [] (get_str body ''ts_server'') in
           signature_valid C s message pubkey \<and> (genesis \<or> key_active kl kid ts_server leaf)))"

definition check_entry_sigs :: "crates \<Rightarrow> json \<Rightarrow> json list \<Rightarrow> json \<Rightarrow> u64 \<Rightarrow> KeyLog \<Rightarrow> bool" where
  "check_entry_sigs C env sigs body leaf kl =
     (case envelope_message C env of
        None \<Rightarrow> False
      | Some message \<Rightarrow> list_all (\<lambda>s. check_entry_sig C s message body leaf kl) sigs)"

definition leaf_of :: "json \<Rightarrow> u64" where
  "leaf_of e = unwrap_or (-1) (get_u64 e ''leaf_index'')"

definition check_entry_inclusion :: "crates \<Rightarrow> json \<Rightarrow> bytes \<Rightarrow> u64 \<Rightarrow> bytes \<Rightarrow> bool" where
  "check_entry_inclusion C e payload tree_size root =
     (let rh = sha256 C payload; leaf_hash = sha256 C (0 # rh) in
      case proof_hashes (get e ''inclusion_proof'') of
        None \<Rightarrow> False
      | Some path \<Rightarrow> verify_inclusion (sha256 C) leaf_hash (leaf_of e) tree_size path root)"

definition envelope_members_closed :: "json \<Rightarrow> bool" where
  "envelope_members_closed env =
     is_some_and (as_object env)
       (\<lambda>members. length members = 3 \<and> list_all (contains_key members) [''payload'', ''payloadType'', ''signatures''])"

definition first_cover :: "(u64 \<times> int) list \<Rightarrow> u64 \<Rightarrow> (u64 \<times> int) option" where
  "first_cover covers leaf =
     (case dropWhile (\<lambda>(covered, _). covered \<le> leaf) covers of [] \<Rightarrow> None | c # _ \<Rightarrow> Some c)"

definition check_entry :: "crates \<Rightarrow> json \<Rightarrow> KeyLog \<Rightarrow> u64 \<Rightarrow> bytes \<Rightarrow> (u64 \<times> int) list \<Rightarrow> string \<Rightarrow> bool" where
  "check_entry C e kl tree_size root covers expected_tenant =
     (let env = index e ''envelope'' in
      if \<not> envelope_members_closed env then False
      else
        (case payload_of C env of None \<Rightarrow> False | Some payload \<Rightarrow>
        (case canonical_body C payload of None \<Rightarrow> False | Some body \<Rightarrow>
           if \<not> receipt_body_valid body (Some expected_tenant) then False
           else
             (let ts_server = unwrap_or [] (get_str body ''ts_server''); leaf = leaf_of e in
              if is_some_and (first_cover covers leaf)
                   (\<lambda>(_, deadline). is_none_or (utc_epoch_micros ts_server) (\<lambda>admitted. admitted > deadline)) then False
              else
                (case get_array env ''signatures'' of
                   None \<Rightarrow> False
                 | Some sigs \<Rightarrow>
                     if sigs = [] then False
                     else if get_str env ''payloadType'' \<noteq> Some RECEIPT_TYPE then False
                     else if \<not> check_entry_sigs C env sigs body leaf kl then False
                     else check_entry_inclusion C e payload tree_size root)))))"

definition entry_recorder_attested :: "crates \<Rightarrow> json \<Rightarrow> KeyLog \<Rightarrow> json option \<Rightarrow> bool" where
  "entry_recorder_attested C env kl trust =
     (case get_array env ''signatures'' of
        None \<Rightarrow> False
      | Some sigs \<Rightarrow>
          if length sigs < 2
             \<or> list_all (\<lambda>s. is_some_and (kl_state kl (unwrap_or [] (get_str s ''keyid''))) non_issuer) sigs
          then False
          else list_ex (\<lambda>sig.
                 let kid = unwrap_or [] (get_str sig ''keyid'') in
                 if \<not> is_some_and (kl_state kl kid) recorder then False
                 else (case key_for C trust ''recorder_keys'' (Some kid) of
                         None \<Rightarrow> False
                       | Some pub_bytes \<Rightarrow> length pub_bytes = 32 \<and> kl_keys kl kid = Some pub_bytes)) sigs)"

section \<open>The export manifest\<close>

definition manifest_target_time :: "crates \<Rightarrow> json \<Rightarrow> json \<Rightarrow> json \<Rightarrow> string \<Rightarrow> string option" where
  "manifest_target_time C body bundle target kid =
     (if get_str body ''schema'' \<noteq> Some ''evd/export-manifest/v1'' then None
      else
        (let origin = get_str body ''origin'' in
         if origin = None \<or> origin \<noteq> get_str bundle ''origin'' \<or> origin \<noteq> body_str target ''origin'' then None
         else
           (case (get_str body ''target_checkpoint_hash'', checkpoint_body_hash C target) of
              (Some claimed, Some actual) \<Rightarrow>
                if claimed \<noteq> actual then None
                else (case get_str body ''ts'' of
                        None \<Rightarrow> None
                      | Some ts \<Rightarrow>
                          if body_str target ''ts'' \<noteq> Some ts \<or> get_str target ''kid'' \<noteq> Some kid then None else Some ts)
            | _ \<Rightarrow> None)))"

definition carried_hashes :: "crates \<Rightarrow> json list \<Rightarrow> string list" where
  "carried_hashes C entries = List.map_filter (\<lambda>e. Option.bind (get e ''envelope'') (receipt_hash_hex C)) entries"

definition check_export_manifest :: "crates \<Rightarrow> json \<Rightarrow> json list \<Rightarrow> json \<Rightarrow> KeyLog \<Rightarrow> bool option" where
  "check_export_manifest C bundle entries target kl =
     (case ofilter (\<lambda>v. v \<noteq> JNull) (get bundle ''export_manifest'') of
        None \<Rightarrow> None
      | Some raw \<Rightarrow> Some
          (case (ofilter (\<lambda>b. as_object b \<noteq> None) (get raw ''body''), get_str raw ''kid'', get_str raw ''sig'') of
             (Some body, Some kid, Some sig_b64) \<Rightarrow>
               (case manifest_target_time C body bundle target kid of None \<Rightarrow> False | Some ts \<Rightarrow>
               (case kl_keys kl kid of None \<Rightarrow> False | Some pubkey \<Rightarrow>
                  if is_some_and (kl_state kl kid) non_issuer
                     \<or> \<not> key_active kl kid ts (unwrap_or 0 (body_u64 target ''tree_size'')) then False
                  else
                    (case canonical_checked C body of None \<Rightarrow> False | Some canon \<Rightarrow>
                    (case B64_decode C sig_b64 of None \<Rightarrow> False | Some sig \<Rightarrow>
                       if \<not> ed25519_verify C pubkey (pae EXPORT_MANIFEST_TYPE canon) sig then False
                       else
                         (case get_array body ''receipt_hashes'' of None \<Rightarrow> False | Some listed \<Rightarrow>
                            if length listed > MAX_ENTRIES then False
                            else (case collect_opt as_str listed of None \<Rightarrow> False | Some claimed \<Rightarrow>
                                    set claimed = set (carried_hashes C entries)))))))
           | _ \<Rightarrow> False))"

section \<open>The set of entries\<close>

definition checkpoint_cover_deadlines :: "json list \<Rightarrow> (u64 \<times> int) list option" where
  "checkpoint_cover_deadlines chain =
     collect_opt (\<lambda>cp. do {
       body \<leftarrow> get cp ''body'';
       tree_size \<leftarrow> get_u64 body ''tree_size'';
       ts \<leftarrow> get_str body ''ts'';
       us \<leftarrow> utc_epoch_micros ts;
       Some (tree_size, us + RECEIPT_CHECKPOINT_SKEW_S * 1000000)
     }) chain"

text \<open>The loop over the entries: whether it succeeds, and the leaves it pushed to \<open>recorder_attested\<close>.\<close>

fun entries_loop ::
  "crates \<Rightarrow> KeyLog \<Rightarrow> u64 \<Rightarrow> bytes \<Rightarrow> (u64 \<times> int) list \<Rightarrow> string \<Rightarrow> json option \<Rightarrow> u64 list \<Rightarrow> json list \<Rightarrow> bool \<times> u64 list" where
  "entries_loop C kl tree_size root covers tenant trust acc [] = (True, acc)"
| "entries_loop C kl tree_size root covers tenant trust acc (e # es) =
     (if \<not> check_entry C e kl tree_size root covers tenant then (False, acc)
      else if entry_recorder_attested C (index e ''envelope'') kl trust then
        (case get_u64 e ''leaf_index'' of
           None \<Rightarrow> (False, acc)
         | Some leaf \<Rightarrow> entries_loop C kl tree_size root covers tenant trust (acc @ [leaf]) es)
      else entries_loop C kl tree_size root covers tenant trust acc es)"

definition check_entries :: "crates \<Rightarrow> json list \<Rightarrow> json \<Rightarrow> json list \<Rightarrow> KeyLog \<Rightarrow> json option \<Rightarrow> u64 list \<Rightarrow> bool \<times> u64 list" where
  "check_entries C entries target chain kl trust acc =
     (let tree_size = unwrap_or 0 (body_u64 target ''tree_size''); root_hex = unwrap_or [] (body_str target ''root_hash'') in
      case hex_to_bytes root_hex of None \<Rightarrow> (False, acc) | Some root \<Rightarrow>
      (case checkpoint_cover_deadlines chain of None \<Rightarrow> (False, acc) | Some covers \<Rightarrow>
      (case Option.bind (body_str target ''origin'') tenant_from_origin of None \<Rightarrow> (False, acc) | Some expected_tenant \<Rightarrow>
         entries_loop C kl tree_size root covers expected_tenant trust acc entries)))"

fun seq_loop :: "crates \<Rightarrow> (string \<times> int \<rightharpoonup> string) \<Rightarrow> json list \<Rightarrow> bool" where
  "seq_loop C pairs [] = True"
| "seq_loop C pairs (e # es) =
     (case Option.bind (get e ''envelope'') (body_of C) of
        None \<Rightarrow> seq_loop C pairs es
      | Some body \<Rightarrow>
          (let aid = unwrap_or [] (get_str body ''agent_id''); sq = unwrap_or (-1) (get_i64 body ''seq'') in
           case Option.bind (get e ''envelope'') (receipt_hash_hex C) of
             None \<Rightarrow> seq_loop C pairs es
           | Some rh \<Rightarrow>
               (case pairs (aid, sq) of
                  Some prev \<Rightarrow> if prev \<noteq> rh then False else seq_loop C pairs es
                | None \<Rightarrow> seq_loop C (pairs((aid, sq) \<mapsto> rh)) es)))"

definition check_seq_uniqueness :: "crates \<Rightarrow> json list \<Rightarrow> bool" where
  "check_seq_uniqueness C entries = seq_loop C Map.empty entries"

section \<open>Lineage\<close>

definition INTERNAL_AGENTS :: "string list" where
  "INTERNAL_AGENTS = [''_system'', ''_grants'', ''_reports'', ''_detect'', ''_idem'', ''_authority'', ''_node'', ''_register'']"

definition is_internal_agent :: "string \<Rightarrow> bool" where
  "is_internal_agent a = (a \<in> set INTERNAL_AGENTS)"

text \<open>\<open>(action_type, receipt_hash, seq, context)\<close>\<close>

type_synonym LineageItem = "string \<times> string \<times> int \<times> json"

text \<open>\<open>by_agent.entry(agent).or_default().push(item)\<close>\<close>

fun push_item :: "string \<Rightarrow> LineageItem \<Rightarrow> (string \<times> LineageItem list) list \<Rightarrow> (string \<times> LineageItem list) list" where
  "push_item agent x [] = [(agent, [x])]"
| "push_item agent x ((a, xs) # m) = (if a = agent then (a, xs @ [x]) # m else (a, xs) # push_item agent x m)"

fun lineage_loop :: "crates \<Rightarrow> (string \<times> LineageItem list) list \<Rightarrow> json list \<Rightarrow> (string \<times> LineageItem list) list option" where
  "lineage_loop C by_agent [] = Some by_agent"
| "lineage_loop C by_agent (e # es) =
     (case Option.bind (get e ''envelope'') (body_of C) of
        None \<Rightarrow> lineage_loop C by_agent es
      | Some body \<Rightarrow>
          (let agent = unwrap_or [] (get_str body ''agent_id'') in
           if agent = [] \<or> is_internal_agent agent then lineage_loop C by_agent es
           else
             (case Option.bind (get e ''envelope'') (receipt_hash_hex C) of
                None \<Rightarrow> None
              | Some rh \<Rightarrow>
                  lineage_loop C
                    (push_item agent
                       (unwrap_or [] (get_str body ''action_type''), rh, unwrap_or (-1) (get_i64 body ''seq''), index body ''context'')
                       by_agent) es)))"

definition collect_lineage :: "crates \<Rightarrow> json list \<Rightarrow> (string \<times> LineageItem list) list option" where
  "collect_lineage C entries = lineage_loop C [] entries"

definition check_lineage_orphan :: "LineageItem list \<Rightarrow> string set \<Rightarrow> bool" where
  "check_lineage_orphan items valid =
     list_all (\<lambda>(_, _, _, ctx). is_none_or (get_str ctx ''revision_id'') (\<lambda>rv. \<not> (valid \<noteq> {} \<and> rv \<notin> valid))) items"

definition check_lineage_established :: "LineageItem list \<Rightarrow> string set \<Rightarrow> string \<Rightarrow> string \<Rightarrow> int \<Rightarrow> bool" where
  "check_lineage_established items valid birth_at birth_hash birth_seq =
     (if birth_at = ''lineage.born'' \<and> birth_seq \<noteq> 1 then False
      else list_all (\<lambda>(_, _, _, ctx).
             is_none_or (get_str ctx ''birthtag_id'') (\<lambda>bt. bt = birth_hash)
             \<and> is_none_or (get_str ctx ''revision_id'') (\<lambda>rv. rv \<in> valid)) items)"

definition check_agent_lineage :: "LineageItem list \<Rightarrow> bool" where
  "check_agent_lineage items =
     (let est = filter (\<lambda>(at, _). at = ''lineage.born'' \<or> at = ''lineage.adopted'') items in
      if length est > 1 then False
      else
        (let valid = set (map (\<lambda>(_, rh, _). rh)
               (filter (\<lambda>(at, _). at = ''lineage.revised'' \<or> at = ''lineage.born'' \<or> at = ''lineage.adopted'') items)) in
         case est of
           [] \<Rightarrow> check_lineage_orphan items valid
         | (birth_at, birth_hash, birth_seq, _) # _ \<Rightarrow> check_lineage_established items valid birth_at birth_hash birth_seq))"

definition check_lineage :: "crates \<Rightarrow> json list \<Rightarrow> bool" where
  "check_lineage C entries =
     (case collect_lineage C entries of
        None \<Rightarrow> False
      | Some by_agent \<Rightarrow> list_all (\<lambda>(_, items). check_agent_lineage items) by_agent)"


section \<open>Lemmas\<close>

text \<open>What one accepted entry gives: the member set of its envelope, its receipt, its time, its signatures
  and its inclusion proof.\<close>

lemma check_entry_cases:
  assumes "check_entry C e kl n root covers tenant"
  obtains payload body sigs path where
    "envelope_members_closed (index e ''envelope'')" "payload_of C (index e ''envelope'') = Some payload"
    "canonical_body C payload = Some body" "receipt_body_valid body (Some tenant)"
    "\<not> is_some_and (first_cover covers (leaf_of e))
       (\<lambda>(_, deadline). is_none_or (utc_epoch_micros (unwrap_or [] (get_str body ''ts_server''))) (\<lambda>admitted. admitted > deadline))"
    "get_array (index e ''envelope'') ''signatures'' = Some sigs" "sigs \<noteq> []"
    "get_str (index e ''envelope'') ''payloadType'' = Some RECEIPT_TYPE"
    "check_entry_sigs C (index e ''envelope'') sigs body (leaf_of e) kl"
    "proof_hashes (get e ''inclusion_proof'') = Some path"
    "verify_inclusion (sha256 C) (sha256 C (0 # sha256 C payload)) (leaf_of e) n path root"
  using assms unfolding check_entry_def Let_def check_entry_inclusion_def
  by (auto split: option.splits if_splits)

lemma entries_loop_all:
  "entries_loop C kl n root covers tenant trust acc es = (True, acc') \<Longrightarrow>
     list_all (\<lambda>e. check_entry C e kl n root covers tenant) es \<and>
     acc' = acc @ map leaf_of (filter (\<lambda>e. entry_recorder_attested C (index e ''envelope'') kl trust) es)"
proof (induction es arbitrary: acc)
  case (Cons e es)
  show ?case
  proof (cases "entry_recorder_attested C (index e ''envelope'') kl trust")
    case True
    then obtain leaf where l: "check_entry C e kl n root covers tenant" "get_u64 e ''leaf_index'' = Some leaf"
      "entries_loop C kl n root covers tenant trust (acc @ [leaf]) es = (True, acc')"
      using Cons.prems by (auto split: if_splits option.splits)
    then show ?thesis using True Cons.IH [OF l(3)] by (simp add: leaf_of_def)
  next
    case False
    then show ?thesis using Cons.prems Cons.IH [of acc] by (auto split: if_splits)
  qed
qed simp

lemma check_entries_cases:
  assumes "check_entries C entries target chain kl trust acc = (True, acc')"
  obtains root covers tenant where "root_of target = Some root" "checkpoint_cover_deadlines chain = Some covers"
    "Option.bind (body_str target ''origin'') tenant_from_origin = Some tenant"
    "\<And>e. e \<in> set entries \<Longrightarrow> check_entry C e kl (size_of target) root covers tenant"
    "acc' = acc @ map leaf_of (filter (\<lambda>e. entry_recorder_attested C (index e ''envelope'') kl trust) entries)"
proof -
  obtain root covers tenant where c: "root_of target = Some root" "checkpoint_cover_deadlines chain = Some covers"
    "Option.bind (body_str target ''origin'') tenant_from_origin = Some tenant"
    and l: "entries_loop C kl (size_of target) root covers tenant trust acc entries = (True, acc')"
    using assms unfolding check_entries_def Let_def root_of_def size_of_def by (auto split: option.splits)
  show ?thesis using entries_loop_all [OF l] by (intro that [OF c]) (auto simp: list_all_iff)
qed

lemma check_entry_leaf:
  assumes "check_entry C e kl n root covers tenant"
  shows "get_u64 e ''leaf_index'' = Some (leaf_of e)" "leaf_of e < n"
proof -
  show l: "leaf_of e < n"
    using assms by (rule check_entry_cases) (auto simp: verify_inclusion_def split: if_splits)
  show "get_u64 e ''leaf_index'' = Some (leaf_of e)"
  proof (cases "get_u64 e ''leaf_index''")
    case None
    then have "leaf_of e = -1" by (simp add: leaf_of_def)
    then show ?thesis using l word_order.extremum_strict by (metis word_n1_ge not_less)
  qed (simp add: leaf_of_def)
qed

text \<open>The key id that a key receipt introduces.\<close>

definition jwk_kid :: "json \<Rightarrow> string option" where
  "jwk_kid body = Option.bind (Option.bind (get body ''context'') (\<lambda>ctx. get ctx ''jwk'')) (\<lambda>jwk. get_str jwk ''kid'')"

text \<open>The leaf a log holds for a receipt, and an explicit collision between what the verifier hashed for one
  entry and what was hashed to build the log.\<close>

definition receipt_leaf :: "crates \<Rightarrow> bytes \<Rightarrow> bytes" where
  "receipt_leaf C payload = data_leaf (Sha256 C) payload"

definition entry_collision :: "crates \<Rightarrow> bytes list \<Rightarrow> json \<Rightarrow> bool" where
  "entry_collision C receipts e \<longleftrightarrow>
     (\<exists>payload path. payload_of C (index e ''envelope'') = Some payload \<and> proof_hashes (get e ''inclusion_proof'') = Some path \<and>
        collides (Sha256 C) (leaf_inputs (Sha256 C) payload (leaf_of e) (length receipts) path) (log_inputs (Sha256 C) receipts))"

lemma check_entry_included:
  assumes len: "\<And>x. length (Sha256 C x) = 32"
    and e: "check_entry C e kl n root covers tenant"
    and root: "root = mth (Sha256 C) (map (receipt_leaf C) receipts)" and n: "length receipts = unat n"
  shows "payload_of C (index e ''envelope'') = Some (receipts ! unat (leaf_of e)) \<or> entry_collision C receipts e"
proof -
  obtain payload path where p: "payload_of C (index e ''envelope'') = Some payload"
    "proof_hashes (get e ''inclusion_proof'') = Some path"
    and v: "verify_inclusion (sha256 C) (sha256 C (0 # sha256 C payload)) (leaf_of e) n path root"
    using e by (rule check_entry_cases)
  have sh: "sha256 C = Sha256 C" and leaf: "receipt_leaf C = data_leaf (Sha256 C)"
    by (simp_all add: sha256_def [abs_def] receipt_leaf_def [abs_def])
  have "verify_inclusion (Sha256 C) (data_leaf (Sha256 C) payload) (leaf_of e) n path
      (mth (Sha256 C) (map (data_leaf (Sha256 C)) receipts))"
    using v by (simp add: root sh leaf data_leaf_def [of _ payload])
  from merkle.data_included [OF len n _ this] proof_hashes_32 [OF p(2)] p show ?thesis
    by (auto simp: entry_collision_def)
qed


text \<open>The slot a readable entry claims, and the hash of the receipt that claims it.\<close>

definition entry_slot :: "crates \<Rightarrow> json \<Rightarrow> ((string \<times> int) \<times> string) option" where
  "entry_slot C e =
     do {
       body \<leftarrow> Option.bind (get e ''envelope'') (body_of C);
       rh \<leftarrow> Option.bind (get e ''envelope'') (receipt_hash_hex C);
       Some ((unwrap_or [] (get_str body ''agent_id''), unwrap_or (-1) (get_i64 body ''seq'')), rh)
     }"

definition single_valued_list :: "('a \<times> 'b) list \<Rightarrow> bool" where
  "single_valued_list xs \<longleftrightarrow> (\<forall>k v v'. (k, v) \<in> set xs \<longrightarrow> (k, v') \<in> set xs \<longrightarrow> v = v')"

lemma seq_loop_step:
  "seq_loop C pairs (e # es) =
     (case entry_slot C e of
        None \<Rightarrow> seq_loop C pairs es
      | Some (slot, rh) \<Rightarrow>
          (case pairs slot of Some prev \<Rightarrow> prev = rh \<and> seq_loop C pairs es | None \<Rightarrow> seq_loop C (pairs(slot \<mapsto> rh)) es))"
proof (cases "get e ''envelope''")
  case (Some env)
  then show ?thesis
    by (cases "body_of C env"; cases "receipt_hash_hex C env") (auto simp: entry_slot_def Let_def split: option.split)
qed (simp add: entry_slot_def)

declare seq_loop.simps(2) [simp del]

lemma single_valued_Cons:
  "single_valued_list ((k, v) # xs) \<longleftrightarrow> (\<forall>v'. (k, v') \<in> set xs \<longrightarrow> v = v') \<and> single_valued_list xs"
  unfolding single_valued_list_def by (auto; blast)

fun claim_loop :: "('k \<rightharpoonup> 'v) \<Rightarrow> ('k \<times> 'v) list \<Rightarrow> bool" where
  "claim_loop m [] = True"
| "claim_loop m ((k, v) # xs) =
     (case m k of Some w \<Rightarrow> w = v \<and> claim_loop m xs | None \<Rightarrow> claim_loop (m(k \<mapsto> v)) xs)"

lemma claim_loop_iff:
  "claim_loop m xs \<longleftrightarrow> (\<forall>k v. (k, v) \<in> set xs \<longrightarrow> (\<forall>w. m k = Some w \<longrightarrow> w = v)) \<and> single_valued_list xs"
proof (induction m xs rule: claim_loop.induct)
  case (2 m k v xs)
  show ?case
  proof (cases "m k")
    case None
    then have "claim_loop m ((k, v) # xs) \<longleftrightarrow>
        (\<forall>k' v'. (k', v') \<in> set xs \<longrightarrow> (\<forall>w. (m(k \<mapsto> v)) k' = Some w \<longrightarrow> w = v')) \<and> single_valued_list xs"
      unfolding 2(1) [OF None, symmetric] using None by simp
    moreover have "(\<forall>k' v'. (k', v') \<in> set xs \<longrightarrow> (\<forall>w. (m(k \<mapsto> v)) k' = Some w \<longrightarrow> w = v')) \<longleftrightarrow>
        (\<forall>v'. (k, v') \<in> set xs \<longrightarrow> v = v') \<and> (\<forall>k' v'. (k', v') \<in> set xs \<longrightarrow> (\<forall>w. m k' = Some w \<longrightarrow> w = v'))"
      using None by (metis fun_upd_apply option.distinct(1) option.inject)
    ultimately show ?thesis using None unfolding single_valued_Cons by auto
  next
    case (Some w)
    then show ?thesis using 2(2) [OF Some] unfolding single_valued_Cons by auto
  qed
qed (simp add: single_valued_list_def)

lemma seq_loop_claims: "seq_loop C pairs es = claim_loop pairs (List.map_filter (entry_slot C) es)"
  by (induction es arbitrary: pairs) (simp_all add: seq_loop_step map_filter_simps split: option.split)

text \<open>The lineage of one external agent, read directly off the entries.\<close>

definition external_agent :: "string \<Rightarrow> bool" where
  "external_agent agent \<longleftrightarrow> agent \<noteq> [] \<and> \<not> is_internal_agent agent"

definition lineage_item :: "crates \<Rightarrow> json \<Rightarrow> (string \<times> LineageItem) option" where
  "lineage_item C e =
     do {
       body \<leftarrow> Option.bind (get e ''envelope'') (body_of C);
       rh \<leftarrow> Option.bind (get e ''envelope'') (receipt_hash_hex C);
       Some (unwrap_or [] (get_str body ''agent_id''),
         unwrap_or [] (get_str body ''action_type''), rh, unwrap_or (-1) (get_i64 body ''seq''), index body ''context'')
     }"

definition lineage_items :: "crates \<Rightarrow> string \<Rightarrow> json list \<Rightarrow> LineageItem list" where
  "lineage_items C agent entries = map snd (filter (\<lambda>(a, _). a = agent) (List.map_filter (lineage_item C) entries))"

lemma lineage_loop_step:
  "lineage_loop C m (e # es) =
     (case lineage_item C e of
        None \<Rightarrow> lineage_loop C m es
      | Some (agent, x) \<Rightarrow> lineage_loop C (if external_agent agent then push_item agent x m else m) es)"
proof (cases "Option.bind (get e ''envelope'') (body_of C)")
  case (Some body)
  then obtain env raw where "get e ''envelope'' = Some env" "payload_of C env = Some raw"
    by (auto simp: bind_eq_Some_conv body_of_iff)
  then show ?thesis using Some by (simp add: lineage_item_def external_agent_def Let_def receipt_hash_hex_def)
qed (simp add: lineage_item_def)

declare lineage_loop.simps(2) [simp del]

lemma map_of_push_item: "map_of (push_item a x m) = (map_of m)(a \<mapsto> unwrap_or [] (map_of m a) @ [x])"
  by (induction m) auto

lemma push_item_keys: "set (map fst (push_item a x m)) = insert a (set (map fst m))"
proof (induction m)
  case (Cons p m)
  then show ?case by (cases p) (simp add: insert_commute)
qed simp

lemma push_item_distinct: "distinct (map fst m) \<Longrightarrow> distinct (map fst (push_item a x m))"
proof (induction m)
  case (Cons p m)
  then show ?case using push_item_keys [of a x m] by (cases p) auto
qed simp

lemma lineage_loop_total:
  "\<exists>m'. lineage_loop C m es = Some m' \<and> (distinct (map fst m) \<longrightarrow> distinct (map fst m')) \<and>
     (\<forall>a. external_agent a \<longrightarrow> unwrap_or [] (map_of m' a) = unwrap_or [] (map_of m a) @ lineage_items C a es) \<and>
     (\<forall>a \<in> set (map fst m'). external_agent a \<or> a \<in> set (map fst m))"
proof (induction es arbitrary: m)
  case (Cons e es)
  show ?case
  proof (cases "lineage_item C e")
    case None
    then show ?thesis using Cons [of m] by (simp add: lineage_loop_step lineage_items_def map_filter_simps)
  next
    case (Some ax)
    obtain agent x where ax: "ax = (agent, x)" by (cases ax)
    show ?thesis
    proof (cases "external_agent agent")
      case True
      then show ?thesis using Some ax Cons [of "push_item agent x m"]
        by (auto simp: lineage_loop_step lineage_items_def map_filter_simps map_of_push_item push_item_keys push_item_distinct
            simp del: set_map)
    next
      case False
      then show ?thesis using Some ax Cons [of m]
        by (auto simp: lineage_loop_step lineage_items_def map_filter_simps)
    qed
  qed
qed (auto simp: lineage_items_def map_filter_simps)


lemma map_of_lineage:
  "\<exists>m. collect_lineage C entries = Some m \<and> distinct (map fst m) \<and> (\<forall>a \<in> set (map fst m). external_agent a) \<and>
     (\<forall>a. external_agent a \<longrightarrow> unwrap_or [] (map_of m a) = lineage_items C a entries)"
  using lineage_loop_total [of C "[]" entries] unfolding collect_lineage_def by auto

lemma check_lineage_agents:
  "check_lineage C entries \<longleftrightarrow> (\<forall>a. external_agent a \<longrightarrow> check_agent_lineage (lineage_items C a entries))"
proof -
  obtain m where m: "collect_lineage C entries = Some m" "distinct (map fst m)" "\<forall>a \<in> set (map fst m). external_agent a"
    "\<And>a. external_agent a \<Longrightarrow> unwrap_or [] (map_of m a) = lineage_items C a entries"
    using map_of_lineage [of C entries] by blast
  have items: "lineage_items C a entries = its" if "(a, its) \<in> set m" for a its
  proof -
    have "external_agent a" using m(3) that by force
    moreover have "map_of m a = Some its" using m(2) that by simp
    ultimately show ?thesis using m(4) [of a] by simp
  qed
  have nil: "check_agent_lineage []" by (simp add: check_agent_lineage_def check_lineage_orphan_def)
  show ?thesis
  proof
    assume c: "check_lineage C entries"
    show "\<forall>a. external_agent a \<longrightarrow> check_agent_lineage (lineage_items C a entries)"
    proof (intro allI impI)
      fix a assume a: "external_agent a"
      show "check_agent_lineage (lineage_items C a entries)"
      proof (cases "map_of m a")
        case None
        then show ?thesis using m(4) [OF a] nil by simp
      next
        case (Some its)
        then have "(a, its) \<in> set m" by (rule map_of_SomeD)
        moreover from this have "check_agent_lineage its" using c m(1) by (auto simp: check_lineage_def list_all_iff)
        ultimately show ?thesis using items by simp
      qed
    qed
  next
    assume s: "\<forall>a. external_agent a \<longrightarrow> check_agent_lineage (lineage_items C a entries)"
    have "check_agent_lineage its" if "(a, its) \<in> set m" for a its
      using s items [OF that] m(3) that by force
    then show "check_lineage C entries" using m(1) by (auto simp: check_lineage_def list_all_iff)
  qed
qed

text \<open>The contract of a lineage: at most one establishment, \<open>born\<close> only at sequence 1, every birth tag names
  the establishment, and every revision names a lineage receipt of the agent once it has one.\<close>

definition establishes :: "LineageItem \<Rightarrow> bool" where
  "establishes = (\<lambda>(at, _). at \<in> {''lineage.born'', ''lineage.adopted''})"

definition lineage_event :: "LineageItem \<Rightarrow> bool" where
  "lineage_event = (\<lambda>(at, _). at \<in> {''lineage.revised'', ''lineage.born'', ''lineage.adopted''})"

definition item_hash :: "LineageItem \<Rightarrow> string" where
  "item_hash = (\<lambda>(_, rh, _). rh)"

definition lineage_ok :: "LineageItem list \<Rightarrow> bool" where
  "lineage_ok its \<longleftrightarrow>
     length (filter establishes its) \<le> 1 \<and>
     (\<forall>(at, _, sq, _) \<in> set its. at = ''lineage.born'' \<longrightarrow> sq = 1) \<and>
     (\<forall>b \<in> set its. establishes b \<longrightarrow> (\<forall>(_, _, _, ctx) \<in> set its. get_str ctx ''birthtag_id'' \<in> {None, Some (item_hash b)})) \<and>
     ((\<exists>t \<in> set its. lineage_event t) \<longrightarrow>
        (\<forall>(_, _, _, ctx) \<in> set its. \<forall>rv. get_str ctx ''revision_id'' = Some rv \<longrightarrow>
           (\<exists>t \<in> set its. lineage_event t \<and> item_hash t = rv)))"

definition lineage_spec :: "crates \<Rightarrow> json list \<Rightarrow> bool" where
  "lineage_spec C entries \<longleftrightarrow> (\<forall>a. external_agent a \<longrightarrow> lineage_ok (lineage_items C a entries))"

lemma establishment_unique:
  assumes "filter P xs = [b]" "x \<in> set xs" "P x"
  shows "x = b"
proof -
  have "x \<in> set (filter P xs)" using assms(2,3) by simp
  then show ?thesis unfolding assms(1) by simp
qed

lemma check_agent_lineage_ok: "check_agent_lineage its = lineage_ok its"
proof -
  let ?est = "filter establishes its"
  let ?valid = "item_hash ` {t \<in> set its. lineage_event t}"
  have est: "filter (\<lambda>(at, _). at = ''lineage.born'' \<or> at = ''lineage.adopted'') its = ?est"
    by (rule filter_cong) (auto simp: establishes_def)
  have valid: "set (map (\<lambda>(_, rh, _). rh)
      (filter (\<lambda>(at, _). at = ''lineage.revised'' \<or> at = ''lineage.born'' \<or> at = ''lineage.adopted'') its)) = ?valid"
    unfolding set_map set_filter item_hash_def by (rule image_cong) (auto simp: lineage_event_def)
  have sub: "lineage_event t" if "establishes t" for t using that by (cases t) (auto simp: establishes_def lineage_event_def)
  have born: "establishes (''lineage.born'', x)" for x by (simp add: establishes_def)
  have revs: "(\<exists>t \<in> set its. lineage_event t \<and> item_hash t = rv) \<longleftrightarrow> rv \<in> ?valid" for rv by auto
  have unfold: "check_agent_lineage its =
     (if length ?est > 1 then False else case ?est of [] \<Rightarrow> check_lineage_orphan its ?valid
         | (birth_at, birth_hash, birth_seq, _) # _ \<Rightarrow> check_lineage_established its ?valid birth_at birth_hash birth_seq)"
    unfolding check_agent_lineage_def est valid Let_def ..
  consider "?est = []" | b where "?est = [b]" | "length ?est > 1"
    by (cases ?est; cases "tl ?est") auto
  then show ?thesis
  proof cases
    case 1
    then have no: "\<not> establishes t" if "t \<in> set its" for t using that by (auto simp: filter_empty_conv)
    then have nb: "(''lineage.born'', x) \<notin> set its" for x using born by metis
    have "lineage_ok its \<longleftrightarrow> ((\<exists>t \<in> set its. lineage_event t) \<longrightarrow>
        (\<forall>(_, _, _, ctx) \<in> set its. \<forall>rv. get_str ctx ''revision_id'' = Some rv \<longrightarrow> rv \<in> ?valid))"
      unfolding lineage_ok_def revs 1 using no nb by auto
    also have "\<dots> \<longleftrightarrow> check_lineage_orphan its ?valid"
      unfolding check_lineage_orphan_def is_none_or_iff list_all_iff by blast
    finally show ?thesis unfolding unfold 1 by simp
  next
    case (2 b)
    obtain at h sq c where b: "b = (at, h, sq, c)" by (cases b)
    have "b \<in> set ?est" unfolding 2 by simp
    then have mem: "b \<in> set its" "establishes b" by simp_all
    have uniq: "t = b" if "t \<in> set its" "establishes t" for t by (rule establishment_unique [OF 2 that])
    have one: "(\<forall>(at', _, sq', _) \<in> set its. at' = ''lineage.born'' \<longrightarrow> sq' = 1) \<longleftrightarrow> (at = ''lineage.born'' \<longrightarrow> sq = 1)"
      using mem(1) uniq born unfolding b by (auto; metis Pair_inject)
    have tag: "(\<forall>b' \<in> set its. establishes b' \<longrightarrow> (\<forall>(_, _, _, ctx) \<in> set its. get_str ctx ''birthtag_id'' \<in> {None, Some (item_hash b')}))
        \<longleftrightarrow> (\<forall>(_, _, _, ctx) \<in> set its. get_str ctx ''birthtag_id'' \<in> {None, Some h})"
    proof -
      have "(\<forall>b' \<in> set its. establishes b' \<longrightarrow> P b') \<longleftrightarrow> P b" for P using mem uniq by blast
      moreover have "item_hash b = h" by (simp add: b item_hash_def)
      ultimately show ?thesis by simp
    qed
    have ev: "\<exists>t \<in> set its. lineage_event t" using mem sub by blast
    have l: "lineage_ok its \<longleftrightarrow> (at = ''lineage.born'' \<longrightarrow> sq = 1) \<and>
        (\<forall>(_, _, _, ctx) \<in> set its. get_str ctx ''birthtag_id'' \<in> {None, Some h}) \<and>
        (\<forall>(_, _, _, ctx) \<in> set its. \<forall>rv. get_str ctx ''revision_id'' = Some rv \<longrightarrow> rv \<in> ?valid)"
      unfolding lineage_ok_def one tag revs using 2 ev by simp
    have tags: "is_none_or x (\<lambda>bt. bt = h) \<longleftrightarrow> x \<in> {None, Some h}" for x by (cases x) auto
    have both: "(\<forall>(_, _, _, c) \<in> set its. P c \<and> Q c) \<longleftrightarrow> (\<forall>(_, _, _, c) \<in> set its. P c) \<and> (\<forall>(_, _, _, c) \<in> set its. Q c)" for P Q
      by (auto simp: split_beta)
    have "check_agent_lineage its = check_lineage_established its ?valid at h sq" unfolding unfold 2 by (simp add: b)
    also have "\<dots> = lineage_ok its"
      unfolding l check_lineage_established_def tags is_none_or_iff list_all_iff both by simp
    finally show ?thesis .
  next
    case 3
    then show ?thesis by (simp add: unfold lineage_ok_def)
  qed
qed


lemma check_export_manifest_Some:
  assumes "check_export_manifest C bundle entries target kl = Some True"
  obtains raw body kid key ts canon sig listed claimed where
    "get bundle ''export_manifest'' = Some raw" "get raw ''body'' = Some body" "get_str raw ''kid'' = Some kid"
    "manifest_target_time C body bundle target kid = Some ts" "kl_keys kl kid = Some key"
    "\<not> is_some_and (kl_state kl kid) non_issuer" "key_active kl kid ts (size_of target)"
    "canonical_checked C body = Some canon" "ed25519_verify C key (pae EXPORT_MANIFEST_TYPE canon) sig"
    "get_array body ''receipt_hashes'' = Some listed" "collect_opt as_str listed = Some claimed"
    "\<And>es. check_export_manifest C bundle es target kl = Some (set claimed = set (carried_hashes C es))"
    "set claimed = set (carried_hashes C entries)"
proof -
  obtain raw where r: "get bundle ''export_manifest'' = Some raw" "raw \<noteq> JNull"
    using assms unfolding check_export_manifest_def by (auto split: option.splits if_splits simp del: ofilter_simps(3))
  obtain body kid sig_b64 where b: "get raw ''body'' = Some body" "as_object body \<noteq> None"
    "get_str raw ''kid'' = Some kid" "get_str raw ''sig'' = Some sig_b64"
    using assms unfolding check_export_manifest_def
    by (cases "get raw ''body''"; cases "get_str raw ''kid''"; cases "get_str raw ''sig''") (auto simp: r split: if_splits)
  obtain ts key canon sig listed claimed where v: "manifest_target_time C body bundle target kid = Some ts" "kl_keys kl kid = Some key"
    "\<not> is_some_and (kl_state kl kid) non_issuer" "key_active kl kid ts (size_of target)"
    "canonical_checked C body = Some canon" "B64_decode C sig_b64 = Some sig" "ed25519_verify C key (pae EXPORT_MANIFEST_TYPE canon) sig"
    "get_array body ''receipt_hashes'' = Some listed" "\<not> length listed > MAX_ENTRIES" "collect_opt as_str listed = Some claimed"
    "set claimed = set (carried_hashes C entries)"
    using assms unfolding check_export_manifest_def size_of_def by (auto simp: r b split: option.splits if_splits)
  have "check_export_manifest C bundle es target kl = Some (set claimed = set (carried_hashes C es))" for es
    using v unfolding check_export_manifest_def by (simp add: r b size_of_def)
  then show ?thesis using that r b v by blast
qed

lemma entries_included:
  assumes "\<And>x. length (Sha256 C x) = 32"
    and "check_entries C entries target chain kl trust acc = (True, acc')"
    and "root_of target = Some (mth (Sha256 C) (map (receipt_leaf C) receipts))" "length receipts = unat (size_of target)"
    and "e \<in> set entries"
  shows "\<exists>leaf. get_u64 e ''leaf_index'' = Some leaf \<and> unat leaf < length receipts \<and>
    (payload_of C (index e ''envelope'') = Some (receipts ! unat leaf) \<or> entry_collision C receipts e)"
proof -
  obtain covers tenant where c: "check_entry C e kl (size_of target) (mth (Sha256 C) (map (receipt_leaf C) receipts)) covers tenant"
    using check_entries_cases [OF assms(2)] assms(3,5) by (metis option.inject)
  from check_entry_leaf [OF c] have "get_u64 e ''leaf_index'' = Some (leaf_of e)" "unat (leaf_of e) < length receipts"
    using assms(4) by (simp_all add: word_less_nat_alt)
  then show ?thesis using check_entry_included [OF assms(1) c refl assms(4)] by blast
qed


section \<open>Properties\<close>


text \<open>
  Sequence numbers are unique. The check accepts exactly when no two readable entries claim the same agent
  and sequence number with different receipt hashes; repeating one receipt is harmless.
\<close>

theorem check_seq_uniqueness_iff:
  "check_seq_uniqueness C entries \<longleftrightarrow> single_valued_list (List.map_filter (entry_slot C) entries)"
  by (simp add: check_seq_uniqueness_def seq_loop_claims claim_loop_iff)

text \<open>
  C9: lineage. Grouping the entries by agent and checking each group accepts exactly the entry lists in which
  every external agent's receipts satisfy the lineage contract: at most one establishment, \<open>born\<close> only at
  sequence 1, birth tags that name the establishing receipt, and revisions that name a lineage receipt present.
\<close>

theorem check_lineage_refines: "check_lineage C entries = lineage_spec C entries"
  by (simp add: check_lineage_agents lineage_spec_def check_agent_lineage_ok)


text \<open>
  Recorder attestations are pinned. The leaves reported as recorder-attested are exactly the leaves of the
  accepted entries, in order, that have two or more signatures, one of them by a key the log introduced as
  something other than a non-issuer, and one by a recorder key of the log whose bytes are the ones the
  verifier's own trust document pins for that key id.
\<close>

theorem recorder_attestation_pinned:
  assumes "check_entries C entries target chain kl trust acc = (True, acc')"
  shows "acc' = acc @ map leaf_of (filter (\<lambda>e. entry_recorder_attested C (index e ''envelope'') kl trust) entries) \<and>
    (\<forall>e \<in> set entries. entry_recorder_attested C (index e ''envelope'') kl trust \<longrightarrow>
       (\<exists>sigs s. get_array (index e ''envelope'') ''signatures'' = Some sigs \<and> 2 \<le> length sigs \<and> s \<in> set sigs \<and>
          (\<exists>s' \<in> set sigs. \<not> is_some_and (kl_state kl (unwrap_or [] (get_str s' ''keyid''))) non_issuer) \<and>
          (let kid = unwrap_or [] (get_str s ''keyid'') in
             is_some_and (kl_state kl kid) recorder \<and> kl_keys kl kid \<noteq> None \<and>
             key_for C trust ''recorder_keys'' (Some kid) = kl_keys kl kid)))"
proof (intro conjI ballI impI)
  show "acc' = acc @ map leaf_of (filter (\<lambda>e. entry_recorder_attested C (index e ''envelope'') kl trust) entries)"
    using assms by (rule check_entries_cases)
next
  fix e assume a: "entry_recorder_attested C (index e ''envelope'') kl trust"
  then obtain sigs s where s: "get_array (index e ''envelope'') ''signatures'' = Some sigs" "\<not> length sigs < 2"
    "\<not> list_all (\<lambda>s. is_some_and (kl_state kl (unwrap_or [] (get_str s ''keyid''))) non_issuer) sigs" "s \<in> set sigs"
    "is_some_and (kl_state kl (unwrap_or [] (get_str s ''keyid''))) recorder"
    and k: "case key_for C trust ''recorder_keys'' (Some (unwrap_or [] (get_str s ''keyid''))) of None \<Rightarrow> False
       | Some pub_bytes \<Rightarrow> length pub_bytes = 32 \<and> kl_keys kl (unwrap_or [] (get_str s ''keyid'')) = Some pub_bytes"
    by (auto simp: entry_recorder_attested_def Let_def list_ex_iff split: option.splits if_splits)
  show "\<exists>sigs s. get_array (index e ''envelope'') ''signatures'' = Some sigs \<and> 2 \<le> length sigs \<and> s \<in> set sigs \<and>
          (\<exists>s' \<in> set sigs. \<not> is_some_and (kl_state kl (unwrap_or [] (get_str s' ''keyid''))) non_issuer) \<and>
          (let kid = unwrap_or [] (get_str s ''keyid'') in
             is_some_and (kl_state kl kid) recorder \<and> kl_keys kl kid \<noteq> None \<and>
             key_for C trust ''recorder_keys'' (Some kid) = kl_keys kl kid)"
    using s k by (intro exI [of _ sigs] exI [of _ s]) (auto simp: list_all_iff Let_def split: option.splits)
qed



text \<open>A log of one receipt: the genesis key introduces itself, and a checkpoint of size 1 covers it.\<close>

definition toy_genesis :: json where
  "toy_genesis = toy_receipt ''evd.key.created'' ''_system'' 1
     (JObject [(''effective_ts'', JString ''2024-01-01T00:00:00Z''),
        (''jwk'', JObject [(''crv'', JString ''Ed25519''), (''kid'', JString (toy_kid CHR 0x20)), (''kty'', JString ''OKP''),
           (''x'', JString (replicate 32 CHR ''a''))])])"

definition genesis_payload :: bytes where
  "genesis_payload = the (canonical_checked toy_base toy_genesis)"

definition toy_entry :: json where
  "toy_entry = JObject [(''envelope'', toy_env [(toy_kid CHR 0x20, replicate 32 0x61)] toy_genesis),
     (''inclusion_proof'', JArray []), (''leaf_index'', JNumber (PosInt 0))]"

definition toy_target :: json where
  "toy_target = toy_cp 1 [] (receipt_leaf toy_base genesis_payload)"

definition toy_world :: crates where
  "toy_world = toy_crates [toy_genesis]"

lemma toy_world_simps [simp]:
  "Sha256 toy_world = toy_digest" "length (Sha256 toy_world x) = 32" "canonical_checked toy_world v = canonical_checked toy_base v"
  "receipt_leaf toy_world = receipt_leaf toy_base" "B64_decode toy_world t = Some (as_bytes t)"
proof -
  show "canonical_checked toy_world v = canonical_checked toy_base v" by (simp add: toy_world_def)
qed (simp_all add: toy_world_def receipt_leaf_def [abs_def] toy_crates_def toy_base_def)

lemma receipt_body_valid_None: "receipt_body_valid body tenant \<Longrightarrow> receipt_body_valid body None"
  by (auto simp: receipt_body_valid_def split: option.splits if_splits)

lemma toy_genesis_canonical: "canonical_checked toy_base toy_genesis = Some genesis_payload"
proof -
  have "canonical_checked toy_base toy_genesis \<noteq> None"
    using jcs_write_defined [of toy_base _ JCS_MAX_DEPTH]
    by (simp add: canonical_checked_def JCS_MAX_DEPTH_def numbers_match.simps toy_genesis_def toy_receipt_def
        number_text_def number_as_i64_def MAX_SAFE_INTEGER_def)
  then show ?thesis by (auto simp: genesis_payload_def)
qed

lemma toy_genesis_read:
  "canonical_body toy_world genesis_payload = Some toy_genesis" "receipt_body_valid toy_genesis (Some ''t'')"
  "body_of toy_world (toy_env ss toy_genesis) = Some toy_genesis"
proof -
  have p: "promote_jcs_integer_lexemes toy_genesis = Some toy_genesis" by code_simp
  then show c: "canonical_body toy_world genesis_payload = Some toy_genesis"
    by (simp add: canonical_body_iff toy_genesis_canonical) (simp add: toy_world_def toy_crates_def toy_genesis_canonical)
  have f: "safe_identity_text ''t''" "safe_identity_text ''_system''" "safe_identity_text ''i''" "safe_identity_text RECEIPT_SCHEMA"
    "safe_identity_text ''evd.key.created''" "namespaced_action ''evd.key.created''" by code_simp+
  show t: "receipt_body_valid toy_genesis (Some ''t'')"
    by (simp add: receipt_body_valid_def toy_genesis_def toy_receipt_def json_access receipt_text_def f toy_key_facts
        receipt_commitments_def receipt_parents_def receipt_session_def RECEIPT_REQUIRED_def RECEIPT_OPTIONAL_def
        MAX_SAFE_INTEGER_def RECEIPT_MAX_PARENTS_def)
  then have n: "receipt_body_valid toy_genesis None" by (rule receipt_body_valid_None)
  show "body_of toy_world (toy_env ss toy_genesis) = Some toy_genesis"
    using c n toy_env_fields(2) [of "[toy_genesis]"] by (simp add: body_of_iff genesis_payload_def [symmetric] toy_world_def)
qed


lemma toy_target_fields:
  "size_of toy_target = 1" "root_of toy_target = Some (mth toy_digest (map (receipt_leaf toy_base) [genesis_payload]))"
  "Option.bind (body_str toy_target ''origin'') tenant_from_origin = Some ''t''"
  "checkpoint_cover_deadlines [toy_target] = Some [(1, 1704067500000000)]"
proof -
  have "tenant_from_origin ''t'' = Some ''t''" by code_simp
  then show "Option.bind (body_str toy_target ''origin'') tenant_from_origin = Some ''t''"
    by (simp add: toy_target_def toy_cp_fields)
  show "checkpoint_cover_deadlines [toy_target] = Some [(1, 1704067500000000)]"
    by (simp add: checkpoint_cover_deadlines_def toy_target_def toy_cp_fields)
      (simp add: toy_cp_body_def json_access toy_key_facts RECEIPT_CHECKPOINT_SKEW_S_def)
qed (simp_all add: toy_target_def toy_cp_fields mth.simps)

lemma toy_entry_fields:
  "index toy_entry ''envelope'' = toy_env [(toy_kid CHR 0x20, replicate 32 0x61)] toy_genesis"
  "get toy_entry ''envelope'' = Some (toy_env [(toy_kid CHR 0x20, replicate 32 0x61)] toy_genesis)"
  "leaf_of toy_entry = 0" "proof_hashes (get toy_entry ''inclusion_proof'') = Some []"
  by (simp_all add: toy_entry_def leaf_of_def proof_hashes_def json_access)

lemma toy_env_signatures:
  "get_array (toy_env [(kid, key)] b) ''signatures'' = Some [JObject [(''keyid'', JString kid),
     (''sig'', JString (of_bytes (toy_sign key (pae RECEIPT_TYPE (the (canonical_checked toy_base b))))))]]"
  "envelope_members_closed (toy_env ss b)"
  by (simp_all add: toy_env_def json_access Let_def envelope_members_closed_def)

lemma toy_entry_ok:
  "check_entry toy_world toy_entry (toy_log None) 1 (receipt_leaf toy_base genesis_payload) [(1, 1704067500000000)] ''t''"
proof -
  let ?msg = "pae RECEIPT_TYPE genesis_payload"
  let ?sig = "JObject [(''keyid'', JString (toy_kid CHR 0x20)), (''sig'', JString (of_bytes (toy_sign (replicate 32 0x61) ?msg)))]"
  have pay: "payload_of toy_world (toy_env ss toy_genesis) = Some genesis_payload" for ss
    by (simp add: toy_world_def toy_env_fields genesis_payload_def)
  have msg: "envelope_message toy_world (toy_env ss toy_genesis) = Some ?msg" for ss
    by (simp add: envelope_message_def pay toy_env_fields)
  have sv: "signature_valid toy_world ?sig ?msg (replicate 32 0x61)"
    by (simp add: signature_valid_def json_access is_string_def toy_world_def toy_signature)
  have body: "get_str toy_genesis ''ts_server'' = Some ''2024-01-01T00:00:00Z''" "get_str toy_genesis ''action_type'' = Some ''evd.key.created''"
    "jwk_kid toy_genesis = Some (toy_kid CHR 0x20)"
    by (simp_all add: toy_genesis_def toy_receipt_def jwk_kid_def json_access)
  have sig: "check_entry_sig toy_world ?sig ?msg toy_genesis 0 (toy_log None)"
  proof -
    have "get_str ?sig ''keyid'' = Some (toy_kid CHR 0x20)" by (simp add: json_access)
    moreover have "kl_keys (toy_log None) (toy_kid CHR 0x20) = Some (replicate 32 0x61)" by (simp add: toy_log_def insert_key_def)
    ultimately show ?thesis using sv body by (simp add: check_entry_sig_def jwk_kid_def Let_def)
  qed
  have sh: "sha256 toy_world x = toy_digest x" for x by (simp add: sha256_def)
  have inc: "verify_inclusion (sha256 toy_world) (sha256 toy_world (0 # sha256 toy_world genesis_payload)) 0 1 [] (receipt_leaf toy_base genesis_payload)"
    by (simp add: verify_inclusion_climb climb_0 sh receipt_leaf_def data_leaf_def toy_base_def)
  show ?thesis
    using inc sig
    by (simp add: check_entry_def toy_entry_fields toy_env_signatures toy_env_fields pay toy_genesis_read body first_cover_def
        toy_key_facts check_entry_sigs_def msg check_entry_inclusion_def genesis_payload_def [symmetric])
qed


lemma toy_entries_ok:
  "check_entries toy_world [toy_entry] toy_target [toy_target] (toy_log None) trust [] = (True, [])"
proof -
  have r: "hex_to_bytes (unwrap_or [] (body_str toy_target ''root_hash'')) = Some (receipt_leaf toy_base genesis_payload)"
    using toy_cp_fields(4) [of 1 "[]"] by (simp add: toy_target_def root_of_def)
  have n: "unwrap_or 0 (body_u64 toy_target ''tree_size'') = 1" using toy_target_fields(1) by (simp add: size_of_def)
  have "\<not> entry_recorder_attested toy_world (index toy_entry ''envelope'') (toy_log None) trust"
    by (simp add: entry_recorder_attested_def toy_entry_fields toy_env_signatures)
  then show ?thesis
    unfolding check_entries_def Let_def r n toy_target_fields using toy_entry_ok by simp
qed


theorem recorder_attestation_pinned_witness:
  "[] = map leaf_of (filter (\<lambda>e. entry_recorder_attested toy_world (index e ''envelope'') (toy_log None) None) [toy_entry])"
  using recorder_attestation_pinned [OF toy_entries_ok [of None]] by simp

definition toy_manifest :: json where
  "toy_manifest = JObject [(''origin'', JString ''t''),
     (''receipt_hashes'', JArray (map JString (carried_hashes toy_world [toy_entry]))), (''schema'', JString ''evd/export-manifest/v1''),
     (''target_checkpoint_hash'', JString (the (checkpoint_body_hash toy_world toy_target))), (''ts'', JString ''2024-01-01T00:00:00Z'')]"

definition toy_export :: json where
  "toy_export = JObject [(''export_manifest'', JObject [(''body'', toy_manifest), (''kid'', JString (toy_kid CHR 0x20)),
     (''sig'', JString (of_bytes (toy_sign (replicate 32 0x61) (pae EXPORT_MANIFEST_TYPE (the (canonical_checked toy_base toy_manifest))))))]),
     (''origin'', JString ''t'')]"

lemma toy_target_hash: "\<exists>h. checkpoint_body_hash toy_world toy_target = Some h"
proof -
  have "canonical_checked toy_base (toy_cp_body 1 [] root) \<noteq> None" for root
    using jcs_write_defined [of toy_base _ JCS_MAX_DEPTH]
    by (simp add: canonical_checked_def JCS_MAX_DEPTH_def numbers_match.simps toy_cp_body_def
      number_text_def number_as_i64_def MAX_SAFE_INTEGER_def)
  then show ?thesis by (auto simp: checkpoint_body_hash_def toy_target_def toy_cp_fields)
qed

lemma toy_manifest_ok: "check_export_manifest toy_world toy_export [toy_entry] toy_target (toy_log None) = Some True"
proof -
  obtain h where h: "checkpoint_body_hash toy_world toy_target = Some h" using toy_target_hash ..
  obtain rh where rh: "carried_hashes toy_world [toy_entry] = [rh]"
    by (simp add: carried_hashes_def map_filter_simps toy_entry_fields receipt_hash_hex_def toy_world_def toy_env_fields)
  obtain canon where canon: "canonical_checked toy_base toy_manifest = Some canon"
  proof -
    have "canonical_checked toy_base toy_manifest \<noteq> None"
      using jcs_write_defined [of toy_base _ JCS_MAX_DEPTH]
      by (simp add: canonical_checked_def JCS_MAX_DEPTH_def numbers_match.simps toy_manifest_def rh)
    then show ?thesis using that by auto
  qed
  have t: "body_str toy_target ''ts'' = Some ''2024-01-01T00:00:00Z''" "get_str toy_target ''kid'' = Some (toy_kid CHR 0x20)"
    "body_str toy_target ''origin'' = Some ''t''" "unwrap_or 0 (body_u64 toy_target ''tree_size'') = 1"
    by (simp_all add: toy_target_def toy_cp_def toy_cp_body_def body_str_def body_u64_def json_access)
  have time: "manifest_target_time toy_world toy_manifest toy_export toy_target (toy_kid CHR 0x20) = Some ''2024-01-01T00:00:00Z''"
  proof -
    have "get_str toy_manifest ''schema'' = Some ''evd/export-manifest/v1''" "get_str toy_manifest ''origin'' = Some ''t''"
      "get_str toy_export ''origin'' = Some ''t''" "get_str toy_manifest ''target_checkpoint_hash'' = Some h"
      "get_str toy_manifest ''ts'' = Some ''2024-01-01T00:00:00Z''"
      by (simp_all add: toy_manifest_def toy_export_def json_access h)
    then show ?thesis by (simp add: manifest_target_time_def t h)
  qed
  have l: "kl_keys (toy_log None) (toy_kid CHR 0x20) = Some (replicate 32 0x61)"
    "\<not> is_some_and (kl_state (toy_log None) (toy_kid CHR 0x20)) non_issuer"
    "key_active (toy_log None) (toy_kid CHR 0x20) ''2024-01-01T00:00:00Z'' 1"
    by (simp_all add: toy_log_def insert_key_def toy_key_state_def key_active_def toy_key_facts)
  have s: "ed25519_verify toy_world k m (toy_sign k m)" for k m by (simp add: toy_world_def)
  have raw: "get toy_export ''export_manifest'' = Some (JObject [(''body'', toy_manifest), (''kid'', JString (toy_kid CHR 0x20)),
     (''sig'', JString (of_bytes (toy_sign (replicate 32 0x61) (pae EXPORT_MANIFEST_TYPE canon))))])"
    by (simp add: toy_export_def get_def canon)
  have list: "get_array toy_manifest ''receipt_hashes'' = Some [JString rh]" "as_object toy_manifest \<noteq> None"
    by (simp_all add: toy_manifest_def json_access rh)
  show ?thesis
    unfolding check_export_manifest_def raw
    by (simp add: get_str_def get_def as_str_def list(2) time l t canon s)
      (simp add: list(1) as_str_def rh MAX_ENTRIES_def)
qed


end
