(* ===== verification/Tsa.thy ===== *)
theory Tsa
  imports Keys "HOL-Library.Multiset_Order" "HOL-Library.Extended_Nat"
begin

text \<open>
  RFC 3161 timestamp tokens (\<open>tsa.rs\<close>): the structural checks of a token, its signature, and the search for a
  certificate path. The decoders of the \<open>der\<close>, \<open>cms\<close> and \<open>x509-cert\<close> crates and the signature schemes of
  \<open>p256\<close>, \<open>p384\<close> and \<open>rsa\<close> are fields of the record \<open>asn1\<close>; a decoder that reads from a \<open>SliceReader\<close>
  returns the bytes it leaves. An object identifier is its dotted text; a \<open>GeneralizedTime\<close> and the ends of a
  validity window are Unix seconds; the certificate has the members the code reads.
\<close>

section \<open>Decoded structures\<close>

type_synonym oid = string
type_synonym dn = bytes
type_synonym unix_time = nat

datatype Tag = Sequence | ContextSpecific bool nat | OtherTag nat

record any_value =
  tag :: Tag
  any_bytes :: bytes

record alg_id =
  alg_oid :: oid
  parameters :: "any_value option"

record spki =
  algorithm :: alg_id
  subject_public_key :: "bytes option"

record extension =
  extn_id :: oid
  critical :: bool

record certificate =
  cert_signature_algorithm :: alg_id
  cert_signature :: "bytes option"
  tbs_signature :: alg_id
  serial_number :: bytes
  cert_issuer :: dn
  cert_subject :: dn
  subject_public_key_info :: spki
  extensions :: "extension list option"
  not_before :: unix_time
  not_after :: unix_time

datatype CmsVersion = V0 | V1 | V2 | V3 | V4 | V5

datatype CertificateChoices = CertificateChoice certificate | OtherChoice any_value

datatype SignerIdentifier = IssuerAndSerialNumber dn bytes | SubjectKeyIdentifier bytes

record attribute =
  attr_oid :: oid
  attr_values :: "any_value list"

record SignerInfo =
  si_version :: CmsVersion
  sid :: SignerIdentifier
  digest_alg :: alg_id
  signed_attrs :: "attribute list option"
  si_signature_algorithm :: alg_id
  si_signature :: bytes

record TimestampSignedData =
  version :: CmsVersion
  digest_algorithms :: "alg_id list"
  econtent_type :: oid
  econtent :: "any_value option"
  certificates :: "CertificateChoices list option"
  crls :: "any_value list option"
  signer_infos :: "SignerInfo list"

record TstImprint =
  imprint_alg :: oid
  imprint_digest :: bytes
  gen_time :: unix_time

text \<open>The crates. \<open>get_*\<close> is \<open>TbsCertificate::get\<close>: \<open>None\<close> an error, \<open>Some None\<close> an absent extension, and
  otherwise whether it is critical, and its value.\<close>

record asn1 =
  Sha256_digest :: "bytes \<Rightarrow> bytes"
  Sha384_digest :: "bytes \<Rightarrow> bytes"
  Sha512_digest :: "bytes \<Rightarrow> bytes"
  p256_key_from_sec1 :: "bytes \<Rightarrow> bool"
  p256_sig_from_der :: "bytes \<Rightarrow> bool"
  p256_verify_prehash :: "bytes \<Rightarrow> bytes \<Rightarrow> bytes \<Rightarrow> bool"
  p384_key_from_sec1 :: "bytes \<Rightarrow> bool"
  p384_sig_from_der :: "bytes \<Rightarrow> bool"
  p384_verify_prehash :: "bytes \<Rightarrow> bytes \<Rightarrow> bytes \<Rightarrow> bool"
  rsa_from_pkcs1_der :: "bytes \<Rightarrow> bool"
  rsa_pkcs1v15_verify :: "bytes \<Rightarrow> oid \<Rightarrow> bytes \<Rightarrow> bytes \<Rightarrow> bool"
  SliceReader_new :: "bytes \<Rightarrow> bytes option"
  read_any :: "bytes \<Rightarrow> (any_value \<times> bytes) option"
  read_oid :: "bytes \<Rightarrow> (oid \<times> bytes) option"
  read_u8 :: "bytes \<Rightarrow> (u8 \<times> bytes) option"
  read_alg_id :: "bytes \<Rightarrow> (alg_id \<times> bytes) option"
  read_octets :: "bytes \<Rightarrow> (bytes \<times> bytes) option"
  read_int :: "bytes \<Rightarrow> (bytes \<times> bytes) option"
  read_time :: "bytes \<Rightarrow> (unix_time \<times> bytes) option"
  any_from_der :: "bytes \<Rightarrow> any_value option"
  any_to_der :: "any_value \<Rightarrow> bytes option"
  any_as_oid :: "any_value \<Rightarrow> oid option"
  any_as_octets :: "any_value \<Rightarrow> bytes option"
  certificate_list_from_der :: "bytes \<Rightarrow> bool"
  content_info_from_der :: "bytes \<Rightarrow> (oid \<times> any_value) option"
  signed_data_decode :: "any_value \<Rightarrow> TimestampSignedData option"
  attrs_to_der :: "attribute list \<Rightarrow> bytes option"
  name_to_der :: "dn \<Rightarrow> bytes option"
  cert_to_der :: "certificate \<Rightarrow> bytes option"
  tbs_to_der :: "certificate \<Rightarrow> bytes option"
  get_basic_constraints :: "certificate \<Rightarrow> (bool \<times> bool \<times> u8 option) option option"
  get_key_cert_sign :: "certificate \<Rightarrow> (bool \<times> bool) option option"
  get_extended_key_usage :: "certificate \<Rightarrow> (bool \<times> oid list) option option"
  load_pem_chain :: "bytes \<Rightarrow> certificate list option"
  date_time_to_string :: "unix_time \<Rightarrow> string"

section \<open>Object identifiers\<close>

definition OID_SIGNED_DATA :: oid where "OID_SIGNED_DATA = ''1.2.840.113549.1.7.2''"
definition OID_TST_INFO :: oid where "OID_TST_INFO = ''1.2.840.113549.1.9.16.1.4''"
definition OID_CONTENT_TYPE :: oid where "OID_CONTENT_TYPE = ''1.2.840.113549.1.9.3''"
definition OID_MESSAGE_DIGEST :: oid where "OID_MESSAGE_DIGEST = ''1.2.840.113549.1.9.4''"
definition OID_SHA256 :: oid where "OID_SHA256 = ''2.16.840.1.101.3.4.2.1''"
definition OID_SHA384 :: oid where "OID_SHA384 = ''2.16.840.1.101.3.4.2.2''"
definition OID_SHA512 :: oid where "OID_SHA512 = ''2.16.840.1.101.3.4.2.3''"
definition OID_ECDSA_SHA256 :: oid where "OID_ECDSA_SHA256 = ''1.2.840.10045.4.3.2''"
definition OID_ECDSA_SHA384 :: oid where "OID_ECDSA_SHA384 = ''1.2.840.10045.4.3.3''"
definition OID_ECDSA_SHA512 :: oid where "OID_ECDSA_SHA512 = ''1.2.840.10045.4.3.4''"
definition OID_EC_PUBLIC_KEY :: oid where "OID_EC_PUBLIC_KEY = ''1.2.840.10045.2.1''"
definition OID_PRIME256V1 :: oid where "OID_PRIME256V1 = ''1.2.840.10045.3.1.7''"
definition OID_SECP384R1 :: oid where "OID_SECP384R1 = ''1.3.132.0.34''"
definition OID_RSA_ENCRYPTION :: oid where "OID_RSA_ENCRYPTION = ''1.2.840.113549.1.1.1''"
definition OID_SHA256_RSA :: oid where "OID_SHA256_RSA = ''1.2.840.113549.1.1.11''"
definition OID_SHA384_RSA :: oid where "OID_SHA384_RSA = ''1.2.840.113549.1.1.12''"
definition OID_SHA512_RSA :: oid where "OID_SHA512_RSA = ''1.2.840.113549.1.1.13''"
definition OID_KEY_USAGE :: oid where "OID_KEY_USAGE = ''2.5.29.15''"
definition OID_SUBJECT_ALT_NAME :: oid where "OID_SUBJECT_ALT_NAME = ''2.5.29.17''"
definition OID_BASIC_CONSTRAINTS :: oid where "OID_BASIC_CONSTRAINTS = ''2.5.29.19''"
definition OID_NAME_CONSTRAINTS :: oid where "OID_NAME_CONSTRAINTS = ''2.5.29.30''"
definition OID_EXTENDED_KEY_USAGE :: oid where "OID_EXTENDED_KEY_USAGE = ''2.5.29.37''"
definition OID_ID_KP_TIME_STAMPING :: oid where "OID_ID_KP_TIME_STAMPING = ''1.3.6.1.5.5.7.3.8''"

section \<open>Signatures\<close>

definition hash_bytes :: "asn1 \<Rightarrow> oid \<Rightarrow> bytes \<Rightarrow> bytes option" where
  "hash_bytes T oid data =
     (if oid = OID_SHA256 then Some (Sha256_digest T data)
      else if oid = OID_SHA384 then Some (Sha384_digest T data)
      else if oid = OID_SHA512 then Some (Sha512_digest T data)
      else None)"

definition verify_ecdsa :: "asn1 \<Rightarrow> spki \<Rightarrow> bytes \<Rightarrow> bytes \<Rightarrow> bool" where
  "verify_ecdsa T key sig digest =
     (if alg_oid (algorithm key) \<noteq> OID_EC_PUBLIC_KEY then False
      else
        (let curve = Option.bind (parameters (algorithm key)) (any_as_oid T) in
         case subject_public_key key of
           None \<Rightarrow> False
         | Some raw_key \<Rightarrow>
             if curve = Some OID_PRIME256V1 then
               p256_key_from_sec1 T raw_key \<and> p256_sig_from_der T sig \<and> p256_verify_prehash T raw_key digest sig
             else if curve = Some OID_SECP384R1 then
               p384_key_from_sec1 T raw_key \<and> p384_sig_from_der T sig \<and> p384_verify_prehash T raw_key digest sig
             else False))"

definition verify_rsa :: "asn1 \<Rightarrow> spki \<Rightarrow> bytes \<Rightarrow> bytes \<Rightarrow> oid \<Rightarrow> bool" where
  "verify_rsa T key sig digest hash_oid =
     (if alg_oid (algorithm key) \<noteq> OID_RSA_ENCRYPTION then False
      else
        (case subject_public_key key of
           None \<Rightarrow> False
         | Some raw_key \<Rightarrow>
             if \<not> rsa_from_pkcs1_der T raw_key then False
             else if hash_oid \<notin> {OID_SHA256, OID_SHA384, OID_SHA512} then False
             else rsa_pkcs1v15_verify T raw_key hash_oid digest sig))"

definition verify_sig :: "asn1 \<Rightarrow> spki \<Rightarrow> oid \<Rightarrow> oid \<Rightarrow> bytes \<Rightarrow> bytes \<Rightarrow> bool" where
  "verify_sig T key sig_alg digest_hint sig data =
     (let hash_oid =
        (if sig_alg \<in> {OID_ECDSA_SHA256, OID_SHA256_RSA} then OID_SHA256
         else if sig_alg \<in> {OID_ECDSA_SHA384, OID_SHA384_RSA} then OID_SHA384
         else if sig_alg \<in> {OID_ECDSA_SHA512, OID_SHA512_RSA} then OID_SHA512
         else digest_hint) in
      case hash_bytes T hash_oid data of
        None \<Rightarrow> False
      | Some digest \<Rightarrow>
          if alg_oid (algorithm key) = OID_RSA_ENCRYPTION then
            sig_alg \<in> {OID_RSA_ENCRYPTION, OID_SHA256_RSA, OID_SHA384_RSA, OID_SHA512_RSA} \<and> verify_rsa T key sig digest hash_oid
          else if alg_oid (algorithm key) = OID_EC_PUBLIC_KEY then
            sig_alg \<in> {OID_ECDSA_SHA256, OID_ECDSA_SHA384, OID_ECDSA_SHA512} \<and> verify_ecdsa T key sig digest
          else False)"

section \<open>The token\<close>

fun other_revocation_loop :: "asn1 \<Rightarrow> bool \<Rightarrow> any_value list \<Rightarrow> bool option" where
  "other_revocation_loop T other [] = Some other"
| "other_revocation_loop T other (item # items) =
     (case tag item of
        Sequence \<Rightarrow>
          (case any_to_der T item of
             None \<Rightarrow> None
           | Some der \<Rightarrow> if certificate_list_from_der T der then other_revocation_loop T other items else None)
      | ContextSpecific constructed n \<Rightarrow>
          if constructed \<and> n = 1 then
            (case SliceReader_new T (any_bytes item) of None \<Rightarrow> None | Some r \<Rightarrow>
            (case read_oid T r of None \<Rightarrow> None | Some (_, r) \<Rightarrow>
            (case read_any T r of None \<Rightarrow> None | Some (_, r) \<Rightarrow>
               if r \<noteq> [] then None else other_revocation_loop T True items)))
          else None
      | OtherTag _ \<Rightarrow> None)"

definition other_revocation_present :: "asn1 \<Rightarrow> any_value list option \<Rightarrow> bool option" where
  "other_revocation_present T cs = other_revocation_loop T False (unwrap_or [] cs)"

definition parse_imprint :: "asn1 \<Rightarrow> bytes \<Rightarrow> ((oid \<times> bytes) \<times> bytes) option" where
  "parse_imprint T r =
     do {
       (imprint, r) \<leftarrow> read_any T r;
       if tag imprint \<noteq> Sequence then None
       else do {
         ir \<leftarrow> SliceReader_new T (any_bytes imprint);
         (alg, ir) \<leftarrow> read_alg_id T ir;
         (digest, ir) \<leftarrow> read_octets T ir;
         Some ((alg_oid alg, digest), r)
       }
     }"

definition parse_tst_info :: "asn1 \<Rightarrow> bytes \<Rightarrow> TstImprint option" where
  "parse_tst_info T tst_der =
     do {
       outer \<leftarrow> any_from_der T tst_der;
       if tag outer \<noteq> Sequence then None
       else do {
         r \<leftarrow> SliceReader_new T (any_bytes outer);
         (v, r) \<leftarrow> read_u8 T r;
         if v \<noteq> 1 then None
         else do {
           (_, r) \<leftarrow> read_oid T r;
           ((alg, digest), r) \<leftarrow> parse_imprint T r;
           (_, r) \<leftarrow> read_int T r;
           (t, r) \<leftarrow> read_time T r;
           Some \<lparr>imprint_alg = alg, imprint_digest = digest, gen_time = t\<rparr>
         }
       }
     }"

definition other_certificate :: "CertificateChoices \<Rightarrow> bool" where
  "other_certificate c = (case c of CertificateChoice _ \<Rightarrow> False | OtherChoice _ \<Rightarrow> True)"

definition parse_token :: "asn1 \<Rightarrow> bytes \<Rightarrow> (TimestampSignedData \<times> bytes \<times> TstImprint) option" where
  "parse_token T token_der =
     do {
       (content_type, content) \<leftarrow> content_info_from_der T token_der;
       if content_type \<noteq> OID_SIGNED_DATA then None
       else do {
         sd \<leftarrow> signed_data_decode T content;
         if econtent_type sd \<noteq> OID_TST_INFO then None
         else do {
           other_revocation \<leftarrow> other_revocation_present T (crls sd);
           if version sd \<noteq> (if is_some_and (certificates sd) (list_ex other_certificate) \<or> other_revocation then V5 else V3) then None
           else do {
             tst_der \<leftarrow> Option.bind (econtent sd) (any_as_octets T);
             info \<leftarrow> parse_tst_info T tst_der;
             Some (sd, tst_der, info)
           }
         }
       }
     }"

definition signed_attribute :: "attribute list \<Rightarrow> oid \<Rightarrow> any_value option" where
  "signed_attribute attrs oid =
     (case filter (\<lambda>a. attr_oid a = oid) attrs of
        [attr] \<Rightarrow> (case attr_values attr of [v] \<Rightarrow> Some v | _ \<Rightarrow> None)
      | _ \<Rightarrow> None)"

definition check_signer_info :: "asn1 \<Rightarrow> TimestampSignedData \<Rightarrow> bytes \<Rightarrow> SignerInfo option" where
  "check_signer_info T sd tst_der =
     (case signer_infos sd of
        [si] \<Rightarrow>
          if si_version si \<noteq> V1 \<or> (case sid si of IssuerAndSerialNumber _ _ \<Rightarrow> False | SubjectKeyIdentifier _ \<Rightarrow> True) then None
          else do {
            attrs \<leftarrow> signed_attrs si;
            if attrs = [] then None
            else do {
              want \<leftarrow> hash_bytes T (alg_oid (digest_alg si)) tst_der;
              content_type \<leftarrow> Option.bind (signed_attribute attrs OID_CONTENT_TYPE) (any_as_oid T);
              if content_type \<noteq> OID_TST_INFO then None
              else do {
                message_digest \<leftarrow> Option.bind (signed_attribute attrs OID_MESSAGE_DIGEST) (any_as_octets T);
                if message_digest \<noteq> want then None else Some si
              }
            }
          }
      | _ \<Rightarrow> None)"

fun signer_cert_loop :: "asn1 \<Rightarrow> bytes \<Rightarrow> bytes \<Rightarrow> CertificateChoices list \<Rightarrow> certificate option" where
  "signer_cert_loop T want_issuer serial [] = None"
| "signer_cert_loop T want_issuer serial (choice # choices) =
     (case choice of
        CertificateChoice cert \<Rightarrow>
          if serial_number cert = serial then
            (case name_to_der T (cert_issuer cert) of
               None \<Rightarrow> None
             | Some d \<Rightarrow> if d = want_issuer then Some cert else signer_cert_loop T want_issuer serial choices)
          else signer_cert_loop T want_issuer serial choices
      | OtherChoice _ \<Rightarrow> signer_cert_loop T want_issuer serial choices)"

definition find_signer_cert :: "asn1 \<Rightarrow> TimestampSignedData \<Rightarrow> SignerInfo \<Rightarrow> certificate option" where
  "find_signer_cert T sd si =
     (case sid si of
        IssuerAndSerialNumber name serial \<Rightarrow>
          do {
            want_issuer \<leftarrow> name_to_der T name;
            cs \<leftarrow> certificates sd;
            signer_cert_loop T want_issuer serial cs
          }
      | SubjectKeyIdentifier _ \<Rightarrow> None)"

section \<open>The certificate path\<close>

lemma set_map_filter: "set (List.map_filter f xs) = {y. \<exists>x \<in> set xs. f x = Some y}"
  by (force simp: map_filter_def image_iff)

definition cert_sig_valid :: "asn1 \<Rightarrow> certificate \<Rightarrow> certificate \<Rightarrow> bytes \<Rightarrow> bool" where
  "cert_sig_valid T current issuer tbs_der =
     (if cert_signature_algorithm current \<noteq> tbs_signature current then False
      else (case cert_signature current of
              None \<Rightarrow> False
            | Some sig \<Rightarrow> verify_sig T (subject_public_key_info issuer) (alg_oid (cert_signature_algorithm current))
                (alg_oid (cert_signature_algorithm current)) sig tbs_der))"

definition ca_constraint :: "asn1 \<Rightarrow> certificate \<Rightarrow> u8 option option" where
  "ca_constraint T cert =
     (case get_basic_constraints T cert of
        Some (Some (_, ca, path_len)) \<Rightarrow>
          (case get_key_cert_sign T cert of
             Some (Some (_, key_cert_sign)) \<Rightarrow> then_some (ca \<and> key_cert_sign) path_len
           | _ \<Rightarrow> None)
      | _ \<Rightarrow> None)"

definition is_timestamping_signer :: "asn1 \<Rightarrow> certificate \<Rightarrow> bool" where
  "is_timestamping_signer T cert = (get_extended_key_usage T cert = Some (Some (True, [OID_ID_KP_TIME_STAMPING])))"

definition gen_time_in_validity :: "unix_time \<Rightarrow> certificate \<Rightarrow> bool" where
  "gen_time_in_validity t cert = (not_before cert \<le> t \<and> t \<le> not_after cert)"

definition profile_ok :: "certificate \<Rightarrow> bool" where
  "profile_ok cert =
     is_none_or (extensions cert)
       (list_all (\<lambda>ext. extn_id ext \<noteq> OID_NAME_CONSTRAINTS
          \<and> (\<not> critical ext \<or> extn_id ext \<in> {OID_KEY_USAGE, OID_SUBJECT_ALT_NAME, OID_BASIC_CONSTRAINTS, OID_EXTENDED_KEY_USAGE})))"

definition path_candidate_ok ::
  "asn1 \<Rightarrow> certificate \<Rightarrow> certificate \<Rightarrow> bytes \<Rightarrow> bool \<Rightarrow> unix_time option \<Rightarrow> nat \<Rightarrow> bool" where
  "path_candidate_ok T current issuer tbs supplied instant below =
     (let constraint = (if supplied then ca_constraint T issuer else Some None) in
      (\<not> supplied \<or> profile_ok current \<and> profile_ok issuer)
      \<and> constraint \<noteq> None
      \<and> is_none_or instant (\<lambda>t. gen_time_in_validity t issuer)
      \<and> is_none_or (Option.bind constraint (\<lambda>limit. limit)) (\<lambda>limit. below \<le> unat limit)
      \<and> cert_sig_valid T current issuer tbs)"

definition self_issued :: "certificate \<Rightarrow> bool" where
  "self_issued cert = (cert_subject cert = cert_issuer cert)"

definition below_of :: "asn1 \<Rightarrow> certificate \<Rightarrow> nat \<Rightarrow> nat" where
  "below_of T current ca_below = ca_below + (if ca_constraint T current \<noteq> None \<and> \<not> self_issued current then 1 else 0)"

definition candidates :: "asn1 \<Rightarrow> certificate list \<Rightarrow> certificate list \<Rightarrow> certificate \<Rightarrow> certificate list" where
  "candidates T roots pool current =
     map fst (rev (sort_key snd
       (List.map_filter (\<lambda>cert. map_option (Pair cert) (cert_to_der T cert))
          (filter (\<lambda>c. cert_subject c = cert_issuer current) (roots @ pool)))))"

text \<open>The inner loop pushes the admissible issuers; \<open>None\<close> is its \<open>return true\<close>.\<close>

fun candidate_loop ::
  "asn1 \<Rightarrow> bool \<Rightarrow> unix_time option \<Rightarrow> certificate \<Rightarrow> bytes \<Rightarrow> nat \<Rightarrow> (certificate \<times> nat) list \<Rightarrow> certificate list
    \<Rightarrow> (certificate \<times> nat) list option" where
  "candidate_loop T supplied instant current tbs below stack [] = Some stack"
| "candidate_loop T supplied instant current tbs below stack (issuer # rest) =
     (if \<not> path_candidate_ok T current issuer tbs supplied instant below then
        candidate_loop T supplied instant current tbs below stack rest
      else if \<not> supplied \<and> self_issued issuer then None
      else candidate_loop T supplied instant current tbs below ((issuer, below) # stack) rest)"

definition accepted :: "asn1 \<Rightarrow> bool \<Rightarrow> unix_time option \<Rightarrow> certificate \<Rightarrow> bytes \<Rightarrow> nat \<Rightarrow> certificate list \<Rightarrow> certificate list" where
  "accepted T supplied instant current tbs below cs = filter (\<lambda>c. path_candidate_ok T current c tbs supplied instant below) cs"

lemma candidate_loop_accepted:
  "candidate_loop T supplied instant current tbs below stack cs =
     (if \<not> supplied \<and> list_ex self_issued (accepted T supplied instant current tbs below cs) then None
      else Some (rev (map (\<lambda>c. (c, below)) (accepted T supplied instant current tbs below cs)) @ stack))"
  by (induction cs arbitrary: stack) (auto simp: accepted_def)

lemma set_candidates:
  "set (candidates T roots pool current)
     = {c \<in> set roots \<union> set pool. cert_subject c = cert_issuer current \<and> cert_to_der T c \<noteq> None}"
proof -
  have "set (candidates T roots pool current) = fst ` {(c, d). c \<in> set roots \<union> set pool \<and> cert_subject c = cert_issuer current \<and> cert_to_der T c = Some d}"
    by (auto simp: candidates_def set_map_filter intro!: image_cong)
  then show ?thesis by (force simp: image_iff)
qed

definition root_ders :: "asn1 \<Rightarrow> certificate list \<Rightarrow> bytes set" where
  "root_ders T roots = set (List.map_filter (cert_to_der T) roots)"

text \<open>The search never ends up in a cycle: an expansion records a smaller count of intermediate issuers for the
  encoding of one of finitely many certificates, and a step without an expansion shortens the stack.\<close>

definition seen_measure ::
  "asn1 \<Rightarrow> certificate list \<Rightarrow> certificate list \<Rightarrow> (certificate \<times> nat) list \<Rightarrow> (bytes \<rightharpoonup> nat) \<Rightarrow> enat multiset" where
  "seen_measure T roots pool stack seen =
     image_mset (\<lambda>d. case seen d of None \<Rightarrow> \<infinity> | Some k \<Rightarrow> enat k)
       (mset_set (set (List.map_filter (cert_to_der T) (map fst stack @ roots @ pool))))"

function walk_loop ::
  "asn1 \<Rightarrow> certificate list \<Rightarrow> certificate list \<Rightarrow> bool \<Rightarrow> unix_time option \<Rightarrow> (certificate \<times> nat) list \<Rightarrow> (bytes \<rightharpoonup> nat) \<Rightarrow> bool" where
  "walk_loop T roots pool supplied instant [] seen = False"
| "walk_loop T roots pool supplied instant ((current, ca_below) # stack) seen =
     (case cert_to_der T current of
        None \<Rightarrow> walk_loop T roots pool supplied instant stack seen
      | Some current_der \<Rightarrow>
          if supplied \<and> current_der \<in> root_ders T roots then True
          else if is_some_and (seen current_der) (\<lambda>best. best \<le> ca_below) then walk_loop T roots pool supplied instant stack seen
          else
            (case tbs_to_der T current of
               None \<Rightarrow> False
             | Some tbs \<Rightarrow>
                 (case candidate_loop T supplied instant current tbs (below_of T current ca_below) stack (candidates T roots pool current) of
                    None \<Rightarrow> True
                  | Some pushed \<Rightarrow> walk_loop T roots pool supplied instant pushed (seen(current_der \<mapsto> ca_below)))))"
  by pat_completeness auto

lemma image_mset_set_le:
  fixes f :: "'a \<Rightarrow> 'b :: wellorder"
  assumes "finite D" "D' \<subseteq> D"
  shows "image_mset f (mset_set D') \<le> image_mset f (mset_set D)"
  using assms by (intro subset_eq_imp_le_multiset image_mset_subseteq_mono subset_imp_msubset_mset_set)

lemma image_mset_set_less:
  fixes f :: "'a \<Rightarrow> 'b :: wellorder"
  assumes "finite D" "d \<in> D" "f' d < f d" "\<And>x. x \<noteq> d \<Longrightarrow> f' x = f x"
  shows "image_mset f' (mset_set D) < image_mset f (mset_set D)"
proof -
  have split: "mset_set D = add_mset d (mset_set (D - {d}))"
    using assms(1,2) by (simp add: mset_set.remove)
  have "image_mset f' (mset_set (D - {d})) = image_mset f (mset_set (D - {d}))"
    using assms(1,4) by (intro image_mset_cong) auto
  then show ?thesis unfolding split using assms(3) by simp
qed

lemma seen_measure_le:
  assumes "set (map fst stack') \<subseteq> set (map fst stack) \<union> set roots \<union> set pool"
  shows "seen_measure T roots pool stack' seen \<le> seen_measure T roots pool stack seen"
  unfolding seen_measure_def
proof (rule image_mset_set_le)
  show "set (List.map_filter (cert_to_der T) (map fst stack' @ roots @ pool))
      \<subseteq> set (List.map_filter (cert_to_der T) (map fst stack @ roots @ pool))"
  proof
    fix d assume "d \<in> set (List.map_filter (cert_to_der T) (map fst stack' @ roots @ pool))"
    then obtain c where "c \<in> set (map fst stack') \<union> set roots \<union> set pool" "cert_to_der T c = Some d"
      unfolding set_map_filter by auto
    moreover from this have "c \<in> set (map fst stack @ roots @ pool)" using assms by auto
    ultimately show "d \<in> set (List.map_filter (cert_to_der T) (map fst stack @ roots @ pool))"
      unfolding set_map_filter by blast
  qed
qed simp

lemma seen_measure_pop:
  "seen_measure T roots pool stack seen < seen_measure T roots pool (p # stack) seen
    \<or> seen_measure T roots pool stack seen = seen_measure T roots pool (p # stack) seen"
  using seen_measure_le [of stack "p # stack"] by (auto simp: order_le_less)

lemma seen_measure_less:
  assumes "set (map fst stack') \<subseteq> set (map fst stack) \<union> set roots \<union> set pool"
    and "c \<in> set (map fst stack)" "cert_to_der T c = Some d" "\<not> is_some_and (seen d) (\<lambda>best. best \<le> k)"
  shows "seen_measure T roots pool stack' (seen(d \<mapsto> k)) < seen_measure T roots pool stack seen"
proof -
  have "seen_measure T roots pool stack (seen(d \<mapsto> k)) < seen_measure T roots pool stack seen"
    unfolding seen_measure_def
  proof (rule image_mset_set_less [of _ d])
    show "d \<in> set (List.map_filter (cert_to_der T) (map fst stack @ roots @ pool))"
      using assms(2,3) by (auto simp: set_map_filter)
  qed (use assms(4) in \<open>auto split: option.splits\<close>)
  then show ?thesis using seen_measure_le [OF assms(1)] by (rule le_less_trans [rotated])
qed

termination walk_loop
proof (relation "inv_image ({(M, N). M < N} <*lex*> less_than)
    (\<lambda>(T, roots, pool, supplied, instant, stack, seen). (seen_measure T roots pool stack seen, length stack))")
  show "wf (inv_image ({(M, N). M < N} <*lex*> less_than)
      (\<lambda>(T, roots, pool, supplied, instant, stack, seen). (seen_measure T roots pool stack seen, length stack)))"
    by (intro wf_inv_image wf_lex_prod) (auto simp: wf)
next
  fix T roots pool supplied instant current ca_below stack and seen :: "bytes \<rightharpoonup> nat" and d tbs pushed
  assume d: "cert_to_der T current = Some d" and n: "\<not> is_some_and (seen d) (\<lambda>best. best \<le> ca_below)"
    and p: "candidate_loop T supplied instant current tbs (below_of T current ca_below) stack (candidates T roots pool current) = Some pushed"
  have "set (map fst pushed) \<subseteq> set (map fst ((current, ca_below) # stack)) \<union> set roots \<union> set pool"
    using p set_candidates [of T roots pool current]
    by (auto simp: candidate_loop_accepted accepted_def split: if_splits)
  then have "seen_measure T roots pool pushed (seen(d \<mapsto> ca_below)) < seen_measure T roots pool ((current, ca_below) # stack) seen"
    using d n by (intro seen_measure_less [of _ _ _ _ current]) auto
  then show "((T, roots, pool, supplied, instant, pushed, seen(d \<mapsto> ca_below)), T, roots, pool, supplied, instant, (current, ca_below) # stack, seen)
      \<in> inv_image ({(M, N). M < N} <*lex*> less_than)
          (\<lambda>(T, roots, pool, supplied, instant, stack, seen). (seen_measure T roots pool stack seen, length stack))"
    by simp
qed (use seen_measure_pop in auto)

declare walk_loop.simps(2) [simp del]

definition walk_chain :: "asn1 \<Rightarrow> certificate \<Rightarrow> certificate list \<Rightarrow> certificate list option \<Rightarrow> unix_time option \<Rightarrow> bool" where
  "walk_chain T signer pool roots instant =
     walk_loop T (unwrap_or [] roots) pool (roots \<noteq> None) instant [(signer, 0)] Map.empty"

section \<open>Verification\<close>

definition verified_tst :: "asn1 \<Rightarrow> bytes \<Rightarrow> string \<Rightarrow> string \<Rightarrow> string option \<Rightarrow> (unix_time \<times> bool) option" where
  "verified_tst T token_der expected_digest_hex cert_chain_pem roots_pem =
     do {
       (sd, tst_der, tst) \<leftarrow> parse_token T token_der;
       if imprint_alg tst \<noteq> OID_SHA256 \<or> hex (imprint_digest tst) \<noteq> expected_digest_hex then None
       else do {
         si \<leftarrow> check_signer_info T sd tst_der;
         signer \<leftarrow> find_signer_cert T sd si;
         attrs_der \<leftarrow> Option.bind (signed_attrs si) (attrs_to_der T);
         if \<not> verify_sig T (subject_public_key_info signer) (alg_oid (si_signature_algorithm si)) (alg_oid (digest_alg si))
               (si_signature si) attrs_der
         then None
         else do {
           pool \<leftarrow> load_pem_chain T (as_bytes cert_chain_pem);
           let trusted = is_some_and (Option.bind roots_pem (\<lambda>pem. load_pem_chain T (as_bytes pem)))
             (\<lambda>roots. is_timestamping_signer T signer \<and> walk_chain T signer pool (Some roots) (Some (gen_time tst)));
           if \<not> walk_chain T signer pool None None then None
           else then_some (gen_time_in_validity (gen_time tst) signer) (gen_time tst, trusted)
         }
       }
     }"

definition verify_tst :: "asn1 \<Rightarrow> bytes \<Rightarrow> string \<Rightarrow> string \<Rightarrow> bool" where
  "verify_tst T token_der expected_digest_hex cert_chain_pem =
     (verified_tst T token_der expected_digest_hex cert_chain_pem None \<noteq> None)"

section \<open>The path search against its specification\<close>

text \<open>One step of a path: an issuer candidate, with the count of non-self-issued authorities below it.\<close>

definition links ::
  "asn1 \<Rightarrow> certificate list \<Rightarrow> certificate list \<Rightarrow> bool \<Rightarrow> unix_time option \<Rightarrow> certificate \<Rightarrow> nat \<Rightarrow> certificate \<Rightarrow> nat \<Rightarrow> bool" where
  "links T roots pool supplied instant c k i b \<longleftrightarrow>
     (\<exists>tbs. tbs_to_der T c = Some tbs \<and> i \<in> set (candidates T roots pool c) \<and>
        path_candidate_ok T c i tbs supplied instant b \<and> b = below_of T c k)"

definition anchored :: "asn1 \<Rightarrow> certificate list \<Rightarrow> bool \<Rightarrow> certificate \<Rightarrow> bool" where
  "anchored T roots supplied c \<longleftrightarrow> supplied \<and> is_some_and (cert_to_der T c) (\<lambda>d. d \<in> root_ders T roots)"

text \<open>The specification: a path of links that ends at a supplied root, byte for byte, or, with no roots
  supplied, at a self-issued certificate of the pool.\<close>

inductive certified ::
  "asn1 \<Rightarrow> certificate list \<Rightarrow> certificate list \<Rightarrow> bool \<Rightarrow> unix_time option \<Rightarrow> certificate \<Rightarrow> nat \<Rightarrow> bool"
  for T roots pool supplied instant where
  at_root: "anchored T roots supplied c \<Longrightarrow> certified T roots pool supplied instant c k"
| at_self_issued: "\<lbrakk>\<not> supplied; links T roots pool supplied instant c k i b; self_issued i\<rbrakk>
    \<Longrightarrow> certified T roots pool supplied instant c k"
| by_issuer: "\<lbrakk>links T roots pool supplied instant c k i b; certified T roots pool supplied instant i b\<rbrakk>
    \<Longrightarrow> certified T roots pool supplied instant c k"

lemma links_iff_accepted:
  "tbs_to_der T c = Some tbs \<Longrightarrow>
     links T roots pool supplied instant c k i b \<longleftrightarrow>
       b = below_of T c k \<and> i \<in> set (accepted T supplied instant c tbs b (candidates T roots pool c))"
  by (auto simp: links_def accepted_def)

lemma walk_loop_sound:
  "walk_loop T roots pool supplied instant stack seen \<Longrightarrow>
     \<exists>(c, k) \<in> set stack. certified T roots pool supplied instant c k"
proof (induction T roots pool supplied instant stack seen rule: walk_loop.induct)
  case (2 T roots pool supplied instant current ca_below stack seen)
  let ?k = "below_of T current ca_below"
  show ?case
  proof (cases "cert_to_der T current")
    case None
    then show ?thesis using 2 by (auto simp: walk_loop.simps)
  next
    case (Some d)
    consider "supplied \<and> d \<in> root_ders T roots" | "\<not> (supplied \<and> d \<in> root_ders T roots)" "is_some_and (seen d) (\<lambda>best. best \<le> ca_below)"
      | "\<not> (supplied \<and> d \<in> root_ders T roots)" "\<not> is_some_and (seen d) (\<lambda>best. best \<le> ca_below)" by blast
    then show ?thesis
    proof cases
      case 1
      then have "anchored T roots supplied current" using Some by (simp add: anchored_def)
      then show ?thesis by (auto intro: at_root)
    next
      case b: 2
      have "walk_loop T roots pool supplied instant stack seen"
        using "2.prems" Some b by (simp add: walk_loop.simps(2) split: if_splits)
      from "2.IH"(2) [OF Some b this] show ?thesis by auto
    next
      case b: 3
      then obtain tbs where tbs: "tbs_to_der T current = Some tbs"
        using "2.prems" Some by (auto simp: walk_loop.simps(2) split: option.splits)
      let ?acc = "accepted T supplied instant current tbs ?k (candidates T roots pool current)"
      show ?thesis
      proof (cases "\<not> supplied \<and> list_ex self_issued ?acc")
        case True
        then obtain i where "links T roots pool supplied instant current ca_below i ?k" "self_issued i"
          by (auto simp: links_iff_accepted [OF tbs] list_ex_iff)
        then show ?thesis using True by (auto intro: at_self_issued)
      next
        case False
        then have p: "candidate_loop T supplied instant current tbs ?k stack (candidates T roots pool current)
            = Some (rev (map (\<lambda>c. (c, ?k)) ?acc) @ stack)" by (simp add: candidate_loop_accepted)
        then have "walk_loop T roots pool supplied instant (rev (map (\<lambda>c. (c, ?k)) ?acc) @ stack) (seen(d \<mapsto> ca_below))"
          using "2.prems" Some b tbs by (simp add: walk_loop.simps(2) split: if_splits)
        from "2.IH"(3) [OF Some b tbs p this] obtain c k where "(c, k) \<in> set (rev (map (\<lambda>c. (c, ?k)) ?acc) @ stack)"
          "certified T roots pool supplied instant c k" by auto
        then consider "c \<in> set ?acc" "k = ?k" "certified T roots pool supplied instant c k"
          | "(c, k) \<in> set stack" "certified T roots pool supplied instant c k" by auto
        then show ?thesis
        proof cases
          case 1
          then have "links T roots pool supplied instant current ca_below c k" by (simp add: links_iff_accepted [OF tbs])
          then have "certified T roots pool supplied instant current ca_below" using 1(3) by (rule by_issuer)
          then show ?thesis by auto
        qed auto
      qed
    qed
  qed
qed simp


text \<open>Completeness. A finished search leaves a table of counts that is closed under links: no entry is
  anchored or has a self-issued issuer, and every link leads to an entry with at most that count.\<close>

definition dominated :: "asn1 \<Rightarrow> (bytes \<rightharpoonup> nat) \<Rightarrow> certificate \<Rightarrow> nat \<Rightarrow> bool" where
  "dominated T seen c k \<longleftrightarrow> (\<exists>d j. cert_to_der T c = Some d \<and> seen d = Some j \<and> j \<le> k)"

definition expanded ::
  "asn1 \<Rightarrow> certificate list \<Rightarrow> certificate list \<Rightarrow> bool \<Rightarrow> unix_time option \<Rightarrow> (certificate \<times> nat) list \<Rightarrow> (bytes \<rightharpoonup> nat)
    \<Rightarrow> certificate \<Rightarrow> nat \<Rightarrow> bool" where
  "expanded T roots pool supplied instant stack seen c k \<longleftrightarrow>
     \<not> anchored T roots supplied c \<and>
     (\<forall>i b. links T roots pool supplied instant c k i b \<longrightarrow>
        (\<not> supplied \<longrightarrow> \<not> self_issued i) \<and> ((\<exists>j \<le> b. (i, j) \<in> set stack) \<or> dominated T seen i b))"

definition search_inv ::
  "asn1 \<Rightarrow> certificate list \<Rightarrow> certificate list \<Rightarrow> bool \<Rightarrow> unix_time option \<Rightarrow> certificate set \<Rightarrow> (certificate \<times> nat) list \<Rightarrow> (bytes \<rightharpoonup> nat) \<Rightarrow> bool" where
  "search_inv T roots pool supplied instant U stack seen \<longleftrightarrow>
     fst ` set stack \<subseteq> U \<and>
     (\<forall>c \<in> U. \<forall>d k. cert_to_der T c = Some d \<longrightarrow> seen d = Some k \<longrightarrow> expanded T roots pool supplied instant stack seen c k)"

lemma below_of_mono: "j \<le> k \<Longrightarrow> below_of T c j \<le> below_of T c k"
  by (simp add: below_of_def)

lemma links_mono:
  assumes "links T roots pool supplied instant c k i b" "j \<le> k"
  shows "links T roots pool supplied instant c j i (below_of T c j) \<and> below_of T c j \<le> b"
  using assms below_of_mono [OF assms(2), of T c]
  by (auto simp: links_def path_candidate_ok_def Let_def is_none_or_iff intro: le_trans)

lemma closed_not_certified:
  assumes "certified T roots pool supplied instant c k"
    and "search_inv T roots pool supplied instant U [] fin" "set roots \<union> set pool \<subseteq> U" "c \<in> U"
  shows "\<not> dominated T fin c k"
  using assms(1,4)
proof (induction rule: certified.induct)
  case (at_root c k)
  then show ?case using assms(2) by (auto simp: dominated_def search_inv_def expanded_def)
next
  case (at_self_issued c k i b)
  show ?case
  proof
    assume "dominated T fin c k"
    then obtain d j where d: "cert_to_der T c = Some d" "fin d = Some j" "j \<le> k" by (auto simp: dominated_def)
    then have "expanded T roots pool supplied instant [] fin c j" using assms(2) at_self_issued.prems by (auto simp: search_inv_def)
    then show False using links_mono [OF at_self_issued(2) d(3)] at_self_issued(1,3) by (auto simp: expanded_def)
  qed
next
  case (by_issuer c k i b)
  show ?case
  proof
    assume "dominated T fin c k"
    then obtain d j where d: "cert_to_der T c = Some d" "fin d = Some j" "j \<le> k" by (auto simp: dominated_def)
    then have e: "expanded T roots pool supplied instant [] fin c j" using assms(2) by_issuer.prems by (auto simp: search_inv_def)
    have l: "links T roots pool supplied instant c j i (below_of T c j)" "below_of T c j \<le> b"
      using links_mono [OF by_issuer(1) d(3)] by auto
    have "dominated T fin i (below_of T c j)" using e l(1) by (simp add: expanded_def)
    then have "dominated T fin i b" using l(2) by (auto simp: dominated_def intro: le_trans)
    moreover have "i \<in> U" using by_issuer(1) assms(3) set_candidates by (auto simp: links_def)
    ultimately show False using by_issuer.IH by blast
  qed
qed

lemma dominated_update:
  assumes "dominated T seen c k" "\<not> is_some_and (seen d) (\<lambda>best. best \<le> m)"
  shows "dominated T (seen(d \<mapsto> m)) c k"
  using assms by (fastforce simp: dominated_def is_some_and_def split: option.splits)

lemma expanded_mono:
  assumes "expanded T roots pool supplied instant stack seen c k"
    and "\<And>i j. (i, j) \<in> set stack \<Longrightarrow> (\<exists>j' \<le> j. (i, j') \<in> set stack') \<or> dominated T seen' i j"
    and "\<And>i j. dominated T seen i j \<Longrightarrow> dominated T seen' i j"
  shows "expanded T roots pool supplied instant stack' seen' c k"
proof -
  have "dominated T seen' i b" if "dominated T seen' i j" "j \<le> b" for i j b
    using that by (auto simp: dominated_def intro: le_trans)
  then show ?thesis using assms unfolding expanded_def by (meson le_trans)
qed


definition encodable :: "asn1 \<Rightarrow> certificate set \<Rightarrow> bool" where
  "encodable T U \<longleftrightarrow> (\<forall>c \<in> U. cert_to_der T c \<noteq> None \<and> tbs_to_der T c \<noteq> None) \<and> inj_on (cert_to_der T) U"

lemma search_inv_pop:
  assumes "search_inv T roots pool supplied instant U ((c, k) # stack) seen" "dominated T seen c k"
  shows "search_inv T roots pool supplied instant U stack seen"
  unfolding search_inv_def
proof (intro conjI ballI allI impI)
  show "fst ` set stack \<subseteq> U" using assms(1) by (auto simp: search_inv_def)
  fix c' d j assume c': "c' \<in> U" "cert_to_der T c' = Some d" "seen d = Some j"
  then have "expanded T roots pool supplied instant ((c, k) # stack) seen c' j" using assms(1) by (auto simp: search_inv_def)
  then show "expanded T roots pool supplied instant stack seen c' j"
    by (rule expanded_mono) (use assms(2) in auto)
qed

lemma search_inv_expand:
  assumes inv: "search_inv T roots pool supplied instant U ((c, k) # stack) seen" and U: "set roots \<union> set pool \<subseteq> U" "encodable T U"
    and d: "cert_to_der T c = Some d" and tbs: "tbs_to_der T c = Some tbs" and new: "\<not> is_some_and (seen d) (\<lambda>best. best \<le> k)"
    and na: "\<not> anchored T roots supplied c"
    and acc: "acc = accepted T supplied instant c tbs (below_of T c k) (candidates T roots pool c)"
    and nself: "\<not> (\<not> supplied \<and> list_ex self_issued acc)"
  shows "search_inv T roots pool supplied instant U (rev (map (\<lambda>i. (i, below_of T c k)) acc) @ stack) (seen(d \<mapsto> k))"
    (is "search_inv _ _ _ _ _ _ ?stack ?seen")
  unfolding search_inv_def
proof (intro conjI ballI allI impI)
  have cU: "c \<in> U" using inv by (auto simp: search_inv_def)
  show "fst ` set ?stack \<subseteq> U"
    using inv U(1) set_candidates [of T roots pool c] by (auto simp: search_inv_def acc accepted_def)
  fix c' d' j assume c': "c' \<in> U" "cert_to_der T c' = Some d'" "?seen d' = Some j"
  show "expanded T roots pool supplied instant ?stack ?seen c' j"
  proof (cases "d' = d")
    case True
    then have "c' = c" using U(2) c'(1,2) cU d by (auto simp: encodable_def inj_on_def)
    moreover have "j = k" using True c'(3) by simp
    moreover have "(\<exists>j \<le> b. (i, j) \<in> set ?stack) \<and> (\<not> supplied \<longrightarrow> \<not> self_issued i)"
      if "links T roots pool supplied instant c k i b" for i b
    proof -
      have "i \<in> set acc" "b = below_of T c k" using that by (auto simp: links_iff_accepted [OF tbs] acc)
      then show ?thesis using nself by (auto simp: list_ex_iff)
    qed
    ultimately show ?thesis using na by (auto simp: expanded_def)
  next
    case False
    then have "expanded T roots pool supplied instant ((c, k) # stack) seen c' j"
      using c' inv by (auto simp: search_inv_def)
    moreover have "dominated T ?seen c k" using d by (auto simp: dominated_def)
    ultimately show ?thesis
      by (elim expanded_mono) (auto intro: dominated_update [where seen = seen and d = d and m = k, OF _ new])
  qed
qed

lemma walk_loop_complete:
  assumes U: "set roots \<union> set pool \<subseteq> U" "encodable T U"
  shows "\<not> walk_loop T roots pool supplied instant stack seen \<Longrightarrow> search_inv T roots pool supplied instant U stack seen \<Longrightarrow>
     \<exists>fin. search_inv T roots pool supplied instant U [] fin \<and> (\<forall>(c, k) \<in> set stack. dominated T fin c k) \<and>
       (\<forall>c k. dominated T seen c k \<longrightarrow> dominated T fin c k)"
  using U
proof (induction T roots pool supplied instant stack seen rule: walk_loop.induct)
  case (2 T roots pool supplied instant current ca_below stack seen)
  let ?k = "below_of T current ca_below"
  have cU: "current \<in> U" using "2.prems"(2) by (auto simp: search_inv_def)
  obtain d tbs where d: "cert_to_der T current = Some d" and tbs: "tbs_to_der T current = Some tbs"
    using cU "2.prems"(4) by (auto simp: encodable_def)
  have na: "\<not> (supplied \<and> d \<in> root_ders T roots)" using "2.prems"(1) d by (auto simp: walk_loop.simps(2))
  show ?case
  proof (cases "is_some_and (seen d) (\<lambda>best. best \<le> ca_below)")
    case True
    then have dom: "dominated T seen current ca_below" using d by (auto simp: dominated_def is_some_and_iff)
    have "\<not> walk_loop T roots pool supplied instant stack seen"
      using "2.prems"(1) d na True by (auto simp: walk_loop.simps(2))
    from "2.IH"(2) [OF d na True this search_inv_pop [OF "2.prems"(2) dom] "2.prems"(3,4)] dom show ?thesis by auto
  next
    case False
    let ?acc = "accepted T supplied instant current tbs ?k (candidates T roots pool current)"
    let ?stack = "rev (map (\<lambda>i. (i, ?k)) ?acc) @ stack"
    have ns: "\<not> (\<not> supplied \<and> list_ex self_issued ?acc)"
      using "2.prems"(1) d na False tbs by (auto simp: walk_loop.simps(2) candidate_loop_accepted)
    then have p: "candidate_loop T supplied instant current tbs ?k stack (candidates T roots pool current) = Some ?stack"
      by (simp add: candidate_loop_accepted)
    have w: "\<not> walk_loop T roots pool supplied instant ?stack (seen(d \<mapsto> ca_below))"
      using "2.prems"(1) d na False tbs p by (simp add: walk_loop.simps(2) split: if_splits)
    have "\<not> anchored T roots supplied current" using na d by (simp add: anchored_def)
    from search_inv_expand [OF "2.prems"(2-4) d tbs False this refl ns]
    obtain fin where fin: "search_inv T roots pool supplied instant U [] fin" "\<forall>(c, k) \<in> set ?stack. dominated T fin c k"
      "\<forall>c k. dominated T (seen(d \<mapsto> ca_below)) c k \<longrightarrow> dominated T fin c k"
      using "2.IH"(3) [OF d na False tbs p w _ "2.prems"(3,4)] by blast
    have "dominated T (seen(d \<mapsto> ca_below)) current ca_below" using d by (auto simp: dominated_def)
    then have "\<forall>(c, k) \<in> set ((current, ca_below) # stack). dominated T fin c k" using fin(2,3) by auto
    then show ?thesis using fin dominated_update [where seen = seen and d = d and m = ca_below, OF _ False] by blast
  qed
qed auto

lemma walk_chain_certified:
  assumes "encodable T (insert signer (set (unwrap_or [] roots) \<union> set pool))"
  shows "walk_chain T signer pool roots instant \<longleftrightarrow> certified T (unwrap_or [] roots) pool (roots \<noteq> None) instant signer 0"
proof
  assume "walk_chain T signer pool roots instant"
  then show "certified T (unwrap_or [] roots) pool (roots \<noteq> None) instant signer 0"
    using walk_loop_sound unfolding walk_chain_def by fastforce
next
  let ?U = "insert signer (set (unwrap_or [] roots) \<union> set pool)"
  assume c: "certified T (unwrap_or [] roots) pool (roots \<noteq> None) instant signer 0"
  show "walk_chain T signer pool roots instant"
  proof (rule ccontr)
    assume "\<not> walk_chain T signer pool roots instant"
    then have w: "\<not> walk_loop T (unwrap_or [] roots) pool (roots \<noteq> None) instant [(signer, 0)] Map.empty" by (simp add: walk_chain_def)
    have "search_inv T (unwrap_or [] roots) pool (roots \<noteq> None) instant ?U [(signer, 0)] Map.empty" by (simp add: search_inv_def)
    from walk_loop_complete [OF _ assms w this] obtain fin
      where "search_inv T (unwrap_or [] roots) pool (roots \<noteq> None) instant ?U [] fin" "dominated T fin signer 0" by auto
    then show False using closed_not_certified [OF c, of ?U fin] by auto
  qed
qed


section \<open>Properties\<close>


lemma verified_tst_cases:
  assumes "verified_tst T token digest chain roots = Some (t, trusted)"
  obtains sd tst_der tst si signer attrs attrs_der pool where
    "parse_token T token = Some (sd, tst_der, tst)" "imprint_alg tst = OID_SHA256" "hex (imprint_digest tst) = digest"
    "check_signer_info T sd tst_der = Some si" "find_signer_cert T sd si = Some signer" "signed_attrs si = Some attrs"
    "attrs_to_der T attrs = Some attrs_der"
    "verify_sig T (subject_public_key_info signer) (alg_oid (si_signature_algorithm si)) (alg_oid (digest_alg si))
       (si_signature si) attrs_der"
    "load_pem_chain T (as_bytes chain) = Some pool" "walk_chain T signer pool None None"
    "gen_time_in_validity t signer" "gen_time tst = t"
    "trusted = is_some_and (Option.bind roots (\<lambda>pem. load_pem_chain T (as_bytes pem)))
       (\<lambda>rs. is_timestamping_signer T signer \<and> walk_chain T signer pool (Some rs) (Some t))"
  using assms unfolding verified_tst_def Let_def
  by (auto simp: bind_eq_Some_conv split: if_splits)

lemma verified_tst_verdict:
  "map_option fst (verified_tst T token digest chain roots) = map_option fst (verified_tst T token digest chain None)"
  unfolding verified_tst_def Let_def
  by (auto simp: then_some_def intro!: option.map_cong0 split: bind_splits prod.splits)

text \<open>
  C13: what an accepted timestamp is. The token's one signer info has its message-digest attribute equal to
  the hash of the TSTInfo and its content type TSTInfo, each attribute occurring once with one value; the
  signature over the encoded attributes verifies under the certificate that the signer info names; that
  certificate has a path to a self-issued carried certificate and is valid at the reported time; and the imprint
  is SHA-256 with exactly the expected digest.
\<close>

theorem verified_tst_authentic:
  assumes "verified_tst T token digest chain roots = Some (t, trusted)"
  shows "\<exists>sd tst_der tst si signer attrs attrs_der pool v w.
    parse_token T token = Some (sd, tst_der, tst) \<and> gen_time tst = t \<and>
    imprint_alg tst = OID_SHA256 \<and> hex (imprint_digest tst) = digest \<and>
    signer_infos sd = [si] \<and> signed_attrs si = Some attrs \<and>
    filter (\<lambda>a. attr_oid a = OID_MESSAGE_DIGEST) attrs = [\<lparr>attr_oid = OID_MESSAGE_DIGEST, attr_values = [v]\<rparr>] \<and>
    any_as_octets T v = hash_bytes T (alg_oid (digest_alg si)) tst_der \<and> any_as_octets T v \<noteq> None \<and>
    filter (\<lambda>a. attr_oid a = OID_CONTENT_TYPE) attrs = [\<lparr>attr_oid = OID_CONTENT_TYPE, attr_values = [w]\<rparr>] \<and>
    any_as_oid T w = Some OID_TST_INFO \<and>
    find_signer_cert T sd si = Some signer \<and> attrs_to_der T attrs = Some attrs_der \<and>
    verify_sig T (subject_public_key_info signer) (alg_oid (si_signature_algorithm si)) (alg_oid (digest_alg si))
      (si_signature si) attrs_der \<and>
    load_pem_chain T (as_bytes chain) = Some pool \<and> certified T [] pool False None signer 0 \<and>
    not_before signer \<le> t \<and> t \<le> not_after signer"
proof -
  have attr: "filter (\<lambda>a. attr_oid a = n) attrs = [\<lparr>attr_oid = n, attr_values = [v]\<rparr>]"
    if s: "signed_attribute attrs n = Some v" for attrs :: "attribute list" and n v
  proof -
    obtain a where f: "filter (\<lambda>a. attr_oid a = n) attrs = [a]" "attr_values a = [v]"
      using s by (auto simp: signed_attribute_def split: list.splits)
    then have "a \<in> set (filter (\<lambda>a. attr_oid a = n) attrs)" by simp
    then have "attr_oid a = n" by simp
    then show ?thesis using f by simp
  qed
  obtain sd tst_der tst si signer attrs attrs_der pool where v:
    "parse_token T token = Some (sd, tst_der, tst)" "imprint_alg tst = OID_SHA256" "hex (imprint_digest tst) = digest"
    "check_signer_info T sd tst_der = Some si" "find_signer_cert T sd si = Some signer" "signed_attrs si = Some attrs"
    "attrs_to_der T attrs = Some attrs_der"
    "verify_sig T (subject_public_key_info signer) (alg_oid (si_signature_algorithm si)) (alg_oid (digest_alg si))
       (si_signature si) attrs_der"
    "load_pem_chain T (as_bytes chain) = Some pool" "walk_chain T signer pool None None"
    "gen_time_in_validity t signer" "gen_time tst = t"
    using assms by (rule verified_tst_cases)
  have "certified T [] pool False None signer 0"
    using v(10) walk_loop_sound by (fastforce simp: walk_chain_def)
  moreover obtain c m where si: "signer_infos sd = [si]" "signed_attribute attrs OID_CONTENT_TYPE = Some c"
    "any_as_oid T c = Some OID_TST_INFO" "signed_attribute attrs OID_MESSAGE_DIGEST = Some m"
    "any_as_octets T m = hash_bytes T (alg_oid (digest_alg si)) tst_der" "any_as_octets T m \<noteq> None"
    using v(4,6) by (auto simp: check_signer_info_def bind_eq_Some_conv split: list.splits if_splits)
  ultimately show ?thesis
    using v attr [OF si(2)] attr [OF si(4)] by (auto simp: gen_time_in_validity_def)
qed

text \<open>
  Relying-party roots only add trust. The accepted time does not depend on the roots the relying party
  supplies, so they cannot turn a rejected token into an accepted one or the reverse; a token is reported trusted
  only when the roots parse, the signer is a time-stamping certificate, and it has a path to one of those roots at
  the token's own time.
\<close>

theorem verified_tst_roots:
  "map_option fst (verified_tst T token digest chain roots) = map_option fst (verified_tst T token digest chain None) \<and>
   (\<forall>t. verified_tst T token digest chain roots = Some (t, True) \<longrightarrow>
      (\<exists>pem rs pool sd tst_der tst si signer. roots = Some pem \<and> load_pem_chain T (as_bytes pem) = Some rs \<and>
         load_pem_chain T (as_bytes chain) = Some pool \<and> parse_token T token = Some (sd, tst_der, tst) \<and>
         check_signer_info T sd tst_der = Some si \<and> find_signer_cert T sd si = Some signer \<and>
         is_timestamping_signer T signer \<and> certified T rs pool True (Some t) signer 0))"
proof (intro conjI allI impI)
  show "map_option fst (verified_tst T token digest chain roots) = map_option fst (verified_tst T token digest chain None)"
    by (rule verified_tst_verdict)
next
  fix t assume "verified_tst T token digest chain roots = Some (t, True)"
  then obtain sd tst_der tst si signer pool where s: "parse_token T token = Some (sd, tst_der, tst)"
    "check_signer_info T sd tst_der = Some si" "find_signer_cert T sd si = Some signer" "load_pem_chain T (as_bytes chain) = Some pool"
    and tr: "True = is_some_and (Option.bind roots (\<lambda>pem. load_pem_chain T (as_bytes pem)))
       (\<lambda>rs. is_timestamping_signer T signer \<and> walk_chain T signer pool (Some rs) (Some t))"
    by (rule verified_tst_cases) blast
  then obtain pem rs where r: "roots = Some pem" "load_pem_chain T (as_bytes pem) = Some rs"
    and w: "is_timestamping_signer T signer" "walk_chain T signer pool (Some rs) (Some t)"
    by (auto simp: is_some_and_iff bind_eq_Some_conv)
  have "certified T rs pool True (Some t) signer 0"
    using w(2) walk_loop_sound by (fastforce simp: walk_chain_def)
  then show "\<exists>pem rs pool sd tst_der tst si signer. roots = Some pem \<and> load_pem_chain T (as_bytes pem) = Some rs \<and>
         load_pem_chain T (as_bytes chain) = Some pool \<and> parse_token T token = Some (sd, tst_der, tst) \<and>
         check_signer_info T sd tst_der = Some si \<and> find_signer_cert T sd si = Some signer \<and>
         is_timestamping_signer T signer \<and> certified T rs pool True (Some t) signer 0"
    using s r w by blast
qed


text \<open>A signer and a self-issued root, and a token signed by the signer; every key verifies every signature.\<close>

definition toy_cert :: "u8 \<Rightarrow> u8 \<Rightarrow> u8 \<Rightarrow> certificate" where
  "toy_cert serial subject issuer =
     \<lparr>cert_signature_algorithm = \<lparr>alg_oid = OID_SHA256_RSA, parameters = None\<rparr>, cert_signature = Some [],
      tbs_signature = \<lparr>alg_oid = OID_SHA256_RSA, parameters = None\<rparr>, serial_number = [serial], cert_issuer = [issuer], cert_subject = [subject],
      subject_public_key_info = \<lparr>algorithm = \<lparr>alg_oid = OID_RSA_ENCRYPTION, parameters = None\<rparr>, subject_public_key = Some []\<rparr>,
      extensions = None, not_before = 0, not_after = 9\<rparr>"

definition toy_attrs :: "attribute list" where
  "toy_attrs = [\<lparr>attr_oid = OID_CONTENT_TYPE, attr_values = [\<lparr>tag = OtherTag 6, any_bytes = []\<rparr>]\<rparr>,
     \<lparr>attr_oid = OID_MESSAGE_DIGEST, attr_values = [\<lparr>tag = OtherTag 4, any_bytes = [9]\<rparr>]\<rparr>]"

definition toy_signed_data :: TimestampSignedData where
  "toy_signed_data = \<lparr>version = V3, digest_algorithms = [], econtent_type = OID_TST_INFO,
     econtent = Some \<lparr>tag = OtherTag 4, any_bytes = [4]\<rparr>, certificates = Some [CertificateChoice (toy_cert 1 3 7)], crls = None,
     signer_infos = [\<lparr>si_version = V1, sid = IssuerAndSerialNumber [7] [1], digest_alg = \<lparr>alg_oid = OID_SHA256, parameters = None\<rparr>,
       signed_attrs = Some toy_attrs, si_signature_algorithm = \<lparr>alg_oid = OID_SHA256_RSA, parameters = None\<rparr>, si_signature = []\<rparr>]\<rparr>"

definition toy_asn1 :: asn1 where
  "toy_asn1 = \<lparr>Sha256_digest = \<lambda>_. [9], Sha384_digest = \<lambda>_. [9], Sha512_digest = \<lambda>_. [9],
     p256_key_from_sec1 = \<lambda>_. True, p256_sig_from_der = \<lambda>_. True, p256_verify_prehash = \<lambda>_ _ _. True,
     p384_key_from_sec1 = \<lambda>_. True, p384_sig_from_der = \<lambda>_. True, p384_verify_prehash = \<lambda>_ _ _. True,
     rsa_from_pkcs1_der = \<lambda>_. True, rsa_pkcs1v15_verify = \<lambda>_ _ _ _. True, SliceReader_new = Some,
     read_any = \<lambda>r. Some (\<lparr>tag = Sequence, any_bytes = r\<rparr>, []), read_oid = \<lambda>r. Some ([], r), read_u8 = \<lambda>r. Some (1, r),
     read_alg_id = \<lambda>r. Some (\<lparr>alg_oid = OID_SHA256, parameters = None\<rparr>, r), read_octets = \<lambda>r. Some ([0xab], r),
     read_int = \<lambda>r. Some ([], r), read_time = \<lambda>r. Some (5, r), any_from_der = \<lambda>b. Some \<lparr>tag = Sequence, any_bytes = b\<rparr>,
     any_to_der = \<lambda>v. Some (any_bytes v), any_as_oid = \<lambda>v. Some OID_TST_INFO, any_as_octets = \<lambda>v. Some (any_bytes v),
     certificate_list_from_der = \<lambda>_. True, content_info_from_der = \<lambda>_. Some (OID_SIGNED_DATA, \<lparr>tag = Sequence, any_bytes = []\<rparr>),
     signed_data_decode = \<lambda>_. Some toy_signed_data, attrs_to_der = \<lambda>_. Some [], name_to_der = Some,
     cert_to_der = \<lambda>c. Some (serial_number c), tbs_to_der = \<lambda>_. Some [],
     get_basic_constraints = \<lambda>c. Some (Some (True, cert_subject c = [7], None)), get_key_cert_sign = \<lambda>c. Some (Some (True, True)),
     get_extended_key_usage = \<lambda>_. Some (Some (True, [OID_ID_KP_TIME_STAMPING])), load_pem_chain = \<lambda>_. Some [toy_cert 2 7 7],
     date_time_to_string = \<lambda>_. ''1970-01-01T00:00:05Z''\<rparr>"

lemma toy_token: "verified_tst toy_asn1 [] ''ab'' ''pem'' (Some ''root'') = Some (5, True)"
  by code_simp


theorem verified_tst_authentic_witness:
  "\<exists>signer pool. load_pem_chain toy_asn1 (as_bytes ''pem'') = Some pool \<and> certified toy_asn1 [] pool False None signer 0 \<and>
     not_before signer \<le> 5 \<and> 5 \<le> not_after signer"
  using verified_tst_authentic [OF toy_token] by blast

theorem verified_tst_roots_witness:
  "\<exists>rs pool signer. load_pem_chain toy_asn1 (as_bytes ''root'') = Some rs \<and> certified toy_asn1 rs pool True (Some 5) signer 0"
  using verified_tst_roots [of toy_asn1 "[]" "''ab''" "''pem''" "Some ''root''"] toy_token by blast

end
