(* ===== verification/Bundle.thy ===== *)
theory Bundle
  imports Entries Tsa
begin

text \<open>
  Whole bundles (\<open>lib.rs\<close>): timestamp and anchor records, the composition of the component checks in
  \<open>check_checkpoints_and_entries\<close>, the verdict and its facts, the acknowledgement coverage rule and the browser
  result. \<open>&mut BundleFacts\<close> is passed and returned. A \<open>BTreeMap\<close> is a key-sorted association list. Results that
  the code renders as JSON text are the JSON values before rendering.
\<close>

section \<open>Facts\<close>

record BundleFacts =
  bf_ok :: bool
  bf_complete :: "bool option"
  bf_recorder_attested :: "u64 list"
  bf_trusted_tst_checkpoints :: "string list"
  bf_chain_sizes :: "(string \<times> u64) list"
  bf_continuity_gaps :: nat
  bf_continuity_present :: bool
  bf_continuity_ok :: bool
  bf_origin_attested :: "bool option"

definition BundleFacts_default :: BundleFacts where
  "BundleFacts_default =
     \<lparr>bf_ok = False, bf_complete = None, bf_recorder_attested = [], bf_trusted_tst_checkpoints = [], bf_chain_sizes = [],
      bf_continuity_gaps = 0, bf_continuity_present = False, bf_continuity_ok = False, bf_origin_attested = None\<rparr>"

definition MAX_ATTESTATION_RECORDS :: nat where
  "MAX_ATTESTATION_RECORDS = 256"

definition SPARSE_CHECKPOINT_CHAIN_PROFILE :: string where
  "SPARSE_CHECKPOINT_CHAIN_PROFILE = ''evd/checkpoint-chain/sparse-proof-v1''"

text \<open>\<open>BTreeMap::insert\<close>, and \<open>collect\<close> into a \<open>BTreeMap\<close>: a later pair replaces an earlier one.\<close>

definition btree_put :: "'k :: linorder \<Rightarrow> 'v \<Rightarrow> ('k \<times> 'v) list \<Rightarrow> ('k \<times> 'v) list" where
  "btree_put k v m = insort_key fst (k, v) (filter (\<lambda>(k', _). k' \<noteq> k) m)"

definition btree_collect :: "('k :: linorder \<times> 'v) list \<Rightarrow> ('k \<times> 'v) list" where
  "btree_collect ps = foldl (\<lambda>m (k, v). btree_put k v m) [] ps"

section \<open>Attestation records\<close>

type_synonym CheckpointFacts = "(string \<times> string \<times> u64) list"

definition record_not_before_checkpoint :: "json \<Rightarrow> string \<Rightarrow> string \<Rightarrow> bool" where
  "record_not_before_checkpoint rec time_field signed_ts =
     (case (Option.bind (get_str rec time_field) utc_epoch_micros, utc_epoch_micros signed_ts) of
        (Some claimed, Some signed_at) \<Rightarrow> claimed \<ge> signed_at
      | _ \<Rightarrow> False)"

definition bound_record_ok :: "json \<Rightarrow> string list \<Rightarrow> string \<Rightarrow> CheckpointFacts \<Rightarrow> bool" where
  "bound_record_ok rec required time_field checkpoints =
     (case as_object rec of
        None \<Rightarrow> False
      | Some ob \<Rightarrow>
          if list_ex (\<lambda>f. \<not> contains_key ob f) required then False
          else (let bh = unwrap_or [] (get_str rec ''checkpoint_body_hash'') in
                case map_of checkpoints bh of
                  None \<Rightarrow> False
                | Some (signed_ts, _) \<Rightarrow> record_not_before_checkpoint rec time_field signed_ts))"

definition check_bound_records :: "json \<Rightarrow> string list \<Rightarrow> string \<Rightarrow> CheckpointFacts \<Rightarrow> bool" where
  "check_bound_records records required time_field checkpoints =
     (case as_array records of
        None \<Rightarrow> False
      | Some arr \<Rightarrow>
          (let digests = set (List.map_filter (\<lambda>r. get_str r ''checkpoint_body_hash'') arr) in
           if length arr > MAX_ATTESTATION_RECORDS \<or> card digests \<noteq> length arr then False
           else list_all (\<lambda>rec. bound_record_ok rec required time_field checkpoints) arr))"

definition TST_MEMBERS :: "string list" where
  "TST_MEMBERS = [''checkpoint_body_hash'', ''token_der_b64'', ''tsa_url'', ''gen_time'', ''cert_chain_pem'', ''qualified'']"

definition ANCHOR_MEMBERS :: "string list" where
  "ANCHOR_MEMBERS = [''checkpoint_body_hash'', ''chain_id'', ''tx_hash'', ''block_number'', ''block_ts'', ''contract'']"

text \<open>The loop over timestamp records: whether it succeeds, and the hashes it pushed.\<close>

fun tst_loop :: "crates \<Rightarrow> asn1 \<Rightarrow> string option \<Rightarrow> string list \<Rightarrow> json list \<Rightarrow> bool \<times> string list" where
  "tst_loop C T roots acc [] = (True, acc)"
| "tst_loop C T roots acc (rec # recs) =
     (case (get_str rec ''checkpoint_body_hash'', get_str rec ''token_der_b64'', get_str rec ''gen_time'', get_str rec ''cert_chain_pem'') of
        (Some body_hash, Some token_b64, Some displayed, Some chain) \<Rightarrow>
          (case B64_decode C token_b64 of None \<Rightarrow> (False, acc) | Some token \<Rightarrow>
          (case verified_tst T token body_hash chain roots of None \<Rightarrow> (False, acc) | Some (actual, trusted) \<Rightarrow>
             if date_time_to_string T actual \<noteq> displayed then (False, acc)
             else tst_loop C T roots (if trusted then acc @ [body_hash] else acc) recs))
      | _ \<Rightarrow> (False, acc))"

definition check_tst_records :: "crates \<Rightarrow> asn1 \<Rightarrow> json \<Rightarrow> CheckpointFacts \<Rightarrow> string option \<Rightarrow> string list \<Rightarrow> bool \<times> string list" where
  "check_tst_records C T records checkpoints roots acc =
     (if \<not> check_bound_records records TST_MEMBERS ''gen_time'' checkpoints then (False, acc)
      else (case as_array records of
              None \<Rightarrow> (False, acc)
            | Some items \<Rightarrow> tst_loop C T roots acc items))"

definition check_attestation_records ::
  "crates \<Rightarrow> asn1 \<Rightarrow> json \<Rightarrow> CheckpointFacts \<Rightarrow> json option \<Rightarrow> BundleFacts \<Rightarrow> bool \<times> BundleFacts" where
  "check_attestation_records C T bundle checkpoints trust facts =
     (let (tst_ok, facts) =
        (case ofilter (\<lambda>v. v \<noteq> JNull) (get bundle ''tst_records'') of
           None \<Rightarrow> (True, facts)
         | Some tsts \<Rightarrow>
             (let (r, acc) = check_tst_records C T tsts checkpoints (tsa_roots_pem trust) (bf_trusted_tst_checkpoints facts) in
              (r, facts\<lparr>bf_trusted_tst_checkpoints := acc\<rparr>))) in
      if \<not> tst_ok then (False, facts)
      else (case ofilter (\<lambda>v. v \<noteq> JNull) (get bundle ''anchor_records'') of
              None \<Rightarrow> (True, facts)
            | Some anchors \<Rightarrow> (check_bound_records anchors ANCHOR_MEMBERS ''block_ts'' checkpoints, facts)))"

section \<open>Composition\<close>

definition checkpoint_facts :: "crates \<Rightarrow> json list \<Rightarrow> CheckpointFacts option" where
  "checkpoint_facts C chain =
     map_option btree_collect
       (collect_opt (\<lambda>checkpoint. do {
          body \<leftarrow> get checkpoint ''body'';
          h \<leftarrow> checkpoint_body_hash C checkpoint;
          ts \<leftarrow> get_str body ''ts'';
          n \<leftarrow> get_u64 body ''tree_size'';
          Some (h, ts, n)
        }) chain)"

definition check_entry_set ::
  "crates \<Rightarrow> json \<Rightarrow> json list \<Rightarrow> json \<Rightarrow> json list \<Rightarrow> KeyLog \<Rightarrow> json option \<Rightarrow> BundleFacts \<Rightarrow> bool \<times> BundleFacts" where
  "check_entry_set C bundle entries target chain kl trust facts =
     (let complete = check_export_manifest C bundle entries target kl;
          (r, att) = check_entries C entries target chain kl trust (bf_recorder_attested facts) in
      (r \<and> complete \<noteq> Some False \<and> check_seq_uniqueness C entries,
       facts\<lparr>bf_complete := complete, bf_recorder_attested := att\<rparr>))"

definition chain_profile :: "json \<Rightarrow> bool option" where
  "chain_profile bundle =
     (case get bundle ''checkpoint_chain_profile'' of
        None \<Rightarrow> Some False
      | Some v \<Rightarrow> (if as_str v = Some SPARSE_CHECKPOINT_CHAIN_PROFILE then Some True else None))"

definition check_checkpoints_and_entries ::
  "crates \<Rightarrow> asn1 \<Rightarrow> json \<Rightarrow> json list \<Rightarrow> KeyLog \<Rightarrow> json option \<Rightarrow> BundleFacts \<Rightarrow> bool \<times> BundleFacts" where
  "check_checkpoints_and_entries C T bundle entries kl trust facts =
     (case get bundle ''target_checkpoint'' of None \<Rightarrow> (False, facts) | Some target \<Rightarrow>
     (case get_array bundle ''checkpoint_chain'' of None \<Rightarrow> (False, facts) | Some chain_entries \<Rightarrow>
     (case collect_opt (\<lambda>entry. get entry ''checkpoint'') chain_entries of None \<Rightarrow> (False, facts) | Some chain \<Rightarrow>
        if chain = [] then (False, facts)
        else
          (let (r, facts) = check_entry_set C bundle entries target chain kl trust facts in
           if \<not> r then (False, facts)
           else if \<not> check_target_checkpoint C target kl then (False, facts)
           else
             (case chain_profile bundle of None \<Rightarrow> (False, facts) | Some sparse \<Rightarrow>
                if \<not> check_checkpoint_chain C chain chain_entries kl sparse then (False, facts)
                else if \<not> check_bundle_origin bundle target chain then (False, facts)
                else if \<not> chain_head_matches C chain target then (False, facts)
                else if \<not> check_lineage C entries then (False, facts)
                else
                  (case checkpoint_facts C chain of None \<Rightarrow> (False, facts) | Some checkpoints \<Rightarrow>
                     (let (r, facts) = check_attestation_records C T bundle checkpoints trust facts in
                      if \<not> r then (False, facts)
                      else
                        (let (present, cont_ok, gaps) = assess_continuity C bundle chain kl in
                         (True, facts\<lparr>bf_chain_sizes := map (\<lambda>(h, _, n). (h, n)) checkpoints, bf_continuity_present := present,
                            bf_continuity_ok := cont_ok, bf_continuity_gaps := gaps\<rparr>)))))))))"

definition origin_attested :: "crates \<Rightarrow> json \<Rightarrow> KeyLog \<Rightarrow> json option \<Rightarrow> bool option" where
  "origin_attested C bundle kl trust =
     map_option (\<lambda>expected.
         let kid = unwrap_or [] (get_str (index bundle ''target_checkpoint'') ''kid'') in
         is_some_and (kl_keys kl kid) (\<lambda>key. key = expected))
       (key_for C trust ''log_keys'' (get_str bundle ''origin''))"

definition verify_bundle_facts :: "crates \<Rightarrow> asn1 \<Rightarrow> json \<Rightarrow> json option \<Rightarrow> BundleFacts" where
  "verify_bundle_facts C T bundle trust =
     (let facts = BundleFacts_default in
      if get_str bundle ''schema'' \<noteq> Some ''evd/bundle/v1'' then facts
      else if \<not> within_caps C bundle then facts
      else
        (let entries = unwrap_or [] (get_array bundle ''entries'') in
         if entries = [] then facts
         else if list_ex (\<lambda>e. let env = index e ''envelope'' in
                is_some_and (body_of C env) (\<lambda>body. forbidden_managed_edge_cosign body env)) entries then facts
         else
           (let kl = replay_key_log C entries in
            if \<not> kl_ok kl then facts
            else if \<not> check_jwks_match_log C bundle kl then facts
            else
              (let (r, facts) = check_checkpoints_and_entries C T bundle entries kl trust facts; facts = facts\<lparr>bf_ok := r\<rparr> in
               if r then facts\<lparr>bf_origin_attested := origin_attested C bundle kl trust\<rparr>
               else facts\<lparr>bf_recorder_attested := [], bf_trusted_tst_checkpoints := [], bf_chain_sizes := []\<rparr>))))"

definition json_u64 :: "u64 \<Rightarrow> json" where
  "json_u64 n = JNumber (PosInt n)"

definition verify_bundle :: "crates \<Rightarrow> asn1 \<Rightarrow> json \<Rightarrow> json option \<Rightarrow> json" where
  "verify_bundle C T bundle trust =
     (let facts = verify_bundle_facts C T bundle trust in
      JObject [(''chain_sizes'', JObject (map (\<lambda>(h, n). (h, json_u64 n)) (bf_chain_sizes facts))),
        (''continuity_gaps'', json_u64 (of_nat (bf_continuity_gaps facts))), (''continuity_ok'', JBool (bf_continuity_ok facts)),
        (''continuity_present'', JBool (bf_continuity_present facts)), (''ok'', JBool (bf_ok facts)),
        (''recorder_attested'', JArray (map json_u64 (bf_recorder_attested facts))),
        (''trusted_tst_checkpoints'', JArray (map JString (bf_trusted_tst_checkpoints facts)))])"

definition verify_bundle_report :: "crates \<Rightarrow> asn1 \<Rightarrow> json \<Rightarrow> json option \<Rightarrow> bool \<times> bool option \<times> bool option" where
  "verify_bundle_report C T bundle trust =
     (let facts = verify_bundle_facts C T bundle trust in (bf_ok facts, bf_complete facts, bf_origin_attested facts))"

section \<open>Acknowledgements and the browser result\<close>

definition acknowledgement_coverage :: "json \<Rightarrow> json \<Rightarrow> BundleFacts \<Rightarrow> string option" where
  "acknowledgement_coverage ack bundle facts =
     (if \<not> value_eq (index ack ''origin'') (index bundle ''origin'') then Some ''other-origin''
      else
        (case as_str (index ack ''from_hash'') of None \<Rightarrow> None | Some from_hash \<Rightarrow>
        (case as_str (index ack ''to_hash'') of None \<Rightarrow> None | Some to_hash \<Rightarrow>
           Some (case (map_of (bf_chain_sizes facts) from_hash, map_of (bf_chain_sizes facts) to_hash) of
                   (Some start, Some finish) \<Rightarrow> if start < finish then ''covered'' else ''malformed''
                 | _ \<Rightarrow> ''conflict''))))"

definition opt_json :: "('a \<Rightarrow> json) \<Rightarrow> 'a option \<Rightarrow> json" where
  "opt_json f v = (case v of None \<Rightarrow> JNull | Some x \<Rightarrow> f x)"

definition BROWSER_BUNDLE_RESULT_SCHEMA :: string where
  "BROWSER_BUNDLE_RESULT_SCHEMA = ''evd/browser-bundle-verification-result/v3''"

definition browser_bundle_result :: "string \<Rightarrow> string option \<Rightarrow> string option \<Rightarrow> BundleFacts option \<Rightarrow> json" where
  "browser_bundle_result verdict bundle_digest err facts =
     JObject [(''bundle_digest'', opt_json JString bundle_digest),
       (''continuity'', opt_json (\<lambda>f. JObject [(''gaps'', json_u64 (of_nat (bf_continuity_gaps f))),
          (''ok'', JBool (bf_continuity_ok f)), (''present'', JBool (bf_continuity_present f))]) facts),
       (''error'', opt_json JString err), (''schema'', JString BROWSER_BUNDLE_RESULT_SCHEMA), (''verdict'', JString verdict)]"

definition browser_bundle_verification_result :: "crates \<Rightarrow> asn1 \<Rightarrow> bytes \<Rightarrow> json" where
  "browser_bundle_verification_result C T data =
     (if length data > MAX_BUNDLE_BYTES then browser_bundle_result ''NOT_VERIFIED'' None None None
      else
        (case strict_json C data of
           None \<Rightarrow> browser_bundle_result ''ERROR'' None (Some ''INVALID_JSON'') None
         | Some bundle \<Rightarrow>
             (let facts = verify_bundle_facts C T bundle None in
              if \<not> bf_ok facts then browser_bundle_result ''NOT_VERIFIED'' None None None
              else (case canonical_checked C bundle of
                      Some b \<Rightarrow> browser_bundle_result ''VERIFIED'' (Some (hex (sha256 C b))) None (Some facts)
                    | None \<Rightarrow> browser_bundle_result ''NOT_VERIFIED'' None None None))))"


section \<open>Lemmas\<close>

lemma check_checkpoints_and_entries_True:
  assumes "check_checkpoints_and_entries C T bundle entries kl trust facts = (True, facts')"
  obtains target chain_entries chain sparse checkpoints att f1 where
    "get bundle ''target_checkpoint'' = Some target" "get_array bundle ''checkpoint_chain'' = Some chain_entries"
    "collect_opt (\<lambda>entry. get entry ''checkpoint'') chain_entries = Some chain" "chain \<noteq> []"
    "check_entries C entries target chain kl trust (bf_recorder_attested facts) = (True, att)"
    "check_export_manifest C bundle entries target kl \<noteq> Some False" "check_seq_uniqueness C entries"
    "check_target_checkpoint C target kl" "chain_profile bundle = Some sparse"
    "check_checkpoint_chain C chain chain_entries kl sparse" "check_bundle_origin bundle target chain"
    "chain_head_matches C chain target" "check_lineage C entries" "checkpoint_facts C chain = Some checkpoints"
    "check_attestation_records C T bundle checkpoints trust
       (facts\<lparr>bf_complete := check_export_manifest C bundle entries target kl, bf_recorder_attested := att\<rparr>) = (True, f1)"
    "facts' = f1\<lparr>bf_chain_sizes := map (\<lambda>(h, _, n). (h, n)) checkpoints,
       bf_continuity_present := fst (assess_continuity C bundle chain kl),
       bf_continuity_ok := fst (snd (assess_continuity C bundle chain kl)),
       bf_continuity_gaps := snd (snd (assess_continuity C bundle chain kl))\<rparr>"
  using assms unfolding check_checkpoints_and_entries_def check_entry_set_def Let_def
  by (auto split: option.splits if_splits prod.splits)

lemma verify_bundle_facts_ok:
  assumes "bf_ok (verify_bundle_facts C T bundle trust)"
  obtains entries facts where "get_array bundle ''entries'' = Some entries" "entries \<noteq> []"
    "get_str bundle ''schema'' = Some ''evd/bundle/v1''" "within_caps C bundle"
    "kl_ok (replay_key_log C entries)" "check_jwks_match_log C bundle (replay_key_log C entries)"
    "check_checkpoints_and_entries C T bundle entries (replay_key_log C entries) trust BundleFacts_default = (True, facts)"
    "verify_bundle_facts C T bundle trust =
       facts\<lparr>bf_ok := True, bf_origin_attested := origin_attested C bundle (replay_key_log C entries) trust\<rparr>"
proof -
  let ?es = "unwrap_or [] (get_array bundle ''entries'')"
  let ?kl = "replay_key_log C ?es"
  obtain r facts where rf: "check_checkpoints_and_entries C T bundle ?es ?kl trust BundleFacts_default = (r, facts)" by force
  have d: "\<not> bf_ok BundleFacts_default" by (simp add: BundleFacts_default_def)
  have g: "get_str bundle ''schema'' = Some ''evd/bundle/v1''" "within_caps C bundle" "?es \<noteq> []" "kl_ok ?kl"
    "check_jwks_match_log C bundle ?kl" "r"
    using assms d rf unfolding verify_bundle_facts_def Let_def by (auto split: if_splits)
  moreover have "verify_bundle_facts C T bundle trust = facts\<lparr>bf_ok := True, bf_origin_attested := origin_attested C bundle ?kl trust\<rparr>"
    using assms d rf g unfolding verify_bundle_facts_def Let_def by (auto split: if_splits)
  moreover obtain entries where "get_array bundle ''entries'' = Some entries"
    using g(3) by (cases "get_array bundle ''entries''") auto
  ultimately show ?thesis using that rf by auto
qed

lemma check_attestation_records_frame:
  assumes "check_attestation_records C T bundle checkpoints trust facts = (r, facts')"
  shows "facts' = facts\<lparr>bf_trusted_tst_checkpoints := bf_trusted_tst_checkpoints facts'\<rparr>"
  using assms unfolding check_attestation_records_def Let_def
  by (auto split: option.splits if_splits prod.splits)

lemma map_of_insort_key:
  "k \<notin> fst ` set m \<Longrightarrow> map_of (insort_key fst (k, v) m) = (map_of m)(k \<mapsto> v)"
  by (induction m) (auto simp: fun_eq_iff)

lemma map_of_btree_put: "map_of (btree_put k v m) = (map_of m)(k \<mapsto> v)"
proof -
  have "map_of (filter (\<lambda>(k', _). k' \<noteq> k) m) x = (if x = k then None else map_of m x)" for x
    by (induction m) auto
  moreover have "k \<notin> fst ` set (filter (\<lambda>(k', _). k' \<noteq> k) m)" by auto
  ultimately show ?thesis by (simp add: btree_put_def map_of_insort_key fun_eq_iff)
qed

lemma map_of_btree_collect: "map_of (btree_collect ps) = map_of (rev ps)"
proof (induction ps rule: rev_induct)
  case (snoc p ps)
  then show ?case by (cases p) (simp add: btree_collect_def map_of_btree_put)
qed (simp add: btree_collect_def)

lemma checkpoint_facts_member:
  assumes "checkpoint_facts C chain = Some checkpoints" "map_of checkpoints h = Some (ts, n)"
  shows "\<exists>cp \<in> set chain. checkpoint_body_hash C cp = Some h \<and> body_str cp ''ts'' = Some ts \<and> body_u64 cp ''tree_size'' = Some n"
proof -
  let ?f = "\<lambda>checkpoint. do { body \<leftarrow> get checkpoint ''body''; h \<leftarrow> checkpoint_body_hash C checkpoint;
          ts \<leftarrow> get_str body ''ts''; n \<leftarrow> get_u64 body ''tree_size''; Some (h, ts, n) }"
  obtain ps where ps: "collect_opt ?f chain = Some ps" "checkpoints = btree_collect ps"
    using assms(1) by (auto simp: checkpoint_facts_def)
  then have "map_of (rev ps) h = Some (ts, n)" using assms(2) by (simp add: map_of_btree_collect)
  then have "(h, ts, n) \<in> set ps" by (auto dest: map_of_SomeD)
  moreover have "map ?f chain = map Some ps" using ps(1) by (simp only: collect_opt_Some_iff)
  ultimately have "Some (h, ts, n) \<in> set (map ?f chain)" by simp
  then have "Some (h, ts, n) \<in> ?f ` set chain" by (simp only: list.set_map)
  then obtain cp where "cp \<in> set chain" "Some (h, ts, n) = ?f cp" by (rule imageE)
  from this(1) this(2) [symmetric] show ?thesis by (auto simp: bind_eq_Some_conv body_str_def body_u64_def)
qed

text \<open>One timestamp record: the checkpoint hash it names and whether its token chains to a supplied root.\<close>

definition tst_record :: "crates \<Rightarrow> asn1 \<Rightarrow> string option \<Rightarrow> json \<Rightarrow> (string \<times> bool) option" where
  "tst_record C T roots rec =
     do {
       body_hash \<leftarrow> get_str rec ''checkpoint_body_hash'';
       token_b64 \<leftarrow> get_str rec ''token_der_b64'';
       displayed \<leftarrow> get_str rec ''gen_time'';
       chain \<leftarrow> get_str rec ''cert_chain_pem'';
       token \<leftarrow> B64_decode C token_b64;
       (actual, trusted) \<leftarrow> verified_tst T token body_hash chain roots;
       if date_time_to_string T actual \<noteq> displayed then None else Some (body_hash, trusted)
     }"

lemma tst_loop_step:
  "tst_loop C T roots acc (rec # recs) =
     (case tst_record C T roots rec of
        None \<Rightarrow> (False, acc)
      | Some (h, trusted) \<Rightarrow> tst_loop C T roots (if trusted then acc @ [h] else acc) recs)"
  by (auto simp: tst_record_def split: option.split)

declare tst_loop.simps(2) [simp del]

lemma tst_loop_iff:
  "fst (tst_loop C T roots acc items) \<longleftrightarrow> list_all (\<lambda>rec. tst_record C T roots rec \<noteq> None) items"
  by (induction items arbitrary: acc) (auto simp: tst_loop_step split: option.splits)

lemma tst_loop_trusted:
  "h \<in> set (snd (tst_loop C T roots acc items)) \<Longrightarrow> h \<in> set acc \<or> (\<exists>rec \<in> set items. tst_record C T roots rec = Some (h, True))"
proof (induction items arbitrary: acc)
  case (Cons rec recs)
  show ?case
  proof (cases "tst_record C T roots rec")
    case None
    then show ?thesis using Cons.prems by (simp add: tst_loop_step)
  next
    case (Some ht)
    obtain h' trusted where ht: "ht = (h', trusted)" by (cases ht)
    have "h \<in> set (snd (tst_loop C T roots (if trusted then acc @ [h'] else acc) recs))"
      using Cons.prems Some ht by (simp add: tst_loop_step)
    from Cons.IH [OF this] show ?thesis using Some ht by (auto split: if_splits)
  qed
qed simp

lemma tst_record_roots: "tst_record C T roots rec \<noteq> None \<longleftrightarrow> tst_record C T None rec \<noteq> None"
proof -
  have v: "\<exists>b'. verified_tst T token h chain rs' = Some (t, b')" if "verified_tst T token h chain rs = Some (t, b)"
    for token h chain t b rs rs'
  proof -
    have "map_option fst (verified_tst T token h chain rs') = Some t"
      using verified_tst_verdict [of T token h chain rs] verified_tst_verdict [of T token h chain rs'] that by simp
    then show ?thesis by auto
  qed
  have d: "tst_record C T rs' rec \<noteq> None" if "tst_record C T rs rec \<noteq> None" for rs rs'
    using that v [of _ _ _ rs _ _ rs'] by (fastforce simp: tst_record_def bind_eq_Some_conv split: if_splits)
  show ?thesis using d [of roots None] d [of None roots] by blast
qed


text \<open>The facts that the relying party's trust document cannot influence.\<close>

definition untrusted :: "BundleFacts \<Rightarrow> BundleFacts" where
  "untrusted facts = facts\<lparr>bf_recorder_attested := [], bf_trusted_tst_checkpoints := [], bf_origin_attested := None\<rparr>"

lemma entries_loop_verdict:
  "fst (entries_loop C kl n rt covers tenant trust acc es) \<longleftrightarrow> list_all (\<lambda>e. check_entry C e kl n rt covers tenant) es"
  by (induction es arbitrary: acc) (auto dest: check_entry_leaf(1))

lemma check_entries_verdict:
  "fst (check_entries C entries target chain kl trust acc) = fst (check_entries C entries target chain kl trust' acc')"
  by (simp add: check_entries_def Let_def entries_loop_verdict split: option.split)

lemma check_entry_set_untrusted:
  "map_prod id untrusted (check_entry_set C bundle entries target chain kl trust facts)
     = map_prod id untrusted (check_entry_set C bundle entries target chain kl trust' facts)"
  using check_entries_verdict [of C entries target chain kl trust "bf_recorder_attested facts" trust' "bf_recorder_attested facts"]
  by (auto simp: check_entry_set_def Let_def untrusted_def split: prod.splits)

lemma check_attestation_records_untrusted:
  assumes "untrusted facts = untrusted facts'"
  shows "map_prod id untrusted (check_attestation_records C T bundle checkpoints trust facts)
     = map_prod id untrusted (check_attestation_records C T bundle checkpoints None facts')"
proof -
  have r: "fst (check_tst_records C T tsts checkpoints roots acc) = fst (check_tst_records C T tsts checkpoints None acc')" for tsts roots acc acc'
    using tst_record_roots [of C T roots]
    by (simp add: check_tst_records_def tst_loop_iff split: option.split)
  have none: "tsa_roots_pem None = None" by (simp add: tsa_roots_pem_def)
  have u: "untrusted (f\<lparr>bf_trusted_tst_checkpoints := a\<rparr>) = untrusted f" for f a by (simp add: untrusted_def)
  show ?thesis
  proof (cases "ofilter (\<lambda>v. v \<noteq> JNull) (get bundle ''tst_records'')")
    case None
    then show ?thesis using assms by (auto simp: check_attestation_records_def split: option.splits)
  next
    case (Some tsts)
    show ?thesis
      using assms r [of tsts "tsa_roots_pem trust" "bf_trusted_tst_checkpoints facts" "bf_trusted_tst_checkpoints facts'"]
      by (auto simp: check_attestation_records_def Some none u Let_def split: option.splits prod.splits)
  qed
qed

lemma map_prod_eqD: "map_prod id f p = map_prod id f q \<Longrightarrow> fst p = fst q \<and> f (snd p) = f (snd q)"
  by (cases p; cases q) auto

lemma check_checkpoints_and_entries_untrusted:
  "map_prod id untrusted (check_checkpoints_and_entries C T bundle entries kl trust facts)
     = map_prod id untrusted (check_checkpoints_and_entries C T bundle entries kl None facts)"
proof (cases "\<exists>target chain_entries chain. get bundle ''target_checkpoint'' = Some target \<and> get_array bundle ''checkpoint_chain'' = Some chain_entries
    \<and> collect_opt (\<lambda>entry. get entry ''checkpoint'') chain_entries = Some chain \<and> chain \<noteq> []")
  case True
  then obtain target chain_entries chain where p: "get bundle ''target_checkpoint'' = Some target"
    "get_array bundle ''checkpoint_chain'' = Some chain_entries"
    "collect_opt (\<lambda>entry. get entry ''checkpoint'') chain_entries = Some chain" "chain \<noteq> []" by blast
  obtain r f where rf: "check_entry_set C bundle entries target chain kl trust facts = (r, f)" by force
  obtain r' f' where rf': "check_entry_set C bundle entries target chain kl None facts = (r', f')" by force
  have e: "r' = r" "untrusted f' = untrusted f"
    using map_prod_eqD [OF check_entry_set_untrusted [of C "bundle" entries target chain kl trust facts None]] by (simp_all add: rf rf')
  show ?thesis
  proof (cases "checkpoint_facts C chain")
    case None
    then show ?thesis using e by (auto simp: check_checkpoints_and_entries_def p rf rf' split: option.splits)
  next
    case (Some checkpoints)
    obtain q g where qg: "check_attestation_records C T bundle checkpoints trust f = (q, g)" by force
    obtain q' g' where qg': "check_attestation_records C T bundle checkpoints None f' = (q', g')" by force
    have a: "q' = q" "untrusted g' = untrusted g"
      using map_prod_eqD [OF check_attestation_records_untrusted [OF e(2) [symmetric], of C T "bundle" checkpoints trust]] by (simp_all add: qg qg')
    have g: "untrusted (g'\<lparr>bf_chain_sizes := s, bf_continuity_present := b, bf_continuity_ok := c, bf_continuity_gaps := n\<rparr>)
        = untrusted (g\<lparr>bf_chain_sizes := s, bf_continuity_present := b, bf_continuity_ok := c, bf_continuity_gaps := n\<rparr>)" for s b c n
      using a(2) by (cases g; cases g') (simp add: untrusted_def)
    show ?thesis using e a g
      by (auto simp: check_checkpoints_and_entries_def p rf rf' Some qg qg' split: option.splits prod.splits)
  qed
next
  case False
  then show ?thesis by (auto simp: check_checkpoints_and_entries_def split: option.splits)
qed


lemma check_attestation_records_origin:
  "bf_origin_attested (snd (check_attestation_records C T bundle checkpoints trust facts)) = bf_origin_attested facts"
  by (auto simp: check_attestation_records_def Let_def split: option.split prod.split)

lemma check_checkpoints_and_entries_origin:
  "bf_origin_attested (snd (check_checkpoints_and_entries C T bundle entries kl trust facts)) = bf_origin_attested facts"
proof -
  have e: "bf_origin_attested f = bf_origin_attested facts"
    if "check_entry_set C bundle entries target chain kl trust facts = (r, f)" for target chain r f
    using that by (auto simp: check_entry_set_def Let_def split: prod.splits)
  have a: "bf_origin_attested g = bf_origin_attested f"
    if "check_attestation_records C T bundle checkpoints trust f = (r, g)" for checkpoints f r g
    using check_attestation_records_origin [of C T "bundle" checkpoints trust f] that by simp
  show ?thesis
    unfolding check_checkpoints_and_entries_def Let_def
    by (auto split: option.split prod.split dest!: e a)
qed

lemma check_export_manifest_None:
  "check_export_manifest C bundle entries target kl = None \<longleftrightarrow> get bundle ''export_manifest'' \<in> {None, Some JNull}"
  by (cases "get bundle ''export_manifest''") (simp_all add: check_export_manifest_def)

section \<open>Properties\<close>




text \<open>
  C11: trust awards, it does not decide. The verdict, the completeness answer, the checkpoint sizes and the
  continuity facts are the same whatever trust document the relying party supplies, so it can neither turn an
  invalid bundle into a valid one nor the reverse; only the recorder, timestamp and origin attestations depend on it.
\<close>

theorem trust_cannot_change_verdict:
  "untrusted (verify_bundle_facts C T bundle trust) = untrusted (verify_bundle_facts C T bundle None)"
proof -
  let ?es = "unwrap_or [] (get_array bundle ''entries'')"
  let ?c = "check_checkpoints_and_entries C T bundle ?es (replay_key_log C ?es)"
  obtain r f where rf: "?c trust BundleFacts_default = (r, f)" by force
  obtain r' f' where rf': "?c None BundleFacts_default = (r', f')" by force
  have e: "r' = r" "untrusted f' = untrusted f"
    using map_prod_eqD [OF check_checkpoints_and_entries_untrusted [of C T "bundle" ?es "replay_key_log C ?es" trust BundleFacts_default]]
    by (simp_all add: rf rf')
  have "untrusted (f'\<lparr>bf_ok := b, bf_origin_attested := x\<rparr>) = untrusted (f\<lparr>bf_ok := b\<rparr>)"
    "untrusted (f\<lparr>bf_ok := b, bf_origin_attested := x\<rparr>) = untrusted (f\<lparr>bf_ok := b\<rparr>)"
    "untrusted (f'\<lparr>bf_ok := b, bf_recorder_attested := [], bf_trusted_tst_checkpoints := [], bf_chain_sizes := []\<rparr>)
     = untrusted (f\<lparr>bf_ok := b, bf_recorder_attested := [], bf_trusted_tst_checkpoints := [], bf_chain_sizes := []\<rparr>)" for b x
    using e(2) by (cases f; cases f'; simp add: untrusted_def)+
  then show ?thesis using e(1) unfolding verify_bundle_facts_def Let_def rf rf' by simp
qed

text \<open>
  A rejected bundle earns nothing. When the verdict is no, there are no recorder attestations, no trusted
  timestamps, no checkpoint sizes and no origin attestation, in the facts and in the reported JSON alike.
\<close>

theorem rejected_earns_nothing:
  assumes "\<not> bf_ok (verify_bundle_facts C T bundle trust)"
  shows "let f = verify_bundle_facts C T bundle trust; v = verify_bundle C T bundle trust in
    bf_recorder_attested f = [] \<and> bf_trusted_tst_checkpoints f = [] \<and> bf_chain_sizes f = [] \<and> bf_origin_attested f = None \<and>
    get v ''ok'' = Some (JBool False) \<and> get v ''recorder_attested'' = Some (JArray []) \<and>
    get v ''trusted_tst_checkpoints'' = Some (JArray []) \<and> get v ''chain_sizes'' = Some (JObject [])"
proof -
  let ?f = "verify_bundle_facts C T bundle trust"
  let ?es = "unwrap_or [] (get_array bundle ''entries'')"
  obtain r g where rg: "check_checkpoints_and_entries C T bundle ?es (replay_key_log C ?es) trust BundleFacts_default = (r, g)" by force
  have o: "bf_origin_attested g = None"
    using check_checkpoints_and_entries_origin [of C T "bundle" ?es "replay_key_log C ?es" trust BundleFacts_default]
    unfolding rg by (simp add: BundleFacts_default_def)
  have f: "bf_recorder_attested ?f = [] \<and> bf_trusted_tst_checkpoints ?f = [] \<and> bf_chain_sizes ?f = [] \<and> bf_origin_attested ?f = None"
    using assms o unfolding verify_bundle_facts_def Let_def rg by (auto simp: BundleFacts_default_def split: if_splits)
  then show ?thesis using assms by (simp add: verify_bundle_def Let_def get_def)
qed

text \<open>
  What a trusted timestamp attests. Every checkpoint hash that a verified bundle reports as trusted is the body hash of a
  checkpoint of its chain, and the bundle carries a token for exactly that hash whose signer has a path
  to a root that the relying party supplied, whose own time is the displayed one, and that time is not
  before the time the checkpoint states.
\<close>

theorem trusted_timestamp_bound:
  assumes "bf_ok (verify_bundle_facts C T bundle trust)"
    and "h \<in> set (bf_trusted_tst_checkpoints (verify_bundle_facts C T bundle trust))"
  shows "\<exists>cp token pem t ts stated shown. checkpoint_body_hash C cp = Some h \<and>
    cp \<in> set (List.map_filter (\<lambda>entry. get entry ''checkpoint'') (unwrap_or [] (get_array bundle ''checkpoint_chain''))) \<and>
    verified_tst T token h pem (tsa_roots_pem trust) = Some (t, True) \<and>
    body_str cp ''ts'' = Some ts \<and> utc_epoch_micros ts = Some stated \<and>
    utc_epoch_micros (date_time_to_string T t) = Some shown \<and> stated \<le> shown"
proof -
  obtain entries facts where c: "check_checkpoints_and_entries C T bundle entries (replay_key_log C entries) trust BundleFacts_default = (True, facts)"
    and f: "verify_bundle_facts C T bundle trust =
       facts\<lparr>bf_ok := True, bf_origin_attested := origin_attested C bundle (replay_key_log C entries) trust\<rparr>"
    using assms(1) by (rule verify_bundle_facts_ok)
  let ?f0 = "\<lambda>target att. BundleFacts_default\<lparr>bf_complete := check_export_manifest C bundle entries target (replay_key_log C entries),
    bf_recorder_attested := att\<rparr>"
  obtain target chain_entries chain checkpoints att f1 where p: "get_array bundle ''checkpoint_chain'' = Some chain_entries"
    "collect_opt (\<lambda>entry. get entry ''checkpoint'') chain_entries = Some chain" "checkpoint_facts C chain = Some checkpoints"
    and a: "check_attestation_records C T bundle checkpoints trust (?f0 target att) = (True, f1)"
    and f1: "bf_trusted_tst_checkpoints facts = bf_trusted_tst_checkpoints f1"
    using c by (rule check_checkpoints_and_entries_True) simp
  have h: "h \<in> set (bf_trusted_tst_checkpoints f1)" using assms(2) by (simp add: f f1)
  have none: "bf_trusted_tst_checkpoints (?f0 target att) = []" by (simp add: BundleFacts_default_def)
  obtain tsts acc where tsts: "check_tst_records C T tsts checkpoints (tsa_roots_pem trust) [] = (True, acc)" "h \<in> set acc"
    using a h none by (auto simp: check_attestation_records_def Let_def split: option.splits prod.splits if_splits)
  then obtain items where b: "check_bound_records tsts TST_MEMBERS ''gen_time'' checkpoints" "as_array tsts = Some items"
    "tst_loop C T (tsa_roots_pem trust) [] items = (True, acc)"
    by (auto simp: check_tst_records_def split: if_splits option.splits)
  obtain rec where rec: "rec \<in> set items" "tst_record C T (tsa_roots_pem trust) rec = Some (h, True)"
    using tst_loop_trusted [of h C T "tsa_roots_pem trust" "[]" items] b(3) tsts(2) by auto
  obtain token pem t where r: "get_str rec ''checkpoint_body_hash'' = Some h" "get_str rec ''gen_time'' = Some (date_time_to_string T t)"
    "verified_tst T token h pem (tsa_roots_pem trust) = Some (t, True)"
    using rec(2) by (auto simp: tst_record_def bind_eq_Some_conv split: if_splits)
  have ok: "bound_record_ok rec TST_MEMBERS ''gen_time'' checkpoints"
    using b(1,2) rec(1) by (auto simp: check_bound_records_def Let_def list_all_iff split: if_splits)
  then obtain ts n where m: "map_of checkpoints h = Some (ts, n)" "record_not_before_checkpoint rec ''gen_time'' ts"
    using r(1) by (auto simp: bound_record_ok_def split: option.splits if_splits)
  obtain stated shown where "utc_epoch_micros ts = Some stated"
    "utc_epoch_micros (date_time_to_string T t) = Some shown" "stated \<le> shown"
    using m(2) r(2) by (cases "utc_epoch_micros ts"; cases "utc_epoch_micros (date_time_to_string T t)")
      (auto simp: record_not_before_checkpoint_def)
  note q = m(1) this
  obtain cp where cp: "cp \<in> set chain" "checkpoint_body_hash C cp = Some h" "body_str cp ''ts'' = Some ts"
    using checkpoint_facts_member [OF p(3) q(1)] by blast
  have "map (\<lambda>entry. get entry ''checkpoint'') chain_entries = map Some chain" using p(2) by (simp only: collect_opt_Some_iff)
  then have "Some cp \<in> set (map (\<lambda>entry. get entry ''checkpoint'') chain_entries)" using cp(1) by simp
  then have "cp \<in> set (List.map_filter (\<lambda>entry. get entry ''checkpoint'') (unwrap_or [] (get_array bundle ''checkpoint_chain'')))"
    by (auto simp: p(1) set_map_filter)
  then show ?thesis using cp r(3) q by blast
qed


text \<open>The one-receipt log as a bundle: the genesis entry, the key set, and a chain of one checkpoint.\<close>

definition toy_log_jwk :: json where
  "toy_log_jwk = JObject [(''crv'', JString ''Ed25519''), (''kid'', JString (toy_kid CHR 0x20)), (''kty'', JString ''OKP''),
     (''x'', JString (replicate 32 CHR ''a''))]"

definition toy_bundle :: "json \<Rightarrow> json" where
  "toy_bundle tsts = JObject [(''checkpoint_chain'', JArray [JObject [(''checkpoint'', toy_target)]]), (''entries'', JArray [toy_entry]),
     (''jwks'', JObject [(''keys'', JArray [toy_log_jwk])]), (''origin'', JString ''t''), (''schema'', JString ''evd/bundle/v1''),
     (''target_checkpoint'', toy_target), (''tst_records'', tsts)]"

definition toy_replayed :: KeyLog where
  "toy_replayed = toy_log None\<lparr>kl_ok := True\<rparr>"

lemma toy_bundle_fields:
  "get_array (toy_bundle tsts) ''entries'' = Some [toy_entry]" "get_str (toy_bundle tsts) ''origin'' = Some ''t''"
  "get_str (toy_bundle tsts) ''schema'' = Some ''evd/bundle/v1''" "get (toy_bundle tsts) ''target_checkpoint'' = Some toy_target"
  "get_array (toy_bundle tsts) ''checkpoint_chain'' = Some [JObject [(''checkpoint'', toy_target)]]"
  "get (toy_bundle tsts) ''checkpoint_chain_profile'' = None" "get (toy_bundle tsts) ''tst_records'' = Some tsts" "get (toy_bundle tsts) ''anchor_records'' = None"
  "get (toy_bundle tsts) ''export_manifest'' = None" "get (toy_bundle tsts) ''continuity'' = None"
  "Option.bind (get (toy_bundle tsts) ''jwks'') (\<lambda>v. get_array v ''keys'') = Some [toy_log_jwk]"
  by (simp_all add: toy_bundle_def json_access)

lemma kl_ok_irrelevant:
  "key_active (kl\<lparr>kl_ok := b\<rparr>) = key_active kl" "issuer_active (kl\<lparr>kl_ok := b\<rparr>) = issuer_active kl"
  "check_entry_sig C s m body leaf (kl\<lparr>kl_ok := b\<rparr>) = check_entry_sig C s m body leaf kl"
  "entry_recorder_attested C env (kl\<lparr>kl_ok := b\<rparr>) trust = entry_recorder_attested C env kl trust"
proof -
  show k: "key_active (kl\<lparr>kl_ok := b\<rparr>) = key_active kl" by (intro ext) (simp add: key_active_def)
  then show "issuer_active (kl\<lparr>kl_ok := b\<rparr>) = issuer_active kl" by (intro ext) (simp add: issuer_active_def)
  show "check_entry_sig C s m body leaf (kl\<lparr>kl_ok := b\<rparr>) = check_entry_sig C s m body leaf kl"
    by (simp add: check_entry_sig_def k cong: option.case_cong)
  have s: "kl_state (kl\<lparr>kl_ok := b\<rparr>) = kl_state kl" "kl_keys (kl\<lparr>kl_ok := b\<rparr>) = kl_keys kl" by simp_all
  show "entry_recorder_attested C env (kl\<lparr>kl_ok := b\<rparr>) trust = entry_recorder_attested C env kl trust"
    unfolding entry_recorder_attested_def s ..
qed

lemma check_entries_kl_ok:
  "check_entries C entries target chain (kl\<lparr>kl_ok := b\<rparr>) trust acc = check_entries C entries target chain kl trust acc"
proof -
  have "check_entry C e (kl\<lparr>kl_ok := b\<rparr>) n rt covers tenant = check_entry C e kl n rt covers tenant" for e n rt covers tenant
    unfolding check_entry_def check_entry_sigs_def kl_ok_irrelevant ..
  then have l: "entries_loop C (kl\<lparr>kl_ok := b\<rparr>) n rt covers tenant trust acc es = entries_loop C kl n rt covers tenant trust acc es"
    for n rt covers tenant acc es
    by (induction es arbitrary: acc) (simp_all add: kl_ok_irrelevant split: option.split)
  show ?thesis unfolding check_entries_def l ..
qed

lemma toy_log_jwk_key: "key_from_jwk toy_world toy_log_jwk = Some (replicate 32 0x61, toy_kid CHR 0x20)"
proof -
  have "as_bytes (replicate 32 CHR ''a'') = replicate 32 0x61" by code_simp
  moreover have "take 16 (of_bytes (toy_digest (replicate 32 0x61))) = toy_kid CHR 0x20" by code_simp
  moreover have "b64url_decode toy_world (replicate 32 CHR ''a'') = Some (as_bytes (replicate 32 CHR ''a''))" by code_simp
  ultimately show ?thesis
    by (simp add: key_from_jwk_def jwk_raw_key_def toy_log_jwk_def json_access sha256_def)
      (simp add: toy_world_def toy_crates_def toy_base_def)
qed

lemma toy_replay: "replay_key_log toy_world [toy_entry] = toy_replayed"
proof -
  let ?env = "toy_env [(toy_kid CHR 0x20, replicate 32 0x61)] toy_genesis"
  have b: "get_str toy_genesis ''agent_id'' = Some ''_system''" "get_str toy_genesis ''action_type'' = Some ''evd.key.created''"
    "get_i64 toy_genesis ''seq'' = Some 1" "get_str toy_genesis ''ts_server'' = Some ''2024-01-01T00:00:00Z''"
    by (simp_all add: toy_genesis_def toy_receipt_def json_access)
  have ctx: "get (index toy_genesis ''context'') ''role'' = None" "get_str (index toy_genesis ''context'') ''role'' = None"
    "get_str (index toy_genesis ''context'') ''effective_ts'' = Some ''2024-01-01T00:00:00Z''"
    "index (index toy_genesis ''context'') ''jwk'' = toy_log_jwk"
    by (simp_all add: toy_genesis_def toy_receipt_def toy_log_jwk_def json_access)
  have l: "get_u64 toy_entry ''leaf_index'' = Some 0" by (simp add: toy_entry_def json_access)
  have es: "collect_key_entries toy_world [toy_entry] = [(0, ?env, toy_genesis)]"
    by (simp add: collect_key_entries_def map_filter_simps toy_entry_fields toy_genesis_read is_key_body_def b starts_with_def l)
  have signed: "env_signed_by toy_world ?env (toy_kid CHR 0x20) (replicate 32 0x61)"
    unfolding toy_world_def by (rule toy_env_signed) simp
  have step: "replay_step toy_world KeyLog_default 0 (0, ?env, toy_genesis) = Some (toy_log None)"
    by (simp add: replay_step_def key_role_ok_def b ctx toy_key_facts toy_log_jwk_key apply_key_created_def signed toy_log_def toy_key_state_def)
      (simp add: KeyLog_default_def)
  show ?thesis
    by (simp add: replay_key_log_def es key_entries_well_formed_def b step toy_replayed_def)
qed

lemma toy_cp_canonical: "\<exists>canon. canonical_checked toy_base (toy_cp_body 1 [] rt) = Some canon"
proof -
  have "canonical_checked toy_base (toy_cp_body 1 [] rt) \<noteq> None"
    using jcs_write_defined [of toy_base _ JCS_MAX_DEPTH]
    by (simp add: canonical_checked_def JCS_MAX_DEPTH_def numbers_match.simps toy_cp_body_def
      number_text_def number_as_i64_def MAX_SAFE_INTEGER_def)
  then show ?thesis by auto
qed

lemma toy_bundle_caps:
  assumes "numbers_within_profile toy_world (toy_bundle tsts)"
  shows "within_caps toy_world (toy_bundle tsts)"
proof -
  have "get_array toy_entry ''inclusion_proof'' = Some []" by (simp add: toy_entry_def json_access)
  then have e: "entry_within_caps toy_entry"
    by (simp add: entry_within_caps_def toy_entry_fields toy_env_signatures MAX_SIGNATURES_PER_ENVELOPE_def)
  then show ?thesis
    using assms by (simp add: within_caps_def toy_bundle_fields MAX_ENTRIES_def MAX_CHECKPOINT_CHAIN_LEN_def)
qed

lemma toy_target_ok: "verify_checkpoint_sig toy_world toy_target (kl_keys toy_replayed)" "issuer_active toy_replayed toy_target"
proof -
  have "kl_keys toy_replayed = kl_keys (toy_log None)" by (simp add: toy_replayed_def)
  then show "verify_checkpoint_sig toy_world toy_target (kl_keys toy_replayed)"
    using toy_cp_signed [of 1 "[]" "receipt_leaf toy_base genesis_payload" "[toy_genesis]"] toy_cp_canonical
    by (simp add: toy_target_def toy_world_def)
  show "issuer_active toy_replayed toy_target"
    using toy_cp_active [of 1 "[]"] by (simp add: toy_replayed_def kl_ok_irrelevant toy_target_def)
qed

definition toy_imprint :: bytes where
  "toy_imprint = toy_digest (the (canonical_checked toy_base (toy_cp_body 1 [] (receipt_leaf toy_base genesis_payload))))"

definition toy_facts :: CheckpointFacts where
  "toy_facts = [(hex toy_imprint, ''2024-01-01T00:00:00Z'', 1)]"

lemma toy_target_facts:
  "checkpoint_body_hash toy_world toy_target = Some (hex toy_imprint)" "checkpoint_facts toy_world [toy_target] = Some toy_facts"
proof -
  show h: "checkpoint_body_hash toy_world toy_target = Some (hex toy_imprint)"
  proof -
    obtain canon where "canonical_checked toy_base (toy_cp_body 1 [] (receipt_leaf toy_base genesis_payload)) = Some canon"
      using toy_cp_canonical ..
    then show ?thesis by (simp add: checkpoint_body_hash_def toy_target_def toy_cp_fields toy_imprint_def sha256_def)
  qed
  have "get_str (toy_cp_body 1 [] rt) ''ts'' = Some ''2024-01-01T00:00:00Z''" "get_u64 (toy_cp_body 1 [] rt) ''tree_size'' = Some 1" for rt
    by (simp_all add: toy_cp_body_def json_access)
  then show "checkpoint_facts toy_world [toy_target] = Some toy_facts"
    using h by (simp add: checkpoint_facts_def toy_target_def toy_cp_fields toy_facts_def btree_collect_def btree_put_def)
qed

lemma toy_lineage: "check_lineage toy_world [toy_entry]"
proof -
  have "\<not> external_agent ''_system''" by (simp add: external_agent_def is_internal_agent_def INTERNAL_AGENTS_def)
  moreover have "get_str toy_genesis ''agent_id'' = Some ''_system''" by (simp add: toy_genesis_def toy_receipt_def json_access)
  ultimately have "lineage_items toy_world a [toy_entry] = []" if "external_agent a" for a
    using that by (auto simp: lineage_items_def map_filter_simps lineage_item_def toy_entry_fields toy_genesis_read split: option.splits bind_splits)
  then show ?thesis by (simp add: check_lineage_agents check_agent_lineage_def check_lineage_orphan_def)
qed

lemma toy_verdict:
  assumes tsts: "numbers_within_profile toy_world (toy_bundle tsts)"
    and att: "check_attestation_records toy_world T (toy_bundle tsts) toy_facts trust
      (BundleFacts_default\<lparr>bf_complete := None, bf_recorder_attested := []\<rparr>) = (True, g)"
  shows "bf_ok (verify_bundle_facts toy_world T (toy_bundle tsts) trust)"
    "bf_trusted_tst_checkpoints (verify_bundle_facts toy_world T (toy_bundle tsts) trust) = bf_trusted_tst_checkpoints g"
proof -
  let ?entry = "JObject [(''checkpoint'', toy_target)]"
  have d: "bf_recorder_attested BundleFacts_default = []" by (simp add: BundleFacts_default_def)
  have chain: "get ?entry ''checkpoint'' = Some toy_target" by (simp add: get_def)
  have es: "check_entries toy_world [toy_entry] toy_target [toy_target] toy_replayed trust [] = (True, [])"
    unfolding toy_replayed_def check_entries_kl_ok by (rule toy_entries_ok)
  have man: "check_export_manifest toy_world (toy_bundle tsts) [toy_entry] toy_target toy_replayed = None"
    by (simp add: check_export_manifest_None toy_bundle_fields)
  have seq: "check_seq_uniqueness toy_world [toy_entry]"
    by (auto simp: check_seq_uniqueness_def seq_loop_claims claim_loop_iff single_valued_list_def map_filter_simps split: option.splits)
  have cc: "check_checkpoint_chain toy_world [toy_target] [?entry] toy_replayed False"
    using toy_target_ok by (simp add: check_checkpoint_chain_def toy_target_def toy_cp_fields)
  have o: "check_bundle_origin (toy_bundle tsts) toy_target [toy_target]"
    by (simp add: check_bundle_origin_def toy_bundle_fields toy_target_def toy_cp_fields)
  have set: "check_entry_set toy_world (toy_bundle tsts) [toy_entry] toy_target [toy_target] toy_replayed trust BundleFacts_default
      = (True, BundleFacts_default\<lparr>bf_complete := None, bf_recorder_attested := []\<rparr>)"
    by (simp add: check_entry_set_def es man seq d)
  have c: "\<exists>fs. check_checkpoints_and_entries toy_world T (toy_bundle tsts) [toy_entry] toy_replayed trust BundleFacts_default = (True, fs) \<and>
      bf_trusted_tst_checkpoints fs = bf_trusted_tst_checkpoints g"
    using toy_target_ok cc o toy_lineage
    by (auto simp: check_checkpoints_and_entries_def toy_bundle_fields chain set check_target_checkpoint_def chain_profile_def
        chain_head_matches_def toy_target_facts att split: prod.split)
  have j: "check_jwks_match_log toy_world (toy_bundle tsts) toy_replayed"
    by (auto simp: check_jwks_match_log_def toy_bundle_fields toy_log_jwk_key toy_replayed_def toy_log_def insert_key_def
        KeyLog_default_def Map.graph_def split: if_splits)
  have cosign: "\<not> forbidden_managed_edge_cosign toy_genesis (index toy_entry ''envelope'')"
    by (simp add: forbidden_managed_edge_cosign_def toy_entry_fields toy_env_signatures)
  have k: "kl_ok toy_replayed" by (simp add: toy_replayed_def)
  show "bf_ok (verify_bundle_facts toy_world T (toy_bundle tsts) trust)"
    "bf_trusted_tst_checkpoints (verify_bundle_facts toy_world T (toy_bundle tsts) trust) = bf_trusted_tst_checkpoints g"
    using c cosign k
    by (auto simp: verify_bundle_facts_def toy_bundle_fields toy_bundle_caps [OF tsts] toy_replay j toy_entry_fields toy_genesis_read)
qed

lemmas toy_profile = numbers_within_profile_def JCS_MAX_DEPTH_def numbers_match.simps toy_bundle_def toy_target_def toy_cp_def
  toy_cp_body_def toy_entry_def toy_env_def toy_log_jwk_def Let_def number_text_def number_as_i64_def MAX_SAFE_INTEGER_def

lemma toy_bundle_ok: "bf_ok (verify_bundle_facts toy_world T (toy_bundle JNull) None)"
proof (rule toy_verdict)
  show "numbers_within_profile toy_world (toy_bundle JNull)" by (simp add: toy_profile)
qed (simp add: check_attestation_records_def toy_bundle_fields)



theorem rejected_earns_nothing_witness:
  "get (verify_bundle toy_world toy_asn1 (JObject []) None) ''ok'' = Some (JBool False)"
proof -
  have "\<not> bf_ok (verify_bundle_facts toy_world toy_asn1 (JObject []) None)"
    by (simp add: verify_bundle_facts_def json_access BundleFacts_default_def)
  from rejected_earns_nothing [OF this] show ?thesis by (simp add: Let_def)
qed

text \<open>The same bundle with a timestamp record for its checkpoint, under a supplied root.\<close>

definition toy_tsa :: "bytes \<Rightarrow> asn1" where
  "toy_tsa imprint = toy_asn1\<lparr>read_octets := \<lambda>r. Some (imprint, r), date_time_to_string := \<lambda>_. ''2024-01-01T00:00:00Z''\<rparr>"

definition toy_tst :: json where
  "toy_tst = JObject [(''cert_chain_pem'', JString ''pem''), (''checkpoint_body_hash'', JString (hex toy_imprint)),
     (''gen_time'', JString ''2024-01-01T00:00:00Z''), (''qualified'', JBool False), (''token_der_b64'', JString []), (''tsa_url'', JString [])]"

definition toy_roots :: json where
  "toy_roots = JObject [(''tsa_roots'', JObject [(''a'', JString ''root'')])]"

lemma toy_tsa_token: "verified_tst (toy_tsa D) [] (hex D) ''pem'' (Some ''root'') = Some (5, True)"
proof -
  have w: "walk_chain (toy_tsa D) (toy_cert 1 3 7) [toy_cert 2 7 7] None None"
    "walk_chain (toy_tsa D) (toy_cert 1 3 7) [toy_cert 2 7 7] (Some [toy_cert 2 7 7]) (Some 5)"
    "is_timestamping_signer (toy_tsa D) (toy_cert 1 3 7)" "gen_time_in_validity 5 (toy_cert 1 3 7)" by code_simp+
  have p: "parse_token (toy_tsa D) [] = Some (toy_signed_data, [4], \<lparr>imprint_alg = OID_SHA256, imprint_digest = D, gen_time = 5\<rparr>)"
    by (simp add: parse_token_def parse_tst_info_def parse_imprint_def toy_tsa_def toy_asn1_def toy_signed_data_def
        other_revocation_present_def other_certificate_def)
  define si where "si = hd (signer_infos toy_signed_data)"
  have si: "check_signer_info (toy_tsa D) toy_signed_data [4] = Some si" "find_signer_cert (toy_tsa D) toy_signed_data si = Some (toy_cert 1 3 7)"
      "signed_attrs si = Some toy_attrs" "attrs_to_der (toy_tsa D) toy_attrs = Some []"
      "verify_sig (toy_tsa D) (subject_public_key_info (toy_cert 1 3 7)) (alg_oid (si_signature_algorithm si)) (alg_oid (digest_alg si)) (si_signature si) []"
    unfolding si_def by code_simp+
  have l: "load_pem_chain (toy_tsa D) b = Some [toy_cert 2 7 7]" for b by (simp add: toy_tsa_def toy_asn1_def)
  show ?thesis unfolding verified_tst_def p by (simp add: si l w)
qed


theorem trusted_timestamp_bound_witness:
  "\<exists>cp t. checkpoint_body_hash toy_world cp = Some (hex toy_imprint) \<and>
     verified_tst (toy_tsa toy_imprint) [] (hex toy_imprint) ''pem'' (Some ''root'') = Some (t, True)"
proof -
  let ?b = "toy_bundle (JArray [toy_tst])"
  let ?f = "BundleFacts_default\<lparr>bf_complete := None, bf_recorder_attested := []\<rparr>"
  have roots: "tsa_roots_pem (Some toy_roots) = Some ''root''" by code_simp
  have f: "get_str toy_tst ''checkpoint_body_hash'' = Some (hex toy_imprint)" "get_str toy_tst ''token_der_b64'' = Some []"
    "get_str toy_tst ''gen_time'' = Some ''2024-01-01T00:00:00Z''" "get_str toy_tst ''cert_chain_pem'' = Some ''pem''"
    by (simp_all add: toy_tst_def json_access)
  have bound: "check_bound_records (JArray [toy_tst]) TST_MEMBERS ''gen_time'' toy_facts"
  proof -
    have m: "\<exists>ob. as_object toy_tst = Some ob \<and> \<not> list_ex (\<lambda>f. \<not> contains_key ob f) TST_MEMBERS"
      by (simp add: toy_tst_def as_object_def TST_MEMBERS_def contains_key_def)
    have "record_not_before_checkpoint toy_tst ''gen_time'' ''2024-01-01T00:00:00Z''"
      by (simp add: record_not_before_checkpoint_def f toy_key_facts)
    then have "bound_record_ok toy_tst TST_MEMBERS ''gen_time'' toy_facts"
      using m by (auto simp: bound_record_ok_def f toy_facts_def)
    then show ?thesis by (simp add: check_bound_records_def as_array_def f map_filter_simps MAX_ATTESTATION_RECORDS_def)
  qed
  have shown: "date_time_to_string (toy_tsa toy_imprint) t = ''2024-01-01T00:00:00Z''" for t by (simp add: toy_tsa_def)
  have "tst_record toy_world (toy_tsa toy_imprint) (Some ''root'') toy_tst = Some (hex toy_imprint, True)"
    using toy_tsa_token [of toy_imprint] by (simp add: tst_record_def f shown as_bytes_def)
  then have "check_tst_records toy_world (toy_tsa toy_imprint) (JArray [toy_tst]) toy_facts (Some ''root'') [] = (True, [hex toy_imprint])"
    using bound by (simp add: check_tst_records_def as_array_def tst_loop_step)
  then have a: "check_attestation_records toy_world (toy_tsa toy_imprint) ?b toy_facts (Some toy_roots) ?f
      = (True, ?f\<lparr>bf_trusted_tst_checkpoints := [hex toy_imprint]\<rparr>)"
    by (simp add: check_attestation_records_def toy_bundle_fields roots BundleFacts_default_def)
  have n: "numbers_within_profile toy_world ?b" by (simp add: toy_profile toy_tst_def)
  have "hex toy_imprint \<in> set (bf_trusted_tst_checkpoints (verify_bundle_facts toy_world (toy_tsa toy_imprint) ?b (Some toy_roots)))"
    by (simp add: toy_verdict(2) [OF n a])
  from trusted_timestamp_bound [OF toy_verdict(1) [OF n a] this] show ?thesis using toy_tsa_token [of toy_imprint] by blast
qed

end
