(* ===== verification/Disclosure.thy ===== *)
theory Disclosure
  imports Entries
begin

text \<open>
  Selective disclosure (\<open>lib.rs\<close>): a package opens one commitment of one receipt of a verified bundle by
  revealing the nonce and the payload.
\<close>

section \<open>Packages\<close>

definition DISCLOSURE_SCHEMA :: string where
  "DISCLOSURE_SCHEMA = ''evd/disclosure/v1''"

definition DOMAIN_PREFIX :: string where
  "DOMAIN_PREFIX = ''evd/v1/''"

definition DISCLOSURE_FIELD_DOMAINS :: "(string \<times> string list) list" where
  "DISCLOSURE_FIELD_DOMAINS = [
     (''payload'', [''evd/v1/payload'']),
     (''prompt'', [''evd/v1/prompt'', ''evd/v1/llm.prompt'']),
     (''output'', [''evd/v1/output'', ''evd/v1/llm.output'']),
     (''tool.args'', [''evd/v1/tool.args'']),
     (''tool.result'', [''evd/v1/tool.result'']),
     (''message'', [''evd/v1/interaction.message'']),
     (''policy_input'', [''evd/v1/policy.input'']),
     (''policy_output'', [''evd/v1/policy.output'']),
     (''approver_id'', [''evd/v1/approver_id'']),
     (''justification'', [''evd/v1/justification'']),
     (''escalation_target_id'', [''evd/v1/escalation_target'']),
     (''config'', [''evd/v1/agent.config'', ''evd/v1/lineage/config'']),
     (''query'', [''evd/v1/query'']),
     (''trigger_content'', [''evd/v1/guardrail.trigger'']),
     (''amount_exact'', [''evd/v1/payment.amount'']),
     (''counterparty_id'', [''evd/v1/payment.counterparty'']),
     (''mandate_ref'', [''evd/v1/payment.mandate'']),
     (''system_prompt'', [''evd/v1/lineage/system_prompt'']),
     (''tool_manifest'', [''evd/v1/lineage/tool_manifest'']),
     (''mandate_document'', [''evd/v1/lineage/mandate_document'']),
     (''created_by_id'', [''evd/v1/lineage/created_by_id'']),
     (''enrolment_evidence'', [''evd/v1/authority/enrolment_evidence'']),
     (''source_manifest'', [''evd/v1/authority/source_manifest'']),
     (''inputs'', [''evd/v1/authority/inputs'']),
     (''context_doc'', [''evd/v1/authority/context_doc'']),
     (''request'', [''evd/v1/authority/request'']),
     (''batch'', [''evd/v1/node/batch'']),
     (''attestation'', [''evd/v1/node/attestation'']),
     (''statement'', [''evd/v1/node/triage'']),
     (''doc'', [''evd/v1/node/coverage''])]"

definition disclosure_domain :: "string \<Rightarrow> string \<Rightarrow> bool" where
  "disclosure_domain name domain =
     (if \<not> disclosure_text name \<or> \<not> disclosure_text domain \<or> \<not> starts_with domain DOMAIN_PREFIX then False
      else
        (let fixed = is_some_and (find (\<lambda>(n, _). n = name) DISCLOSURE_FIELD_DOMAINS) (\<lambda>(_, domains). domain \<in> set domains) in
         fixed \<or> domain = ''evd/v1/x/'' @ name))"

definition disclosure_nonce :: "json \<Rightarrow> bytes option" where
  "disclosure_nonce pkg =
     do {
       nonce \<leftarrow> Option.bind (get_str pkg ''nonce_hex'') hex_to_bytes;
       then_some (length nonce \<ge> 16) nonce
     }"

definition disclosure_payload :: "crates \<Rightarrow> json \<Rightarrow> bytes option" where
  "disclosure_payload C pkg =
     do {
       t \<leftarrow> get_str pkg ''payload_b64'';
       payload \<leftarrow> B64_decode C t;
       then_some (B64_encode C payload = t) payload
     }"

definition disclosure_fields :: "crates \<Rightarrow> json \<Rightarrow> (string \<times> string \<times> string \<times> bytes \<times> bytes) option" where
  "disclosure_fields C pkg =
     do {
       ob \<leftarrow> as_object pkg;
       if length ob \<noteq> 6 \<or> get_str pkg ''schema'' \<noteq> Some DISCLOSURE_SCHEMA then None
       else do {
         rh \<leftarrow> get_str pkg ''receipt_hash'';
         if \<not> lower_sha256 rh then None
         else do {
           name \<leftarrow> get_str pkg ''field'';
           domain \<leftarrow> get_str pkg ''domain'';
           if \<not> disclosure_domain name domain then None
           else do {
             nonce \<leftarrow> disclosure_nonce pkg;
             payload \<leftarrow> disclosure_payload C pkg;
             Some (rh, name, domain, nonce, payload)
           }
         }
       }
     }"

text \<open>The bytes fed to the hash.\<close>

definition commitment_preimage :: "string \<Rightarrow> bytes \<Rightarrow> bytes \<Rightarrow> bytes" where
  "commitment_preimage domain payload nonce = as_bytes domain @ [0] @ nonce @ [0] @ payload"

definition disclosure_commitment :: "crates \<Rightarrow> string \<Rightarrow> bytes \<Rightarrow> bytes \<Rightarrow> string" where
  "disclosure_commitment C domain payload nonce = hex (Sha256 C (commitment_preimage domain payload nonce))"

definition disclosure_committed_value :: "crates \<Rightarrow> bytes \<Rightarrow> string \<Rightarrow> string option" where
  "disclosure_committed_value C raw name =
     do {
       body \<leftarrow> canonical_body C raw;
       commitments \<leftarrow> get body ''commitments'';
       get_str commitments name
     }"

section \<open>Verification\<close>

fun disclosure_loop :: "crates \<Rightarrow> string \<Rightarrow> string \<Rightarrow> string \<Rightarrow> bytes \<Rightarrow> bytes \<Rightarrow> json list \<Rightarrow> bool" where
  "disclosure_loop C rh name domain nonce payload [] = False"
| "disclosure_loop C rh name domain nonce payload (e # es) =
     (case Option.bind (get e ''envelope'') (payload_of C) of
        None \<Rightarrow> disclosure_loop C rh name domain nonce payload es
      | Some raw \<Rightarrow>
          if hex (sha256 C raw) \<noteq> rh then disclosure_loop C rh name domain nonce payload es
          else (case disclosure_committed_value C raw name of
                  None \<Rightarrow> False
                | Some expected \<Rightarrow> disclosure_commitment C domain payload nonce = expected))"

definition verify_disclosure :: "crates \<Rightarrow> json \<Rightarrow> json \<Rightarrow> bool" where
  "verify_disclosure C pkg bundle =
     (case disclosure_fields C pkg of
        None \<Rightarrow> False
      | Some (rh, name, domain, nonce, payload) \<Rightarrow>
          (case get_array bundle ''entries'' of
             None \<Rightarrow> False
           | Some entries \<Rightarrow> disclosure_loop C rh name domain nonce payload entries))"

definition verify_disclosure_json :: "crates \<Rightarrow> bytes \<Rightarrow> bytes \<Rightarrow> bool" where
  "verify_disclosure_json C package_json bundle_json =
     (if length package_json > MAX_BUNDLE_BYTES \<or> length bundle_json > MAX_BUNDLE_BYTES then False
      else (case (strict_json C package_json, strict_json C bundle_json) of
              (Some pkg, Some bundle) \<Rightarrow> verify_disclosure C pkg bundle
            | _ \<Rightarrow> False))"

section \<open>Lemmas\<close>

text \<open>The value that the first entry with a receipt hash commits to.\<close>

definition committed :: "crates \<Rightarrow> string \<Rightarrow> string \<Rightarrow> json list \<Rightarrow> string option" where
  "committed C rh name entries =
     Option.bind (find (\<lambda>raw. hex (sha256 C raw) = rh) (List.map_filter (\<lambda>e. Option.bind (get e ''envelope'') (payload_of C)) entries))
       (\<lambda>raw. disclosure_committed_value C raw name)"

lemma disclosure_loop_committed:
  "disclosure_loop C rh name domain nonce payload es \<longleftrightarrow> committed C rh name es = Some (disclosure_commitment C domain payload nonce)"
proof (induction es)
  case (Cons e es)
  then show ?case
    by (cases "Option.bind (get e ''envelope'') (payload_of C)")
      (auto simp: committed_def map_filter_simps split: option.splits)
qed (simp add: committed_def map_filter_simps)

text \<open>A UTF-8 string with no control characters has no zero byte.\<close>

lemma of_char_within: "within lo hi (of_char c) \<longleftrightarrow> uint lo \<le> of_char c \<and> of_char c \<le> uint hi"
  by (simp add: within_def word_le_def uint_of_char)

lemma of_char_0: "(of_char c :: u8) = 0 \<longleftrightarrow> (of_char c :: int) = 0"
  by (simp add: word_uint_eq_iff uint_of_char)

lemma text_zero_free:
  assumes "utf8_valid (as_bytes s)" "list_all (\<lambda>c. \<not> c \<le> 0x1f) (chars s)"
  shows "0 \<notin> set (as_bytes s)"
  using assms
proof (induction s rule: chars.induct)
  case (2 a s)
  let ?b = "of_char a :: int"
  have le: "(of_char a :: u8) \<le> 0x7f \<longleftrightarrow> ?b < 128" by (auto simp: word_le_def uint_of_char)
  consider "?b < 128" | "\<not> ?b < 128" "?b < 224" | "\<not> ?b < 224" "?b < 240" | "\<not> ?b < 240" by linarith
  then show ?case
  proof cases
    case 1
    then have "\<not> ?b \<le> 0x1f" "utf8_valid (as_bytes s)" "list_all (\<lambda>c. \<not> c \<le> 0x1f) (chars s)"
      using "2.prems" le by (auto simp: as_bytes_def Let_def)
    then show ?thesis using "2.IH"(1) [OF refl refl 1] by (auto simp: as_bytes_def of_char_0)
  next
    case b: 2
    then obtain c t where s: "s = c # t" "\<not> (of_char c :: int) < 128" "utf8_valid (as_bytes t)"
      using "2.prems"(1) le by (cases s) (auto simp: as_bytes_def of_char_within split: if_splits)
    moreover have "list_all (\<lambda>c. \<not> c \<le> 0x1f) (chars t)" using "2.prems"(2) b s(1) by (simp add: Let_def)
    ultimately show ?thesis using "2.IH"(2) [OF refl refl b(1)] b by (auto simp: as_bytes_def of_char_0)
  next
    case b: 3
    then obtain c d t where s: "s = c # d # t" "\<not> (of_char c :: int) < 128" "\<not> (of_char d :: int) < 128" "utf8_valid (as_bytes t)"
      using "2.prems"(1) le by (cases s; cases "tl s") (auto simp: as_bytes_def of_char_within split: if_splits)
    moreover have "list_all (\<lambda>c. \<not> c \<le> 0x1f) (chars t)" using "2.prems"(2) b s(1) by (simp add: Let_def)
    ultimately show ?thesis using "2.IH"(3) [OF refl refl] b by (auto simp: as_bytes_def of_char_0)
  next
    case b: 4
    then obtain c d e t where s: "s = c # d # e # t" "\<not> (of_char c :: int) < 128" "\<not> (of_char d :: int) < 128" "\<not> (of_char e :: int) < 128"
      "utf8_valid (as_bytes t)"
      using "2.prems"(1) le by (cases s; cases "tl s"; cases "tl (tl s)") (auto simp: as_bytes_def of_char_within split: if_splits)
    moreover have "list_all (\<lambda>c. \<not> c \<le> 0x1f) (chars t)" using "2.prems"(2) b s(1) by (simp add: Let_def)
    ultimately show ?thesis using "2.IH"(4) [OF refl refl] b by (auto simp: as_bytes_def of_char_0)
  qed
qed (simp add: as_bytes_def)


lemma split_at_zero:
  assumes "a @ [0] @ b = c @ [0] @ d" "0 \<notin> set a" "0 \<notin> set c"
  shows "a = c \<and> b = d"
  using assms
proof (induction a arbitrary: c)
  case Nil
  then show ?case by (cases c) auto
next
  case (Cons x a)
  then show ?case by (cases c) auto
qed

lemma verify_disclosure_iff:
  assumes "disclosure_fields C pkg = Some (rh, name, domain, nonce, payload)"
  shows "verify_disclosure C pkg bundle \<longleftrightarrow>
    is_some_and (get_array bundle ''entries'') (\<lambda>es. committed C rh name es = Some (disclosure_commitment C domain payload nonce))"
  using assms by (auto simp: verify_disclosure_def disclosure_loop_committed is_some_and_def split: option.splits)

lemma disclosure_fields_domain:
  assumes "disclosure_fields C pkg = Some (rh, name, domain, nonce, payload)" "utf8_valid (as_bytes domain)"
  shows "0 \<notin> set (as_bytes domain)"
proof -
  have "disclosure_text domain"
    using assms(1) by (auto simp: disclosure_fields_def disclosure_domain_def bind_eq_Some_conv split: if_splits)
  then have "list_all (\<lambda>c. \<not> c \<le> 0x1f) (chars domain)" by (auto simp: disclosure_text_def list_all_iff)
  then show ?thesis using assms(2) by (intro text_zero_free)
qed

text \<open>A package for given contents.\<close>

definition package :: "crates \<Rightarrow> string \<Rightarrow> string \<Rightarrow> string \<Rightarrow> bytes \<Rightarrow> bytes \<Rightarrow> json" where
  "package C rh name domain nonce payload =
     JObject [(''domain'', JString domain), (''field'', JString name), (''nonce_hex'', JString (hex nonce)),
       (''payload_b64'', JString (B64_encode C payload)), (''receipt_hash'', JString rh), (''schema'', JString DISCLOSURE_SCHEMA)]"

lemma disclosure_fields_package:
  assumes "\<And>b. B64_decode C (B64_encode C b) = Some b"
  shows "disclosure_fields C (package C rh name domain nonce payload) =
    (if lower_sha256 rh \<and> disclosure_domain name domain \<and> 16 \<le> length nonce then Some (rh, name, domain, nonce, payload) else None)"
  by (simp add: disclosure_fields_def package_def disclosure_nonce_def disclosure_payload_def json_access assms then_some_def)

section \<open>Properties\<close>

text \<open>
  A disclosure opens one commitment. Two packages accepted against the same bundle for the same receipt and
  field, whose nonces have the same length, disclose the same payload under the same domain with the same nonce;
  the only other possibility is an explicit SHA-256 collision between the two bytes that were hashed. (The domains are
  Rust strings, hence well-formed UTF-8.)
\<close>

theorem disclosure_binding:
  assumes "verify_disclosure C p bundle" "verify_disclosure C p' bundle"
    and "disclosure_fields C p = Some (rh, name, d, n, x)" "disclosure_fields C p' = Some (rh, name, d', n', x')"
    and "utf8_valid (as_bytes d)" "utf8_valid (as_bytes d')" "length n = length n'"
  shows "d = d' \<and> n = n' \<and> x = x' \<or>
    collides (Sha256 C) [commitment_preimage d x n] [commitment_preimage d' x' n']"
proof -
  have "disclosure_commitment C d x n = disclosure_commitment C d' x' n'"
    using assms(1,2) by (auto simp: verify_disclosure_iff [OF assms(3)] verify_disclosure_iff [OF assms(4)] is_some_and_iff)
  then have h: "Sha256 C (commitment_preimage d x n) = Sha256 C (commitment_preimage d' x' n')"
    by (auto simp: disclosure_commitment_def hex_inject)
  show ?thesis
  proof (cases "commitment_preimage d x n = commitment_preimage d' x' n'")
    case True
    then have "as_bytes d @ [0] @ (n @ [0] @ x) = as_bytes d' @ [0] @ (n' @ [0] @ x')" by (simp add: commitment_preimage_def)
    then have "as_bytes d = as_bytes d'" "n @ [0] @ x = n' @ [0] @ x'"
      using split_at_zero disclosure_fields_domain [OF assms(3,5)] disclosure_fields_domain [OF assms(4,6)] by blast+
    then show ?thesis using assms(7) by (metis append_Cons append_eq_append_conv list.inject of_bytes_as_bytes)
  next
    case False
    then show ?thesis using h by (auto simp: collides_def)
  qed
qed

text \<open>
  C36: what a disclosure does not fix. The commitment hashes domain, nonce and payload with zero bytes between
  them, and a nonce of any length from 16 bytes is admitted. A package that discloses \<open>x 0 y\<close> under a nonce \<open>n\<close> and
  the package that discloses only \<open>y\<close>, under the longer nonce \<open>n 0 x\<close>, are therefore accepted or refused
  together, on every bundle and whatever the hash: a payload with a zero byte can be reopened as a proper suffix of
  itself.
\<close>

theorem disclosure_reopens:
  assumes "\<And>b. B64_decode C (B64_encode C b) = Some b" and "16 \<le> length n"
  shows "verify_disclosure C (package C rh name d n (x @ [0] @ y)) bundle
    = verify_disclosure C (package C rh name d (n @ [0] @ x) y) bundle"
proof -
  have p: "disclosure_commitment C d (x @ [0] @ y) n = disclosure_commitment C d y (n @ [0] @ x)"
    by (simp add: disclosure_commitment_def commitment_preimage_def)
  show ?thesis
    using assms(2) p
    by (simp add: verify_disclosure_def disclosure_fields_package [OF assms(1)] disclosure_loop_committed split: option.split)
qed


text \<open>An entry whose receipt commits to the payload \<open>1 0 2\<close>.\<close>

definition toy_nonce :: bytes where
  "toy_nonce = replicate 16 7"

definition toy_commitment :: string where
  "toy_commitment = disclosure_commitment toy_base ''evd/v1/payload'' [1, 0, 2] toy_nonce"

definition toy_note :: json where
  "toy_note = JObject [(''commitments'', JObject [(''payload'', JString toy_commitment)])]"

definition toy_note_raw :: bytes where
  "toy_note_raw = the (canonical_checked toy_base toy_note)"

definition toy_note_bundle :: json where
  "toy_note_bundle = JObject [(''entries'', JArray [JObject [(''envelope'', JObject [(''payload'', JString (of_bytes toy_note_raw))])]])]"

definition toy_note_world :: crates where
  "toy_note_world = toy_crates [toy_note]"

definition toy_opening :: "bytes \<Rightarrow> bytes \<Rightarrow> json" where
  "toy_opening nonce payload = package toy_note_world (hex (toy_digest toy_note_raw)) ''payload'' ''evd/v1/payload'' nonce payload"

lemma is_lower_hex_digit: "n < 16 \<Longrightarrow> is_lower_hex (hex_digit n)"
proof -
  have "list_all (\<lambda>n. is_lower_hex (hex_digit n)) [0..<16]" by code_simp
  then show "n < 16 \<Longrightarrow> is_lower_hex (hex_digit n)" by (simp add: list_all_iff)
qed

lemma lower_sha256_hex: "length b = 32 \<Longrightarrow> lower_sha256 (hex b)"
proof -
  have "list_all is_lower_hex (hex b)"
  proof -
    have "unat x div 16 < 16" for x :: u8
    proof -
      have "unat x < 256" using unsigned_less [of x] by simp
      then show ?thesis by simp
    qed
    then show ?thesis by (auto simp: hex_def list_all_iff intro!: is_lower_hex_digit)
  qed
  then show "length b = 32 \<Longrightarrow> lower_sha256 (hex b)" by (simp add: lower_sha256_def)
qed


lemma toy_opening_iff:
  assumes "16 \<le> length nonce"
  shows "disclosure_fields toy_note_world (toy_opening nonce payload)
      = Some (hex (toy_digest toy_note_raw), ''payload'', ''evd/v1/payload'', nonce, payload)"
    "verify_disclosure toy_note_world (toy_opening nonce payload) toy_note_bundle
      \<longleftrightarrow> disclosure_commitment toy_base ''evd/v1/payload'' payload nonce = toy_commitment"
proof -
  have b64: "B64_decode toy_note_world (B64_encode toy_note_world b) = Some b" for b
    by (simp add: toy_note_world_def toy_crates_def toy_base_def)
  have dom: "disclosure_domain ''payload'' ''evd/v1/payload''" by code_simp
  show f: "disclosure_fields toy_note_world (toy_opening nonce payload)
      = Some (hex (toy_digest toy_note_raw), ''payload'', ''evd/v1/payload'', nonce, payload)"
    unfolding toy_opening_def disclosure_fields_package [OF b64] using assms dom by (simp add: lower_sha256_hex)
  obtain raw where raw: "canonical_checked toy_base toy_note = Some raw"
  proof -
    have "canonical_checked toy_base toy_note \<noteq> None"
      using jcs_write_defined [of toy_base _ JCS_MAX_DEPTH]
      by (simp add: canonical_checked_def JCS_MAX_DEPTH_def numbers_match.simps toy_note_def)
    then show ?thesis using that by auto
  qed
  have "promote_jcs_integer_lexemes toy_note = Some toy_note" by (simp add: toy_note_def promote_jcs_integer_lexemes.simps)
  then have body: "canonical_body toy_note_world toy_note_raw = Some toy_note"
    by (simp add: canonical_body_iff toy_note_world_def toy_note_raw_def raw) (simp add: toy_crates_def raw)
  have val: "disclosure_committed_value toy_note_world toy_note_raw ''payload'' = Some toy_commitment"
    by (simp add: disclosure_committed_value_def body) (simp add: toy_note_def json_access)
  have env: "payload_of toy_note_world (JObject [(''payload'', JString (of_bytes toy_note_raw))]) = Some toy_note_raw"
    by (simp add: payload_of_def json_access toy_note_world_def toy_crates_def toy_base_def)
  have sh: "sha256 toy_note_world = toy_digest" "Sha256 toy_note_world = Sha256 toy_base"
    by (simp_all add: sha256_def [abs_def] toy_note_world_def toy_crates_def toy_base_def)
  have "committed toy_note_world (hex (toy_digest toy_note_raw)) ''payload''
      [JObject [(''envelope'', JObject [(''payload'', JString (of_bytes toy_note_raw))])]] = Some toy_commitment"
    using env val by (simp add: committed_def map_filter_simps get_def sh)
  then show "verify_disclosure toy_note_world (toy_opening nonce payload) toy_note_bundle
      \<longleftrightarrow> disclosure_commitment toy_base ''evd/v1/payload'' payload nonce = toy_commitment"
    by (auto simp: verify_disclosure_iff [OF f] toy_note_bundle_def json_access disclosure_commitment_def sh)
qed

theorem disclosure_binding_witness:
  "verify_disclosure toy_note_world (toy_opening toy_nonce [1, 0, 2]) toy_note_bundle \<and>
   (toy_nonce = toy_nonce \<and> [1, 0, 2 :: u8] = [1, 0, 2] \<or>
    collides (Sha256 toy_note_world) [commitment_preimage ''evd/v1/payload'' [1, 0, 2] toy_nonce]
      [commitment_preimage ''evd/v1/payload'' [1, 0, 2] toy_nonce])"
proof -
  have l: "16 \<le> length toy_nonce" by (simp add: toy_nonce_def)
  have v: "verify_disclosure toy_note_world (toy_opening toy_nonce [1, 0, 2]) toy_note_bundle"
    by (simp add: toy_opening_iff(2) [OF l] toy_commitment_def)
  have u: "utf8_valid (as_bytes ''evd/v1/payload'')" by code_simp
  show ?thesis
    using v disclosure_binding [OF v v toy_opening_iff(1) [OF l] toy_opening_iff(1) [OF l] u u] by simp
qed

theorem disclosure_reopens_witness:
  "verify_disclosure toy_note_world (toy_opening toy_nonce [1, 0, 2]) toy_note_bundle \<and>
   verify_disclosure toy_note_world (toy_opening (toy_nonce @ [0, 1]) [2]) toy_note_bundle"
proof -
  have l: "16 \<le> length toy_nonce" by (simp add: toy_nonce_def)
  have v: "verify_disclosure toy_note_world (toy_opening toy_nonce [1, 0, 2]) toy_note_bundle"
    by (simp add: toy_opening_iff(2) [OF l] toy_commitment_def)
  have b64: "B64_decode toy_note_world (B64_encode toy_note_world b) = Some b" for b
    by (simp add: toy_note_world_def toy_crates_def toy_base_def)
  show ?thesis
    using v disclosure_reopens [OF b64 l, of "hex (toy_digest toy_note_raw)" "''payload''" "''evd/v1/payload''" "[1]" "[2]" toy_note_bundle]
    by (simp add: toy_opening_def)
qed

end
