(* ===== verification/Cose.thy ===== *)
theory Cose
  imports Keys
begin

text \<open>
  \<open>verify-rs/src/cose.rs\<close>: COSE_Sign1 under the COSE profile of the shared emitter. The signed bytes
  go through the certificate profile (\<open>canonical_cbor\<close>); the envelope and the header maps carry
  integer labels and go through \<open>COSE_PROFILE\<close>.
\<close>

section \<open>The code\<close>

definition TAG_SIGN1 :: u8 where
  "TAG_SIGN1 = 0xd2"

definition COSE_PROFILE :: profile where
  "COSE_PROFILE = \<lparr>int_keys = True, bools = False\<rparr>"

definition decode_canonical :: "crates \<Rightarrow> bytes \<Rightarrow> nat \<Rightarrow> cbor option" where
  "decode_canonical C data max_depth =
     (case structural_scan data max_depth MAX_ITEMS of
        None \<Rightarrow> None
      | Some n \<Rightarrow>
          if n \<noteq> length data then None
          else (case cbor_from_reader C data of
            None \<Rightarrow> None
          | Some v \<Rightarrow>
              (case canonical_bytes v (int max_depth) COSE_PROFILE of
                 None \<Rightarrow> None | Some b \<Rightarrow> then_some (b = data) v)))"

definition sig_structure :: "bytes \<Rightarrow> bytes option \<Rightarrow> bytes option" where
  "sig_structure protected_bytes payload =
     (let body = unwrap_or [] payload in
      canonical_cbor (CArray [CText ''Signature1'', CBytes protected_bytes, CBytes [], CBytes body]))"

record Sign1 =
  s1_protected :: cbor
  s1_unprotected :: cbor
  s1_payload :: "bytes option"
  s1_kid :: string

fun kid_loop :: "(cbor \<times> cbor) list \<Rightarrow> string option" where
  "kid_loop [] = None"
| "kid_loop ((k, v) # entries) =
     (if k = CInteger 4 then (case v of CBytes b \<Rightarrow> from_utf8 b | _ \<Rightarrow> kid_loop entries)
      else kid_loop entries)"

definition kid_of :: "cbor \<Rightarrow> string option" where
  "kid_of protected = (case protected of CMap entries \<Rightarrow> kid_loop entries | _ \<Rightarrow> None)"

definition unpack :: "cbor \<Rightarrow> (bytes \<times> cbor \<times> bytes option \<times> bytes) option" where
  "unpack array =
     (case array of
        CArray [p, u, b, s] \<Rightarrow>
          (case s of
             CBytes signature \<Rightarrow>
               (case (case b of CNull \<Rightarrow> Some None | CBytes x \<Rightarrow> Some (Some x) | _ \<Rightarrow> None) of
                  None \<Rightarrow> None
                | Some payload \<Rightarrow>
                    (case u of
                       CMap _ \<Rightarrow>
                         (case p of CBytes protected_bytes \<Rightarrow> Some (protected_bytes, u, payload, signature) | _ \<Rightarrow> None)
                     | _ \<Rightarrow> None))
           | _ \<Rightarrow> None)
      | _ \<Rightarrow> None)"

definition verify_sign1 :: "crates \<Rightarrow> bytes \<Rightarrow> (string \<rightharpoonup> bytes) \<Rightarrow> nat \<Rightarrow> nat \<Rightarrow> Sign1 option" where
  "verify_sign1 C cose keys max_bytes max_depth =
     (if length cose > max_bytes \<or> cose = [] \<or> hd cose \<noteq> TAG_SIGN1 then None
      else do {
        array \<leftarrow> decode_canonical C (tl cose) max_depth;
        (protected_bytes, unprotected, payload, signature) \<leftarrow> unpack array;
        protected \<leftarrow> decode_canonical C protected_bytes max_depth;
        kid \<leftarrow> kid_of protected;
        public_raw \<leftarrow> keys kid;
        sig_input \<leftarrow> sig_structure protected_bytes payload;
        if \<not> ed25519_verify C public_raw sig_input signature then None
        else Some \<lparr>s1_protected = protected, s1_unprotected = unprotected, s1_payload = payload, s1_kid = kid\<rparr>
      })"

section \<open>The codec\<close>

interpretation cose: canonical_codec "\<lambda>v. canonical_bytes v (int d) COSE_PROFILE" "normal COSE_PROFILE" for d
  by unfold_locales (auto simp: canonical_bytes_def dest: write_value_unique)

lemma decode_canonical_iff:
  "decode_canonical C data d = Some v \<longleftrightarrow>
     structural_scan data d MAX_ITEMS = Some (length data) \<and> cbor_from_reader C data = Some v \<and>
     canonical_bytes v (int d) COSE_PROFILE = Some data"
  by (auto simp: decode_canonical_def split: option.splits)

lemma unpack_iff:
  "unpack v = Some (pb, u, pl, sg) \<longleftrightarrow> (\<exists>m. u = CMap m) \<and>
     v = CArray [CBytes pb, u, (case pl of None \<Rightarrow> CNull | Some x \<Rightarrow> CBytes x), CBytes sg]"
  by (auto simp: unpack_def split: cbor.splits list.splits option.splits)

lemma verify_sign1_iff:
  "verify_sign1 C cose keys mb md = Some s \<longleftrightarrow> length cose \<le> mb \<and>
     (\<exists>rest v pb sg key msg. cose = TAG_SIGN1 # rest \<and> decode_canonical C rest md = Some v \<and>
        unpack v = Some (pb, s1_unprotected s, s1_payload s, sg) \<and> decode_canonical C pb md = Some (s1_protected s) \<and>
        kid_of (s1_protected s) = Some (s1_kid s) \<and> keys (s1_kid s) = Some key \<and>
        sig_structure pb (s1_payload s) = Some msg \<and> ed25519_verify C key msg sg)" (is "?L \<longleftrightarrow> ?R")
proof
  assume ?L
  then show ?R
    by (cases cose) (auto simp: verify_sign1_def bind_eq_Some_conv split: if_splits)
next
  assume ?R
  then show ?L
    by (auto simp: verify_sign1_def)
qed


section \<open>The signed bytes\<close>

lemma sig_structure_value:
  "sig_structure pb pl = canonical_cbor (CArray [CText ''Signature1'', CBytes pb, CBytes [], CBytes (unwrap_or [] pl)])"
  by (simp add: sig_structure_def)

lemma sig_structure_unique:
  assumes "sig_structure pb pl = Some m" "sig_structure pb' pl' = Some m" "length m < 2 ^ 64"
  shows "pb = pb' \<and> unwrap_or [] pl = unwrap_or [] pl'"
  using cert.readers_agree [OF assms [unfolded sig_structure_value]] by simp

lemma write_text_length: "length (write_text s) \<ge> 1"
  by (simp add: write_text_def) (metis Suc_leI add_gr_0 length_greater_0_conv write_head_nonempty)

text \<open>The signed bytes exist for every header and payload.\<close>

lemma sig_structure_total: "\<exists>m. sig_structure pb pl = Some m"
  by (simp add: sig_structure_value canonical_cbor_def canonical_bytes_def write_value_CArray MAX_DEPTH_def
      write_value_leaf)

section \<open>The key id of a canonical header\<close>

lemma kid_loop_map_of:
  "distinct (map fst m) \<Longrightarrow>
     kid_loop m = (case map_of m (CInteger 4) of Some (CBytes b) \<Rightarrow> from_utf8 b | _ \<Rightarrow> None)"
proof (induction m)
  case (Cons kv m)
  obtain k v where [simp]: "kv = (k, v)" by force
  have "k = CInteger 4 \<Longrightarrow> map_of m (CInteger 4) = None"
    using Cons.prems by (force simp: map_of_eq_None_iff)
  then show ?case using Cons by (auto split: cbor.splits)
qed simp

lemma canonical_map_keys:
  assumes "canonical_bytes (CMap m) l p = Some b"
  shows "distinct (map fst m)"
  using assms distinct_map [of "key_bytes p" m]
  by (auto simp: canonical_bytes_def write_value_CMap distinct_map inj_on_def key_bytes_def)

lemma map_of_normal:
  assumes "distinct (map fst m)"
  shows "map_of (map (\<lambda>(k, v). (k, normal p v)) (sort_key f m)) k = map_option (normal p) (map_of m k)"
proof -
  have d: "distinct (map fst (sort_key f m))" using assms by (simp add: distinct_map)
  have "map_of (sort_key f m) = map_of m"
    by (rule map_of_eqI) (use assms d in \<open>auto simp: dom_map_of_conv_image_fst\<close>)
  then show ?thesis by (simp add: map_of_map [of "normal p" "sort_key f m", simplified])
qed

lemma normal_bytes: "normal p v = CBytes b \<longleftrightarrow> v = CBytes b"
  by (cases v) auto

lemma kid_of_normal:
  assumes "canonical_bytes v l p = Some b"
  shows "kid_of (normal p v) = kid_of v"
proof (cases v)
  case (CMap m)
  note d = canonical_map_keys [OF assms [unfolded CMap]]
  have "distinct (map fst (map (\<lambda>(k, v). (k, normal p v)) (sort_key (key_bytes p) m)))"
    using d by (simp add: comp_def case_prod_unfold distinct_map)
  then have "kid_of (normal p v) =
      (case map_option (normal p) (map_of m (CInteger 4)) of Some (CBytes b) \<Rightarrow> from_utf8 b | _ \<Rightarrow> None)"
    by (simp only: CMap normal_CMap kid_of_def cbor.case kid_loop_map_of map_of_normal [OF d])
  then show ?thesis
    by (auto simp: CMap kid_of_def kid_loop_map_of [OF d] split: cbor.splits option.splits)
qed (simp_all add: kid_of_def)


section \<open>Properties\<close>

lemma envelope_header_length:
  assumes "canonical_bytes (CArray (CBytes pb # vs)) l p = Some b"
  shows "length pb \<le> length b"
proof -
  obtain x where x: "write_value p (l - 1) (CBytes pb) = Some x"
    using assms by (auto simp: canonical_bytes_def write_value_CArray)
  then have "length pb \<le> length x"
    using write_value_Some_limit [OF x] by (auto simp: write_value_leaf)
  moreover have "length x \<le> length b"
    using assms x by (auto simp: canonical_bytes_def write_value_CArray)
  ultimately show ?thesis by simp
qed

definition payload_item :: "bytes option \<Rightarrow> cbor" where
  "payload_item pl = (case pl of None \<Rightarrow> CNull | Some x \<Rightarrow> CBytes x)"

text \<open>
  What an accepted COSE_Sign1 is. The input is within the byte cap and is the tag followed by the
  canonical encoding of the four-element array of exactly the returned parts; the protected bytes are
  the canonical encoding of the returned header; the key is the one registered for the key id in that
  header; and the signature verifies under it over the Sig_structure of the protected bytes and the payload.
\<close>

theorem verify_sign1_authentic:
  assumes "verify_sign1 C cose keys max_bytes max_depth = Some s"
  shows "\<exists>pb sg key msg body. cose = TAG_SIGN1 # body \<and> length cose \<le> max_bytes \<and>
     canonical_bytes (CArray [CBytes pb, s1_unprotected s, payload_item (s1_payload s), CBytes sg]) (int max_depth) COSE_PROFILE
       = Some body \<and>
     canonical_bytes (s1_protected s) (int max_depth) COSE_PROFILE = Some pb \<and>
     kid_of (s1_protected s) = Some (s1_kid s) \<and> keys (s1_kid s) = Some key \<and>
     sig_structure pb (s1_payload s) = Some msg \<and> ed25519_verify C key msg sg"
  using assms unfolding verify_sign1_iff decode_canonical_iff unpack_iff payload_item_def by blast

text \<open>
  The verified content is fixed by the bytes. Whatever two CBOR readers, key stores and caps are
  used, two runs that accept the same bytes return the same payload, the same key id and the same header
  maps up to the order of their entries.
\<close>

theorem verify_sign1_reader_independent:
  assumes v: "verify_sign1 C cose keys mb md = Some s" and w: "verify_sign1 C' cose keys' mb' md = Some t"
    and len: "length cose < 2 ^ 64"
  shows "s1_payload s = s1_payload t \<and> s1_kid s = s1_kid t \<and>
    normal COSE_PROFILE (s1_protected s) = normal COSE_PROFILE (s1_protected t) \<and>
    normal COSE_PROFILE (s1_unprotected s) = normal COSE_PROFILE (s1_unprotected t)"
proof -
  obtain rest pb sg where s: "cose = TAG_SIGN1 # rest"
    "canonical_bytes (CArray [CBytes pb, s1_unprotected s, payload_item (s1_payload s), CBytes sg]) (int md) COSE_PROFILE = Some rest"
    "canonical_bytes (s1_protected s) (int md) COSE_PROFILE = Some pb" "kid_of (s1_protected s) = Some (s1_kid s)"
    using v unfolding verify_sign1_iff decode_canonical_iff unpack_iff payload_item_def by blast
  obtain pb' sg' where t:
    "canonical_bytes (CArray [CBytes pb', s1_unprotected t, payload_item (s1_payload t), CBytes sg']) (int md) COSE_PROFILE = Some rest"
    "canonical_bytes (s1_protected t) (int md) COSE_PROFILE = Some pb'" "kid_of (s1_protected t) = Some (s1_kid t)"
    using w s(1) unfolding verify_sign1_iff decode_canonical_iff unpack_iff payload_item_def by blast
  have "length rest < 2 ^ 64" using len s(1) by simp
  from cose.readers_agree [OF s(2) t(1) this]
  have e: "pb = pb'" "normal COSE_PROFILE (s1_unprotected s) = normal COSE_PROFILE (s1_unprotected t)"
    "s1_payload s = s1_payload t"
    by (auto simp: payload_item_def split: option.splits)
  have "length pb < 2 ^ 64" using envelope_header_length [OF s(2)] \<open>length rest < 2 ^ 64\<close> by simp
  from cose.readers_agree [OF s(3) t(2) [folded e(1)] this]
  have p: "normal COSE_PROFILE (s1_protected s) = normal COSE_PROFILE (s1_protected t)" .
  then have "Some (s1_kid s) = Some (s1_kid t)"
    using kid_of_normal [OF s(3)] kid_of_normal [OF t(2)] s(4) t(3) by metis
  with e p show ?thesis by simp
qed

text \<open>
  the Sig_structure fixes what is signed. It exists for every header and payload, and two of them
  with the same bytes have the same protected header bytes and the same payload, except that an absent
  (detached) payload and an empty one sign the same bytes.
\<close>

theorem sig_structure_fixes_content:
  "(\<exists>m. sig_structure pb pl = Some m) \<and>
   (\<forall>m. sig_structure pb pl = Some m \<and> sig_structure pb' pl' = Some m \<and> length m < 2 ^ 64 \<longrightarrow>
      pb = pb' \<and> (pl = pl' \<or> {pl, pl'} = {None, Some []}))"
proof -
  have "pl = pl' \<or> {pl, pl'} = {None, Some []}" if "unwrap_or [] pl = unwrap_or [] pl'"
    using that by (cases pl; cases pl') auto
  then show ?thesis using sig_structure_total sig_structure_unique by metis
qed

text \<open>
  Every honestly built COSE_Sign1 is accepted. A canonical header that names a registered key, a
  canonical envelope within the caps and a valid signature over the Sig_structure verify, and the parts
  come back, when the reader materialises the two canonical encodings as the values they encode.
\<close>

theorem verify_sign1_complete:
  assumes header: "canonical_bytes h (int md) COSE_PROFILE = Some pb" "kid_of h = Some k" "keys k = Some key"
    and signed: "sig_structure pb pl = Some msg" "ed25519_verify C key msg sg"
    and envelope: "canonical_bytes (CArray [CBytes pb, CMap u, payload_item pl, CBytes sg]) (int md) COSE_PROFILE = Some rest"
    and caps: "Suc (length rest) \<le> mb" "Suc (length rest) < 2 ^ 64" "length rest \<le> MAX_ITEMS"
    and reader: "cbor_from_reader C rest = Some (CArray [CBytes pb, CMap u, payload_item pl, CBytes sg])"
      "cbor_from_reader C pb = Some h"
  shows "verify_sign1 C (TAG_SIGN1 # rest) keys mb md
    = Some \<lparr>s1_protected = h, s1_unprotected = CMap u, s1_payload = pl, s1_kid = k\<rparr>"
proof -
  let ?v = "CArray [CBytes pb, CMap u, payload_item pl, CBytes sg]"
  have scan: "structural_scan b md MAX_ITEMS = Some (length b)"
    if "canonical_bytes v (int md) COSE_PROFILE = Some b" "length b \<le> length rest" for v b
    using seq_write_value [OF that(1) [unfolded canonical_bytes_def], of "[]" "[]"] that(2) caps(2,3)
    by (auto simp: scan_item_cap_free)
  have "length pb \<le> length rest" by (rule envelope_header_length [OF envelope])
  then have "decode_canonical C pb md = Some h" using header(1) reader(2) scan by (simp add: decode_canonical_iff)
  moreover have "decode_canonical C rest md = Some ?v" using envelope reader(1) scan by (simp add: decode_canonical_iff)
  moreover have "unpack ?v = Some (pb, CMap u, pl, sg)" by (simp add: unpack_iff payload_item_def)
  ultimately show ?thesis using header signed caps(1) by (auto simp: verify_sign1_iff)
qed


text \<open>A small signed statement, and crates that accept it.\<close>

definition toy_header :: cbor where
  "toy_header = CMap [(CInteger 4, CBytes (as_bytes ''k''))]"

definition toy_header_bytes :: bytes where
  "toy_header_bytes = [0xa1, 0x04, 0x41, 0x6b]"

definition toy_sig_input :: bytes where
  "toy_sig_input = [0x84, 0x6a] @ as_bytes ''Signature1'' @ [0x44] @ toy_header_bytes @ [0x40, 0x41, 7]"

definition toy_envelope :: cbor where
  "toy_envelope = CArray [CBytes toy_header_bytes, CMap [], payload_item (Some [7]), CBytes (replicate 64 1)]"

definition toy_envelope_bytes :: bytes where
  "toy_envelope_bytes = [0x84, 0x44] @ toy_header_bytes @ [0xa0, 0x41, 7, 0x58, 64] @ replicate 64 1"

definition toy_cose_crates :: crates where
  "toy_cose_crates = toy_base\<lparr>
     cbor_from_reader := [toy_envelope_bytes \<mapsto> toy_envelope, toy_header_bytes \<mapsto> toy_header],
     vk_verify := \<lambda>k m s. k = [9] \<and> m = toy_sig_input \<and> s = replicate 64 1\<rparr>"

lemma toy_cose_bytes:
  "canonical_bytes toy_header 2 COSE_PROFILE = Some toy_header_bytes"
  "kid_of toy_header = Some ''k''"
  "sig_structure toy_header_bytes (Some [7]) = Some toy_sig_input"
  "canonical_bytes toy_envelope 2 COSE_PROFILE = Some toy_envelope_bytes"
  "length toy_envelope_bytes = 75"
  by code_simp+

theorem verify_sign1_complete_witness:
  "verify_sign1 toy_cose_crates (TAG_SIGN1 # toy_envelope_bytes) [''k'' \<mapsto> [9]] 100 2
     = Some \<lparr>s1_protected = toy_header, s1_unprotected = CMap [], s1_payload = Some [7], s1_kid = ''k''\<rparr>"
proof (rule verify_sign1_complete)
  show "canonical_bytes toy_header (int 2) COSE_PROFILE = Some toy_header_bytes" using toy_cose_bytes(1) by simp
  show "canonical_bytes (CArray [CBytes toy_header_bytes, CMap [], payload_item (Some [7]), CBytes (replicate 64 1)])
      (int 2) COSE_PROFILE = Some toy_envelope_bytes"
    using toy_cose_bytes(4) by (simp add: toy_envelope_def)
  show "ed25519_verify toy_cose_crates [9] toy_sig_input (replicate 64 1)"
    by (simp add: ed25519_verify_def toy_cose_crates_def toy_base_def)
  have "toy_header_bytes \<noteq> toy_envelope_bytes" by (simp add: toy_header_bytes_def toy_envelope_bytes_def)
  then show "cbor_from_reader toy_cose_crates toy_envelope_bytes
      = Some (CArray [CBytes toy_header_bytes, CMap [], payload_item (Some [7]), CBytes (replicate 64 1)])"
    by (simp add: toy_cose_crates_def toy_envelope_def)
qed (simp_all add: toy_cose_bytes MAX_ITEMS_def toy_cose_crates_def)

lemma toy_cose_accepted:
  "verify_sign1 toy_cose_crates (TAG_SIGN1 # toy_envelope_bytes) [''k'' \<mapsto> [9]] 100 2
     = Some \<lparr>s1_protected = toy_header, s1_unprotected = CMap [], s1_payload = Some [7], s1_kid = ''k''\<rparr>"
proof -
  have scan: "structural_scan b 2 MAX_ITEMS = Some (length b)"
    if "canonical_bytes v 2 COSE_PROFILE = Some b" "length b \<le> 75" for v b
    using seq_write_value [OF that(1) [unfolded canonical_bytes_def], of "[]" "[]"] that(2)
    by (auto simp: scan_item_cap_free MAX_ITEMS_def)
  have ne: "toy_header_bytes \<noteq> toy_envelope_bytes" "length toy_header_bytes \<le> 75"
    by (simp_all add: toy_header_bytes_def toy_envelope_bytes_def)
  have "decode_canonical toy_cose_crates toy_header_bytes 2 = Some toy_header"
    "decode_canonical toy_cose_crates toy_envelope_bytes 2 = Some toy_envelope"
    using scan [OF toy_cose_bytes(1)] scan [OF toy_cose_bytes(4)] toy_cose_bytes ne
    by (simp_all add: decode_canonical_iff toy_cose_crates_def)
  moreover have "unpack toy_envelope = Some (toy_header_bytes, CMap [], Some [7], replicate 64 1)"
    by (simp add: unpack_iff toy_envelope_def payload_item_def)
  moreover have "ed25519_verify toy_cose_crates [9] toy_sig_input (replicate 64 1)"
    by (simp add: ed25519_verify_def toy_cose_crates_def toy_base_def)
  ultimately show ?thesis using toy_cose_bytes by (auto simp: verify_sign1_iff)
qed

theorem verify_sign1_authentic_witness:
  "\<exists>pb sg key msg body. TAG_SIGN1 # toy_envelope_bytes = TAG_SIGN1 # body \<and> 76 \<le> (100 :: nat) \<and>
     canonical_bytes (CArray [CBytes pb, CMap [], payload_item (Some [7]), CBytes sg]) 2 COSE_PROFILE = Some body \<and>
     canonical_bytes toy_header 2 COSE_PROFILE = Some pb \<and>
     kid_of toy_header = Some ''k'' \<and> [''k'' \<mapsto> [9]] ''k'' = Some key \<and>
     sig_structure pb (Some [7]) = Some msg \<and> ed25519_verify toy_cose_crates key msg sg"
  using verify_sign1_authentic [OF toy_cose_accepted] toy_cose_bytes(5) by simp

theorem verify_sign1_reader_independent_witness:
  "s1_payload \<lparr>s1_protected = toy_header, s1_unprotected = CMap [], s1_payload = Some [7], s1_kid = ''k''\<rparr> = Some [7]"
  using verify_sign1_reader_independent [OF toy_cose_accepted toy_cose_accepted] toy_cose_bytes(5) by simp

definition toy_empty_input :: "u8 \<Rightarrow> bytes" where
  "toy_empty_input b = [0x84, 0x6a] @ as_bytes ''Signature1'' @ [0x41, b, 0x40, 0x40]"

theorem sig_structure_fixes_content_witness:
  "sig_structure [1] None = Some (toy_empty_input 1) \<and> sig_structure [1] (Some []) = Some (toy_empty_input 1) \<and>
   ([1] :: bytes) = [1] \<and> (None = Some ([] :: bytes) \<or> {None, Some ([] :: bytes)} = {None, Some []})"
proof -
  have e: "sig_structure [1] None = Some (toy_empty_input 1)" "sig_structure [1] (Some []) = Some (toy_empty_input 1)"
    by code_simp+
  have "length (toy_empty_input 1) < 2 ^ 64" by (simp add: toy_empty_input_def)
  with e show ?thesis using sig_structure_fixes_content [of "[1]" None "[1]" "Some []"] by blast
qed

end
