(* ===== verification/Scitt.thy ===== *)
theory Scitt
  imports Trust Checkpoints Cose
begin

text \<open>
  \<open>verify-rs/src/scitt.rs\<close>: registration of a certificate in a transparency service. A signed statement
  (COSE_Sign1 of the certificate id by its issuer) and a receipt (COSE_Sign1 of a checkpoint hash by the service)
  are checked together: the receipt carries the checkpoint and an inclusion proof of the statement. A SCITT
  pack adds the registration policy that authorises the keys of the service. The key maps of the callers are partial
  maps; the trusted roots, whose values are enumerated, are the entries of the \<open>BTreeMap\<close>.
\<close>

section \<open>Constants and shapes\<close>

definition SCITT_MAX_BYTES :: nat where
  "SCITT_MAX_BYTES = 65536"

definition SCITT_MAX_DEPTH :: nat where
  "SCITT_MAX_DEPTH = 16"

definition MAX_AUDIT_PATH :: nat where
  "MAX_AUDIT_PATH = 64"

definition CHECKPOINT_SCHEMA :: string where
  "CHECKPOINT_SCHEMA = ''evd/checkpoint/v1''"

definition SCITT_CHECKPOINT_TYPE :: string where
  "SCITT_CHECKPOINT_TYPE = ''application/vnd.evd.checkpoint.v1+json''"

definition PACK_SCHEMA :: string where
  "PACK_SCHEMA = ''evd/scitt-pack/v1''"

definition POLICY_SCHEMA :: string where
  "POLICY_SCHEMA = ''evd/registration-policy/v1''"

definition POLICY_PROFILE :: string where
  "POLICY_PROFILE = ''scitt-action-profile-v1''"

definition STATEMENT_CTY :: string where
  "STATEMENT_CTY = ''application/vnd.swarrm.action-certificate+cbor''"

definition SCOPE_DIGEST_CLAIM :: string where
  "SCOPE_DIGEST_CLAIM = ''evd_scope_digest''"

definition PACK_FIELDS :: "string list" where
  "PACK_FIELDS = [''schema'', ''certificate_id'', ''signed_statement'', ''receipt'', ''checkpoint'', ''registration_policy'', ''ts_jwks'']"

definition PACK_OPTIONAL_FIELDS :: "string list" where
  "PACK_OPTIONAL_FIELDS = [''anchor_record'', ''tst_record'']"

definition POLICY_FIELDS :: "string list" where
  "POLICY_FIELDS = [''schema'', ''policy_version'', ''ts_origin'', ''accepted_profiles'', ''max_statement_bytes'', ''ts_keys'', ''signature'']"

definition CHECKPOINT_FIELDS :: "string list" where
  "CHECKPOINT_FIELDS = [''schema'', ''origin'', ''tree_size'', ''root_hash'', ''ts'', ''prev_hash'']"

definition CHECKPOINT_OPTIONAL_FIELDS :: "string list" where
  "CHECKPOINT_OPTIONAL_FIELDS = [''alg'']"

definition object_fields :: "json \<Rightarrow> string list \<Rightarrow> string list \<Rightarrow> (string \<times> json) list option" where
  "object_fields v required optional =
     (case as_object v of
        None \<Rightarrow> None
      | Some m \<Rightarrow>
          if \<not> list_all (contains_key m) required then None
          else then_some (list_all (\<lambda>(name, _). name \<in> set required \<or> name \<in> set optional) m) m)"

definition strict_b64 :: "crates \<Rightarrow> string \<Rightarrow> bytes option" where
  "strict_b64 C v = (case B64_decode C v of None \<Rightarrow> None | Some raw \<Rightarrow> then_some (B64_encode C raw = v) raw)"

definition scitt_pae :: "string \<Rightarrow> bytes \<Rightarrow> bytes" where
  "scitt_pae payload_type payload =
     as_bytes (''DSSEv1 '' @ nat_to_string (length payload_type) @ '' '' @ payload_type @ '' ''
       @ nat_to_string (length payload) @ '' '') @ payload"

section \<open>Access to CBOR maps\<close>

definition imap :: "cbor \<Rightarrow> int \<Rightarrow> cbor option" where
  "imap v key = (case v of CMap m \<Rightarrow> map_of m (CInteger key) | _ \<Rightarrow> None)"

definition tmap :: "cbor \<Rightarrow> string \<Rightarrow> cbor option" where
  "tmap v key = (case v of CMap m \<Rightarrow> map_of m (CText key) | _ \<Rightarrow> None)"

definition as_uint :: "cbor \<Rightarrow> u64 option" where
  "as_uint v = (case v of CInteger i \<Rightarrow> then_some (0 \<le> i \<and> i < 2 ^ 64) (word_of_int i) | _ \<Rightarrow> None)"

definition as_int :: "cbor \<Rightarrow> int option" where
  "as_int v = (case v of CInteger i \<Rightarrow> Some i | _ \<Rightarrow> None)"

definition as_text :: "cbor \<Rightarrow> string option" where
  "as_text v = (case v of CText t \<Rightarrow> Some t | _ \<Rightarrow> None)"

definition btext :: "cbor \<Rightarrow> string \<Rightarrow> string option" where
  "btext v key = Option.bind (tmap v key) as_text"

definition map_len :: "cbor \<Rightarrow> nat option" where
  "map_len v = (case v of CMap m \<Rightarrow> Some (length m) | _ \<Rightarrow> None)"

definition hex32 :: "string \<Rightarrow> bool" where
  "hex32 s = (length s = 64 \<and> list_all is_lower_hex s)"

section \<open>Profiles of statement and receipt\<close>

definition checkpoint_algorithm :: "cbor \<Rightarrow> string option option" where
  "checkpoint_algorithm body =
     (case tmap body ''alg'' of
        None \<Rightarrow> Some None
      | Some (CText v) \<Rightarrow> if v = ''EdDSA'' then Some (Some v) else None
      | Some _ \<Rightarrow> None)"

definition statement_profile :: "Sign1 \<Rightarrow> bytes \<Rightarrow> string \<Rightarrow> bool" where
  "statement_profile stmt cid certificate_id =
     (if s1_payload stmt \<noteq> Some cid \<or> length cid \<noteq> 32 \<or> \<not> hex32 certificate_id then False
      else if map_len (s1_unprotected stmt) \<noteq> Some 0 \<or> map_len (s1_protected stmt) \<noteq> Some 4 then False
      else if Option.bind (imap (s1_protected stmt) 1) as_int \<noteq> Some (- 8)
           \<or> Option.bind (imap (s1_protected stmt) 3) as_text \<noteq> Some STATEMENT_CTY then False
      else (case imap (s1_protected stmt) 15 of
              None \<Rightarrow> False
            | Some claims \<Rightarrow>
                (let scope = Option.bind (tmap claims SCOPE_DIGEST_CLAIM) as_text;
                     expected_claims = (if scope \<noteq> None then 3 else 2) in
                 map_len claims = Some expected_claims
                 \<and> is_some_and (Option.bind (imap claims 1) as_text) (\<lambda>s. s \<noteq> [])
                 \<and> Option.bind (imap claims 2) as_text = Some certificate_id
                 \<and> is_none_or scope hex32)))"

definition receipt_profile :: "Sign1 \<Rightarrow> bool" where
  "receipt_profile receipt =
     (map_len (s1_protected receipt) = Some 3
      \<and> Option.bind (imap (s1_protected receipt) 1) as_int = Some (- 8)
      \<and> Option.bind (imap (s1_protected receipt) 395) as_int = Some 1
      \<and> is_some_and (s1_payload receipt) (\<lambda>p. length p = 32))"

section \<open>The carried checkpoint\<close>

text \<open>The object of \<open>json!\<close> is a \<open>BTreeMap\<close>: its members are in the order of their names, and \<open>alg\<close> is inserted into it.\<close>

definition checkpoint_body :: "cbor \<Rightarrow> (json \<times> string \<times> u64) option" where
  "checkpoint_body body = do {
     algorithm \<leftarrow> checkpoint_algorithm body;
     schema \<leftarrow> btext body ''schema'';
     if (schema, map_len body) \<noteq> (CHECKPOINT_SCHEMA, Some (6 + (if algorithm \<noteq> None then 1 else 0))) then None
     else do {
       root_hex \<leftarrow> btext body ''root_hash'';
       v \<leftarrow> tmap body ''tree_size'';
       tree_size \<leftarrow> as_uint v;
       origin \<leftarrow> btext body ''origin'';
       ts \<leftarrow> btext body ''ts'';
       prev_hash \<leftarrow> btext body ''prev_hash'';
       let obj = [(''origin'', JString origin), (''prev_hash'', JString prev_hash), (''root_hash'', JString root_hex),
                  (''schema'', JString CHECKPOINT_SCHEMA), (''tree_size'', JNumber (PosInt tree_size)), (''ts'', JString ts)];
       let obj' = (case algorithm of None \<Rightarrow> obj | Some v \<Rightarrow> btree_insert ''alg'' (JString v) obj);
       Some (JObject obj', root_hex, tree_size)
     }
   }"

definition checkpoint :: "crates \<Rightarrow> cbor \<Rightarrow> (json \<times> string \<times> bytes \<times> u64) option" where
  "checkpoint C unprotected = do {
     carried \<leftarrow> imap unprotected (- 2);
     (obj, root_hex, tree_size) \<leftarrow> checkpoint_body carried;
     canon \<leftarrow> canonical_checked C obj;
     root \<leftarrow> hex_to_bytes root_hex;
     Some (obj, hex (sha256 C canon), root, tree_size)
   }"

definition checkpoint_json_body :: "json \<Rightarrow> bool" where
  "checkpoint_json_body body =
     (object_fields body CHECKPOINT_FIELDS CHECKPOINT_OPTIONAL_FIELDS \<noteq> None
      \<and> is_none_or (get body ''alg'') (\<lambda>v. as_str v = Some ''EdDSA'')
      \<and> get_str body ''schema'' = Some CHECKPOINT_SCHEMA
      \<and> get_str body ''origin'' \<noteq> None
      \<and> get_u64 body ''tree_size'' \<noteq> None
      \<and> get_str body ''root_hash'' \<noteq> None
      \<and> get_str body ''ts'' \<noteq> None
      \<and> get_str body ''prev_hash'' \<noteq> None)"

definition verify_signed_checkpoint :: "crates \<Rightarrow> json \<Rightarrow> (string \<rightharpoonup> bytes) \<Rightarrow> string option \<Rightarrow> bool" where
  "verify_signed_checkpoint C cp keys expected_origin =
     (if object_fields cp [''body'', ''kid'', ''sig''] [] = None then False
      else (case ofilter checkpoint_json_body (get cp ''body'') of
        None \<Rightarrow> False
      | Some body \<Rightarrow>
          if is_some_and expected_origin (\<lambda>origin. get_str body ''origin'' \<noteq> Some origin) then False
          else (case Option.bind (get_str cp ''kid'') keys of
            None \<Rightarrow> False
          | Some key \<Rightarrow>
              (case Option.bind (get_str cp ''sig'') (strict_b64 C) of
                 None \<Rightarrow> False
               | Some signature \<Rightarrow>
                   (case canonical_checked C body of
                      None \<Rightarrow> False
                    | Some canonical \<Rightarrow> ed25519_verify C key (scitt_pae SCITT_CHECKPOINT_TYPE canonical) signature)))))"

section \<open>The registration policy\<close>

definition policy_shape :: "json \<Rightarrow> nat \<Rightarrow> bool" where
  "policy_shape policy statement_bytes =
     (let maximum = get_u64 policy ''max_statement_bytes'' in
      object_fields policy POLICY_FIELDS [] \<noteq> None
      \<and> get_str policy ''schema'' = Some POLICY_SCHEMA
      \<and> value_eq_opt (get policy ''accepted_profiles'') (Some (JArray [JString POLICY_PROFILE]))
      \<and> is_some_and maximum (\<lambda>limit. statement_bytes \<le> unat limit \<and> unat limit \<le> SCITT_MAX_BYTES)
      \<and> is_some_and (get_str policy ''policy_version'') (\<lambda>v. v \<noteq> [])
      \<and> is_some_and (get_str policy ''ts_origin'') (\<lambda>v. v \<noteq> []))"

definition policy_signature_valid :: "crates \<Rightarrow> json \<Rightarrow> (string \<times> bytes) list \<Rightarrow> bool" where
  "policy_signature_valid C policy trusted_roots =
     (case Option.bind (get_str policy ''signature'') (strict_b64 C) of
        None \<Rightarrow> False
      | Some signature \<Rightarrow>
          (case as_object policy of
             None \<Rightarrow> False
           | Some m \<Rightarrow>
               (let unsigned = filter (\<lambda>(name, _). name \<noteq> ''signature'') m in
                case canonical_checked C (JObject unsigned) of
                  None \<Rightarrow> False
                | Some canonical \<Rightarrow> list_ex (\<lambda>(_, root). ed25519_verify C root canonical signature) trusted_roots)))"

definition policy_key :: "crates \<Rightarrow> json \<Rightarrow> (json \<times> string \<times> bytes) option" where
  "policy_key C entry = do {
     _ \<leftarrow> object_fields entry [''kid'', ''jwk''] [];
     jwk \<leftarrow> get entry ''jwk'';
     _ \<leftarrow> object_fields jwk [''alg'', ''crv'', ''kid'', ''kty'', ''use'', ''x''] [];
     (raw, derived) \<leftarrow> key_from_jwk C jwk;
     then_some (get_str entry ''kid'' = Some derived \<and> get_str jwk ''kid'' = Some derived) (jwk, derived, raw)
   }"

definition carried_ts_jwks :: "json \<Rightarrow> nat \<Rightarrow> json list option" where
  "carried_ts_jwks pack expected = do {
     jwks \<leftarrow> get pack ''ts_jwks'';
     m \<leftarrow> object_fields jwks [''keys''] [];
     v \<leftarrow> map_of m ''keys'';
     carried \<leftarrow> as_array v;
     then_some (length carried = expected) carried
   }"

definition insert_policy_key :: "crates \<Rightarrow> (string \<rightharpoonup> bytes) \<Rightarrow> json \<Rightarrow> json \<Rightarrow> (string \<rightharpoonup> bytes) option" where
  "insert_policy_key C keys entry carried_jwk =
     (case policy_key C entry of
        None \<Rightarrow> None
      | Some (jwk, kid, raw) \<Rightarrow> then_some (value_eq carried_jwk jwk \<and> keys kid = None) (keys(kid \<mapsto> raw)))"

fun policy_keys_loop :: "crates \<Rightarrow> (string \<rightharpoonup> bytes) \<Rightarrow> (json \<times> json) list \<Rightarrow> (string \<rightharpoonup> bytes) option" where
  "policy_keys_loop C keys [] = Some keys"
| "policy_keys_loop C keys ((entry, carried_jwk) # rest) =
     (case insert_policy_key C keys entry carried_jwk of
        None \<Rightarrow> None | Some keys' \<Rightarrow> policy_keys_loop C keys' rest)"

definition policy_ts_keys :: "crates \<Rightarrow> json \<Rightarrow> json \<Rightarrow> (string \<rightharpoonup> bytes) option" where
  "policy_ts_keys C policy pack = do {
     entries \<leftarrow> get_array policy ''ts_keys'';
     if \<not> (1 \<le> length entries \<and> length entries \<le> 64) then None
     else do {
       carried \<leftarrow> carried_ts_jwks pack (length entries);
       policy_keys_loop C Map.empty (zip entries carried)
     }
   }"

definition verified_scitt_pack_keys :: "crates \<Rightarrow> json \<Rightarrow> (string \<times> bytes) list \<Rightarrow> bytes \<Rightarrow> (string \<rightharpoonup> bytes) option" where
  "verified_scitt_pack_keys C pack trusted_roots signed_statement = do {
     m \<leftarrow> object_fields pack PACK_FIELDS PACK_OPTIONAL_FIELDS;
     if Option.bind (map_of m ''schema'') as_str \<noteq> Some PACK_SCHEMA then None
     else do {
       policy \<leftarrow> map_of m ''registration_policy'';
       if \<not> (policy_shape policy (length signed_statement) \<and> policy_signature_valid C policy trusted_roots) then None
       else do {
         keys \<leftarrow> policy_ts_keys C policy pack;
         origin \<leftarrow> get_str policy ''ts_origin'';
         cp \<leftarrow> map_of m ''checkpoint'';
         then_some (verify_signed_checkpoint C cp keys (Some origin)) keys
       }
     }
   }"

section \<open>The receipt\<close>

definition inclusion :: "cbor \<Rightarrow> (u64 \<times> u64 \<times> bytes list) option" where
  "inclusion unprotected = do {
     proofs \<leftarrow> imap unprotected 396;
     triple \<leftarrow> imap proofs (- 1);
     (case triple of
        CArray [a, b, c] \<Rightarrow> do {
          tree_size \<leftarrow> as_uint a;
          leaf_index \<leftarrow> as_uint b;
          (case c of
             CArray raw \<Rightarrow>
               if length raw > MAX_AUDIT_PATH then None
               else do {
                 path \<leftarrow> collect_opt (\<lambda>h. case h of CBytes x \<Rightarrow> then_some (length x = 32) x | _ \<Rightarrow> None) raw;
                 Some (tree_size, leaf_index, path)
               }
           | _ \<Rightarrow> None)
        }
      | _ \<Rightarrow> None)
   }"

definition receipt_checkpoint ::
  "crates \<Rightarrow> Sign1 \<Rightarrow> (string \<rightharpoonup> bytes) \<Rightarrow> json option \<Rightarrow> (bytes \<times> u64) option" where
  "receipt_checkpoint C rcpt ts_keys expected_checkpoint = do {
     (inner, body_hash, root, tree_size) \<leftarrow> checkpoint C (s1_unprotected rcpt);
     if map_option hex (s1_payload rcpt) \<noteq> Some body_hash then None
     else (case expected_checkpoint of
             None \<Rightarrow> Some (root, tree_size)
           | Some outer \<Rightarrow>
               then_some (value_eq_opt (get outer ''body'') (Some inner) \<and> verify_signed_checkpoint C outer ts_keys None)
                 (root, tree_size))
   }"

definition verify_scitt_receipt_inner ::
  "crates \<Rightarrow> bytes \<Rightarrow> bytes \<Rightarrow> (string \<rightharpoonup> bytes) \<Rightarrow> (string \<rightharpoonup> bytes) \<Rightarrow> string \<Rightarrow> json option \<Rightarrow> bool" where
  "verify_scitt_receipt_inner C signed_statement receipt ts_keys issuer_keys certificate_id expected_checkpoint =
     (if \<not> hex32 certificate_id then False
      else (case hex_to_bytes certificate_id of None \<Rightarrow> False | Some cid \<Rightarrow>
           (case verify_sign1 C signed_statement issuer_keys SCITT_MAX_BYTES SCITT_MAX_DEPTH of None \<Rightarrow> False | Some stmt \<Rightarrow>
              if \<not> statement_profile stmt cid certificate_id then False
              else (let statement_digest = sha256 C signed_statement in
                case verify_sign1 C receipt ts_keys SCITT_MAX_BYTES SCITT_MAX_DEPTH of None \<Rightarrow> False | Some rcpt \<Rightarrow>
                  if \<not> receipt_profile rcpt then False
                  else (case receipt_checkpoint C rcpt ts_keys expected_checkpoint of None \<Rightarrow> False | Some (root, checkpoint_size) \<Rightarrow>
                    (case inclusion (s1_unprotected rcpt) of None \<Rightarrow> False | Some (tree_size, leaf_index, path) \<Rightarrow>
                       if tree_size \<noteq> checkpoint_size \<or> leaf_index \<ge> tree_size then False
                       else (let leaf = sha256 C (0 # statement_digest) in
                             verify_inclusion (sha256 C) leaf leaf_index tree_size path root)))))))"

definition verify_scitt_receipt ::
  "crates \<Rightarrow> bytes \<Rightarrow> bytes \<Rightarrow> (string \<rightharpoonup> bytes) \<Rightarrow> (string \<rightharpoonup> bytes) \<Rightarrow> string \<Rightarrow> bool" where
  "verify_scitt_receipt C signed_statement receipt ts_keys issuer_keys certificate_id =
     verify_scitt_receipt_inner C signed_statement receipt ts_keys issuer_keys certificate_id None"

definition verify_scitt_receipt_with_checkpoint ::
  "crates \<Rightarrow> bytes \<Rightarrow> bytes \<Rightarrow> (string \<rightharpoonup> bytes) \<Rightarrow> (string \<rightharpoonup> bytes) \<Rightarrow> string \<Rightarrow> json \<Rightarrow> bool" where
  "verify_scitt_receipt_with_checkpoint C signed_statement receipt ts_keys issuer_keys certificate_id expected_checkpoint =
     verify_scitt_receipt_inner C signed_statement receipt ts_keys issuer_keys certificate_id (Some expected_checkpoint)"

section \<open>Lower-case hex\<close>

lemma hex_nibble_lower:
  assumes "is_lower_hex c"
  shows "\<exists>n < 16. hex_nibble c = Some (of_nat n) \<and> hex_digit n = c"
proof -
  have "list_all (\<lambda>c. is_lower_hex c \<longrightarrow> list_ex (\<lambda>n. hex_nibble c = Some (of_nat n) \<and> hex_digit n = c) [0..<16]) Enum.enum"
    by code_simp
  then show ?thesis using assms by (fastforce simp: list_all_iff list_ex_iff enum_UNIV)
qed

lemma hex_join_nibbles:
  assumes "h < 16" "l < 16"
  shows "unat (push_bit 4 (of_nat h) OR of_nat l :: u8) = 16 * h + l"
proof -
  have "list_all (\<lambda>h. list_all (\<lambda>l. unat (push_bit 4 (of_nat h) OR of_nat l :: u8) = 16 * h + l) [0..<16]) [0..<16]"
    by code_simp
  then show ?thesis using assms by (simp add: list_all_iff)
qed

lemma hex_loop_lower:
  "even (length s) \<Longrightarrow> list_all is_lower_hex s \<Longrightarrow> \<exists>b. hex_loop s = Some b \<and> hex b = s"
proof (induction s rule: hex_loop.induct)
  case (1 a b s)
  from hex_nibble_lower [of a] "1.prems" obtain h where h: "h < 16" "hex_nibble a = Some (of_nat h)" "hex_digit h = a" by auto
  from hex_nibble_lower [of b] "1.prems" obtain l where l: "l < 16" "hex_nibble b = Some (of_nat l)" "hex_digit l = b" by auto
  from 1 h l obtain bs where "hex_loop s = Some bs" "hex bs = s" by auto
  with h l show ?case by (simp add: hex_def hex_join_nibbles)
qed (auto simp: hex_def)

text \<open>A certificate id is the hex text of the 32 bytes it decodes to.\<close>

lemma hex32_bytes:
  assumes "hex32 s"
  shows "\<exists>b. hex_to_bytes s = Some b \<and> hex b = s \<and> length b = 32"
proof -
  have s: "length s = 64" "list_all is_lower_hex s" using assms by (auto simp: hex32_def)
  then obtain b where "hex_loop s = Some b" "hex b = s" using hex_loop_lower [of s] by auto
  with s length_hex [of b] show ?thesis by (auto simp: hex_to_bytes_def)
qed

text \<open>The second pre-authentication encoding of the sources is the first.\<close>

lemma scitt_pae_eq: "scitt_pae t p = pae t p"
  by (simp add: scitt_pae_def pae_def as_bytes_def)

section \<open>What acceptance gives\<close>

lemma object_fields_Some:
  "object_fields v required optional = Some m \<longleftrightarrow>
     v = JObject m \<and> list_all (contains_key m) required \<and> fst ` set m \<subseteq> set required \<union> set optional"
  by (auto simp: object_fields_def as_object_def list_all_iff split: json.splits if_splits)

lemma as_text_Some: "as_text v = Some t \<longleftrightarrow> v = CText t"
  by (auto simp: as_text_def split: cbor.splits)

lemma statement_profile_claims:
  assumes "statement_profile stmt b cid"
  shows "s1_payload stmt = Some b \<and>
    (\<exists>claims. imap (s1_protected stmt) 15 = Some claims \<and> Option.bind (imap claims 2) as_text = Some cid)"
  using assms unfolding statement_profile_def Let_def by (auto split: if_splits option.splits)

lemma receipt_inner_cases:
  assumes "verify_scitt_receipt_inner C st rc ts iss cid outer"
  obtains b stmt rcpt root n i path where
    "hex b = cid" "length b = 32"
    "verify_sign1 C st iss SCITT_MAX_BYTES SCITT_MAX_DEPTH = Some stmt" "statement_profile stmt b cid"
    "verify_sign1 C rc ts SCITT_MAX_BYTES SCITT_MAX_DEPTH = Some rcpt" "receipt_profile rcpt"
    "receipt_checkpoint C rcpt ts outer = Some (root, n)" "inclusion (s1_unprotected rcpt) = Some (n, i, path)"
    "verify_inclusion (Sha256 C) (data_leaf (Sha256 C) st) i n path root"
proof -
  have h: "hex32 cid" using assms by (simp add: verify_scitt_receipt_inner_def split: if_splits)
  then obtain b where b: "hex_to_bytes cid = Some b" "hex b = cid" "length b = 32" using hex32_bytes by blast
  have "\<exists>stmt rcpt root n i path.
      verify_sign1 C st iss SCITT_MAX_BYTES SCITT_MAX_DEPTH = Some stmt \<and> statement_profile stmt b cid \<and>
      verify_sign1 C rc ts SCITT_MAX_BYTES SCITT_MAX_DEPTH = Some rcpt \<and> receipt_profile rcpt \<and>
      receipt_checkpoint C rcpt ts outer = Some (root, n) \<and> inclusion (s1_unprotected rcpt) = Some (n, i, path) \<and>
      verify_inclusion (Sha256 C) (data_leaf (Sha256 C) st) i n path root"
    using assms h b(1)
    by (auto simp: verify_scitt_receipt_inner_def Let_def sha256_def [abs_def] data_leaf_def
        split: if_splits option.splits prod.splits)
  with b that show ?thesis by blast
qed

lemma inclusion_path:
  assumes "inclusion u = Some (n, i, path)"
  shows "\<forall>p \<in> set path. length p = 32"
proof -
  obtain raw where "collect_opt (\<lambda>h. case h of CBytes x \<Rightarrow> then_some (length x = 32) x | _ \<Rightarrow> None) raw = Some path"
    using assms by (auto simp: inclusion_def split: Option.bind_splits cbor.splits list.splits if_splits)
  then have m: "map (\<lambda>h. case h of CBytes x \<Rightarrow> then_some (length x = 32) x | _ \<Rightarrow> None) raw = map Some path"
    by (simp add: collect_opt_Some_iff)
  show ?thesis
  proof
    fix p assume "p \<in> set path"
    then have "Some p \<in> set (map Some path)" by simp
    then show "length p = 32" unfolding m [symmetric] by (auto simp: then_some_def split: cbor.splits if_splits)
  qed
qed

text \<open>The signed content of a receipt: the canonical checkpoint body that its payload hashes.\<close>

definition receipt_commits :: "crates \<Rightarrow> Sign1 \<Rightarrow> json \<Rightarrow> bytes \<Rightarrow> u64 \<Rightarrow> bool" where
  "receipt_commits C rcpt body root n \<longleftrightarrow>
     (\<exists>canon root_hex. canonical_checked C body = Some canon \<and> s1_payload rcpt = Some (Sha256 C canon) \<and>
        get_str body ''root_hash'' = Some root_hex \<and> hex_to_bytes root_hex = Some root \<and> get_u64 body ''tree_size'' = Some n)"

lemma checkpoint_body_fields:
  assumes "checkpoint_body v = Some (body, root_hex, n)"
  shows "get_str body ''root_hash'' = Some root_hex \<and> get_u64 body ''tree_size'' = Some n"
  using assms
  by (auto simp: checkpoint_body_def Let_def bind_eq_Some_conv json_access btree_insert_def split: if_splits option.splits)

lemma receipt_checkpoint_commits:
  assumes "receipt_checkpoint C rcpt ts outer = Some (root, n)"
  obtains body where "receipt_commits C rcpt body root n"
    "\<forall>cp. outer = Some cp \<longrightarrow> value_eq_opt (get cp ''body'') (Some body) \<and> verify_signed_checkpoint C cp ts None"
proof -
  obtain body h where c: "checkpoint C (s1_unprotected rcpt) = Some (body, h, root, n)"
    and p: "map_option hex (s1_payload rcpt) = Some h"
    and o: "\<forall>cp. outer = Some cp \<longrightarrow> value_eq_opt (get cp ''body'') (Some body) \<and> verify_signed_checkpoint C cp ts None"
    using assms by (auto simp: receipt_checkpoint_def bind_eq_Some_conv split: if_splits option.splits)
  obtain v root_hex canon where v: "checkpoint_body v = Some (body, root_hex, n)" "canonical_checked C body = Some canon"
    "hex_to_bytes root_hex = Some root" "h = hex (Sha256 C canon)"
    using c by (auto simp: checkpoint_def bind_eq_Some_conv sha256_def)
  have "receipt_commits C rcpt body root n"
    using p v checkpoint_body_fields [OF v(1)] by (auto simp: receipt_commits_def hex_inject)
  with o that show ?thesis by blast
qed

text \<open>The bytes of a COSE_Sign1 fix its payload and its unprotected header, whatever the keys.\<close>

lemma sign1_content_fixed:
  assumes "verify_sign1 C cose keys mb md = Some s" "verify_sign1 C cose keys' mb md = Some s'"
  shows "s1_payload s = s1_payload s' \<and> s1_unprotected s = s1_unprotected s'"
  using assms unfolding verify_sign1_iff by auto

lemma receipt_checkpoint_root:
  "receipt_checkpoint C rcpt ts outer = Some (root, n) \<Longrightarrow> \<exists>body h. checkpoint C (s1_unprotected rcpt) = Some (body, h, root, n)"
  by (auto simp: receipt_checkpoint_def bind_eq_Some_conv split: if_splits option.splits)

section \<open>The keys of a policy\<close>

lemma policy_keys_loop_Some:
  assumes "policy_keys_loop C keys ps = Some ks"
  shows "\<exists>ts. map (\<lambda>(e, _). policy_key C e) ps = map Some ts \<and> distinct (map (fst \<circ> snd) ts) \<and>
    dom keys \<inter> (fst \<circ> snd) ` set ts = {} \<and> ks = keys ++ map_of (map snd ts)"
  using assms
proof (induction ps arbitrary: keys)
  case (Cons p ps)
  obtain e j where p: "p = (e, j)" by (cases p)
  from Cons.prems obtain jwk kid raw where k: "policy_key C e = Some (jwk, kid, raw)" "keys kid = None"
    and rest: "policy_keys_loop C (keys(kid \<mapsto> raw)) ps = Some ks"
    by (auto simp: p insert_policy_key_def split: option.splits if_splits)
  from Cons.IH [OF rest] obtain ts where ts: "map (\<lambda>(e, _). policy_key C e) ps = map Some ts"
    "distinct (map (fst \<circ> snd) ts)" "dom (keys(kid \<mapsto> raw)) \<inter> (fst \<circ> snd) ` set ts = {}"
    "ks = keys(kid \<mapsto> raw) ++ map_of (map snd ts)" by blast
  have fresh: "kid \<notin> (fst \<circ> snd) ` set ts" using ts(3) by auto
  then have "map_of (map snd ts) kid = None" by (force simp: map_of_eq_None_iff image_iff)
  then have ks: "ks = keys ++ map_of (map snd ((jwk, kid, raw) # ts))"
    using ts(4) by (auto simp: map_add_def fun_eq_iff split: option.splits)
  show ?case
  proof (intro exI conjI)
    show "map (\<lambda>(e, _). policy_key C e) (p # ps) = map Some ((jwk, kid, raw) # ts)" using ts(1) k by (simp add: p)
    show "distinct (map (fst \<circ> snd) ((jwk, kid, raw) # ts))" using ts(2) fresh by simp
    show "dom keys \<inter> (fst \<circ> snd) ` set ((jwk, kid, raw) # ts) = {}" using ts(3) k(2) by auto
    show "ks = keys ++ map_of (map snd ((jwk, kid, raw) # ts))" by (rule ks)
  qed
qed simp

text \<open>The keys a policy lists: each by the key id that its own material determines.\<close>

definition policy_registry :: "crates \<Rightarrow> json list \<Rightarrow> (string \<times> bytes) list" where
  "policy_registry C entries = map snd (List.map_filter (policy_key C) entries)"

lemma map_filter_all: "map f xs = map Some ys \<Longrightarrow> List.map_filter f xs = ys"
  by (induction xs arbitrary: ys) (auto simp: List.map_filter_simps)

lemma policy_ts_keys_Some:
  assumes "policy_ts_keys C policy pack = Some ks"
  shows "\<exists>entries. get_array policy ''ts_keys'' = Some entries \<and> 1 \<le> length entries \<and> length entries \<le> 64 \<and>
    length (policy_registry C entries) = length entries \<and> distinct (map fst (policy_registry C entries)) \<and>
    ks = map_of (policy_registry C entries)"
proof -
  obtain entries carried where e: "get_array policy ''ts_keys'' = Some entries" "1 \<le> length entries" "length entries \<le> 64"
    "carried_ts_jwks pack (length entries) = Some carried" "policy_keys_loop C Map.empty (zip entries carried) = Some ks"
    using assms by (auto simp: policy_ts_keys_def bind_eq_Some_conv split: if_splits)
  have len: "length carried = length entries" using e(4) by (auto simp: carried_ts_jwks_def bind_eq_Some_conv split: if_splits)
  from policy_keys_loop_Some [OF e(5)] obtain ts where ts:
    "map (\<lambda>(e, _). policy_key C e) (zip entries carried) = map Some ts" "distinct (map (fst \<circ> snd) ts)" "ks = map_of (map snd ts)"
    by auto
  have "map (\<lambda>(e, _). policy_key C e) (zip entries carried) = map (policy_key C) entries"
    using len by (simp add: case_prod_unfold map_fst_zip flip: map_map [of "policy_key C" fst, unfolded comp_def])
  then have "map (policy_key C) entries = map Some ts" using ts(1) by simp
  then have "List.map_filter (policy_key C) entries = ts" "length ts = length entries"
    by (auto intro: map_filter_all dest: arg_cong [of _ _ length])
  with e ts show ?thesis by (auto simp: policy_registry_def)
qed

text \<open>A checkpoint signed by a key of the given map, over the canonical form of its closed body.\<close>

definition checkpoint_signed :: "crates \<Rightarrow> (string \<rightharpoonup> bytes) \<Rightarrow> json \<Rightarrow> json \<Rightarrow> bool" where
  "checkpoint_signed C keys cp body \<longleftrightarrow>
     get cp ''body'' = Some body \<and> checkpoint_json_body body \<and>
     (\<exists>kid key sig_text sig canon. get_str cp ''kid'' = Some kid \<and> keys kid = Some key \<and>
        get_str cp ''sig'' = Some sig_text \<and> B64_decode C sig_text = Some sig \<and> canonical_checked C body = Some canon \<and>
        ed25519_verify C key (pae CHECKPOINT_TYPE canon) sig)"

lemma verify_signed_checkpoint_signed:
  assumes "verify_signed_checkpoint C cp keys origin"
  shows "\<exists>body. checkpoint_signed C keys cp body \<and> (\<forall>t. origin = Some t \<longrightarrow> get_str body ''origin'' = Some t)"
  using assms
  by (auto simp: verify_signed_checkpoint_def checkpoint_signed_def strict_b64_def scitt_pae_eq CHECKPOINT_TYPE_def
      SCITT_CHECKPOINT_TYPE_def ofilter_def bind_eq_Some_conv is_some_and_iff split: if_splits option.splits)

lemma policy_signature_root:
  assumes "policy_signature_valid C policy roots"
  obtains m sig_text sig canon name r where "policy = JObject m" "get_str policy ''signature'' = Some sig_text"
    "B64_decode C sig_text = Some sig" "canonical_checked C (JObject (filter (\<lambda>(name, _). name \<noteq> ''signature'') m)) = Some canon"
    "(name, r) \<in> set roots" "ed25519_verify C r canon sig"
  using assms
  by (auto simp: policy_signature_valid_def strict_b64_def as_object_def bind_eq_Some_conv list_ex_iff Let_def
      split: option.splits json.splits if_splits)

section \<open>Properties\<close>

text \<open>
  C35: an accepted receipt registers the certificate. The issuer signed a statement whose payload is exactly the
  certificate id and whose subject claim repeats it; the service signed the hash of a canonical checkpoint body; and in
  whatever log of signed statements that checkpoint's size and root commit to, the statement stands at the proven
  index, unless a hash collision is exhibited. When an outer checkpoint is demanded, its body is the carried one and it is
  itself signed by a key of the service.
\<close>

theorem scitt_receipt_registers:
  assumes len: "\<And>x. length (Sha256 C x) = 32"
    and acc: "verify_scitt_receipt_inner C st rc ts iss cid outer"
  shows "\<exists>stmt rcpt b claims body root n i path.
     verify_sign1 C st iss SCITT_MAX_BYTES SCITT_MAX_DEPTH = Some stmt \<and> s1_payload stmt = Some b \<and> hex b = cid \<and> length b = 32 \<and>
     imap (s1_protected stmt) 15 = Some claims \<and> imap claims 2 = Some (CText cid) \<and>
     verify_sign1 C rc ts SCITT_MAX_BYTES SCITT_MAX_DEPTH = Some rcpt \<and> receipt_commits C rcpt body root n \<and>
     (\<forall>cp. outer = Some cp \<longrightarrow> value_eq_opt (get cp ''body'') (Some body) \<and> (\<exists>outer_body. checkpoint_signed C ts cp outer_body)) \<and>
     (\<forall>ds. length ds = unat n \<longrightarrow> root = mth (Sha256 C) (map (data_leaf (Sha256 C)) ds) \<longrightarrow>
        unat i < length ds \<and>
        (st = ds ! unat i \<or> collides (Sha256 C) (leaf_inputs (Sha256 C) st i (length ds) path) (log_inputs (Sha256 C) ds)))"
proof -
  obtain b stmt rcpt root n i path where b: "hex b = cid" "length b = 32"
    and st: "verify_sign1 C st iss SCITT_MAX_BYTES SCITT_MAX_DEPTH = Some stmt" "statement_profile stmt b cid"
    and rc: "verify_sign1 C rc ts SCITT_MAX_BYTES SCITT_MAX_DEPTH = Some rcpt"
    and cp: "receipt_checkpoint C rcpt ts outer = Some (root, n)"
    and inc: "inclusion (s1_unprotected rcpt) = Some (n, i, path)"
      "verify_inclusion (Sha256 C) (data_leaf (Sha256 C) st) i n path root"
    using acc by (rule receipt_inner_cases)
  obtain body where body: "receipt_commits C rcpt body root n"
    "\<forall>cp. outer = Some cp \<longrightarrow> value_eq_opt (get cp ''body'') (Some body) \<and> verify_signed_checkpoint C cp ts None"
    using cp by (rule receipt_checkpoint_commits)
  obtain claims where claims: "s1_payload stmt = Some b" "imap (s1_protected stmt) 15 = Some claims" "imap claims 2 = Some (CText cid)"
    using statement_profile_claims [OF st(2)] by (auto simp: as_text_Some bind_eq_Some_conv)
  have outer: "value_eq_opt (get cp ''body'') (Some body) \<and> (\<exists>outer_body. checkpoint_signed C ts cp outer_body)"
    if "outer = Some cp" for cp using body(2) that verify_signed_checkpoint_signed by blast
  have leaf: "unat i < length ds \<and>
      (st = ds ! unat i \<or> collides (Sha256 C) (leaf_inputs (Sha256 C) st i (length ds) path) (log_inputs (Sha256 C) ds))"
    if "length ds = unat n" "root = mth (Sha256 C) (map (data_leaf (Sha256 C)) ds)" for ds
    using merkle.data_included [of "Sha256 C", OF len that(1) inclusion_path [OF inc(1)]] inc(2) that(2) by blast
  show ?thesis using b st(1) rc body(1) claims outer leaf by blast
qed

text \<open>
  A receipt registers one statement and one certificate. If the same receipt is accepted for two statements,
  under any keys and checkpoints, the statements are the same bytes and the certificate ids are equal, or two
  different inputs of the two inclusion runs have the same digest.
\<close>

theorem receipt_registers_one:
  assumes one: "verify_scitt_receipt_inner C st rc ts iss cid outer"
    and two: "verify_scitt_receipt_inner C st' rc ts' iss' cid' outer'"
  shows "st = st' \<and> cid = cid' \<or>
    (\<exists>i n path. collides (Sha256 C) (leaf_inputs (Sha256 C) st i n path) (leaf_inputs (Sha256 C) st' i n path))"
proof -
  obtain b stmt rcpt root n i path where a: "hex b = cid" "verify_sign1 C st iss SCITT_MAX_BYTES SCITT_MAX_DEPTH = Some stmt"
    "statement_profile stmt b cid" "verify_sign1 C rc ts SCITT_MAX_BYTES SCITT_MAX_DEPTH = Some rcpt"
    "receipt_checkpoint C rcpt ts outer = Some (root, n)" "inclusion (s1_unprotected rcpt) = Some (n, i, path)"
    "verify_inclusion (Sha256 C) (data_leaf (Sha256 C) st) i n path root"
    using one by (rule receipt_inner_cases)
  obtain b' stmt' rcpt' root' n' i' path' where a': "hex b' = cid'" "verify_sign1 C st' iss' SCITT_MAX_BYTES SCITT_MAX_DEPTH = Some stmt'"
    "statement_profile stmt' b' cid'" "verify_sign1 C rc ts' SCITT_MAX_BYTES SCITT_MAX_DEPTH = Some rcpt'"
    "receipt_checkpoint C rcpt' ts' outer' = Some (root', n')" "inclusion (s1_unprotected rcpt') = Some (n', i', path')"
    "verify_inclusion (Sha256 C) (data_leaf (Sha256 C) st') i' n' path' root'"
    using two by (rule receipt_inner_cases)
  have u: "s1_unprotected rcpt = s1_unprotected rcpt'"
    using sign1_content_fixed [OF a(4) a'(4)] by auto
  have r: "root = root'" using receipt_checkpoint_root [OF a(5)] receipt_checkpoint_root [OF a'(5)] u by auto
  have "st = st' \<or> collides (Sha256 C) (leaf_inputs (Sha256 C) st i (unat n) path) (leaf_inputs (Sha256 C) st' i (unat n) path)"
    using merkle.data_unique [OF a(7)] a'(7) a(6) a'(6) u r by simp
  moreover have "cid = cid'" if "st = st'"
  proof -
    have "s1_payload stmt = s1_payload stmt'" using sign1_content_fixed a(2) a'(2) that by blast
    moreover have "s1_payload stmt = Some b" "s1_payload stmt' = Some b'"
      using a(3) a'(3) by (simp_all add: statement_profile_claims)
    ultimately show ?thesis using a(1) a'(1) by simp
  qed
  ultimately show ?thesis by blast
qed

text \<open>
  The keys of a carried pack come from the policy alone. They are exactly the keys the registration policy lists,
  each under the id its material determines and without duplicates; the policy without its signature member is signed by a
  root the relying party supplied; the statement is within the policy's size limit; and the carried checkpoint is signed
  by one of those keys and names the policy's origin.
\<close>

theorem pack_keys_authorised:
  assumes "verified_scitt_pack_keys C pack roots st = Some keys"
  shows "\<exists>m sig_text sig canon name r limit entries cp body.
     get pack ''registration_policy'' = Some (JObject m) \<and>
     get_str (JObject m) ''signature'' = Some sig_text \<and> B64_decode C sig_text = Some sig \<and>
     canonical_checked C (JObject (filter (\<lambda>(name, _). name \<noteq> ''signature'') m)) = Some canon \<and>
     (name, r) \<in> set roots \<and> ed25519_verify C r canon sig \<and>
     get_u64 (JObject m) ''max_statement_bytes'' = Some limit \<and> length st \<le> unat limit \<and> unat limit \<le> SCITT_MAX_BYTES \<and>
     get_array (JObject m) ''ts_keys'' = Some entries \<and> 1 \<le> length entries \<and> length entries \<le> 64 \<and>
     length (policy_registry C entries) = length entries \<and> distinct (map fst (policy_registry C entries)) \<and>
     keys = map_of (policy_registry C entries) \<and>
     get pack ''checkpoint'' = Some cp \<and> checkpoint_signed C keys cp body \<and>
     get_str body ''origin'' = get_str (JObject m) ''ts_origin''"
proof -
  obtain p policy origin cp where p: "object_fields pack PACK_FIELDS PACK_OPTIONAL_FIELDS = Some p"
    "map_of p ''registration_policy'' = Some policy" "policy_shape policy (length st)" "policy_signature_valid C policy roots"
    "policy_ts_keys C policy pack = Some keys" "get_str policy ''ts_origin'' = Some origin" "map_of p ''checkpoint'' = Some cp"
    "verify_signed_checkpoint C cp keys (Some origin)"
    using assms by (auto simp: verified_scitt_pack_keys_def bind_eq_Some_conv split: if_splits)
  obtain m sig_text sig canon name r where s: "policy = JObject m" "get_str policy ''signature'' = Some sig_text"
    "B64_decode C sig_text = Some sig" "canonical_checked C (JObject (filter (\<lambda>(name, _). name \<noteq> ''signature'') m)) = Some canon"
    "(name, r) \<in> set roots" "ed25519_verify C r canon sig"
    using p(4) by (rule policy_signature_root)
  obtain limit where l: "get_u64 policy ''max_statement_bytes'' = Some limit" "length st \<le> unat limit" "unat limit \<le> SCITT_MAX_BYTES"
    using p(3) by (auto simp: policy_shape_def is_some_and_iff Let_def)
  obtain body where body: "checkpoint_signed C keys cp body" "get_str body ''origin'' = Some origin"
    using verify_signed_checkpoint_signed [OF p(8)] by blast
  have "get pack ''registration_policy'' = Some policy" "get pack ''checkpoint'' = Some cp"
    using p(1,2,7) by (auto simp: object_fields_Some get_def)
  with policy_ts_keys_Some [OF p(5)] s l body p(6) show ?thesis by (metis (no_types, lifting))
qed

section \<open>A small registration\<close>

text \<open>A statement over the id \<open>0101..01\<close>, alone in the log of the service, and the receipt for it.\<close>

definition toy_cid :: bytes where
  "toy_cid = replicate 32 1"

definition toy_stmt_header :: cbor where
  "toy_stmt_header = CMap [(CInteger 1, CInteger (- 8)), (CInteger 3, CText STATEMENT_CTY), (CInteger 4, CBytes (as_bytes ''i'')),
     (CInteger 15, CMap [(CInteger 1, CText ''i''), (CInteger 2, CText (hex toy_cid))])]"

definition toy_stmt_header_bytes :: bytes where
  "toy_stmt_header_bytes = the (canonical_bytes toy_stmt_header 16 COSE_PROFILE)"

definition toy_stmt :: cbor where
  "toy_stmt = CArray [CBytes toy_stmt_header_bytes, CMap [], CBytes toy_cid, CBytes (replicate 64 1)]"

definition toy_stmt_bytes :: bytes where
  "toy_stmt_bytes = the (canonical_bytes toy_stmt 16 COSE_PROFILE)"

definition toy_stmt_cose :: bytes where
  "toy_stmt_cose = TAG_SIGN1 # toy_stmt_bytes"

definition toy_ts_body :: json where
  "toy_ts_body = JObject [(''origin'', JString ''o''), (''prev_hash'', JString []), (''root_hash'', JString (hex (data_leaf toy_digest toy_stmt_cose))),
     (''schema'', JString CHECKPOINT_SCHEMA), (''tree_size'', JNumber (PosInt 1)), (''ts'', JString ''t'')]"

definition toy_ts_unprotected :: "(cbor \<times> cbor) list" where
  "toy_ts_unprotected = [(CInteger (- 2), CMap [(CText ''origin'', CText ''o''), (CText ''prev_hash'', CText []),
       (CText ''root_hash'', CText (hex (data_leaf toy_digest toy_stmt_cose))), (CText ''schema'', CText CHECKPOINT_SCHEMA),
       (CText ''tree_size'', CInteger 1), (CText ''ts'', CText ''t'')]),
     (CInteger 396, CMap [(CInteger (- 1), CArray [CInteger 1, CInteger 0, CArray []])])]"

definition toy_ts_header :: cbor where
  "toy_ts_header = CMap [(CInteger 1, CInteger (- 8)), (CInteger 4, CBytes (as_bytes ''s'')), (CInteger 395, CInteger 1)]"

definition toy_ts_header_bytes :: bytes where
  "toy_ts_header_bytes = the (canonical_bytes toy_ts_header 16 COSE_PROFILE)"

definition toy_ts_payload :: bytes where
  "toy_ts_payload = toy_digest (the (canonical_checked toy_base toy_ts_body))"

definition toy_receipt_cbor :: cbor where
  "toy_receipt_cbor = CArray [CBytes toy_ts_header_bytes, CMap toy_ts_unprotected, CBytes toy_ts_payload, CBytes (replicate 64 1)]"

definition toy_receipt_bytes :: bytes where
  "toy_receipt_bytes = the (canonical_bytes toy_receipt_cbor 16 COSE_PROFILE)"

definition toy_scitt :: crates where
  "toy_scitt = toy_base\<lparr>vk_verify := \<lambda>_ _ _. True,
     cbor_from_reader := \<lambda>b. map_of [(127, toy_stmt_header), (231, toy_stmt), (10, toy_ts_header), (261, toy_receipt_cbor)] (length b)\<rparr>"

lemma toy_statement_length:
  "map_option length (canonical_bytes toy_stmt_header 16 COSE_PROFILE) = Some 127"
  "map_option length (canonical_bytes toy_stmt 16 COSE_PROFILE) = Some 231"
  by code_simp+

lemma toy_receipt_header_length: "map_option length (canonical_bytes toy_ts_header 16 COSE_PROFILE) = Some 10"
  by code_simp

lemma toy_receipt_length: "map_option length (canonical_bytes toy_receipt_cbor 16 COSE_PROFILE) = Some 261"
  by code_simp

lemma toy_scitt_bytes:
  "canonical_bytes toy_stmt_header 16 COSE_PROFILE = Some toy_stmt_header_bytes" "length toy_stmt_header_bytes = 127"
  "canonical_bytes toy_stmt 16 COSE_PROFILE = Some toy_stmt_bytes" "length toy_stmt_bytes = 231"
  "canonical_bytes toy_ts_header 16 COSE_PROFILE = Some toy_ts_header_bytes" "length toy_ts_header_bytes = 10"
  "canonical_bytes toy_receipt_cbor 16 COSE_PROFILE = Some toy_receipt_bytes" "length toy_receipt_bytes = 261"
  using toy_statement_length toy_receipt_header_length toy_receipt_length
  by (auto simp: toy_stmt_header_bytes_def toy_stmt_bytes_def toy_ts_header_bytes_def toy_receipt_bytes_def)

lemma toy_scitt_verified [simp]: "length sig = 64 \<Longrightarrow> ed25519_verify toy_scitt key msg sig"
  by (simp add: ed25519_verify_def toy_scitt_def toy_base_def)

lemma toy_statement_accepted:
  "verify_sign1 toy_scitt toy_stmt_cose [''i'' \<mapsto> [9]] SCITT_MAX_BYTES SCITT_MAX_DEPTH
     = Some \<lparr>s1_protected = toy_stmt_header, s1_unprotected = CMap [], s1_payload = Some toy_cid, s1_kid = ''i''\<rparr>"
  unfolding toy_stmt_cose_def
proof (rule verify_sign1_complete)
  show "[''i'' \<mapsto> [9]] ''i'' = Some [9]" by simp
  show "cbor_from_reader toy_scitt toy_stmt_header_bytes = Some toy_stmt_header" by (simp add: toy_scitt_def toy_scitt_bytes)
  show "sig_structure toy_stmt_header_bytes (Some toy_cid) = Some (the (sig_structure toy_stmt_header_bytes (Some toy_cid)))"
    using sig_structure_total by force
  show "kid_of toy_stmt_header = Some ''i''" by code_simp
  show "canonical_bytes (CArray [CBytes toy_stmt_header_bytes, CMap [], payload_item (Some toy_cid), CBytes (replicate 64 1)])
      (int SCITT_MAX_DEPTH) COSE_PROFILE = Some toy_stmt_bytes"
    using toy_scitt_bytes(3) by (simp add: toy_stmt_def payload_item_def SCITT_MAX_DEPTH_def)
  show "cbor_from_reader toy_scitt toy_stmt_bytes
      = Some (CArray [CBytes toy_stmt_header_bytes, CMap [], payload_item (Some toy_cid), CBytes (replicate 64 1)])"
    by (simp add: toy_scitt_def toy_scitt_bytes toy_stmt_def payload_item_def)
qed (simp_all add: toy_scitt_bytes MAX_ITEMS_def SCITT_MAX_BYTES_def SCITT_MAX_DEPTH_def)

lemma toy_receipt_accepted:
  "verify_sign1 toy_scitt (TAG_SIGN1 # toy_receipt_bytes) [''s'' \<mapsto> [8]] SCITT_MAX_BYTES SCITT_MAX_DEPTH
     = Some \<lparr>s1_protected = toy_ts_header, s1_unprotected = CMap toy_ts_unprotected, s1_payload = Some toy_ts_payload, s1_kid = ''s''\<rparr>"
proof (rule verify_sign1_complete)
  show "[''s'' \<mapsto> [8]] ''s'' = Some [8]" by simp
  show "cbor_from_reader toy_scitt toy_ts_header_bytes = Some toy_ts_header" by (simp add: toy_scitt_def toy_scitt_bytes)
  show "sig_structure toy_ts_header_bytes (Some toy_ts_payload) = Some (the (sig_structure toy_ts_header_bytes (Some toy_ts_payload)))"
    using sig_structure_total by force
  show "kid_of toy_ts_header = Some ''s''" by code_simp
  show "canonical_bytes (CArray [CBytes toy_ts_header_bytes, CMap toy_ts_unprotected, payload_item (Some toy_ts_payload), CBytes (replicate 64 1)])
      (int SCITT_MAX_DEPTH) COSE_PROFILE = Some toy_receipt_bytes"
    using toy_scitt_bytes(7) by (simp add: toy_receipt_cbor_def payload_item_def SCITT_MAX_DEPTH_def)
  show "cbor_from_reader toy_scitt toy_receipt_bytes
      = Some (CArray [CBytes toy_ts_header_bytes, CMap toy_ts_unprotected, payload_item (Some toy_ts_payload), CBytes (replicate 64 1)])"
    by (simp add: toy_scitt_def toy_scitt_bytes toy_receipt_cbor_def payload_item_def)
qed (simp_all add: toy_scitt_bytes MAX_ITEMS_def SCITT_MAX_BYTES_def SCITT_MAX_DEPTH_def)

lemma toy_registration:
  "verify_scitt_receipt_inner toy_scitt toy_stmt_cose (TAG_SIGN1 # toy_receipt_bytes) [''s'' \<mapsto> [8]] [''i'' \<mapsto> [9]] (hex toy_cid) None"
proof -
  have "canonical_checked toy_base toy_ts_body \<noteq> None"
    using jcs_write_defined [of toy_base _ JCS_MAX_DEPTH]
    by (simp add: canonical_checked_def JCS_MAX_DEPTH_def numbers_match.simps toy_ts_body_def
      number_text_def number_as_i64_def MAX_SAFE_INTEGER_def)
  then obtain canon where canon: "canonical_checked toy_scitt toy_ts_body = Some canon" "toy_ts_payload = toy_digest canon"
    using canonical_checked_writers [of toy_scitt toy_base toy_ts_body] by (auto simp: toy_scitt_def toy_ts_payload_def)
  have sha: "sha256 toy_scitt = toy_digest" by (simp add: sha256_def [abs_def] toy_scitt_def toy_base_def)
  have profile: "statement_profile \<lparr>s1_protected = toy_stmt_header, s1_unprotected = CMap [], s1_payload = Some toy_cid, s1_kid = ''i''\<rparr>
      toy_cid (hex toy_cid)" by code_simp
  have rp: "receipt_profile \<lparr>s1_protected = toy_ts_header, s1_unprotected = u, s1_payload = Some (toy_digest x), s1_kid = ''s''\<rparr>" for u x
    by (simp add: receipt_profile_def toy_ts_header_def map_len_def imap_def as_int_def)
  have cp: "checkpoint toy_scitt (CMap toy_ts_unprotected)
      = Some (toy_ts_body, hex (toy_digest canon), data_leaf toy_digest toy_stmt_cose, 1)"
    using canon(1)
    by (simp add: checkpoint_def toy_ts_unprotected_def imap_def checkpoint_body_def checkpoint_algorithm_def tmap_def btext_def
        as_text_def as_uint_def map_len_def CHECKPOINT_SCHEMA_def toy_ts_body_def sha Let_def)
  have inc: "inclusion (CMap toy_ts_unprotected) = Some (1, 0, [])"
    by (simp add: inclusion_def toy_ts_unprotected_def imap_def as_uint_def MAX_AUDIT_PATH_def)
  have h: "hex32 (hex toy_cid)" by code_simp
  have v: "verify_inclusion toy_digest (toy_digest (0 # toy_digest toy_stmt_cose)) 0 1 [] (data_leaf toy_digest toy_stmt_cose)"
    by (simp add: verify_inclusion_climb climb_0 data_leaf_def)
  show ?thesis
    by (simp add: verify_scitt_receipt_inner_def h toy_statement_accepted toy_receipt_accepted profile rp receipt_checkpoint_def
        cp canon(2) inc sha v)
qed

theorem scitt_receipt_registers_witness:
  "\<exists>stmt rcpt b claims body root n. s1_payload stmt = Some b \<and> hex b = hex toy_cid \<and>
     verify_sign1 toy_scitt toy_stmt_cose [''i'' \<mapsto> [9]] SCITT_MAX_BYTES SCITT_MAX_DEPTH = Some stmt \<and>
     imap (s1_protected stmt) 15 = Some claims \<and> imap claims 2 = Some (CText (hex toy_cid)) \<and>
     verify_sign1 toy_scitt (TAG_SIGN1 # toy_receipt_bytes) [''s'' \<mapsto> [8]] SCITT_MAX_BYTES SCITT_MAX_DEPTH = Some rcpt \<and>
     receipt_commits toy_scitt rcpt body root n"
proof -
  have "length (Sha256 toy_scitt x) = 32" for x by (simp add: toy_scitt_def toy_base_def)
  from scitt_receipt_registers [OF this toy_registration] show ?thesis by blast
qed

theorem receipt_registers_one_witness:
  "toy_stmt_cose = toy_stmt_cose \<and> hex toy_cid = hex toy_cid \<or>
    (\<exists>i n path. collides (Sha256 toy_scitt) (leaf_inputs (Sha256 toy_scitt) toy_stmt_cose i n path)
      (leaf_inputs (Sha256 toy_scitt) toy_stmt_cose i n path))"
  by (rule receipt_registers_one [OF toy_registration toy_registration])

text \<open>A pack whose policy lists one key of the service.\<close>

definition toy_ts_jwk :: json where
  "toy_ts_jwk = JObject [(''alg'', JString ''EdDSA''), (''crv'', JString ''Ed25519''), (''kid'', JString (replicate 16 CHR 0x20)),
     (''kty'', JString ''OKP''), (''use'', JString ''sig''), (''x'', JString (replicate 32 CHR ''a''))]"

definition toy_policy_body :: "(string \<times> json) list" where
  "toy_policy_body = [(''accepted_profiles'', JArray [JString POLICY_PROFILE]), (''max_statement_bytes'', JNumber (PosInt 9)),
     (''policy_version'', JString ''1''), (''schema'', JString POLICY_SCHEMA)]"

definition toy_policy :: json where
  "toy_policy = JObject (toy_policy_body @ [(''signature'', JString (replicate 64 CHR ''g'')),
     (''ts_keys'', JArray [JObject [(''jwk'', toy_ts_jwk), (''kid'', JString (replicate 16 CHR 0x20))]]), (''ts_origin'', JString ''o'')])"

definition toy_pack_body :: json where
  "toy_pack_body = JObject [(''origin'', JString ''o''), (''prev_hash'', JString []), (''root_hash'', JString []),
     (''schema'', JString CHECKPOINT_SCHEMA), (''tree_size'', JNumber (PosInt 1)), (''ts'', JString ''t'')]"

definition toy_pack_checkpoint :: json where
  "toy_pack_checkpoint = JObject [(''body'', toy_pack_body), (''kid'', JString (replicate 16 CHR 0x20)), (''sig'', JString (replicate 64 CHR ''g''))]"

definition toy_pack :: json where
  "toy_pack = JObject [(''certificate_id'', JNull), (''checkpoint'', toy_pack_checkpoint),
     (''receipt'', JNull), (''registration_policy'', toy_policy), (''schema'', JString PACK_SCHEMA), (''signed_statement'', JNull),
     (''ts_jwks'', JObject [(''keys'', JArray [toy_ts_jwk])])]"

definition toy_pack_world :: crates where
  "toy_pack_world = toy_base\<lparr>vk_verify := \<lambda>_ _ _. True\<rparr>"

lemma toy_policy_shape: "policy_shape toy_policy 0"
  by code_simp

lemma toy_policy_keys:
  "map_option (\<lambda>keys. keys (replicate 16 CHR 0x20)) (policy_ts_keys toy_pack_world toy_policy toy_pack) = Some (Some (replicate 32 0x61))"
  by code_simp

lemma toy_checkpoint_body: "checkpoint_json_body toy_pack_body"
  by code_simp

lemma toy_pack_canonical:
  "canonical_checked toy_pack_world (JObject (filter (\<lambda>(name, _). name \<noteq> ''signature'')
     (toy_policy_body @ [(''signature'', s), (''ts_keys'', JArray [JObject [(''jwk'', toy_ts_jwk), (''kid'', JString k)]]), (''ts_origin'', JString t)]))) \<noteq> None"
  "canonical_checked toy_pack_world toy_pack_body \<noteq> None"
  using jcs_write_defined [of toy_pack_world _ JCS_MAX_DEPTH]
  by (simp_all add: canonical_checked_def JCS_MAX_DEPTH_def numbers_match.simps toy_policy_body_def toy_ts_jwk_def
      toy_pack_body_def number_text_def number_as_i64_def MAX_SAFE_INTEGER_def)

lemma toy_pack_signatures:
  "policy_signature_valid toy_pack_world toy_policy [(''r'', [7])]"
  "keys (replicate 16 CHR 0x20) = Some k \<Longrightarrow> verify_signed_checkpoint toy_pack_world toy_pack_checkpoint keys (Some ''o'')"
proof -
  have b64: "strict_b64 toy_pack_world t = Some (as_bytes t)" for t by (simp add: strict_b64_def toy_pack_world_def toy_base_def)
  have v: "length sig = 64 \<Longrightarrow> ed25519_verify toy_pack_world key msg sig" for key msg sig
    by (simp add: ed25519_verify_def toy_pack_world_def toy_base_def)
  show "policy_signature_valid toy_pack_world toy_policy [(''r'', [7])]"
    using toy_pack_canonical(1) [of "JString (replicate 64 CHR ''g'')" "replicate 16 CHR 0x20" "''o''"]
    by (auto simp: policy_signature_valid_def toy_policy_def json_access b64 v toy_policy_body_def)
  assume k: "keys (replicate 16 CHR 0x20) = Some k"
  have f: "object_fields toy_pack_checkpoint [''body'', ''kid'', ''sig''] [] \<noteq> None"
    "get_str toy_pack_checkpoint ''kid'' = Some (replicate 16 CHR 0x20)" "get_str toy_pack_checkpoint ''sig'' = Some (replicate 64 CHR ''g'')"
    "get toy_pack_checkpoint ''body'' = Some toy_pack_body"
    "get_str toy_pack_body ''origin'' = Some ''o''"
    by (simp_all add: object_fields_def toy_pack_checkpoint_def toy_pack_body_def json_access)
  show "verify_signed_checkpoint toy_pack_world toy_pack_checkpoint keys (Some ''o'')"
    using toy_checkpoint_body toy_pack_canonical(2) f(1) k
    by (auto simp: verify_signed_checkpoint_def f(2-5) ofilter_def b64 v split: option.splits)
qed

lemma toy_pack_keys: "\<exists>keys. verified_scitt_pack_keys toy_pack_world toy_pack [(''r'', [7])] [] = Some keys"
proof -
  obtain keys where k: "policy_ts_keys toy_pack_world toy_policy toy_pack = Some keys" "keys (replicate 16 CHR 0x20) = Some (replicate 32 0x61)"
    using toy_policy_keys by auto
  obtain m where m: "object_fields toy_pack PACK_FIELDS PACK_OPTIONAL_FIELDS = Some m" "m = the (as_object toy_pack)"
    by (simp add: object_fields_def toy_pack_def json_access PACK_FIELDS_def PACK_OPTIONAL_FIELDS_def)
  have f: "Option.bind (map_of m ''schema'') as_str = Some PACK_SCHEMA" "map_of m ''registration_policy'' = Some toy_policy"
    "map_of m ''checkpoint'' = Some toy_pack_checkpoint" "get_str toy_policy ''ts_origin'' = Some ''o''"
    by (simp_all add: m(2) toy_pack_def json_access toy_policy_def toy_policy_body_def)
  show ?thesis
    by (simp add: verified_scitt_pack_keys_def m(1) f k(1) toy_policy_shape toy_pack_signatures(1) toy_pack_signatures(2) [of keys, OF k(2)])
qed

theorem pack_keys_authorised_witness:
  "\<exists>keys m entries cp body. verified_scitt_pack_keys toy_pack_world toy_pack [(''r'', [7])] [] = Some keys \<and>
     get toy_pack ''registration_policy'' = Some (JObject m) \<and> get_array (JObject m) ''ts_keys'' = Some entries \<and>
     keys = map_of (policy_registry toy_pack_world entries) \<and>
     get toy_pack ''checkpoint'' = Some cp \<and> checkpoint_signed toy_pack_world keys cp body"
proof -
  obtain keys where k: "verified_scitt_pack_keys toy_pack_world toy_pack [(''r'', [7])] [] = Some keys"
    using toy_pack_keys by blast
  from pack_keys_authorised [OF this] k show ?thesis by blast
qed

end
