(* ===== verification/Action_Values.thy ===== *)
theory Action_Values
  imports Bundle
begin

text \<open>
  The value utilities of \<open>verify-rs/src/action.rs\<close>: access with Python semantics (a missing member is null,
  truthiness, iteration of \<open>x or []\<close>, \<open>repr\<close> and \<open>str\<close>), shared by the verdict vector and the authority facts.
  \<open>s\<close> of the source is \<open>get_str\<close> and \<open>g\<close> is \<open>index\<close>. The display of a binary64 by \<open>serde_json\<close> is the
  parameter \<open>F\<close>. A raise inside the Python engine, which the source mirrors by \<open>Err(Raise)\<close>, is \<open>None\<close>.
\<close>

section \<open>Strings\<close>

text \<open>The characters of a string, each as the bytes that encode it.\<close>

function char_pieces :: "string \<Rightarrow> string list" where
  "char_pieces s =
     (case s of
        [] \<Rightarrow> []
      | c # _ \<Rightarrow>
          (let b = (of_char c :: int); n = (if b < 0x80 then 1 else if b < 0xe0 then 2 else if b < 0xf0 then 3 else 4) in
           take n s # char_pieces (drop n s)))"
  by pat_completeness auto
termination
  by (relation "measure length") (auto simp: Let_def split: if_splits)

declare char_pieces.simps [simp del]

definition whitespace_piece :: "string \<Rightarrow> bool" where
  "whitespace_piece p = list_all is_whitespace (chars p)"

text \<open>\<open>str::trim\<close>\<close>

definition trim :: "string \<Rightarrow> string" where
  "trim s = concat (rev (dropWhile whitespace_piece (rev (dropWhile whitespace_piece (char_pieces s)))))"

fun join :: "string \<Rightarrow> string list \<Rightarrow> string" where
  "join sep [] = []"
| "join sep [x] = x"
| "join sep (x # xs) = x @ sep @ join sep xs"

section \<open>Display\<close>

definition number_display :: "(u64 \<Rightarrow> string) \<Rightarrow> number \<Rightarrow> string" where
  "number_display F n =
     (case n of PosInt w \<Rightarrow> nat_to_string (unat w) | NegInt i \<Rightarrow> int_to_string i | Float b \<Rightarrow> F b)"

text \<open>\<open>Value::to_string\<close>: the compact JSON text.\<close>

fun value_text :: "crates \<Rightarrow> (u64 \<Rightarrow> string) \<Rightarrow> json \<Rightarrow> string" where
  "value_text C F JNull = ''null''"
| "value_text C F (JBool b) = (if b then ''true'' else ''false'')"
| "value_text C F (JNumber n) = number_display F n"
| "value_text C F (JString s) = of_bytes (json_to_writer C s)"
| "value_text C F (JArray a) = ''['' @ join '','' (map (value_text C F) a) @ '']''"
| "value_text C F (JObject m) =
     ''{'' @ join '','' (map (\<lambda>(k, v). of_bytes (json_to_writer C k) @ '':'' @ value_text C F v) m) @ ''}''"

section \<open>Access\<close>

definition is_object :: "json \<Rightarrow> bool" where
  "is_object v = (as_object v \<noteq> None)"

definition is_array :: "json \<Rightarrow> bool" where
  "is_array v = (as_array v \<noteq> None)"

definition flag :: "json \<Rightarrow> string \<Rightarrow> bool" where
  "flag v k = unwrap_or False (get_bool v k)"

definition arr :: "json \<Rightarrow> string \<Rightarrow> json list" where
  "arr v k = unwrap_or [] (get_array v k)"

definition obj :: "json \<Rightarrow> string \<Rightarrow> json option" where
  "obj v k = ofilter is_object (get v k)"

definition zero_number :: "number \<Rightarrow> bool" where
  "zero_number n = f64_eq (number_as_f64 n) 0"

definition truthy :: "json option \<Rightarrow> bool" where
  "truthy v =
     (case v of
        None \<Rightarrow> False
      | Some JNull \<Rightarrow> False
      | Some (JBool b) \<Rightarrow> b
      | Some (JNumber n) \<Rightarrow> \<not> zero_number n
      | Some (JString x) \<Rightarrow> x \<noteq> []
      | Some (JArray a) \<Rightarrow> a \<noteq> []
      | Some (JObject m) \<Rightarrow> m \<noteq> [])"

definition nonempty :: "json \<Rightarrow> string \<Rightarrow> bool" where
  "nonempty v k = truthy (get v k)"

definition tri :: "bool \<Rightarrow> string \<Rightarrow> bool \<Rightarrow> string \<Rightarrow> string \<Rightarrow> string" where
  "tri a av b bv weak = (if a then av else if b then bv else weak)"

definition iter_items :: "json option \<Rightarrow> json list option" where
  "iter_items v =
     (case v of
        None \<Rightarrow> Some []
      | Some JNull \<Rightarrow> Some []
      | Some (JBool b) \<Rightarrow> if b then None else Some []
      | Some (JNumber n) \<Rightarrow> if zero_number n then Some [] else None
      | Some (JString x) \<Rightarrow> Some (map JString (char_pieces x))
      | Some (JArray a) \<Rightarrow> Some a
      | Some (JObject m) \<Rightarrow> Some (map (\<lambda>(k, _). JString k) m))"

definition escape_quotes :: "string \<Rightarrow> string" where
  "escape_quotes x =
     (let y = concat (map (\<lambda>c. if c = CHR 0x5c then [CHR 0x5c, CHR 0x5c] else [c]) x) in
      concat (map (\<lambda>c. if c = CHR 0x27 then [CHR 0x5c, CHR 0x27] else [c]) y))"

fun py_repr :: "(u64 \<Rightarrow> string) \<Rightarrow> json \<Rightarrow> string" where
  "py_repr F JNull = ''None''"
| "py_repr F (JBool b) = tri b ''True'' True ''False'' []"
| "py_repr F (JNumber n) = number_display F n"
| "py_repr F (JString x) = [CHR 0x27] @ escape_quotes x @ [CHR 0x27]"
| "py_repr F (JArray a) = ''['' @ join '', '' (map (py_repr F) a) @ '']''"
| "py_repr F (JObject m) =
     ''{'' @ join '', '' (map (\<lambda>(k, x). [CHR 0x27] @ k @ [CHR 0x27] @ '': '' @ py_repr F x) m) @ ''}''"

definition py_str :: "(u64 \<Rightarrow> string) \<Rightarrow> json option \<Rightarrow> string \<Rightarrow> string" where
  "py_str F v dflt =
     (case v of None \<Rightarrow> dflt | Some (JString x) \<Rightarrow> x | Some other \<Rightarrow> py_repr F other)"

text \<open>\<open>v[k] = x\<close> on an object.\<close>

definition set_member :: "string \<Rightarrow> json \<Rightarrow> json \<Rightarrow> json" where
  "set_member k v doc = (case doc of JObject m \<Rightarrow> JObject (btree_put k v m) | _ \<Rightarrow> doc)"

lemmas action_access = flag_def arr_def obj_def is_object_def is_array_def nonempty_def json_access

lemma flag_iff: "flag v k \<longleftrightarrow> get v k = Some (JBool True)"
  by (cases "get v k") (auto simp: flag_def get_bool_def as_bool_def split: json.splits)

lemma obj_Some: "obj v k = Some w \<longleftrightarrow> get v k = Some w \<and> is_object w"
  by (auto simp: obj_def ofilter_def split: option.splits)

lemma set_member_object [simp]: "is_object (set_member k v doc) = is_object doc"
  by (cases doc) (auto simp: set_member_def is_object_def as_object_def)

lemma get_set_member: "is_object doc \<Longrightarrow> get (set_member k v doc) k' = (if k' = k then Some v else get doc k')"
  by (cases doc) (auto simp: set_member_def get_def is_object_def as_object_def map_of_btree_put)

lemma get_str_set_member:
  "is_object doc \<Longrightarrow> get_str (set_member k (JString x) doc) k' = (if k' = k then Some x else get_str doc k')"
  "is_object doc \<Longrightarrow> k' \<noteq> k \<Longrightarrow> get_str (set_member k v doc) k' = get_str doc k'"
  by (simp_all add: get_str_def get_set_member as_str_def)

end
