(* ===== verification/Authority.thy ===== *)
theory Authority
  imports Action_Values "HOL-Library.Product_Lexorder"
begin

text \<open>
  \<open>authority_facts\<close> of \<open>verify-rs/src/action.rs\<close>: from a verified bundle, the replay of the organisation's root
  enrolments, the independently proven time interval of an intent, the identity of the acting agent and the grant that
  authorises the action. Every function is total; a failure degrades to the weak value. Sets that the code only
  queries are sets; \<open>BTreeMap\<close>s that it enumerates are sorted association lists.
\<close>

section \<open>Receipts as rows\<close>

definition INTENT_CTX :: "string list" where
  "INTENT_CTX = [''action_id'', ''action_class'', ''grant_id'', ''grant_version'', ''binding_id'', ''policy_version'']"

definition EST_TYPES :: "string list" where
  "EST_TYPES = [''lineage.born'', ''lineage.adopted'']"

record Rec =
  rec_leaf :: int
  rec_agent :: string
  rec_action :: string
  rec_ctx :: json
  rec_commitments :: json
  rec_rh :: string
  rec_signer_kids :: "string set"

definition entry_row :: "crates \<Rightarrow> json \<Rightarrow> Rec option" where
  "entry_row C e =
     (let env = index e ''envelope'' in
      case (body_of C env, receipt_hash_hex C env) of
        (Some body, Some rh) \<Rightarrow> Some
          \<lparr>rec_leaf = unwrap_or (- 1) (get_i64 e ''leaf_index''), rec_agent = unwrap_or [] (get_str body ''agent_id''),
           rec_action = unwrap_or [] (get_str body ''action_type''), rec_ctx = unwrap_or (JObject []) (obj body ''context''),
           rec_commitments = unwrap_or (JObject []) (obj body ''commitments''), rec_rh = rh,
           rec_signer_kids = set (List.map_filter (\<lambda>sig. get_str sig ''keyid'') (arr env ''signatures''))\<rparr>
      | _ \<Rightarrow> None)"

definition entry_rows :: "crates \<Rightarrow> json \<Rightarrow> Rec list" where
  "entry_rows C bundle = sort_key rec_leaf (List.map_filter (entry_row C) (arr bundle ''entries''))"

definition authority_dom :: "string \<Rightarrow> bytes" where
  "authority_dom action_type = as_bytes ''evd/v1/authority/'' @ as_bytes action_type @ [0]"

definition dsig_ok :: "crates \<Rightarrow> bytes \<Rightarrow> bytes \<Rightarrow> json \<Rightarrow> json option \<Rightarrow> bool" where
  "dsig_ok C pub domain doc sig =
     (case Option.bind sig as_str of None \<Rightarrow> False | Some sig_b64 \<Rightarrow>
     (case as_object doc of None \<Rightarrow> False | Some m \<Rightarrow>
        (let doc' = JObject (filter (\<lambda>(k, _). \<not> ends_with k ''_sig'') m) in
         case canonical_integer_checked C doc' of None \<Rightarrow> False | Some canon \<Rightarrow>
         (case B64_decode C sig_b64 of None \<Rightarrow> False | Some raw \<Rightarrow> ed25519_verify C pub (domain @ canon) raw))))"

section \<open>Root replay\<close>

definition key_row :: "Rec \<Rightarrow> bool" where
  "key_row r = (rec_agent r = ''_system'' \<and> starts_with (rec_action r) ''evd.key.'')"

definition witnessed_keys :: "crates \<Rightarrow> Rec list \<Rightarrow> string set \<times> bytes set" where
  "witnessed_keys C rows =
     (let jwks = map (\<lambda>r. index (rec_ctx r) ''jwk'') (filter key_row rows) in
      (set (List.map_filter (\<lambda>jwk. get_str jwk ''kid'') jwks), set (List.map_filter (\<lambda>jwk. map_option fst (key_from_jwk C jwk)) jwks)))"

definition valid_enrolment :: "crates \<Rightarrow> json \<Rightarrow> string set \<Rightarrow> bytes set \<Rightarrow> (string \<times> bytes \<times> json) option" where
  "valid_enrolment C ctx kids mats =
     (case key_from_jwk C (index ctx ''root_jwk'') of None \<Rightarrow> None | Some (pub, derived_kid) \<Rightarrow>
     (case get_str ctx ''root_kid'' of None \<Rightarrow> None | Some kid \<Rightarrow>
        if kid \<noteq> derived_kid \<or> kid \<in> kids \<or> pub \<in> mats then None
        else if \<not> dsig_ok C pub (authority_dom ''authority.root.enrolled'') ctx (get ctx ''self_sig'') then None
        else Some (kid, pub, index ctx ''legal_entity'')))"

type_synonym RootEntry = "int \<times> string \<times> bytes \<times> json"

text \<open>The state of the replay: the organisation, the chain of roots in order of enrolment, and the conflict flag.\<close>

type_synonym RootState = "string option \<times> RootEntry list \<times> bool"

definition root_step :: "crates \<Rightarrow> string set \<Rightarrow> bytes set \<Rightarrow> Rec \<Rightarrow> RootState \<Rightarrow> RootState" where
  "root_step C kids mats r = (\<lambda>(org_id, timeline, conflict).
     if rec_agent r \<noteq> ''_authority'' \<or> rec_action r \<noteq> ''authority.root.enrolled'' then (org_id, timeline, conflict)
     else (case valid_enrolment C (rec_ctx r) kids mats of
             None \<Rightarrow> (org_id, timeline, conflict)
           | Some (kid, pub, legal) \<Rightarrow>
               if timeline = [] then (Some (rec_rh r), [(rec_leaf r, kid, pub, legal)], conflict)
               else (case last timeline of (_, last_kid, last_pub, _) \<Rightarrow>
                 if get_str (rec_ctx r) ''prev_root_kid'' = Some last_kid
                    \<and> dsig_ok C last_pub (authority_dom ''authority.root.enrolled'') (rec_ctx r) (get (rec_ctx r) ''prev_root_sig'')
                 then (org_id, timeline @ [(rec_leaf r, kid, pub, legal)], conflict)
                 else (org_id, timeline, True))))"

definition replay_roots :: "crates \<Rightarrow> Rec list \<Rightarrow> RootState" where
  "replay_roots C rows = (case witnessed_keys C rows of (kids, mats) \<Rightarrow> fold (root_step C kids mats) rows (None, [], False))"

definition root_at :: "RootEntry list \<Rightarrow> int \<Rightarrow> RootEntry option" where
  "root_at timeline leaf = find (\<lambda>t. fst t \<le> leaf) (rev timeline)"

definition root_valid_auth :: "crates \<Rightarrow> Rec list \<Rightarrow> RootEntry list \<Rightarrow> string \<Rightarrow> Rec list" where
  "root_valid_auth C rows timeline action_type =
     filter (\<lambda>r. rec_agent r = ''_authority'' \<and> rec_action r = action_type
        \<and> (case root_at timeline (rec_leaf r) of
             None \<Rightarrow> False
           | Some (_, _, pub, _) \<Rightarrow> dsig_ok C pub (authority_dom action_type) (rec_ctx r) (get (rec_ctx r) ''root_sig''))) rows"

section \<open>Independent time\<close>

definition time_record :: "string \<Rightarrow> json \<Rightarrow> (string \<rightharpoonup> string \<times> string) \<Rightarrow> (string \<rightharpoonup> string \<times> string)" where
  "time_record field rec proven =
     (if \<not> is_object rec then proven
      else (case (get_str rec ''checkpoint_body_hash'', nts (index rec field)) of
              (Some h, Some stamp) \<Rightarrow>
                if is_none_or (proven h) (\<lambda>cur. stamp < fst cur) then proven(h \<mapsto> (stamp, unwrap_or [] (get_str rec field))) else proven
            | _ \<Rightarrow> proven))"

definition independent_ts_map :: "json \<Rightarrow> (string \<rightharpoonup> string \<times> string)" where
  "independent_ts_map bundle =
     fold (time_record ''gen_time'') (arr bundle ''tst_records'')
       (fold (time_record ''block_ts'') (arr bundle ''anchor_records'') Map.empty)"

definition timed_checkpoint :: "crates \<Rightarrow> (string \<rightharpoonup> string \<times> string) \<Rightarrow> json \<Rightarrow> (int \<times> string \<times> string) option" where
  "timed_checkpoint C proven e =
     (case get e ''checkpoint'' of None \<Rightarrow> None | Some cp \<Rightarrow>
     (case Option.bind (checkpoint_body_hash C cp) proven of None \<Rightarrow> None | Some t \<Rightarrow>
     (case Option.bind (get cp ''body'') (\<lambda>b. get_i64 b ''tree_size'') of None \<Rightarrow> None
      | Some n \<Rightarrow> Some (n, fst t, snd t))))"

text \<open>\<open>for row in rows.iter_mut().rev()\<close>, on the reversed list; the first argument is \<open>earliest\<close>.\<close>

definition clamp_entry :: "(string \<times> string) option \<Rightarrow> string \<times> string \<Rightarrow> string \<times> string" where
  "clamp_entry earliest row = (case earliest of Some e \<Rightarrow> if fst e < fst row then e else row | None \<Rightarrow> row)"

fun clamp_loop :: "(string \<times> string) option \<Rightarrow> (int \<times> string \<times> string) list \<Rightarrow> (int \<times> string \<times> string) list" where
  "clamp_loop earliest [] = []"
| "clamp_loop earliest ((n, row) # rows) =
     (n, clamp_entry earliest row) # clamp_loop (Some (clamp_entry earliest row)) rows"

definition clamped_times :: "crates \<Rightarrow> json \<Rightarrow> (int \<times> string \<times> string) list" where
  "clamped_times C bundle =
     (let proven = independent_ts_map bundle;
          rows = sort_key fst (List.map_filter (timed_checkpoint C proven) (arr bundle ''checkpoint_chain'')) in
      rev (clamp_loop None (rev rows)))"

definition interval_step :: "int \<Rightarrow> int \<times> string \<times> string \<Rightarrow> json \<times> json \<Rightarrow> json \<times> json" where
  "interval_step leaf = (\<lambda>(n, _, raw) (lower, upper).
     if n \<le> leaf then (JString raw, upper) else if upper = JNull then (lower, JString raw) else (lower, upper))"

definition interval_for :: "crates \<Rightarrow> json \<Rightarrow> int \<Rightarrow> json" where
  "interval_for C bundle leaf =
     (case fold (interval_step leaf) (clamped_times C bundle) (JNull, JNull) of
        (lower, upper) \<Rightarrow> JObject [(''lower'', lower), (''upper'', upper)])"

section \<open>The intent\<close>

definition pick_intent :: "Rec list \<Rightarrow> string option \<Rightarrow> (Rec \<times> bool) option" where
  "pick_intent rows action_id =
     (let intents = filter (\<lambda>r. rec_action r = ''action.intent''
            \<and> is_none_or action_id (\<lambda>aid. get_str (rec_ctx r) ''action_id'' = Some aid)) rows in
      case intents of
        [] \<Rightarrow> None
      | chosen # _ \<Rightarrow>
          (let aid = index (rec_ctx chosen) ''action_id'';
               distinct_hashes = set (map rec_rh (filter (\<lambda>r. value_eq (index (rec_ctx r) ''action_id'') aid) intents)) in
           Some (chosen, card distinct_hashes > 1)))"

definition signed_action_context :: "crates \<Rightarrow> json \<Rightarrow> string \<Rightarrow> json option" where
  "signed_action_context C bundle action_id =
     (let rows = filter (\<lambda>r. rec_action r = ''action.intent'' \<and> get_str (rec_ctx r) ''action_id'' = Some action_id) (entry_rows C bundle) in
      case rows of
        [] \<Rightarrow> None
      | r # rest \<Rightarrow> if list_all (\<lambda>r'. rec_rh r' = rec_rh r) rest then Some (rec_ctx r) else None)"

definition has_signed_action_intent :: "crates \<Rightarrow> json \<Rightarrow> bool" where
  "has_signed_action_intent C bundle = list_ex (\<lambda>r. rec_action r = ''action.intent'') (entry_rows C bundle)"

definition row_classes :: "crates \<Rightarrow> (u64 \<Rightarrow> string) \<Rightarrow> Rec \<Rightarrow> string list" where
  "row_classes C F r =
     (if starts_with (rec_action r) ''action.'' then [] else [rec_action r])
     @ (case get_str (rec_ctx r) ''action_class'' of Some c \<Rightarrow> if c = [] then [] else [c] | None \<Rightarrow> [])
     @ (if rec_action r = ''authority.grant.issued''
        then map (\<lambda>c. unwrap_or (value_text C F c) (as_str c)) (arr (rec_ctx r) ''action_classes'') else [])"

definition signed_action_intents :: "crates \<Rightarrow> (u64 \<Rightarrow> string) \<Rightarrow> json \<Rightarrow> string \<Rightarrow> string set \<times> string set" where
  "signed_action_intents C F bundle action_id =
     (let rows = entry_rows C bundle in
      (set (filter (\<lambda>aid. aid \<noteq> []) (List.map_filter (\<lambda>r. get_str (rec_ctx r) ''action_id'') rows)),
       set (concat (map (row_classes C F) (filter (\<lambda>r. get_str (rec_ctx r) ''action_id'' = Some action_id) rows)))))"

definition intent_result :: "Rec list \<Rightarrow> Rec \<Rightarrow> bool \<Rightarrow> string" where
  "intent_result rows chosen dup =
     (if dup then ''CONFLICT''
      else if list_ex (\<lambda>k. absent (get (rec_ctx chosen) k)) INTENT_CTX then ''NOT_RECORDED''
      else if get (rec_commitments chosen) ''inputs'' = None \<or> get (rec_commitments chosen) ''context_doc'' = None then ''NOT_RECORDED''
      else
        (let aid = index (rec_ctx chosen) ''action_id'';
             subs = filter (\<lambda>r. rec_action r = ''action.submitted'' \<and> value_eq (index (rec_ctx r) ''action_id'') aid) rows in
         tri (subs \<noteq> [] \<and> rec_leaf chosen \<ge> Min (set (map rec_leaf subs))) ''NOT_RECORDED'' False [] ''RECORDED''))"

section \<open>Lineage and passports\<close>

record Lineage =
  lin_birthtag_id :: string
  lin_revision_id :: string
  lin_est_ctx :: json

definition agent_lineage :: "Rec list \<Rightarrow> string \<Rightarrow> Lineage option" where
  "agent_lineage rows agent_id =
     (let mine = filter (\<lambda>r. rec_agent r = agent_id) rows;
          est = filter (\<lambda>r. rec_action r \<in> set EST_TYPES) mine in
      case est of
        [e] \<Rightarrow>
          (let revs = filter (\<lambda>r. rec_action r = ''lineage.revised'') mine;
               revision = (if revs = [] then rec_rh e else rec_rh (last revs)) in
           Some \<lparr>lin_birthtag_id = rec_rh e, lin_revision_id = revision, lin_est_ctx = rec_ctx e\<rparr>)
      | _ \<Rightarrow> None)"

text \<open>\<open>pkl.keys.iter().any(..)\<close>: every key of a replayed log has the key id of one of its key entries, so the ids to try
  are those of the entries.\<close>

definition entry_kids :: "crates \<Rightarrow> json list \<Rightarrow> string list" where
  "entry_kids C entries =
     List.map_filter (\<lambda>(_, _, body). map_option snd (key_from_jwk C (index (index body ''context'') ''jwk''))) (collect_key_entries C entries)"

definition transfer_sig_ok :: "crates \<Rightarrow> json \<Rightarrow> json \<Rightarrow> bool" where
  "transfer_sig_ok C passport_bundle transfer =
     (let entries = arr passport_bundle ''entries''; pkl = replay_key_log C entries in
      if \<not> kl_ok pkl then False
      else
        (let eff = index transfer ''effective_ts'';
             n = unwrap_or 0 (Option.bind (get passport_bundle ''target_checkpoint'') (\<lambda>cp. body_u64 cp ''tree_size'')) in
         list_ex (\<lambda>kid. case kl_keys pkl kid of
                    None \<Rightarrow> False
                  | Some pub \<Rightarrow> key_active pkl kid (unwrap_or [] (as_str eff)) n
                      \<and> dsig_ok C pub (as_bytes ''evd/v1/passport/transfer'' @ [0]) transfer (get transfer ''transfer_sig''))
           (entry_kids C entries)))"

definition passport_bundle_ok :: "crates \<Rightarrow> asn1 \<Rightarrow> json \<Rightarrow> string \<Rightarrow> RootEntry list \<Rightarrow> bool" where
  "passport_bundle_ok C T passport imported timeline =
     (case obj passport ''bundle'' of None \<Rightarrow> False | Some pb \<Rightarrow>
        if \<not> fst (verify_bundle_report C T pb None) then False
        else
          (let est_ok = list_ex (\<lambda>r. rec_action r \<in> set EST_TYPES \<and> rec_rh r = imported) (entry_rows C pb);
               transfer = index passport ''transfer'' in
           if \<not> est_ok \<or> get_str transfer ''birthtag_id'' \<noteq> Some imported then False
           else timeline \<noteq> [] \<and> get_str transfer ''successor_root_kid'' = Some (fst (snd (last timeline)))
                \<and> transfer_sig_ok C pb transfer))"

definition passport_birthtag :: "crates \<Rightarrow> asn1 \<Rightarrow> json \<Rightarrow> json \<Rightarrow> RootEntry list \<Rightarrow> string option" where
  "passport_birthtag C T bundle est_ctx timeline =
     (case ofilter (\<lambda>x. x \<noteq> []) (get_str est_ctx ''imported_birthtag_id'') of None \<Rightarrow> None | Some imported \<Rightarrow>
     (case obj bundle ''passport'' of None \<Rightarrow> None | Some passport \<Rightarrow>
     (case canonical_integer_checked C passport of None \<Rightarrow> None | Some canon \<Rightarrow>
        if get_str est_ctx ''passport_digest'' \<noteq> Some (hex (sha256 C canon)) then None
        else if get_str passport ''birthtag_id'' \<noteq> Some imported then None
        else then_some (passport_bundle_ok C T passport imported timeline) imported)))"

section \<open>Bindings and identity\<close>

definition windows_conflict :: "json \<Rightarrow> json \<Rightarrow> bool" where
  "windows_conflict a b =
     (if \<not> value_eq (index a ''runtime_kid'') (index b ''runtime_kid'') then False
      else (case (nts (index a ''valid_from''), nts (index a ''valid_to''), nts (index b ''valid_from''), nts (index b ''valid_to'')) of
              (Some af, Some a_to, Some bf, Some b_to) \<Rightarrow> af \<le> b_to \<and> bf \<le> a_to
            | _ \<Rightarrow> False))"

definition declares_concurrent :: "Rec \<Rightarrow> string \<Rightarrow> bool" where
  "declares_concurrent x other = list_ex (\<lambda>v. as_str v = Some other) (arr (rec_ctx x) ''concurrent_with'')"

fun binding_conflict :: "Rec list \<Rightarrow> bool" where
  "binding_conflict [] = False"
| "binding_conflict (a # rest) =
     (list_ex (\<lambda>b. windows_conflict (rec_ctx a) (rec_ctx b) \<and> \<not> (declares_concurrent a (rec_rh b) \<and> declares_concurrent b (rec_rh a))) rest
      \<or> binding_conflict rest)"

definition covers_interval :: "json \<Rightarrow> string \<Rightarrow> string \<Rightarrow> bool" where
  "covers_interval ctx lo up =
     (case (nts (index ctx ''valid_from''), nts (index ctx ''valid_to'')) of
        (Some vf, Some vt) \<Rightarrow> vf \<le> lo \<and> up \<le> vt
      | _ \<Rightarrow> False)"

definition match_binding :: "Rec list \<Rightarrow> Lineage \<Rightarrow> Rec \<Rightarrow> json \<Rightarrow> Rec option" where
  "match_binding bindings lineage intent interval =
     (case nts (index interval ''lower'') of None \<Rightarrow> None | Some lo \<Rightarrow>
     (case nts (index interval ''upper'') of None \<Rightarrow> None | Some up \<Rightarrow>
        find (\<lambda>b. let ctx = rec_ctx b in
               get_str ctx ''birthtag_id'' = Some (lin_birthtag_id lineage)
               \<and> get_str ctx ''revision_id'' = Some (lin_revision_id lineage)
               \<and> is_some_and (get_str ctx ''runtime_kid'') (\<lambda>k. k \<in> rec_signer_kids intent)
               \<and> covers_interval ctx lo up) bindings))"

definition derive_identity ::
  "crates \<Rightarrow> asn1 \<Rightarrow> Rec list \<Rightarrow> json \<Rightarrow> Rec \<Rightarrow> Lineage option \<Rightarrow> RootEntry list \<Rightarrow> bool \<Rightarrow> json
     \<Rightarrow> string \<times> string option \<times> string option" where
  "derive_identity C T rows bundle intent lineage timeline root_conflict interval =
     (let bindings = root_valid_auth C rows timeline ''authority.principal.bound'' in
      if root_conflict \<or> binding_conflict bindings then (''CONFLICT'', None, None)
      else (case lineage of None \<Rightarrow> (''NOT_VERIFIED'', None, None) | Some lin \<Rightarrow>
        (case (if get (lin_est_ctx lin) ''imported_birthtag_id'' \<noteq> None then passport_birthtag C T bundle (lin_est_ctx lin) timeline
               else Some (lin_birthtag_id lin)) of
           None \<Rightarrow> (''NOT_VERIFIED'', None, None)
         | Some birthtag \<Rightarrow>
             (case match_binding bindings lin intent interval of
                Some b \<Rightarrow> (''VERIFIED'', Some (rec_rh b), Some birthtag)
              | None \<Rightarrow> (''NOT_VERIFIED'', None, Some birthtag)))))"

section \<open>Grants\<close>

text \<open>\<open>f64::trunc\<close> followed by the saturating \<open>as i64\<close>.\<close>

definition f64_trunc_i64 :: "u64 \<Rightarrow> int" where
  "f64_trunc_i64 b =
     (let e = uint (f64_exponent b); m = uint (b AND 0xfffffffffffff);
          mag = (if e < 1023 then 0
                 else if e < 1075 then (2 ^ 52 + m) div 2 ^ nat (1075 - e)
                 else (2 ^ 52 + m) * 2 ^ nat (e - 1075)) in
      if is_nan b then 0
      else if bit b 63 then max (- (2 ^ 63)) (- mag) else min (2 ^ 63 - 1) mag)"

definition py_as_int :: "json \<Rightarrow> int option" where
  "py_as_int v =
     (case v of
        JNumber n \<Rightarrow> (case number_as_i64 n of Some i \<Rightarrow> Some i | None \<Rightarrow> Some (f64_trunc_i64 (number_as_f64 n)))
      | JString x \<Rightarrow> parse_i64 (trim x)
      | JBool b \<Rightarrow> Some (if b then 1 else 0)
      | _ \<Rightarrow> None)"

type_synonym GrantVersion = "int \<times> int \<times> string \<times> json"

definition grant_version :: "Rec \<Rightarrow> ((int \<times> int \<times> string) \<times> json) option" where
  "grant_version r = do {
     gv \<leftarrow> get (rec_ctx r) ''grant_version'';
     v \<leftarrow> py_as_int gv;
     gp \<leftarrow> get (rec_ctx r) ''prev_grant_version'';
     pv \<leftarrow> py_as_int gp;
     Some ((v, pv, rec_rh r), rec_ctx r)
   }"

definition grant_versions :: "Rec list \<Rightarrow> GrantVersion list option" where
  "grant_versions revs =
     map_option (\<lambda>ps. map (\<lambda>((v, pv, h), ctx). (v, pv, h, ctx)) (btree_collect ps)) (collect_opt grant_version revs)"

text \<open>\<open>transfers_grant_id\<close>, when it is present and not null.\<close>

definition transfer_of :: "Rec \<Rightarrow> json option" where
  "transfer_of r = ofilter (\<lambda>v. v \<noteq> JNull) (get (rec_ctx r) ''transfers_grant_id'')"

definition issued_by_hash :: "Rec list \<Rightarrow> string \<rightharpoonup> Rec" where
  "issued_by_hash issued_all = map_of (rev (map (\<lambda>r. (rec_rh r, r)) issued_all))"

function mandate_loop :: "Rec list \<Rightarrow> Rec \<Rightarrow> string set \<Rightarrow> string option" where
  "mandate_loop issued_all cur seen =
     (case transfer_of cur of None \<Rightarrow> Some (rec_rh cur) | Some nxt \<Rightarrow>
     (case as_str nxt of None \<Rightarrow> None | Some key \<Rightarrow>
        if key \<in> seen then None
        else (case issued_by_hash issued_all key of
                None \<Rightarrow> None
              | Some r \<Rightarrow> mandate_loop issued_all r (insert key seen))))"
  by pat_completeness auto
termination
proof (relation "measure (\<lambda>(issued_all, _, seen). card (rec_rh ` set issued_all - seen))")
  fix issued_all :: "Rec list" and cur :: Rec and seen key r nxt
  assume k: "key \<notin> seen" and r: "issued_by_hash issued_all key = Some r"
  then have "key \<in> rec_rh ` set issued_all"
    by (auto simp: issued_by_hash_def dest!: map_of_SomeD)
  with k have "rec_rh ` set issued_all - insert key seen \<subset> rec_rh ` set issued_all - seen" by auto
  then show "((issued_all, r, insert key seen), issued_all, cur, seen) \<in> measure (\<lambda>(issued_all, _, seen). card (rec_rh ` set issued_all - seen))"
    by (simp add: psubset_card_mono)
qed simp

declare mandate_loop.simps [simp del]

definition mandate_id :: "Rec \<Rightarrow> Rec list \<Rightarrow> string option" where
  "mandate_id issued issued_all = mandate_loop issued_all issued {}"

definition LIMIT_KINDS :: "string list" where
  "LIMIT_KINDS = [''FLOW'', ''STOCK'', ''ONE_SHOT'']"

definition doc_ok :: "json \<Rightarrow> json \<Rightarrow> string \<Rightarrow> string \<Rightarrow> bool" where
  "doc_ok doc action_class lo up =
     (covers_interval doc lo up
      \<and> list_ex (\<lambda>c. value_eq c action_class) (arr doc ''action_classes'')
      \<and> is_some_and (Option.bind (get doc ''limits'') (\<lambda>l. get_str l ''kind'')) (\<lambda>k. k \<in> set LIMIT_KINDS))"

fun docs_loop :: "string \<Rightarrow> string \<Rightarrow> json \<times> json list \<Rightarrow> GrantVersion list \<Rightarrow> (json \<times> json list) option" where
  "docs_loop lo up docs [] = Some docs"
| "docs_loop lo up (first, later) ((_, _, _, ctx) # pairs) =
     (case nts (index ctx ''effective_ts'') of
        None \<Rightarrow> None
      | Some eff \<Rightarrow>
          docs_loop lo up (if eff \<le> lo then (ctx, later) else if eff \<le> up then (first, later @ [ctx]) else (first, later)) pairs)"

definition docs_cover :: "Rec \<Rightarrow> GrantVersion list \<Rightarrow> json \<Rightarrow> string \<Rightarrow> string \<Rightarrow> bool" where
  "docs_cover issued pairs action_class lo up =
     (case docs_loop lo up (rec_ctx issued, []) pairs of
        None \<Rightarrow> False
      | Some (first, later) \<Rightarrow> list_all (\<lambda>d. doc_ok d action_class lo up) (first # later))"

definition versions_dense :: "GrantVersion list \<Rightarrow> bool" where
  "versions_dense pairs = list_all (\<lambda>(i, p). fst p = int i + 2 \<and> fst (snd p) = fst p - 1) (List.enumerate 0 pairs)"

definition revoked_in_interval :: "crates \<Rightarrow> Rec list \<Rightarrow> RootEntry list \<Rightarrow> json \<Rightarrow> string \<Rightarrow> bool" where
  "revoked_in_interval C rows timeline gid up =
     list_ex (\<lambda>r. value_eq (index (rec_ctx r) ''grant_id'') gid
        \<and> (case nts (index (rec_ctx r) ''effective_ts'') of Some eff \<Rightarrow> eff \<le> up | None \<Rightarrow> True))
       (root_valid_auth C rows timeline ''authority.grant.revoked'')"

definition grant_chain_verified ::
  "crates \<Rightarrow> Rec list \<Rightarrow> RootEntry list \<Rightarrow> Rec \<Rightarrow> GrantVersion list \<Rightarrow> Rec \<Rightarrow> json \<Rightarrow> bool" where
  "grant_chain_verified C rows timeline issued pairs intent interval =
     (case (nts (index interval ''lower''), nts (index interval ''upper'')) of
        (Some lo, Some up) \<Rightarrow>
          versions_dense pairs \<and> \<not> revoked_in_interval C rows timeline (JString (rec_rh issued)) up
          \<and> docs_cover issued pairs (index (rec_ctx intent) ''action_class'') lo up
      | _ \<Rightarrow> False)"

definition binding_substituted :: "Rec \<Rightarrow> Rec list \<Rightarrow> string option \<Rightarrow> bool" where
  "binding_substituted issued revised binding_id =
     (case binding_id of
        None \<Rightarrow> False
      | Some b \<Rightarrow> list_ex (\<lambda>ctx. case get_str ctx ''binding_id'' of Some named \<Rightarrow> named \<noteq> [] \<and> named \<noteq> b | None \<Rightarrow> False)
                   (rec_ctx issued # map rec_ctx revised))"

definition derive_authority ::
  "crates \<Rightarrow> Rec list \<Rightarrow> RootEntry list \<Rightarrow> Rec \<Rightarrow> json \<Rightarrow> string set \<Rightarrow> string option \<Rightarrow> string \<times> (string \<times> json) list" where
  "derive_authority C rows timeline intent interval birthtags binding_id =
     (let gid = index (rec_ctx intent) ''grant_id'';
          issued_all = root_valid_auth C rows timeline ''authority.grant.issued'';
          revised = filter (\<lambda>r. value_eq (index (rec_ctx r) ''grant_id'') gid)
                      (root_valid_auth C rows timeline ''authority.grant.revised'');
          pairs = grant_versions revised in
      if is_some_and pairs (\<lambda>p. card (fst ` set p) < length p) then (''CONFLICT'', [])
      else
        (case find (\<lambda>r. value_eq (JString (rec_rh r)) gid) issued_all of
           None \<Rightarrow> (''NOT_VERIFIED'', [])
         | Some issued \<Rightarrow>
             if \<not> is_some_and (get_str (rec_ctx issued) ''subject_birthtag_id'') (\<lambda>b. b \<in> birthtags) then (''NOT_VERIFIED'', [])
             else
               (let ids = [(''grant_id'', gid)] in
                if binding_substituted issued revised binding_id then (''NOT_VERIFIED'', ids)
                else
                  (let ids = (case mandate_id issued issued_all of Some m \<Rightarrow> btree_put ''mandate_id'' (JString m) ids | None \<Rightarrow> ids) in
                   case pairs of
                     None \<Rightarrow> (''NOT_VERIFIED'', ids)
                   | Some ps \<Rightarrow>
                       (tri (grant_chain_verified C rows timeline issued ps intent interval) ''VERIFIED'' False [] ''NOT_VERIFIED'', ids)))))"

section \<open>The facts\<close>

definition weak_facts :: "string \<Rightarrow> json" where
  "weak_facts integrity =
     JObject [(''authority'', JString ''NOT_VERIFIED''), (''identity'', JString ''NOT_VERIFIED''), (''integrity'', JString integrity),
              (''intent'', JString ''NOT_RECORDED''), (''intent_interval'', JObject [(''lower'', JNull), (''upper'', JNull)])]"

definition put_opt :: "string \<Rightarrow> string option \<Rightarrow> (string \<times> json) list \<Rightarrow> (string \<times> json) list" where
  "put_opt k v m = (case v of Some x \<Rightarrow> btree_put k (JString x) m | None \<Rightarrow> m)"

definition intent_facts ::
  "crates \<Rightarrow> asn1 \<Rightarrow> json \<Rightarrow> Rec list \<Rightarrow> RootEntry list \<Rightarrow> bool \<Rightarrow> Rec \<Rightarrow> bool \<Rightarrow> json \<Rightarrow> (string \<times> json) list
     \<Rightarrow> json \<times> (string \<times> json) list" where
  "intent_facts C T bundle rows timeline root_conflict chosen dup out sids =
     (let interval = interval_for C bundle (rec_leaf chosen);
          out = set_member ''intent_interval'' interval out;
          out = set_member ''intent'' (JString (intent_result rows chosen dup)) out;
          sids = (if \<not> dup then btree_put ''intent_id'' (JString (rec_rh chosen)) sids else sids);
          lineage = agent_lineage rows (rec_agent chosen);
          (identity, binding_id, birthtag) = derive_identity C T rows bundle chosen lineage timeline root_conflict interval;
          out = set_member ''identity'' (JString identity) out;
          sids = put_opt ''birthtag_id'' birthtag (put_opt ''binding_id'' binding_id sids);
          birthtags = set_option birthtag \<union> lin_birthtag_id ` set_option lineage;
          (authority, gids) = derive_authority C rows timeline chosen interval birthtags binding_id in
      (set_member ''authority'' (JString authority) out, fold (\<lambda>(k, v). btree_put k v) gids sids))"

definition facts :: "crates \<Rightarrow> asn1 \<Rightarrow> json \<Rightarrow> string option \<Rightarrow> json" where
  "facts C T bundle action_id =
     (let rows = entry_rows C bundle;
          (org_id, timeline, root_conflict) = replay_roots C rows;
          out = weak_facts ''VALID'';
          sids = put_opt ''org_id'' org_id [];
          out = (if timeline \<noteq> [] \<and> snd (snd (snd (last timeline))) \<noteq> JNull
                 then set_member ''operator_entity'' (snd (snd (snd (last timeline)))) out else out);
          (out, sids) = (case pick_intent rows action_id of
                           None \<Rightarrow> (out, sids)
                         | Some (chosen, dup) \<Rightarrow> intent_facts C T bundle rows timeline root_conflict chosen dup out sids) in
      if sids \<noteq> [] then set_member ''subject_ids'' (JObject sids) out else out)"

definition authority_facts :: "crates \<Rightarrow> asn1 \<Rightarrow> json \<Rightarrow> string option \<Rightarrow> json" where
  "authority_facts C T bundle action_id =
     (if \<not> fst (verify_bundle_report C T bundle None) then weak_facts ''INVALID'' else facts C T bundle action_id)"

section \<open>The keys of a replayed log\<close>

definition entry_kid :: "crates \<Rightarrow> u64 \<times> json \<times> json \<Rightarrow> string option" where
  "entry_kid C entry = (case entry of (_, _, body) \<Rightarrow> map_option snd (key_from_jwk C (index (index body ''context'') ''jwk'')))"

lemma replay_step_kids:
  "replay_step C kl pos entry = Some kl' \<Longrightarrow> kl_keys kl' kid \<noteq> None \<Longrightarrow> kl_keys kl kid \<noteq> None \<or> entry_kid C entry = Some kid"
  by (auto simp: replay_step_def entry_kid_def apply_key_created_def apply_key_rotated_def apply_key_revoked_def insert_key_def Let_def
      split: prod.splits option.splits if_splits)

lemma replay_loop_kids:
  "kl_keys (replay_loop C kl pos entries) kid \<noteq> None \<Longrightarrow> kl_keys kl kid \<noteq> None \<or> Some kid \<in> entry_kid C ` set entries"
proof (induction entries arbitrary: kl pos)
  case (Cons e es)
  show ?case
  proof (cases "replay_step C kl pos e")
    case (Some kl')
    then show ?thesis
      using Cons.IH [of kl' "pos + 1"] Cons.prems replay_step_kids [OF Some, of kid] by (auto simp: image_iff)
  qed (use Cons.prems in simp)
qed simp

lemma replay_key_log_kids: "dom (kl_keys (replay_key_log C entries)) \<subseteq> set (entry_kids C entries)"
proof
  fix kid assume "kid \<in> dom (kl_keys (replay_key_log C entries))"
  then have "Some kid \<in> entry_kid C ` set (collect_key_entries C entries)"
    using replay_loop_kids [of C KeyLog_default 0 "collect_key_entries C entries" kid]
    by (auto simp: replay_key_log_def KeyLog_default_def Let_def split: if_splits)
  then show "kid \<in> set (entry_kids C entries)"
    by (auto simp: entry_kids_def entry_kid_def set_map_filter) force
qed

lemma transfer_sig_ok_keys:
  "transfer_sig_ok C pb transfer \<longleftrightarrow>
     (let pkl = replay_key_log C (arr pb ''entries''); eff = index transfer ''effective_ts'';
          n = unwrap_or 0 (Option.bind (get pb ''target_checkpoint'') (\<lambda>cp. body_u64 cp ''tree_size'')) in
      kl_ok pkl \<and> (\<exists>kid pub. kl_keys pkl kid = Some pub \<and> key_active pkl kid (unwrap_or [] (as_str eff)) n \<and>
        dsig_ok C pub (as_bytes ''evd/v1/passport/transfer'' @ [0]) transfer (get transfer ''transfer_sig'')))"
proof -
  have "list_ex (\<lambda>kid. case kl_keys (replay_key_log C es) kid of None \<Rightarrow> False | Some pub \<Rightarrow> P kid pub) (entry_kids C es)
      \<longleftrightarrow> (\<exists>kid pub. kl_keys (replay_key_log C es) kid = Some pub \<and> P kid pub)" for es P
    using replay_key_log_kids [of C es] by (force simp: list_ex_iff split: option.splits)
  then show ?thesis by (simp add: transfer_sig_ok_def Let_def)
qed

section \<open>Clamped times\<close>

lemma clamp_loop_fst: "map fst (clamp_loop e rows) = map fst rows"
  by (induction e rows rule: clamp_loop.induct) auto

lemma clamp_entry_least: "fst (clamp_entry e row) = (case e of None \<Rightarrow> fst row | Some t \<Rightarrow> min (fst t) (fst row))"
  by (auto simp: clamp_entry_def min_def split: option.splits)

lemma clamp_entry_origin: "clamp_entry e row \<in> insert row (set_option e)"
  by (auto simp: clamp_entry_def split: option.splits)

lemma clamp_loop_origin: "x \<in> set (clamp_loop e rows) \<Longrightarrow> snd x \<in> snd ` set rows \<union> set_option e"
proof (induction e rows rule: clamp_loop.induct)
  case (2 e n row rows)
  then show ?case using clamp_entry_origin [of e row] by auto
qed simp

lemma clamp_loop_least:
  "i < length rows \<Longrightarrow> fst (snd (clamp_loop e rows ! i))
     = Min ((\<lambda>x. fst (snd x)) ` set (take (Suc i) rows) \<union> fst ` set_option e)"
proof (induction e rows arbitrary: i rule: clamp_loop.induct)
  case (2 e n row rows)
  show ?case
  proof (cases i)
    case 0
    then show ?thesis by (cases e) (auto simp: clamp_entry_least min.commute)
  next
    case (Suc k)
    then have k: "k < length rows" using 2 by simp
    let ?S = "(\<lambda>x. fst (snd x)) ` set (take (Suc k) rows)"
    have ne: "?S \<noteq> {}" using k by (cases rows) auto
    have "fst (snd (clamp_loop e ((n, row) # rows) ! i)) = Min (insert (fst (clamp_entry e row)) ?S)"
      using "2.IH" [OF k] Suc by simp
    also have "\<dots> = min (fst (clamp_entry e row)) (Min ?S)" using ne by simp
    also have "\<dots> = Min (insert (fst row) ?S \<union> fst ` set_option e)"
      using ne by (cases e) (simp_all add: clamp_entry_least min.assoc min.left_commute)
    finally show ?thesis using Suc by simp
  qed
qed simp

text \<open>The times a bundle proves for its checkpoints, in the order of their sizes, before the clamp.\<close>

definition timed_checkpoints :: "crates \<Rightarrow> json \<Rightarrow> (int \<times> string \<times> string) list" where
  "timed_checkpoints C bundle =
     sort_key fst (List.map_filter (timed_checkpoint C (independent_ts_map bundle)) (arr bundle ''checkpoint_chain''))"

lemma clamped_times_rows: "clamped_times C bundle = rev (clamp_loop None (rev (timed_checkpoints C bundle)))"
  by (simp add: clamped_times_def timed_checkpoints_def Let_def)

lemma length_clamp_loop [simp]: "length (clamp_loop e rows) = length rows"
  using arg_cong [OF clamp_loop_fst, of length] by simp

lemma length_clamped_times [simp]: "length (clamped_times C bundle) = length (timed_checkpoints C bundle)"
  by (simp add: clamped_times_rows)

lemma clamped_times_fst: "map fst (clamped_times C bundle) = map fst (timed_checkpoints C bundle)"
  by (simp add: clamped_times_rows clamp_loop_fst flip: rev_map)

lemma clamped_times_nth:
  assumes "i < length (timed_checkpoints C bundle)"
  shows "fst (snd (clamped_times C bundle ! i)) = Min ((\<lambda>x. fst (snd x)) ` set (drop i (timed_checkpoints C bundle)))"
proof -
  let ?r = "timed_checkpoints C bundle"
  have "clamped_times C bundle ! i = clamp_loop None (rev ?r) ! (length ?r - Suc i)"
    using assms by (simp add: clamped_times_rows rev_nth)
  moreover have "length ?r - Suc i < length (rev ?r)" using assms by simp
  moreover have "set (take (Suc (length ?r - Suc i)) (rev ?r)) = set (drop i ?r)"
    using assms by (simp add: take_rev Suc_diff_Suc)
  ultimately show ?thesis using clamp_loop_least [of "length ?r - Suc i" "rev ?r" None] by simp
qed

lemma clamped_times_mono:
  assumes "i \<le> j" "j < length (timed_checkpoints C bundle)"
  shows "fst (snd (clamped_times C bundle ! i)) \<le> fst (snd (clamped_times C bundle ! j))"
proof -
  let ?r = "timed_checkpoints C bundle"
  have "set (drop j ?r) \<subseteq> set (drop i ?r)" using assms(1) by (rule set_drop_subset_set_drop)
  moreover have "drop j ?r \<noteq> []" using assms(2) by simp
  ultimately show ?thesis
    using assms by (auto simp: clamped_times_nth intro!: Min_le)
qed

lemma clamped_times_sorted: "sorted (map fst (clamped_times C bundle))"
  by (simp add: clamped_times_fst timed_checkpoints_def)

text \<open>Every proven time carries the text that it normalises.\<close>

definition proven_ok :: "(string \<rightharpoonup> string \<times> string) \<Rightarrow> bool" where
  "proven_ok m \<longleftrightarrow> (\<forall>h t. m h = Some t \<longrightarrow> nts (JString (snd t)) = Some (fst t))"

lemma nts_string: "nts v = Some t \<Longrightarrow> \<exists>x. v = JString x"
  by (cases v) (auto simp: nts_def as_str_def)

lemma time_record_ok: "proven_ok m \<Longrightarrow> proven_ok (time_record name r m)"
  using nts_string [of "index r name"]
  by (auto simp: proven_ok_def time_record_def index_def get_str_def as_str_def unwrap_or_def split: option.splits if_splits)

lemma independent_ts_map_ok: "proven_ok (independent_ts_map bundle)"
proof -
  have f: "proven_ok m \<Longrightarrow> proven_ok (fold (time_record name) rs m)" for name rs m
    by (induction rs arbitrary: m) (auto intro: time_record_ok)
  show ?thesis unfolding independent_ts_map_def by (intro f) (simp add: proven_ok_def)
qed

lemma clamped_times_text: "x \<in> set (clamped_times C bundle) \<Longrightarrow> nts (JString (snd (snd x))) = Some (fst (snd x))"
proof -
  assume "x \<in> set (clamped_times C bundle)"
  then have "snd x \<in> snd ` set (timed_checkpoints C bundle)"
    using clamp_loop_origin [of x None "rev (timed_checkpoints C bundle)"] by (simp add: clamped_times_rows)
  then obtain e n where "timed_checkpoint C (independent_ts_map bundle) e = Some (n, snd x)"
    by (auto simp: timed_checkpoints_def set_map_filter)
  then obtain h where "independent_ts_map bundle h = Some (snd x)"
    by (auto simp: timed_checkpoint_def bind_eq_Some_conv split: option.splits)
  then show ?thesis using independent_ts_map_ok by (auto simp: proven_ok_def)
qed

lemma interval_fold_lower:
  "\<forall>x \<in> set xs. fst x \<le> leaf \<Longrightarrow>
     fold (interval_step leaf) xs (lower, upper) = (if xs = [] then lower else JString (snd (snd (last xs))), upper)"
  by (induction xs arbitrary: lower) (auto simp: interval_step_def)

lemma interval_fold_upper:
  "\<forall>x \<in> set ys. leaf < fst x \<Longrightarrow>
     fold (interval_step leaf) ys (lower, upper)
       = (lower, if upper = JNull \<and> ys \<noteq> [] then JString (snd (snd (hd ys))) else upper)"
  by (induction ys arbitrary: upper) (auto simp: interval_step_def)

lemma interval_for_parts:
  assumes rows_def: "rows = clamped_times C bundle" and k_def: "k = length (takeWhile (\<lambda>x. fst x \<le> leaf) rows)"
  shows "interval_for C bundle leaf =
    JObject [(''lower'', if k = 0 then JNull else JString (snd (snd (rows ! (k - 1))))),
             (''upper'', if k = length rows then JNull else JString (snd (snd (rows ! k))))]"
proof -
  let ?xs = "takeWhile (\<lambda>x. fst x \<le> leaf) rows" and ?ys = "dropWhile (\<lambda>x. fst x \<le> leaf) rows"
  have lo: "\<forall>x \<in> set ?xs. fst x \<le> leaf" by (auto dest: set_takeWhileD)
  have up: "\<forall>x \<in> set ?ys. leaf < fst x"
  proof
    fix x assume x: "x \<in> set ?ys"
    then have ne: "?ys \<noteq> []" by (metis empty_iff empty_set)
    have "sorted (map fst ?ys)" using clamped_times_sorted [of C "bundle"]
      by (metis rows_def dropWhile_eq_drop drop_map sorted_wrt_drop)
    moreover have "leaf < fst (hd ?ys)" using hd_dropWhile [OF ne] by simp
    ultimately show "leaf < fst x" using x ne by (cases ?ys) auto
  qed
  have "fold (interval_step leaf) rows (JNull, JNull) = fold (interval_step leaf) ?ys (fold (interval_step leaf) ?xs (JNull, JNull))"
    by (metis fold_append comp_apply takeWhile_dropWhile_id)
  also have "\<dots> = (if ?xs = [] then JNull else JString (snd (snd (last ?xs))), if ?ys \<noteq> [] then JString (snd (snd (hd ?ys))) else JNull)"
    unfolding interval_fold_lower [OF lo] interval_fold_upper [OF up] by simp
  finally have "fold (interval_step leaf) rows (JNull, JNull)
      = (if ?xs = [] then JNull else JString (snd (snd (last ?xs))), if ?ys \<noteq> [] then JString (snd (snd (hd ?ys))) else JNull)" .
  moreover have "last ?xs = rows ! (k - 1)" if "?xs \<noteq> []"
    using that by (simp add: last_conv_nth k_def takeWhile_nth)
  moreover have "k \<le> length rows" "?ys = drop k rows" by (simp_all add: dropWhile_eq_drop k_def length_takeWhile_le)
  moreover from this have "k \<noteq> length rows \<Longrightarrow> hd ?ys = rows ! k" by (simp add: hd_drop_conv_nth)
  ultimately show ?thesis unfolding interval_for_def rows_def [symmetric] by (auto simp: k_def)
qed

lemma sorted_filter_takeWhile: "sorted xs \<Longrightarrow> filter (\<lambda>x. x \<le> n) xs = takeWhile (\<lambda>x. x \<le> n) xs" for n :: int
proof (induction xs)
  case (Cons a xs)
  then have "\<forall>x \<in> set xs. a \<le> x" by simp
  then have "filter (\<lambda>x. x \<le> n) xs = []" if "\<not> a \<le> n"
    using that by (intro filter_False) auto
  then show ?case using Cons by simp
qed simp

lemma interval_ordered:
  assumes lo: "nts (index (interval_for C bundle leaf) ''lower'') = Some lo"
    and up: "nts (index (interval_for C bundle leaf) ''upper'') = Some up"
  shows "lo \<le> up"
proof -
  let ?rows = "clamped_times C bundle"
  let ?k = "length (takeWhile (\<lambda>x. fst x \<le> leaf) ?rows)"
  note parts = interval_for_parts [OF refl refl, of C "bundle" leaf]
  have null: "nts JNull = None" by (simp add: nts_def as_str_def)
  have k: "0 < ?k" "?k < length ?rows"
    using lo up length_takeWhile_le [of "\<lambda>x. fst x \<le> leaf" ?rows]
    unfolding parts by (auto simp: index_def get_def null split: if_splits)
  then have "lo = fst (snd (?rows ! (?k - 1)))" "up = fst (snd (?rows ! ?k))"
    using lo up clamped_times_text [of "?rows ! (?k - 1)" C "bundle"] clamped_times_text [of "?rows ! ?k" C "bundle"]
    unfolding parts by (auto simp: index_def get_def)
  then show ?thesis using clamped_times_mono [of "?k - 1" ?k C "bundle"] k by simp
qed

section \<open>Grant transfers\<close>

inductive transfers :: "Rec list \<Rightarrow> Rec \<Rightarrow> Rec \<Rightarrow> bool" for issued_all where
  transfer: "transfer_of a = Some (JString key) \<Longrightarrow> issued_by_hash issued_all key = Some b \<Longrightarrow> transfers issued_all a b"

inductive_cases transfersE: "transfers issued_all a b"

lemma as_str_Some: "as_str v = Some s \<longleftrightarrow> v = JString s"
  by (auto simp: as_str_def split: json.splits)

lemma mandate_loop_sound:
  "mandate_loop issued_all cur seen = Some h \<Longrightarrow> \<exists>r. (transfers issued_all)\<^sup>*\<^sup>* cur r \<and> transfer_of r = None \<and> rec_rh r = h"
proof (induction issued_all cur seen rule: mandate_loop.induct)
  case (1 issued_all cur seen)
  show ?case
  proof (cases "transfer_of cur")
    case None
    then show ?thesis using "1.prems" by (auto simp: mandate_loop.simps [of _ cur])
  next
    case (Some nxt)
    then obtain key r where k: "as_str nxt = Some key" "key \<notin> seen" "issued_by_hash issued_all key = Some r"
      "mandate_loop issued_all r (insert key seen) = Some h"
      using "1.prems" by (auto simp: mandate_loop.simps [of _ cur] split: option.splits if_splits)
    then have "transfers issued_all cur r" using Some by (auto simp: as_str_Some intro: transfer)
    with "1.IH" [OF Some k(1,2,3,4)] show ?thesis by (auto intro: converse_rtranclp_into_rtranclp)
  qed
qed

text \<open>The number of transfers to the head of the chain.\<close>

fun mandate_depth :: "Rec list \<Rightarrow> nat \<Rightarrow> Rec \<Rightarrow> string \<Rightarrow> bool" where
  "mandate_depth issued_all 0 a h \<longleftrightarrow> transfer_of a = None \<and> rec_rh a = h"
| "mandate_depth issued_all (Suc n) a h \<longleftrightarrow> (\<exists>b. transfers issued_all a b \<and> mandate_depth issued_all n b h)"

lemma mandate_depth_unique: "mandate_depth issued_all n a h \<Longrightarrow> mandate_depth issued_all m a h' \<Longrightarrow> n = m"
proof (induction n arbitrary: m a)
  case 0
  then show ?case by (cases m) (auto elim: transfersE)
next
  case (Suc n)
  then obtain b where b: "transfers issued_all a b" "mandate_depth issued_all n b h" by auto
  then obtain k where m: "m = Suc k" using Suc.prems(2) by (cases m) (auto elim: transfersE)
  then obtain b' where "transfers issued_all a b'" "mandate_depth issued_all k b' h'" using Suc.prems(2) by auto
  moreover from this b(1) have "b' = b" by (auto elim!: transfersE)
  ultimately show ?case using Suc.IH b(2) m by blast
qed

lemma mandate_depth_reach:
  assumes "(transfers issued_all)\<^sup>*\<^sup>* a r" "transfer_of r = None" "rec_rh r = h"
  shows "\<exists>n. mandate_depth issued_all n a h"
  using assms(1)
proof (induction rule: converse_rtranclp_induct)
  case base
  then show ?case using assms(2,3) by (auto intro: exI [of _ 0])
next
  case (step a b)
  then obtain n where "mandate_depth issued_all (Suc n) a h" by auto
  then show ?case ..
qed

lemma mandate_loop_complete:
  "mandate_depth issued_all n cur h \<Longrightarrow>
   (\<forall>key \<in> seen. \<forall>b m. issued_by_hash issued_all key = Some b \<longrightarrow> mandate_depth issued_all m b h \<longrightarrow> n \<le> m) \<Longrightarrow>
   mandate_loop issued_all cur seen = Some h"
proof (induction n arbitrary: cur seen)
  case 0
  then show ?case by (simp add: mandate_loop.simps [of _ cur])
next
  case (Suc n)
  then obtain key b where b: "transfer_of cur = Some (JString key)" "issued_by_hash issued_all key = Some b"
    and d: "mandate_depth issued_all n b h" by (auto elim: transfersE)
  have fresh: "key \<notin> seen" using Suc.prems(2) b(2) d by fastforce
  have "mandate_loop issued_all b (insert key seen) = Some h"
  proof (rule Suc.IH [OF d], intro ballI allI impI)
    fix k c m assume "k \<in> insert key seen" and c: "issued_by_hash issued_all k = Some c" "mandate_depth issued_all m c h"
    then consider "k = key" | "k \<in> seen" by blast
    then show "n \<le> m"
    proof cases
      case 1
      then show ?thesis using b(2) c d mandate_depth_unique [OF d] by auto
    next
      case 2
      then show ?thesis using Suc.prems(2) c by fastforce
    qed
  qed
  then show ?case using b fresh by (simp add: mandate_loop.simps [of _ cur] as_str_def)
qed

section \<open>The document in effect\<close>

definition in_effect :: "string \<Rightarrow> json \<Rightarrow> bool" where
  "in_effect t ctx = is_some_and (nts (index ctx ''effective_ts'')) (\<lambda>eff. eff \<le> t)"

text \<open>The grant document in effect at an instant: the last revision, in the order of the versions, whose effective time has
  come, or the document as issued.\<close>

definition effective_at :: "json \<Rightarrow> GrantVersion list \<Rightarrow> string \<Rightarrow> json" where
  "effective_at doc pairs t = foldl (\<lambda>d (_, _, _, ctx). if in_effect t ctx then ctx else d) doc pairs"

lemma docs_loop_effective:
  assumes "docs_loop lo up (first, later) pairs = Some (first', later')" "doc \<in> set (first # later)" "lo \<le> t" "t \<le> up"
    and "doc = first \<or> doc \<in> set later"
  shows "effective_at doc pairs t \<in> set (first' # later')"
  using assms
proof (induction lo up "(first, later)" pairs arbitrary: first later doc rule: docs_loop.induct)
  case (2 lo up first later v pv h ctx pairs)
  obtain eff where eff: "nts (index ctx ''effective_ts'') = Some eff"
    using "2.prems"(1) by (auto split: option.splits)
  let ?docs = "if eff \<le> lo then (ctx, later) else if eff \<le> up then (first, later @ [ctx]) else (first, later)"
  let ?doc = "if in_effect t ctx then ctx else doc"
  obtain f l where fl: "?docs = (f, l)" by (cases ?docs)
  have rest: "docs_loop lo up (f, l) pairs = Some (first', later')" using "2.prems"(1) eff fl by simp
  have "?doc \<in> set (f # l)"
    using fl "2.prems"(2,3,4) eff by (auto simp: in_effect_def split: if_splits)
  then have "effective_at ?doc pairs t \<in> set (first' # later')"
    using "2.hyps" [OF eff fl rest _ "2.prems"(3,4)] by auto
  then show ?case by (simp add: effective_at_def)
qed (auto simp: effective_at_def)

section \<open>Roots\<close>

definition enrolment_row :: "crates \<Rightarrow> string set \<Rightarrow> bytes set \<Rightarrow> Rec \<Rightarrow> RootEntry \<Rightarrow> bool" where
  "enrolment_row C kids mats r re \<longleftrightarrow> (case re of (leaf, kid, pub, legal) \<Rightarrow>
     rec_agent r = ''_authority'' \<and> rec_action r = ''authority.root.enrolled'' \<and> rec_leaf r = leaf \<and>
     valid_enrolment C (rec_ctx r) kids mats = Some (kid, pub, legal))"

definition succeeds :: "crates \<Rightarrow> Rec \<Rightarrow> RootEntry \<Rightarrow> bool" where
  "succeeds C r re \<longleftrightarrow> (case re of (_, kid, pub, _) \<Rightarrow> get_str (rec_ctx r) ''prev_root_kid'' = Some kid \<and>
     dsig_ok C pub (authority_dom ''authority.root.enrolled'') (rec_ctx r) (get (rec_ctx r) ''prev_root_sig''))"

text \<open>The invariant of the replay after the rows in \<open>S\<close>.\<close>

definition root_inv :: "crates \<Rightarrow> string set \<Rightarrow> bytes set \<Rightarrow> Rec set \<Rightarrow> RootState \<Rightarrow> bool" where
  "root_inv C kids mats S st \<longleftrightarrow> (case st of (org_id, timeline, conflict) \<Rightarrow>
     (org_id = None \<longleftrightarrow> timeline = []) \<and>
     (\<forall>h. org_id = Some h \<longrightarrow> (\<exists>r \<in> S. rec_rh r = h \<and> enrolment_row C kids mats r (hd timeline))) \<and>
     (\<forall>re \<in> set timeline. \<exists>r \<in> S. enrolment_row C kids mats r re) \<and>
     (\<forall>i. Suc i < length timeline \<longrightarrow> (\<exists>r \<in> S. enrolment_row C kids mats r (timeline ! Suc i) \<and> succeeds C r (timeline ! i))) \<and>
     (\<not> conflict \<longrightarrow> (\<forall>r \<in> S. \<forall>re. enrolment_row C kids mats r re \<longrightarrow> re \<in> set timeline)))"

lemma root_inv_mono_false:
  "root_inv C kids mats S (org_id, timeline, conflict) \<Longrightarrow> S \<subseteq> S' \<Longrightarrow> root_inv C kids mats S' (org_id, timeline, True)"
  unfolding root_inv_def by (simp, blast)

lemma root_step_inv:
  assumes inv: "root_inv C kids mats S (org_id, timeline, conflict)"
  shows "root_inv C kids mats (insert r S) (root_step C kids mats r (org_id, timeline, conflict))"
proof (cases "\<exists>re. enrolment_row C kids mats r re")
  case False
  then have "\<not> enrolment_row C kids mats r (rec_leaf r, kid, pub, legal)" for kid pub legal by blast
  then have "rec_agent r \<noteq> ''_authority'' \<or> rec_action r \<noteq> ''authority.root.enrolled'' \<or> valid_enrolment C (rec_ctx r) kids mats = None"
    by (cases "valid_enrolment C (rec_ctx r) kids mats") (auto simp: enrolment_row_def)
  then have st: "root_step C kids mats r (org_id, timeline, conflict) = (org_id, timeline, conflict)"
    by (auto simp: root_step_def)
  show ?thesis unfolding st root_inv_def prod.case
    by (intro conjI) (use inv False in \<open>auto simp: root_inv_def\<close>)
next
  case True
  then obtain kid pub legal where e: "enrolment_row C kids mats r (rec_leaf r, kid, pub, legal)"
    by (auto simp: enrolment_row_def)
  let ?re = "(rec_leaf r, kid, pub, legal)"
  have only: "enrolment_row C kids mats r re \<Longrightarrow> re = ?re" for re
    using e by (auto simp: enrolment_row_def split: prod.splits)
  consider "timeline = []" | "timeline \<noteq> []" "succeeds C r (last timeline)" | "timeline \<noteq> []" "\<not> succeeds C r (last timeline)" by blast
  then show ?thesis
  proof cases
    case 1
    then have st: "root_step C kids mats r (org_id, timeline, conflict) = (Some (rec_rh r), [?re], conflict)"
      using e by (simp add: root_step_def enrolment_row_def)
    have none: "\<not> enrolment_row C kids mats r' re" if "\<not> conflict" "r' \<in> S" for r' re
      using inv 1 that by (cases re) (simp add: root_inv_def)
    show ?thesis unfolding st root_inv_def prod.case
    proof (intro conjI)
      show "\<not> conflict \<longrightarrow> (\<forall>r' \<in> insert r S. \<forall>re. enrolment_row C kids mats r' re \<longrightarrow> re \<in> set [?re])"
        using none only by (metis insert_iff list.set_intros(1))
    qed (use e in auto)
  next
    case 2
    then have st: "root_step C kids mats r (org_id, timeline, conflict) = (org_id, timeline @ [?re], conflict)"
      using e by (auto simp: root_step_def enrolment_row_def succeeds_def split: prod.splits)
    have chain: "\<exists>r' \<in> insert r S. enrolment_row C kids mats r' ((timeline @ [?re]) ! Suc i) \<and> succeeds C r' ((timeline @ [?re]) ! i)"
      if "Suc i < length (timeline @ [?re])" for i
    proof (cases "Suc i < length timeline")
      case True
      then show ?thesis using inv by (auto simp: root_inv_def nth_append)
    next
      case False
      then have "Suc i = length timeline" using that by simp
      then have "i = length timeline - 1" "timeline \<noteq> []" by auto
      then show ?thesis using e 2 by (auto simp: nth_append last_conv_nth)
    qed
    show ?thesis unfolding st root_inv_def prod.case
    proof (intro conjI)
      show "\<forall>i. Suc i < length (timeline @ [?re]) \<longrightarrow>
          (\<exists>r' \<in> insert r S. enrolment_row C kids mats r' ((timeline @ [?re]) ! Suc i) \<and> succeeds C r' ((timeline @ [?re]) ! i))"
        using chain by blast
      show "\<not> conflict \<longrightarrow> (\<forall>r' \<in> insert r S. \<forall>re. enrolment_row C kids mats r' re \<longrightarrow> re \<in> set (timeline @ [?re]))"
        using inv only by (fastforce simp: root_inv_def)
      show "\<forall>h. org_id = Some h \<longrightarrow> (\<exists>r' \<in> insert r S. rec_rh r' = h \<and> enrolment_row C kids mats r' (hd (timeline @ [?re])))"
        using inv 2(1) unfolding root_inv_def prod.case by (metis hd_append2 insertI2)
      show "\<forall>re \<in> set (timeline @ [?re]). \<exists>r' \<in> insert r S. enrolment_row C kids mats r' re"
        using inv e unfolding root_inv_def prod.case by (metis insert_iff rotate1.simps(2) set_ConsD set_rotate1)
    qed (use inv 2(1) in \<open>simp add: root_inv_def\<close>)
  next
    case 3
    then have "root_step C kids mats r (org_id, timeline, conflict) = (org_id, timeline, True)"
      using e by (auto simp: root_step_def enrolment_row_def succeeds_def split: prod.splits)
    then show ?thesis using root_inv_mono_false [OF inv] by auto
  qed
qed

lemma replay_roots_inv:
  assumes "witnessed_keys C rows = (kids, mats)"
  shows "root_inv C kids mats (set rows) (replay_roots C rows)"
proof -
  have "root_inv C kids mats S st \<Longrightarrow> root_inv C kids mats (S \<union> set rs) (fold (root_step C kids mats) rs st)" for S st rs
  proof (induction rs arbitrary: S st)
    case (Cons r rs)
    obtain o' t c where st: "st = (o', t, c)" by (cases st)
    have "root_inv C kids mats (insert r S) (root_step C kids mats r st)"
      using root_step_inv Cons.prems unfolding st by blast
    from Cons.IH [OF this] show ?case by simp
  qed simp
  from this [of "{}" "(None, [], False)" rows] show ?thesis
    using assms by (simp add: replay_roots_def root_inv_def)
qed

section \<open>What a verified answer means\<close>

lemma value_eq_string: "value_eq v (JString s) \<longleftrightarrow> v = JString s" "value_eq (JString s) v \<longleftrightarrow> v = JString s"
  by (cases v; auto simp: value_eq_def)+

lemma root_valid_authD:
  assumes "r \<in> set (root_valid_auth C rows timeline action_type)"
  shows "r \<in> set rows \<and> rec_agent r = ''_authority'' \<and> rec_action r = action_type \<and>
    (\<exists>leaf kid pub legal. root_at timeline (rec_leaf r) = Some (leaf, kid, pub, legal) \<and>
       dsig_ok C pub (authority_dom action_type) (rec_ctx r) (get (rec_ctx r) ''root_sig''))"
  using assms by (auto simp: root_valid_auth_def split: option.splits)

lemma versions_dense_nth:
  assumes "versions_dense pairs" "i < length pairs"
  shows "fst (pairs ! i) = int i + 2 \<and> fst (snd (pairs ! i)) = int i + 1"
proof -
  have "(i, pairs ! i) \<in> set (List.enumerate 0 pairs)" using assms(2) by (auto simp: in_set_enumerate_eq)
  then show ?thesis using assms(1) by (auto simp: versions_dense_def list_all_iff)
qed

lemma docs_cover_effective:
  assumes "docs_cover issued pairs cls lo up" "lo \<le> t" "t \<le> up"
  shows "doc_ok (effective_at (rec_ctx issued) pairs t) cls lo up"
proof -
  obtain first later where d: "docs_loop lo up (rec_ctx issued, []) pairs = Some (first, later)"
    "list_all (\<lambda>d. doc_ok d cls lo up) (first # later)"
    using assms(1) by (auto simp: docs_cover_def split: option.splits)
  have "effective_at (rec_ctx issued) pairs t \<in> set (first # later)"
    by (rule docs_loop_effective [OF d(1)]) (use assms in auto)
  then show ?thesis using d(2) unfolding list_all_iff by blast
qed

text \<open>A grant that authorises an action over an interval: issued and revised under the root in force, for one of the given
  subjects, with dense versions, in effect for the class at every instant, and not revoked by its end.\<close>

definition authorised ::
  "crates \<Rightarrow> Rec list \<Rightarrow> RootEntry list \<Rightarrow> Rec \<Rightarrow> string set \<Rightarrow> string \<Rightarrow> string \<Rightarrow> Rec \<Rightarrow> GrantVersion list \<Rightarrow> bool" where
  "authorised C rows timeline intent birthtags lo up issued pairs \<longleftrightarrow>
     issued \<in> set (root_valid_auth C rows timeline ''authority.grant.issued'') \<and>
     get_str (rec_ctx intent) ''grant_id'' = Some (rec_rh issued) \<and>
     (\<exists>subject \<in> birthtags. get_str (rec_ctx issued) ''subject_birthtag_id'' = Some subject) \<and>
     grant_versions (filter (\<lambda>r. get_str (rec_ctx r) ''grant_id'' = Some (rec_rh issued))
        (root_valid_auth C rows timeline ''authority.grant.revised'')) = Some pairs \<and>
     (\<forall>i < length pairs. fst (pairs ! i) = int i + 2 \<and> fst (snd (pairs ! i)) = int i + 1) \<and>
     (\<forall>t. lo \<le> t \<and> t \<le> up \<longrightarrow> doc_ok (effective_at (rec_ctx issued) pairs t) (index (rec_ctx intent) ''action_class'') lo up) \<and>
     (\<forall>r \<in> set (root_valid_auth C rows timeline ''authority.grant.revoked'').
        get_str (rec_ctx r) ''grant_id'' = Some (rec_rh issued) \<longrightarrow>
        (\<exists>eff. nts (index (rec_ctx r) ''effective_ts'') = Some eff \<and> up < eff))"

lemma index_string: "index v k = JString s \<longleftrightarrow> get_str v k = Some s"
  by (auto simp: index_def get_str_def as_str_def unwrap_or_def split: option.splits json.splits)

lemma derive_authority_verified:
  assumes "derive_authority C rows timeline intent interval birthtags binding_id = (''VERIFIED'', ids)"
  shows "\<exists>issued pairs lo up. nts (index interval ''lower'') = Some lo \<and> nts (index interval ''upper'') = Some up \<and>
    authorised C rows timeline intent birthtags lo up issued pairs"
proof -
  let ?gid = "index (rec_ctx intent) ''grant_id''"
  let ?revised = "filter (\<lambda>r. value_eq (index (rec_ctx r) ''grant_id'') ?gid) (root_valid_auth C rows timeline ''authority.grant.revised'')"
  obtain issued pairs where i: "find (\<lambda>r. value_eq (JString (rec_rh r)) ?gid) (root_valid_auth C rows timeline ''authority.grant.issued'') = Some issued"
    and subject: "is_some_and (get_str (rec_ctx issued) ''subject_birthtag_id'') (\<lambda>b. b \<in> birthtags)"
    and pairs: "grant_versions ?revised = Some pairs"
    and chain: "grant_chain_verified C rows timeline issued pairs intent interval"
    using assms unfolding derive_authority_def Let_def tri_def by (auto split: option.splits if_splits)
  have gid: "?gid = JString (rec_rh issued)" and mem: "issued \<in> set (root_valid_auth C rows timeline ''authority.grant.issued'')"
    using i by (auto simp: find_Some_iff value_eq_string)
  obtain lo up where b: "nts (index interval ''lower'') = Some lo" "nts (index interval ''upper'') = Some up"
    "versions_dense pairs" "\<not> revoked_in_interval C rows timeline (JString (rec_rh issued)) up"
    "docs_cover issued pairs (index (rec_ctx intent) ''action_class'') lo up"
    using chain by (auto simp: grant_chain_verified_def split: option.splits)
  have "authorised C rows timeline intent birthtags lo up issued pairs"
    unfolding authorised_def
  proof (intro conjI)
    show "grant_versions (filter (\<lambda>r. get_str (rec_ctx r) ''grant_id'' = Some (rec_rh issued))
        (root_valid_auth C rows timeline ''authority.grant.revised'')) = Some pairs"
      using pairs by (simp add: gid value_eq_string index_string)
    show "\<forall>r \<in> set (root_valid_auth C rows timeline ''authority.grant.revoked'').
        get_str (rec_ctx r) ''grant_id'' = Some (rec_rh issued) \<longrightarrow> (\<exists>eff. nts (index (rec_ctx r) ''effective_ts'') = Some eff \<and> up < eff)"
      using b(4) by (fastforce simp: revoked_in_interval_def list_ex_iff value_eq_string index_string split: option.splits)
    show "\<forall>t. lo \<le> t \<and> t \<le> up \<longrightarrow> doc_ok (effective_at (rec_ctx issued) pairs t) (index (rec_ctx intent) ''action_class'') lo up"
      using docs_cover_effective [OF b(5)] by blast
    show "\<forall>i < length pairs. fst (pairs ! i) = int i + 2 \<and> fst (snd (pairs ! i)) = int i + 1"
      using versions_dense_nth [OF b(3)] by blast
  qed (use mem subject gid in \<open>auto simp: is_some_and_iff index_string\<close>)
  with b show ?thesis by blast
qed

section \<open>The members of the facts\<close>

lemma weak_facts_object [simp]: "is_object (weak_facts i)"
  by (simp add: weak_facts_def is_object_def as_object_def)

lemma weak_facts_members:
  "get_str (weak_facts i) ''authority'' = Some ''NOT_VERIFIED''" "get_str (weak_facts i) ''identity'' = Some ''NOT_VERIFIED''"
  "get_str (weak_facts i) ''integrity'' = Some i" "get_str (weak_facts i) ''intent'' = Some ''NOT_RECORDED''"
  by (simp_all add: weak_facts_def get_str_def get_def as_str_def)

text \<open>The replayed timeline of a bundle, and the identity and the authority it gives an intent.\<close>

definition timeline_of :: "crates \<Rightarrow> json \<Rightarrow> RootEntry list" where
  "timeline_of C b = fst (snd (replay_roots C (entry_rows C b)))"

definition identity_of :: "crates \<Rightarrow> asn1 \<Rightarrow> json \<Rightarrow> Rec \<Rightarrow> string \<times> string option \<times> string option" where
  "identity_of C T b chosen =
     derive_identity C T (entry_rows C b) b chosen (agent_lineage (entry_rows C b) (rec_agent chosen)) (timeline_of C b)
       (snd (snd (replay_roots C (entry_rows C b)))) (interval_for C b (rec_leaf chosen))"

definition authority_of :: "crates \<Rightarrow> asn1 \<Rightarrow> json \<Rightarrow> Rec \<Rightarrow> string \<times> (string \<times> json) list" where
  "authority_of C T b chosen =
     (case identity_of C T b chosen of (_, binding_id, birthtag) \<Rightarrow>
        derive_authority C (entry_rows C b) (timeline_of C b) chosen (interval_for C b (rec_leaf chosen))
          (set_option birthtag \<union> lin_birthtag_id ` set_option (agent_lineage (entry_rows C b) (rec_agent chosen))) binding_id)"

lemma intent_facts_members:
  assumes "is_object out" "replay_roots C (entry_rows C b) = (org_id, timeline, conflict)"
  shows "is_object (fst (intent_facts C T b (entry_rows C b) timeline conflict chosen dup out sids))"
    "get_str (fst (intent_facts C T b (entry_rows C b) timeline conflict chosen dup out sids)) ''identity'' = Some (fst (identity_of C T b chosen))"
    "get_str (fst (intent_facts C T b (entry_rows C b) timeline conflict chosen dup out sids)) ''authority'' = Some (fst (authority_of C T b chosen))"
    "get_str (fst (intent_facts C T b (entry_rows C b) timeline conflict chosen dup out sids)) ''intent'' = Some (intent_result (entry_rows C b) chosen dup)"
  using assms by (simp_all add: intent_facts_def Let_def identity_of_def authority_of_def timeline_of_def get_str_set_member split: prod.split)

lemma facts_members:
  fixes C T b aid
  defines "p \<equiv> pick_intent (entry_rows C b) aid"
  shows "get_str (facts C T b aid) ''identity'' = Some (case p of None \<Rightarrow> ''NOT_VERIFIED'' | Some (chosen, _) \<Rightarrow> fst (identity_of C T b chosen))"
    "get_str (facts C T b aid) ''authority'' = Some (case p of None \<Rightarrow> ''NOT_VERIFIED'' | Some (chosen, _) \<Rightarrow> fst (authority_of C T b chosen))"
    "get_str (facts C T b aid) ''intent'' = Some (case p of None \<Rightarrow> ''NOT_RECORDED'' | Some (chosen, dup) \<Rightarrow> intent_result (entry_rows C b) chosen dup)"
proof -
  obtain org_id timeline conflict where r: "replay_roots C (entry_rows C b) = (org_id, timeline, conflict)" by (cases "replay_roots C (entry_rows C b)")
  note m = intent_facts_members [OF _ r]
  show "get_str (facts C T b aid) ''identity'' = Some (case p of None \<Rightarrow> ''NOT_VERIFIED'' | Some (chosen, _) \<Rightarrow> fst (identity_of C T b chosen))"
    "get_str (facts C T b aid) ''authority'' = Some (case p of None \<Rightarrow> ''NOT_VERIFIED'' | Some (chosen, _) \<Rightarrow> fst (authority_of C T b chosen))"
    "get_str (facts C T b aid) ''intent'' = Some (case p of None \<Rightarrow> ''NOT_RECORDED'' | Some (chosen, dup) \<Rightarrow> intent_result (entry_rows C b) chosen dup)"
    unfolding facts_def Let_def p_def [symmetric] r prod.case
    by (cases p; simp add: case_prod_beta get_str_set_member weak_facts_members m)+
qed

section \<open>Properties\<close>

text \<open>The identity, authority and intent members of the facts are those derived for the picked intent from a bundle that
  verifies, and the weak values for a bundle that does not verify or has no intent.\<close>

theorem authority_facts_exact:
  "let ok = fst (verify_bundle_report C T b None); p = pick_intent (entry_rows C b) aid; out = authority_facts C T b aid in
   get_str out ''integrity'' = Some (if ok then ''VALID'' else ''INVALID'') \<and>
   get_str out ''identity'' = Some (case p of Some (chosen, _) \<Rightarrow> if ok then fst (identity_of C T b chosen) else ''NOT_VERIFIED'' | None \<Rightarrow> ''NOT_VERIFIED'') \<and>
   get_str out ''authority'' = Some (case p of Some (chosen, _) \<Rightarrow> if ok then fst (authority_of C T b chosen) else ''NOT_VERIFIED'' | None \<Rightarrow> ''NOT_VERIFIED'') \<and>
   get_str out ''intent'' = Some (case p of Some (chosen, dup) \<Rightarrow> if ok then intent_result (entry_rows C b) chosen dup else ''NOT_RECORDED'' | None \<Rightarrow> ''NOT_RECORDED'')"
proof -
  have "get_str (facts C T b aid) ''integrity'' = Some ''VALID''"
    unfolding facts_def Let_def intent_facts_def
    by (simp add: case_prod_beta get_str_set_member weak_facts_members split: option.split)
  then show ?thesis
    by (simp add: Let_def authority_facts_def facts_members weak_facts_members split: option.split)
qed

text \<open>C33: The interval proven for an intent at a leaf is exactly bracketed by the independently timed checkpoints: with \<open>k\<close> of
  them covering only leaves up to the intent's, its lower end is the least time proven for the \<open>k\<close>-th or any later
  checkpoint and its upper end the least time proven for a checkpoint after those, absent when there is none. It is
  never inverted.\<close>

theorem intent_interval_exact:
  "let rows = timed_checkpoints C b; k = length (filter (\<lambda>x. fst x \<le> leaf) rows);
       least = (\<lambda>i. Min ((\<lambda>x. fst (snd x)) ` set (drop i rows)));
       lower = nts (index (interval_for C b leaf) ''lower''); upper = nts (index (interval_for C b leaf) ''upper'') in
   lower = (if k = 0 then None else Some (least (k - 1))) \<and>
   upper = (if k = length rows then None else Some (least k)) \<and>
   (case (lower, upper) of (Some lo, Some up) \<Rightarrow> lo \<le> up | _ \<Rightarrow> True)"
proof -
  define rows where "rows = timed_checkpoints C b"
  define k where "k = length (filter (\<lambda>x. fst x \<le> leaf) rows)"
  let ?c = "clamped_times C b"
  have sorted: "sorted (map fst rows)" by (simp add: rows_def timed_checkpoints_def)
  have k: "k = length (takeWhile (\<lambda>x. fst x \<le> leaf) ?c)"
  proof -
    have "k = length (filter (\<lambda>n. n \<le> leaf) (map fst rows))" by (simp add: k_def filter_map comp_def)
    also have "\<dots> = length (takeWhile (\<lambda>n. n \<le> leaf) (map fst rows))"
      using sorted by (simp add: sorted_filter_takeWhile)
    also have "\<dots> = length (takeWhile (\<lambda>n. n \<le> leaf) (map fst ?c))" by (simp add: clamped_times_fst rows_def)
    finally show ?thesis by (simp add: takeWhile_map comp_def)
  qed
  have len: "k \<le> length rows" by (simp add: k_def)
  have null: "nts JNull = None" by (simp add: nts_def as_str_def)
  have stamp: "nts (JString (snd (snd (?c ! i)))) = Some (Min ((\<lambda>x. fst (snd x)) ` set (drop i rows)))" if "i < length rows" for i
    using clamped_times_text [of "?c ! i" C b] clamped_times_nth [of i C b] that by (simp add: rows_def)
  have "nts (index (interval_for C b leaf) ''lower'') = (if k = 0 then None else Some (Min ((\<lambda>x. fst (snd x)) ` set (drop (k - 1) rows))))"
    using stamp [of "k - 1"] len null by (simp add: interval_for_parts [OF refl k] index_def get_def)
  moreover have "nts (index (interval_for C b leaf) ''upper'') = (if k = length rows then None else Some (Min ((\<lambda>x. fst (snd x)) ` set (drop k rows))))"
    using stamp [of k] len null by (simp add: interval_for_parts [OF refl k] index_def get_def rows_def)
  ultimately show ?thesis
    unfolding Let_def rows_def [symmetric] k_def [symmetric]
    using interval_ordered [of C b leaf] by (simp split: option.split)
qed

text \<open>The search for the mandate behind a grant always ends, on cyclic transfers too, and answers exactly when following the
  transfers from the grant reaches one that transfers nothing: the mandate is that grant.\<close>

theorem mandate_id_head:
  "mandate_id issued issued_all = Some h \<longleftrightarrow>
     (\<exists>r. (transfers issued_all)\<^sup>*\<^sup>* issued r \<and> transfer_of r = None \<and> rec_rh r = h)"
proof
  show "mandate_id issued issued_all = Some h \<Longrightarrow> \<exists>r. (transfers issued_all)\<^sup>*\<^sup>* issued r \<and> transfer_of r = None \<and> rec_rh r = h"
    unfolding mandate_id_def by (rule mandate_loop_sound)
next
  assume "\<exists>r. (transfers issued_all)\<^sup>*\<^sup>* issued r \<and> transfer_of r = None \<and> rec_rh r = h"
  then obtain n where "mandate_depth issued_all n issued h" using mandate_depth_reach by blast
  then show "mandate_id issued issued_all = Some h"
    unfolding mandate_id_def by (rule mandate_loop_complete) simp
qed


lemma binding_conflict_nth:
  "\<not> binding_conflict bs \<Longrightarrow> i < j \<Longrightarrow> j < length bs \<Longrightarrow> windows_conflict (rec_ctx (bs ! i)) (rec_ctx (bs ! j)) \<Longrightarrow>
     declares_concurrent (bs ! i) (rec_rh (bs ! j)) \<and> declares_concurrent (bs ! j) (rec_rh (bs ! i))"
proof (induction bs arbitrary: i j)
  case (Cons b bs)
  then show ?case by (cases i; cases j) (auto simp: list_ex_iff)
qed simp

text \<open>A binding that identifies the signer of an intent over an interval.\<close>

definition identifies :: "Lineage \<Rightarrow> Rec \<Rightarrow> string \<Rightarrow> string \<Rightarrow> Rec \<Rightarrow> bool" where
  "identifies lin intent lo up b \<longleftrightarrow>
     get_str (rec_ctx b) ''birthtag_id'' = Some (lin_birthtag_id lin) \<and> get_str (rec_ctx b) ''revision_id'' = Some (lin_revision_id lin) \<and>
     (\<exists>k \<in> rec_signer_kids intent. get_str (rec_ctx b) ''runtime_kid'' = Some k) \<and>
     (\<exists>vf vt. nts (index (rec_ctx b) ''valid_from'') = Some vf \<and> nts (index (rec_ctx b) ''valid_to'') = Some vt \<and> vf \<le> lo \<and> up \<le> vt)"

lemma match_binding_identifies:
  assumes "match_binding bindings lin intent interval = Some b"
  shows "b \<in> set bindings \<and> (\<exists>lo up. nts (index interval ''lower'') = Some lo \<and> nts (index interval ''upper'') = Some up \<and>
    identifies lin intent lo up b)"
proof -
  obtain lo up where lu: "nts (index interval ''lower'') = Some lo" "nts (index interval ''upper'') = Some up"
    using assms by (auto simp: match_binding_def split: option.splits)
  have first: "find P xs = Some x \<Longrightarrow> x \<in> set xs \<and> P x" for P and xs :: "Rec list" and x
    by (auto simp: find_Some_iff)
  have "b \<in> set bindings" "identifies lin intent lo up b"
    using first [OF assms [unfolded match_binding_def lu option.case]]
    by (auto simp: identifies_def covers_interval_def Let_def is_some_and_iff split: option.splits)
  with lu show ?thesis by blast
qed

text \<open>C32: A verified identity is a binding signed under the root in force: it names the lineage's birthtag and revision, its
  runtime key signed the intent, and its window covers the whole proven interval; the roots do not conflict and any two
  overlapping bindings of one runtime key declare each other.\<close>

theorem verified_identity_bound:
  assumes "derive_identity C T rows b intent lineage timeline root_conflict interval = (''VERIFIED'', bid, birthtag)"
  shows "\<not> root_conflict \<and>
    (let bindings = root_valid_auth C rows timeline ''authority.principal.bound'' in
     (\<forall>i j. i < j \<and> j < length bindings \<and> windows_conflict (rec_ctx (bindings ! i)) (rec_ctx (bindings ! j)) \<longrightarrow>
        declares_concurrent (bindings ! i) (rec_rh (bindings ! j)) \<and> declares_concurrent (bindings ! j) (rec_rh (bindings ! i))) \<and>
     (\<exists>lin \<in> set_option lineage. \<exists>x \<in> set bindings. \<exists>lo up. bid = Some (rec_rh x) \<and>
        nts (index interval ''lower'') = Some lo \<and> nts (index interval ''upper'') = Some up \<and> identifies lin intent lo up x))"
proof -
  let ?bindings = "root_valid_auth C rows timeline ''authority.principal.bound''"
  obtain lin x where d: "\<not> root_conflict" "\<not> binding_conflict ?bindings" "lineage = Some lin"
    "match_binding ?bindings lin intent interval = Some x" "bid = Some (rec_rh x)"
    using assms unfolding derive_identity_def Let_def by (auto split: if_splits option.splits)
  then show ?thesis
    using match_binding_identifies [OF d(4)] binding_conflict_nth [OF d(2)] by (auto simp: Let_def)
qed

text \<open>C31: A verified authority is a grant that covers the action: issued and revised under the roots in force, to a subject of
  the lineage, with dense version numbers, in effect for the action's class at every instant of the proven interval, and
  not revoked by its end.\<close>

theorem verified_authority_covers:
  assumes "derive_authority C rows timeline intent interval birthtags binding_id = (''VERIFIED'', ids)"
  shows "\<exists>issued pairs lo up. nts (index interval ''lower'') = Some lo \<and> nts (index interval ''upper'') = Some up \<and>
    authorised C rows timeline intent birthtags lo up issued pairs"
  using assms by (rule derive_authority_verified)

definition toy_authority :: crates where
  "toy_authority = toy_base\<lparr>vk_verify := \<lambda>_ _ _. True\<rparr>"

definition toy_window :: "(string \<times> json) list" where
  "toy_window = [(''valid_from'', JString ''2025-01-01T00:00:00Z''), (''valid_to'', JString ''2026-01-01T00:00:00Z'')]"

definition toy_row :: "int \<Rightarrow> string \<Rightarrow> string \<Rightarrow> (string \<times> json) list \<Rightarrow> string \<Rightarrow> Rec" where
  "toy_row leaf agent act ctx rh =
     \<lparr>rec_leaf = leaf, rec_agent = agent, rec_action = act, rec_ctx = JObject ctx, rec_commitments = JObject [], rec_rh = rh,
      rec_signer_kids = set []\<rparr>"

definition toy_grant :: Rec where
  "toy_grant = toy_row 2 ''_authority'' ''authority.grant.issued''
     ([(''action_classes'', JArray [JString ''pay'']), (''limits'', JObject [(''kind'', JString ''FLOW'')]),
       (''root_sig'', JString (replicate 64 CHR 0x61)), (''subject_birthtag_id'', JString ''b'')] @ toy_window) ''g''"

definition toy_action_intent :: Rec where
  "toy_action_intent = toy_row 3 ''a'' ''action.intent'' [(''action_class'', JString ''pay''), (''grant_id'', JString ''g'')] ''i''"

definition toy_interval :: json where
  "toy_interval = JObject [(''lower'', JString ''2025-02-01T00:00:00Z''), (''upper'', JString ''2025-03-01T00:00:00Z'')]"

theorem verified_authority_covers_witness:
  "\<exists>issued pairs lo up. nts (index toy_interval ''lower'') = Some lo \<and> nts (index toy_interval ''upper'') = Some up \<and>
    authorised toy_authority [toy_grant, toy_action_intent] [(1, ''k'', [], JNull)] toy_action_intent (set [''b'']) lo up issued pairs"
proof (rule verified_authority_covers)
  show "derive_authority toy_authority [toy_grant, toy_action_intent] [(1, ''k'', [], JNull)] toy_action_intent toy_interval (set [''b'']) None
    = (''VERIFIED'', [(''grant_id'', JString ''g''), (''mandate_id'', JString ''g'')])"
    by code_simp
qed

definition toy_binding :: Rec where
  "toy_binding = toy_row 2 ''_authority'' ''authority.principal.bound''
     ([(''birthtag_id'', JString ''b''), (''revision_id'', JString ''b''), (''root_sig'', JString (replicate 64 CHR 0x61)),
       (''runtime_kid'', JString ''k'')] @ toy_window) ''p''"

theorem verified_identity_bound_witness:
  "\<exists>x \<in> set [toy_binding]. \<exists>lo up. Some (rec_rh x) = Some ''p'' \<and>
     identifies \<lparr>lin_birthtag_id = ''b'', lin_revision_id = ''b'', lin_est_ctx = JNull\<rparr> (toy_action_intent\<lparr>rec_signer_kids := set [''k'']\<rparr>) lo up x"
proof -
  have rows: "root_valid_auth toy_authority [toy_binding] [(1, ''k'', [], JNull)] ''authority.principal.bound'' = [toy_binding]"
    by code_simp
  have found: "match_binding [toy_binding] \<lparr>lin_birthtag_id = ''b'', lin_revision_id = ''b'', lin_est_ctx = JNull\<rparr>
      (toy_action_intent\<lparr>rec_signer_kids := set [''k'']\<rparr>) toy_interval = Some toy_binding"
    by code_simp
  have "derive_identity toy_authority toy_asn1 [toy_binding] JNull (toy_action_intent\<lparr>rec_signer_kids := set [''k'']\<rparr>)
    (Some \<lparr>lin_birthtag_id = ''b'', lin_revision_id = ''b'', lin_est_ctx = JNull\<rparr>) [(1, ''k'', [], JNull)] False toy_interval
    = (''VERIFIED'', Some ''p'', Some ''b'')"
    using found by (simp add: derive_identity_def rows get_def as_object_def) (simp add: toy_binding_def toy_row_def)
  from verified_identity_bound [OF this] show ?thesis unfolding rows by (auto simp: Let_def)
qed

end
