(* ===== verification/Verdict.thy ===== *)
theory Verdict
  imports Action_Values
begin

text \<open>
  \<open>derive_vector\<close> of \<open>verify-rs/src/action.rs\<close>: the verdict vector of an action from a verdict input written by the
  producer and the trust context of the relying party. Every function is total; what cannot be read or proven gives the
  weak value. \<open>Err(Raise)\<close>, which the last step turns into the fully weak vector, is \<open>None\<close>. The parameter \<open>F\<close> is the
  display of a binary64 by \<open>serde_json\<close>.
\<close>

section \<open>Constants\<close>

definition ID_VALS :: "string list" where
  "ID_VALS = [''VERIFIED'', ''NOT_VERIFIED'', ''CONFLICT'']"

definition INTENT_VALS :: "string list" where
  "INTENT_VALS = [''RECORDED'', ''NOT_RECORDED'', ''CONFLICT'']"

definition KP_METHODS :: "string list" where
  "KP_METHODS = [''DOMAIN_CONTROL'', ''TRUST_LIST'', ''EXTERNAL_CA'']"

definition NODE_BASES :: "string list" where
  "NODE_BASES = [''HARDWARE_ATTESTED'', ''INDEPENDENTLY_ATTESTED'', ''LOG_WITNESSED_SOFTWARE'']"

definition LEGAL :: "string list" where
  "LEGAL = [''source_registry'', ''registry_id'', ''ultimate_controller'', ''retrieved_at'', ''retrieval_proof'']"

definition POP :: "string list" where
  "POP = [''dense_seq_range'', ''tree_size'', ''checkpoint_ref'', ''consistency_proof_ref'', ''query_descriptor'', ''result_root'',
     ''count'', ''signature'']"

definition GATED :: "string list" where
  "GATED = [''identity'', ''authority'', ''intent'', ''integrity'', ''linkage'', ''outcome'', ''coverage'', ''coverage_basis'',
     ''temporal_binding'', ''fork_findings'', ''scitt_receipt'']"

definition ELIGIBLE_EXACT :: "(string \<times> string) list" where
  "ELIGIBLE_EXACT = [(''identity'', ''VERIFIED''), (''authority'', ''VERIFIED''), (''intent'', ''RECORDED''), (''integrity'', ''VALID''),
     (''outcome'', ''MATCHED''), (''coverage'', ''CLOSED'')]"

definition MAX_SOURCE_PROOFS :: nat where
  "MAX_SOURCE_PROOFS = 128"

definition MAX_SOURCE_PROOF_TOTAL_BYTES :: nat where
  "MAX_SOURCE_PROOF_TOTAL_BYTES = 8 * 1024 * 1024"

definition MAX_VERDICT_INPUT_BYTES :: nat where
  "MAX_VERDICT_INPUT_BYTES = 16 * 1024 * 1024"

definition MAX_TRUST_CONTEXT_BYTES :: nat where
  "MAX_TRUST_CONTEXT_BYTES = 1024 * 1024"

section \<open>The authority block\<close>

definition pick :: "json \<Rightarrow> string \<Rightarrow> string \<Rightarrow> string list \<Rightarrow> string \<Rightarrow> string" where
  "pick a integ name allowed weak =
     (case get_str a name of
        Some v \<Rightarrow> if integ = ''VALID'' \<and> v \<in> set allowed then v else weak
      | None \<Rightarrow> weak)"

definition authority_block :: "json \<Rightarrow> json \<times> json" where
  "authority_block vi =
     (let a = index vi ''authority'';
          integ = tri (get_str a ''integrity'' = Some ''VALID'') ''VALID'' True ''INVALID'' [];
          ii = index a ''intent_interval'';
          derived = JObject (btree_collect
            [(''identity'', JString (pick a integ ''identity'' ID_VALS ''NOT_VERIFIED'')),
             (''authority'', JString (pick a integ ''authority'' ID_VALS ''NOT_VERIFIED'')),
             (''intent'', JString (pick a integ ''intent'' INTENT_VALS ''NOT_RECORDED'')),
             (''integrity'', JString integ),
             (''intent_interval'', JObject [(''lower'', index ii ''lower''), (''upper'', index ii ''upper'')])]) in
      (a, derived))"

section \<open>Source proofs\<close>

definition bound_source_keys :: "json \<Rightarrow> json list option" where
  "bound_source_keys si = do {
     keys \<leftarrow> iter_items (if is_object si then get si ''keys'' else None);
     if list_ex (\<lambda>k. is_object k \<and> (is_array (index k ''kid'') \<or> is_object (index k ''kid''))) keys then None else Some keys
   }"

definition bound_source_key :: "json list \<Rightarrow> string option \<Rightarrow> json option" where
  "bound_source_key keys kid =
     (case filter (\<lambda>key. is_object key \<and> get_str key ''kid'' = kid) keys of [first] \<Rightarrow> Some first | _ \<Rightarrow> None)"

definition source_proof_material_size :: "crates \<Rightarrow> json \<Rightarrow> nat option" where
  "source_proof_material_size C proof =
     (if \<not> is_object proof then Some 0
      else
        (let material = get proof ''material''; context' = get proof ''signature_context'' in
         if material = None \<and> context' = None then Some 0
         else
           (let attributive = (get_str proof ''proof_type'' \<in> {Some ''asymmetric_signature'', Some ''mac''}) in
            if attributive \<and> (material = None \<or> Option.bind context' as_str \<noteq> Some SOURCE_WEBHOOK_SIGNATURE_CONTEXT) then None
            else do {
              m \<leftarrow> material;
              t \<leftarrow> as_str m;
              decoded \<leftarrow> B64_decode C t;
              then_some (B64_encode C decoded = t \<and> length decoded \<le> MAX_SOURCE_PROOF_MATERIAL_BYTES) (length decoded)
            })))"

fun source_proofs_loop :: "crates \<Rightarrow> nat \<Rightarrow> json list \<Rightarrow> bool" where
  "source_proofs_loop C acc [] = True"
| "source_proofs_loop C acc (proof # proofs) =
     (case source_proof_material_size C proof of
        None \<Rightarrow> False
      | Some n \<Rightarrow>
          if acc + n > MAX_SOURCE_PROOF_TOTAL_BYTES then False else source_proofs_loop C (acc + n) proofs)"

definition bounded_source_proofs :: "crates \<Rightarrow> json \<Rightarrow> json list option" where
  "bounded_source_proofs C vi =
     (case get vi ''source_proofs'' of
        None \<Rightarrow> Some []
      | Some value \<Rightarrow>
          (case as_array value of
             None \<Rightarrow> None
           | Some proofs \<Rightarrow>
               if length proofs > MAX_SOURCE_PROOFS then None
               else if \<not> source_proofs_loop C 0 proofs then None
               else Some proofs))"

definition withheld_fields :: "(u64 \<Rightarrow> string) \<Rightarrow> json \<Rightarrow> string list option" where
  "withheld_fields F vi =
     (let view = index vi ''view'' in
      map_option (map (\<lambda>w. py_str F (Some w) [])) (iter_items (if is_object view then get view ''withheld_fields'' else None)))"

definition field_withheld :: "(u64 \<Rightarrow> string) \<Rightarrow> json \<Rightarrow> string \<Rightarrow> bool option" where
  "field_withheld F vi name = map_option (\<lambda>withheld. name \<in> set withheld) (withheld_fields F vi)"

definition full_source_proof_kind :: "crates \<Rightarrow> json \<Rightarrow> json option \<Rightarrow> string option \<Rightarrow> json option \<Rightarrow> string" where
  "full_source_proof_kind C p key kid trust =
     (let family = Option.bind key (\<lambda>entry. get_str entry ''algorithm_family'') in
      if key = None \<or> \<not> source_webhook_verified C trust kid family p then ''NOTHING''
      else tri (get_str p ''proof_type'' = Some ''asymmetric_signature'') ''ASYMMETRIC'' True ''MAC'' [])"

definition legacy_source_proof_kind :: "crates \<Rightarrow> json \<Rightarrow> json option \<Rightarrow> string option \<Rightarrow> json option \<Rightarrow> string" where
  "legacy_source_proof_kind C p key kid trust =
     (if get_str p ''proof_type'' = Some ''asymmetric_signature'' \<and> key \<noteq> None \<and> verified C trust ''source_keys'' kid ''source-proof'' p
      then ''ASYMMETRIC''
      else if get_str p ''proof_type'' = Some ''mac'' \<and> mac_verified C trust kid ''source-proof'' p then ''MAC''
      else ''NOTHING'')"

definition source_proof_kind :: "crates \<Rightarrow> json \<Rightarrow> json list \<Rightarrow> json option \<Rightarrow> string" where
  "source_proof_kind C p keys trust =
     (if \<not> is_object p then ''NOTHING''
      else
        (let kid = get_str p ''key_identity''; key = bound_source_key keys kid in
         if get p ''material'' \<noteq> None \<or> get p ''signature_context'' \<noteq> None then full_source_proof_kind C p key kid trust
         else legacy_source_proof_kind C p key kid trust))"

definition source_signature :: "crates \<Rightarrow> (u64 \<Rightarrow> string) \<Rightarrow> json \<Rightarrow> json option \<Rightarrow> string option" where
  "source_signature C F vi trust = do {
     withheld \<leftarrow> field_withheld F vi ''source_proofs'';
     if withheld then Some ''NOT_RECOMPUTED''
     else do {
       keys \<leftarrow> bound_source_keys (index vi ''source_identity'');
       case bounded_source_proofs C vi of
         None \<Rightarrow> Some ''NONE''
       | Some proofs \<Rightarrow>
           (let kinds = map (\<lambda>p. source_proof_kind C p keys trust) proofs in
            Some (if ''ASYMMETRIC'' \<in> set kinds then ''ASYMMETRIC''
                  else tri (''MAC'' \<in> set kinds) ''SHARED_SECRET'' False [] ''NONE''))
     }
   }"

section \<open>Control\<close>

definition grounded_controllers :: "json \<Rightarrow> (json \<times> json) option" where
  "grounded_controllers ev =
     (let le = index ev ''legal_evidence''; kp = index ev ''key_provenance'';
          method_ok = is_some_and (get_str kp ''method'') (\<lambda>m. m \<in> set KP_METHODS);
          ok = list_all (nonempty le) LEGAL \<and> method_ok \<and> nonempty kp ''evidence'' \<and> nonempty kp ''valid_from'' in
      if ok \<and> nonempty ev ''evaluator'' \<and> nonempty ev ''signature''
      then Some (index le ''ultimate_controller'', index ev ''operator_ultimate_controller'') else None)"

definition control_domain :: "crates \<Rightarrow> json \<Rightarrow> json option \<Rightarrow> string option" where
  "control_domain C vi trust = do {
     let ev = index vi ''control_evidence'';
     decls \<leftarrow> iter_items (get vi ''control_declarations'');
     let admits = (list_ex (\<lambda>d. get d ''claims_overlap'' = Some (JBool True)) decls \<or> get_str ev ''claimed_control_domain'' = Some ''OVERLAPPING'');
     let grounded = (if is_some_and (as_object ev) (\<lambda>m. m \<noteq> []) then grounded_controllers ev else None);
     let shared = is_some_and grounded (\<lambda>(a, b). value_eq a b);
     let evaluator_ok = verified C trust ''evaluator_keys'' (get_str ev ''evaluator'') ''control-evidence'' ev;
     Some (tri (admits \<or> shared) ''OVERLAPPING'' (grounded \<noteq> None \<and> evaluator_ok) ''INDEPENDENT'' ''UNKNOWN'')
   }"

section \<open>Nodes and coverage\<close>

definition scan_binds_batch :: "crates \<Rightarrow> json \<Rightarrow> json \<Rightarrow> bool" where
  "scan_binds_batch C vi scan =
     (case ofilter (\<lambda>d. d \<noteq> []) (get_str scan ''batch_digest'') of None \<Rightarrow> False | Some declared \<Rightarrow>
     (case obj vi ''batch'' of None \<Rightarrow> False | Some batch \<Rightarrow>
     (case (nts (index batch ''period_start''), nts (index batch ''period_end'')) of
        (Some start, Some fin) \<Rightarrow>
          start < fin \<and> (case canonical_integer_checked C batch of None \<Rightarrow> False | Some canon \<Rightarrow> declared = hex (sha256 C canon))
      | _ \<Rightarrow> False)))"

definition node_observed :: "crates \<Rightarrow> json \<Rightarrow> json option \<Rightarrow> bool" where
  "node_observed C vi trust =
     (let scan = index vi ''scan'' in
      flag scan ''performed'' \<and> flag scan ''authenticated_read'' \<and> scan_binds_batch C vi scan
      \<and> verified C trust ''node_keys'' (get_str scan ''node_id'') ''node-scan'' scan)"

definition node_dims :: "crates \<Rightarrow> json \<Rightarrow> json option \<Rightarrow> string \<times> string \<times> string" where
  "node_dims C vi trust =
     (let att = index vi ''node_attestation'';
          observed = node_observed C vi trust;
          att_ok = (verified C trust ''node_roots'' (get_str att ''attestor'') ''node-attestation'' att
            \<and> get_str att ''state'' = Some ''ISSUED'' \<and> is_some_and (get_str att ''method'') (\<lambda>m. m \<in> set NODE_BASES)
            \<and> nts (index att ''valid_from'') \<noteq> None \<and> nts (index att ''valid_to'') \<noteq> None);
          basis = (if get_str att ''method'' = Some ''HARDWARE_ATTESTED'' \<and> att_ok then ''HARDWARE_ATTESTED''
                   else if get_str att ''method'' = Some ''INDEPENDENTLY_ATTESTED'' \<and> att_ok then ''INDEPENDENTLY_ATTESTED''
                   else ''LOG_WITNESSED_SOFTWARE'');
          client = tri (flag vi ''client_attestation_present'' \<and> observed) ''ATTESTED'' False [] ''NONE'' in
      (tri observed ''OBSERVED'' False [] ''NOT_OBSERVED'', client, basis))"

definition full_scan :: "json \<Rightarrow> bool \<Rightarrow> bool" where
  "full_scan scan observed = (flag scan ''performed'' \<and> flag scan ''complete'' \<and> flag scan ''cursor_gap_free'' \<and> observed)"

definition ascii_upper :: "string \<Rightarrow> string" where
  "ascii_upper s = map (\<lambda>c. let b = (of_char c :: nat) in if 97 \<le> b \<and> b \<le> 122 then char_of (b - 32) else c) s"

definition has_open_finding :: "json \<Rightarrow> bool" where
  "has_open_finding vi =
     (case ofilter (\<lambda>f. f \<noteq> JNull) (get vi ''findings'') of
        None \<Rightarrow> False
      | Some found \<Rightarrow>
          (case as_array found of
             None \<Rightarrow> True
           | Some items \<Rightarrow> list_ex (\<lambda>f. \<not> is_object f
               \<or> ascii_upper (unwrap_or ''OPEN'' (get_str f ''state'')) \<notin> {''RESOLVED'', ''CLOSED'', ''DISMISSED''}) items))"

definition coverage :: "crates \<Rightarrow> json \<Rightarrow> string \<Rightarrow> bool \<Rightarrow> json option \<Rightarrow> string \<times> string" where
  "coverage C vi node_basis observed trust =
     (let batch = index vi ''batch''; scan = index vi ''scan''; pp = index batch ''population_proof'';
          pp_ok = (flag pp ''source_scope_defined'' \<and> verified C trust ''population_keys'' (get_str pp ''source_id'') ''population-proof'' pp);
          basis = (if pp_ok then ''SOURCE_PROVEN_POPULATION''
                   else if full_scan scan observed \<and> node_basis = ''HARDWARE_ATTESTED'' then ''ATTESTED_NODE_FULL_SCAN''
                   else ''INSUFFICIENT'');
          gapped = (nonempty batch ''gaps'' \<or> flag vi ''fork_findings_open''
            \<or> (flag scan ''performed'' \<and> get scan ''cursor_gap_free'' = Some (JBool False)) \<or> has_open_finding vi) in
      if gapped then (''GAPPED'', basis)
      else (tri (basis \<noteq> ''INSUFFICIENT'') ''CLOSED'' False [] ''UNKNOWN'', basis))"

section \<open>Linkage and outcome\<close>

definition MATERIAL_FLOOR :: "string list" where
  "MATERIAL_FLOOR = [''value'', ''currency'', ''counterparty'']"

definition STRUCTURAL_FIELDS :: "string list" where
  "STRUCTURAL_FIELDS = [''action_class'', ''action_id'', ''context_commitment'', ''event_key'', ''external_ref'', ''finality'',
     ''inputs_commitment'', ''outcome'', ''proof_digests'', ''reference'', ''schema'', ''source_effect_time'', ''source_identity_ref'']"

definition match_candidates :: "json \<Rightarrow> json list option" where
  "match_candidates vi =
     map_option (filter (\<lambda>m. is_object m \<and> list_ex (flag m) [''echoed_action_id'', ''immutable_ref_match'', ''unique_field_match'']))
       (iter_items (get vi ''event_matches''))"

definition material_fields :: "crates \<Rightarrow> (u64 \<Rightarrow> string) \<Rightarrow> json \<Rightarrow> string list" where
  "material_fields C F vi =
     foldl (\<lambda>names f. let name = unwrap_or (value_text C F f) (as_str f) in if name \<in> set names then names else names @ [name])
       MATERIAL_FLOOR (arr (index vi ''source_manifest'') ''material_fields'')"

definition field_text :: "crates \<Rightarrow> (u64 \<Rightarrow> string) \<Rightarrow> json \<Rightarrow> string \<Rightarrow> string option" where
  "field_text C F v f =
     (case get v f of
        None \<Rightarrow> None
      | Some JNull \<Rightarrow> None
      | Some (JString t) \<Rightarrow> Some (trim t)
      | Some other \<Rightarrow> Some (value_text C F other))"

text \<open>One iteration of \<open>declared_tally\<close>: the agreements, any mismatch, any one-sided field.\<close>

definition tally_step :: "crates \<Rightarrow> (u64 \<Rightarrow> string) \<Rightarrow> json \<Rightarrow> json \<Rightarrow> nat \<times> bool \<times> bool \<Rightarrow> string \<Rightarrow> nat \<times> bool \<times> bool" where
  "tally_step C F claim event st f = (case st of (compared, mismatch, uncomparable) \<Rightarrow>
     (case (field_text C F claim f, field_text C F event f) of
        (None, None) \<Rightarrow> (compared, mismatch, uncomparable)
      | (Some a, Some b) \<Rightarrow> if a = b then (compared + 1, mismatch, uncomparable) else (compared, True, uncomparable)
      | _ \<Rightarrow> (compared, mismatch, True)))"

definition declared_tally :: "crates \<Rightarrow> (u64 \<Rightarrow> string) \<Rightarrow> json \<Rightarrow> json \<Rightarrow> string list \<Rightarrow> nat \<times> bool \<times> bool" where
  "declared_tally C F claim event names = foldl (tally_step C F claim event) (0, False, False) names"

definition undeclared_disagreement :: "crates \<Rightarrow> (u64 \<Rightarrow> string) \<Rightarrow> json \<Rightarrow> json \<Rightarrow> string list \<Rightarrow> bool" where
  "undeclared_disagreement C F claim event names =
     (case as_object claim of
        None \<Rightarrow> False
      | Some members \<Rightarrow> list_ex (\<lambda>(f, _). f \<notin> set STRUCTURAL_FIELDS \<and> f \<notin> set names
          \<and> (case (field_text C F claim f, field_text C F event f) of (Some a, Some b) \<Rightarrow> a \<noteq> b | _ \<Rightarrow> False)) members)"

definition material_agreement :: "crates \<Rightarrow> (u64 \<Rightarrow> string) \<Rightarrow> json \<Rightarrow> json \<Rightarrow> string" where
  "material_agreement C F vi cand =
     (if flag cand ''material_mismatch'' then ''MISMATCH''
      else
        (let claim = index vi ''claim''; key = get_str cand ''event_key''; events = unwrap_or [] (get_array vi ''events'') in
         case find (\<lambda>e. is_object e \<and> get_str e ''event_key'' = key) events of
           None \<Rightarrow> ''UNCOMPARABLE''
         | Some event \<Rightarrow>
             (let names = material_fields C F vi in
              case declared_tally C F claim event names of (compared, mismatch, uncomparable) \<Rightarrow>
                if mismatch then ''MISMATCH''
                else if uncomparable \<or> compared = 0 \<or> undeclared_disagreement C F claim event names then ''UNCOMPARABLE''
                else ''AGREE'')))"

definition linkage_of :: "json list \<Rightarrow> string" where
  "linkage_of cands =
     (case cands of
        [] \<Rightarrow> ''NONE''
      | [c] \<Rightarrow> if flag c ''echoed_action_id'' then ''DIRECT'' else ''DETERMINISTIC''
      | _ \<Rightarrow> ''AMBIGUOUS'')"

definition linkage_outcome :: "crates \<Rightarrow> (u64 \<Rightarrow> string) \<Rightarrow> json \<Rightarrow> (string \<times> json) option" where
  "linkage_outcome C F vi = do {
     cands \<leftarrow> match_candidates vi;
     let linkage = linkage_of cands;
     if obj vi ''claim'' = None then Some (linkage, if truthy (get vi ''events'') then JString ''ORPHAN'' else JNull)
     else if linkage = ''DIRECT'' \<or> linkage = ''DETERMINISTIC'' then
       (let m = material_agreement C F vi (hd cands) in
        if m = ''MISMATCH'' then Some (linkage, JString ''CONTRADICTED'')
        else if m = ''AGREE'' \<and> flag (hd cands) ''final'' then Some (linkage, JString ''MATCHED'')
        else Some (linkage, JString ''CLAIM_ONLY''))
     else Some (linkage, JString ''CLAIM_ONLY'')
   }"

definition temporal :: "crates \<Rightarrow> json \<Rightarrow> json option \<Rightarrow> string" where
  "temporal C vi trust =
     (case obj vi ''temporal'' of None \<Rightarrow> ''UNPROVEN'' | Some t \<Rightarrow>
        (let echo = index t ''echo''; ib = index t ''intent_bounds''; eb = index t ''event_bounds'' in
         if list_ex (flag echo) [''echoed_intent_digest'', ''echoed_action_id'', ''echoed_nonce'']
            \<and> verified C trust ''source_keys'' (get_str echo ''source_id'') ''temporal-echo'' echo
         then ''PROVEN_SOURCE_ECHO''
         else if verified C trust ''temporal_keys'' (get_str ib ''attester'') ''temporal-bounds'' ib
              \<and> verified C trust ''temporal_keys'' (get_str eb ''attester'') ''temporal-bounds'' eb
              \<and> (case (nts (index ib ''upper''), nts (index eb ''lower'')) of (Some iu, Some el) \<Rightarrow> iu < el | _ \<Rightarrow> False)
         then ''PROVEN_INDEPENDENT''
         else ''UNPROVEN''))"

section \<open>Surfaces\<close>

definition mechanism :: "json \<Rightarrow> string" where
  "mechanism e =
     (case get_str e ''mechanism_declaration'' of
        Some d \<Rightarrow> if d = ''ENFORCED'' \<or> d = ''OBSERVED'' then tri (nonempty e ''evidence_source_ref'') d True ''DECLARED'' []
                  else if d = ''DECLARED'' then ''DECLARED'' else ''UNKNOWN''
      | None \<Rightarrow> ''UNKNOWN'')"

definition surface_row :: "crates \<Rightarrow> (u64 \<Rightarrow> string) \<Rightarrow> json \<Rightarrow> json option \<Rightarrow> json" where
  "surface_row C F e trust =
     (let grounded = verified C trust ''evaluator_keys'' (get_str e ''controlling_party'') ''surface-entry'' e;
          overlap = flag e ''controller_admits_overlap'';
          independent = (grounded \<and> flag e ''controller_grounded_independent'');
          cd = tri overlap ''OVERLAPPING'' independent ''INDEPENDENT'' ''UNKNOWN'';
          closed = (grounded \<and> flag e ''coverage_closed'');
          cov = tri (flag e ''coverage_gap'') ''GAPPED'' closed ''CLOSED'' ''UNKNOWN'';
          sid = py_str F (get e ''surface_id'') [] in
      JObject (btree_collect [(''surface_id'', JString sid), (''mechanism'', JString (mechanism e)), (''control_domain'', JString cd),
        (''coverage'', JString cov)]))"

definition to_vals :: "string set \<Rightarrow> json list" where
  "to_vals X = map JString (sorted_list_of_set X)"

definition surfaces :: "crates \<Rightarrow> (u64 \<Rightarrow> string) \<Rightarrow> json \<Rightarrow> json option \<Rightarrow> (json list \<times> json list \<times> json list) option" where
  "surfaces C F vi trust =
     (case obj vi ''surfaces'' of None \<Rightarrow> Some ([], [], []) | Some sur \<Rightarrow> do {
        let manifest = index sur ''manifest'';
        entries \<leftarrow> iter_items (if is_object manifest then get manifest ''entries'' else None);
        let decl = filter is_object entries;
        if list_ex (\<lambda>e. is_some_and (get e ''surface_class'') (\<lambda>v. is_array v \<or> is_object v)) decl then None
        else do {
          activity \<leftarrow> iter_items (get sur ''activity'');
          let declared = set (List.map_filter (\<lambda>e. get_str e ''surface_class'') decl);
          let acts = map (\<lambda>a. (py_str F (get a ''surface_class'') [], a)) (filter is_object activity);
          let oos = set (map fst (filter (\<lambda>(cls, _). cls \<notin> declared) acts));
          let breaches = set (map fst (filter (\<lambda>(cls, a). cls \<in> declared \<and> get a ''explained'' \<noteq> Some (JBool True)) acts));
          Some (map (\<lambda>e. surface_row C F e trust) decl, to_vals oos, to_vals breaches)
        }
      })"

section \<open>Accountability and assurance\<close>

definition ACC_KINDS :: "string list" where
  "ACC_KINDS = [''SPONSOR'', ''PARENT'', ''INSURER'', ''BOND_ESCROW'']"

definition acc_basis :: "string \<Rightarrow> nat option" where
  "acc_basis name = (if name \<in> set ACC_KINDS then Some (length (takeWhile (\<lambda>k. k \<noteq> name) ACC_KINDS)) else None)"

definition ORDER :: "string list" where
  "ORDER = [''SPONSOR_ASSERTED'', ''PARENT_GUARANTEED'', ''INSURER_CORROBORATED'', ''BONDED_OR_ESCROWED'']"

definition binding_rank :: "crates \<Rightarrow> (u64 \<Rightarrow> string) \<Rightarrow> json option \<Rightarrow> json \<Rightarrow> nat option" where
  "binding_rank C F trust b =
     (case acc_basis (py_str F (Some (index b ''kind'')) []) of
        None \<Rightarrow> None
      | Some rank \<Rightarrow>
          if \<not> list_all (flag b) [''signed'', ''agent_specific'', ''mandate_specific'', ''value_bounded'', ''time_bounded''] then None
          else if \<not> verified C trust ''accountability_keys'' (get_str b ''party'') ''accountability-binding'' b then None
          else if rank \<ge> 2 \<and> \<not> flag b ''externally_grounded'' then None
          else Some rank)"

definition accountability :: "crates \<Rightarrow> (u64 \<Rightarrow> string) \<Rightarrow> json \<Rightarrow> json option \<Rightarrow> string option" where
  "accountability C F vi trust = do {
     let acc = index vi ''accountability'';
     bindings \<leftarrow> iter_items (if is_object acc then get acc ''bindings'' else None);
     let best = foldl (\<lambda>best b. case binding_rank C F trust b of
                          None \<Rightarrow> best
                        | Some rank \<Rightarrow> Some (case best of None \<Rightarrow> rank | Some cur \<Rightarrow> max cur rank)) None (filter is_object bindings);
     Some (case best of Some r \<Rightarrow> ORDER ! r | None \<Rightarrow> ''UNKNOWN'')
   }"

definition assurance :: "json \<Rightarrow> bool \<Rightarrow> string" where
  "assurance vi observed =
     (let a = index vi ''assurance'' in
      if \<not> nonempty a ''intent_digest'' then ''NONE''
      else
        (let cands = (case get_i64 a ''candidates'' of
                        Some n \<Rightarrow> Some n
                      | None \<Rightarrow> (case get a ''candidates'' of Some (JBool b) \<Rightarrow> Some (if b then 1 else 0) | _ \<Rightarrow> None)) in
         if is_some_and cands (\<lambda>c. c \<ge> 2) then ''AMBIGUOUS''
         else if nonempty a ''presented_transcript_digest'' then
           (if \<not> value_eq_opt (get a ''presented_transcript_digest'') (get a ''intent_digest'') then ''AMBIGUOUS''
            else tri observed ''DIRECT'' True ''DETERMINISTIC'' [])
         else tri (cands = Some 1 \<and> flag a ''challenge_nonce_match'') ''DETERMINISTIC'' False [] ''NONE''))"

section \<open>Scopes\<close>

definition val_member :: "crates \<Rightarrow> (u64 \<Rightarrow> string) \<Rightarrow> json \<Rightarrow> string option" where
  "val_member C F x =
     (case x of
        JString t \<Rightarrow> Some t
      | JArray _ \<Rightarrow> None
      | JObject _ \<Rightarrow> None
      | _ \<Rightarrow> Some (value_text C F x))"

definition val_set :: "crates \<Rightarrow> (u64 \<Rightarrow> string) \<Rightarrow> json \<Rightarrow> string set option" where
  "val_set C F v =
     (case v of
        JNull \<Rightarrow> Some {}
      | JBool b \<Rightarrow> if b then None else Some {}
      | JNumber n \<Rightarrow> if zero_number n then Some {} else None
      | JString x \<Rightarrow> Some (set (char_pieces x))
      | JArray a \<Rightarrow> map_option set (collect_opt (val_member C F) a)
      | JObject m \<Rightarrow> Some (set (map fst m)))"

definition pred_map :: "json \<Rightarrow> (string \<times> json) list" where
  "pred_map v = unwrap_or [] (get_object (index v ''selector'') ''predicates'')"

fun predicates_loop :: "crates \<Rightarrow> (u64 \<Rightarrow> string) \<Rightarrow> (string \<times> json) list \<Rightarrow> (string \<times> json) list \<Rightarrow> bool option" where
  "predicates_loop C F cp [] = Some True"
| "predicates_loop C F cp ((k, va) # pp) =
     (case map_of cp k of
        None \<Rightarrow> predicates_loop C F cp pp
      | Some vb \<Rightarrow> do {
          a \<leftarrow> val_set C F va;
          b \<leftarrow> val_set C F vb;
          if a \<inter> b = {} then Some False else predicates_loop C F cp pp
        })"

definition predicates_intersect :: "crates \<Rightarrow> (u64 \<Rightarrow> string) \<Rightarrow> json \<Rightarrow> json \<Rightarrow> bool option" where
  "predicates_intersect C F p c = do {
     pc \<leftarrow> val_set C F (index p ''action_classes'');
     cc \<leftarrow> val_set C F (index c ''action_classes'');
     if pc \<inter> cc = {} then Some False else predicates_loop C F (pred_map c) (pred_map p)
   }"

definition scope_pair :: "crates \<Rightarrow> (u64 \<Rightarrow> string) \<Rightarrow> json \<Rightarrow> json \<Rightarrow> string" where
  "scope_pair C F p cand =
     (let c = index cand ''scope'' in
      if \<not> is_object p \<or> flag cand ''scope_digest_only'' \<or> \<not> is_object c then ''UNKNOWN''
      else if \<not> value_eq (index p ''org'') (index c ''org'') then ''UNKNOWN''
      else if \<not> value_eq (index (index p ''selector'') ''kind'') (index (index c ''selector'') ''kind'') then ''UNKNOWN''
      else if \<not> value_eq (index p ''source_system'') (index c ''source_system'') \<or> \<not> value_eq (index p ''account'') (index c ''account'')
      then ''UNRELATED''
      else (case predicates_intersect C F p c of Some True \<Rightarrow> ''RELATED'' | Some False \<Rightarrow> ''UNRELATED'' | None \<Rightarrow> ''UNKNOWN''))"

definition scope_relation :: "crates \<Rightarrow> (u64 \<Rightarrow> string) \<Rightarrow> json \<Rightarrow> json option" where
  "scope_relation C F vi =
     (case obj vi ''mandates'' of None \<Rightarrow> Some JNull | Some m \<Rightarrow> do {
        cands \<leftarrow> iter_items (get m ''candidates'');
        let results = map (scope_pair C F (index m ''presented_scope'')) (filter is_object cands);
        Some (JString (if ''RELATED'' \<in> set results then ''RELATED''
                       else tri (''UNKNOWN'' \<in> set results \<or> results = []) ''UNKNOWN'' False [] ''UNRELATED''))
      })"

section \<open>Population and history\<close>

definition population :: "crates \<Rightarrow> json \<Rightarrow> json option \<Rightarrow> json" where
  "population C vi trust =
     (case obj vi ''population_index'' of None \<Rightarrow> JNull | Some ix \<Rightarrow>
        (let complete = list_all (\<lambda>f. \<not> absent (get ix f)) POP;
             canonical_query = is_some_and (get ix ''query_descriptor'') is_object;
             signed' = verified C trust ''population_keys'' (get_str ix ''source_id'') ''population-index'' ix in
         JString (tri (complete \<and> canonical_query \<and> signed') ''PROVEN'' False [] ''INDETERMINATE'')))"

definition history_manifest_surface_classes :: "(u64 \<Rightarrow> string) \<Rightarrow> json \<Rightarrow> string set option" where
  "history_manifest_surface_classes F vi = do {
     sur \<leftarrow> obj vi ''surfaces'';
     manifest \<leftarrow> obj sur ''manifest'';
     entries \<leftarrow> get_array manifest ''entries'';
     if entries = [] then None
     else Some (set (map (\<lambda>entry. py_str F (get entry ''surface_class'') ''None'') (filter is_object entries)))
   }"

definition history :: "(u64 \<Rightarrow> string) \<Rightarrow> json \<Rightarrow> json option" where
  "history F vi =
     (case obj vi ''history'' of None \<Rightarrow> Some JNull | Some h \<Rightarrow>
        if flag h ''evidenced_history_in_scope'' then Some JNull
        else do {
          closed \<leftarrow> iter_items (get h ''surfaces_closed_since_birth'');
          let surfs = map (\<lambda>surface. py_str F (Some surface) []) closed;
          let surfs = (case history_manifest_surface_classes F vi of
                         Some declared \<Rightarrow> filter (\<lambda>surface. surface \<in> declared) surfs
                       | None \<Rightarrow> surfs);
          Some (if flag h ''born_with_evidence'' \<and> surfs \<noteq> []
                then JObject [(''state'', JString ''CLOSED_SINCE_BIRTH''), (''surfaces'', JArray (map JString surfs))]
                else JObject [(''state'', JString ''NO_EVIDENCED_HISTORY_IN_PRESENTED_SCOPE''), (''surfaces'', JArray [])])
        })"

definition authority_proof :: "json \<Rightarrow> json" where
  "authority_proof vi =
     (case obj vi ''handshake_authority'' of None \<Rightarrow> JNull | Some h \<Rightarrow>
        JString (case get_str h ''construction'' of
          Some c \<Rightarrow> if c = ''ACTION_SPECIFIC_AUTHORIZATION'' \<and> flag h ''asa_bindings_complete'' then c
                    else if c = ''DISCLOSED_LIMIT'' \<and> flag h ''disclosed_limit_covers'' then c else ''NONE''
        | None \<Rightarrow> ''NONE''))"

section \<open>Eligibility, registration and mark\<close>

definition eligibility :: "(u64 \<Rightarrow> string) \<Rightarrow> json \<Rightarrow> json \<Rightarrow> string option" where
  "eligibility F vi v = do {
     withheld \<leftarrow> withheld_fields F vi;
     if list_ex (\<lambda>w. w \<in> set GATED) withheld then Some ''NOT_RECOMPUTED''
     else
       (let interval = index v ''intent_interval'';
            checks = [list_all (\<lambda>(k, want). get_str v k = Some want) ELIGIBLE_EXACT,
                      index interval ''lower'' \<noteq> JNull \<and> index interval ''upper'' \<noteq> JNull,
                      get_str v ''linkage'' = Some ''DIRECT'' \<or> get_str v ''linkage'' = Some ''DETERMINISTIC'',
                      get_str v ''coverage_basis'' \<noteq> Some ''INSUFFICIENT'',
                      \<not> flag vi ''fork_findings_open'',
                      get_str v ''temporal_binding'' \<noteq> Some ''UNPROVEN'',
                      flag (index vi ''registration'') ''scitt_receipt_valid''] in
        Some (tri (list_all id checks) ''ELIGIBLE'' False [] ''INELIGIBLE''))
   }"

definition registration_status :: "crates \<Rightarrow> json \<Rightarrow> json option \<Rightarrow> string" where
  "registration_status C vi trust =
     (let reg = index vi ''registration''; sr = index reg ''scope_registration'';
          covered = (flag sr ''covers_scope'' \<and> flag sr ''term_valid'');
          registered = (covered \<and> is_some_and (get sr ''registration'') is_object \<and> flag reg ''scitt_receipt_valid''
            \<and> verified C trust ''scitt_ts_keys'' (get_str sr ''transparency_service'') ''scope-registration'' sr);
          signed_intent = is_some_and (get reg ''intent'') is_object in
      if registered then ''REGISTERED''
      else tri (signed_intent \<and> truthy (get reg ''attempts'')) ''PENDING'' False [] ''UNREGISTERED'')"

definition mark :: "string \<Rightarrow> string \<Rightarrow> json \<Rightarrow> string" where
  "mark te reg v =
     (if te = ''NOT_RECOMPUTED'' then ''NOT_RECOMPUTED''
      else if reg = ''PENDING'' then ''PENDING_REGISTRATION''
      else if reg = ''UNREGISTERED'' then ''UNMARKED_UNREGISTERED''
      else if te = ''INELIGIBLE'' then ''UNMARKED_TECHNICAL''
      else
        (let corroborated = (get_str v ''source_signature'' = Some ''ASYMMETRIC'' \<and> get_str v ''control_domain'' = Some ''INDEPENDENT'');
             observed = (get_str v ''node_observation'' = Some ''OBSERVED'' \<and> get_str v ''node_integrity_basis'' = Some ''HARDWARE_ATTESTED'') in
         tri corroborated ''UNMARKED_ASSURANCE_WITHDRAWN'' observed ''UNMARKED_ASSURANCE_WITHDRAWN'' ''UNMARKED_TECHNICAL''))"

section \<open>The vector\<close>

text \<open>The members of the vector before the last four assignments, in the order of the source.\<close>

definition vector_members :: "crates \<Rightarrow> (u64 \<Rightarrow> string) \<Rightarrow> json \<Rightarrow> json option \<Rightarrow> (string \<times> json) list option" where
  "vector_members C F vi trust = do {
     let derived = snd (authority_block vi);
     let (observed, client, node_basis) = node_dims C vi trust;
     let (cov, basis) = coverage C vi node_basis (observed = ''OBSERVED'') trust;
     (linkage, outcome) \<leftarrow> linkage_outcome C F vi;
     (rows, oos, breaches) \<leftarrow> surfaces C F vi trust;
     source \<leftarrow> source_signature C F vi trust;
     control \<leftarrow> control_domain C vi trust;
     accountable \<leftarrow> accountability C F vi trust;
     scope \<leftarrow> scope_relation C F vi;
     hist \<leftarrow> history F vi;
     Some [(''schema'', JString ''evd/verdict-vector/v1''),
       (''identity'', index derived ''identity''), (''authority'', index derived ''authority''), (''intent'', index derived ''intent''),
       (''outcome'', outcome), (''linkage'', JString linkage), (''coverage'', JString cov), (''integrity'', index derived ''integrity''),
       (''source_signature'', JString source), (''control_domain'', JString control), (''node_observation'', JString observed),
       (''client_attestation'', JString client), (''coverage_basis'', JString basis), (''node_integrity_basis'', JString node_basis),
       (''temporal_binding'', JString (temporal C vi trust)), (''intent_interval'', index derived ''intent_interval''),
       (''surfaces'', JArray rows), (''out_of_scope_surfaces'', JArray oos), (''boundary_breaches'', JArray breaches),
       (''accountability_basis'', JString accountable), (''assurance_linkage'', JString (assurance vi (observed = ''OBSERVED''))),
       (''scope_relation'', scope), (''population_status'', population C vi trust), (''history_state'', hist),
       (''authority_proof'', authority_proof vi)]
   }"

definition derive_inner :: "crates \<Rightarrow> (u64 \<Rightarrow> string) \<Rightarrow> json \<Rightarrow> json option \<Rightarrow> json option" where
  "derive_inner C F vi trust = do {
     members \<leftarrow> vector_members C F vi trust;
     let v = JObject (btree_collect members);
     te \<leftarrow> eligibility F vi v;
     let v = set_member ''technical_eligibility'' (JString te) v;
     let reg = registration_status C vi trust;
     let v = set_member ''registration_status'' (JString reg) v;
     let v = set_member ''mark'' (JString (mark (unwrap_or [] (get_str v ''technical_eligibility''))
                                               (unwrap_or [] (get_str v ''registration_status'')) v)) v;
     Some (case ofilter is_object (get (fst (authority_block vi)) ''subject_ids'') of
             Some ids \<Rightarrow> set_member ''subject_ids'' ids v
           | None \<Rightarrow> v)
   }"

definition derive_vector_with_trust :: "crates \<Rightarrow> (u64 \<Rightarrow> string) \<Rightarrow> json \<Rightarrow> json option \<Rightarrow> json" where
  "derive_vector_with_trust C F verdict_input trust =
     (case derive_inner C F verdict_input trust of Some v \<Rightarrow> v | None \<Rightarrow> the (derive_inner C F (JObject []) None))"

definition derive_vector :: "crates \<Rightarrow> (u64 \<Rightarrow> string) \<Rightarrow> json \<Rightarrow> json" where
  "derive_vector C F verdict_input = derive_vector_with_trust C F verdict_input None"

definition derive_vector_json :: "crates \<Rightarrow> (u64 \<Rightarrow> string) \<Rightarrow> bytes \<Rightarrow> bytes \<Rightarrow> json" where
  "derive_vector_json C F verdict_input_json trust_json =
     (let input = (if length verdict_input_json \<le> MAX_VERDICT_INPUT_BYTES then strict_json C verdict_input_json else None);
          trust = (if trust_json = [] \<or> length trust_json > MAX_TRUST_CONTEXT_BYTES then None else strict_json C trust_json) in
      derive_vector_with_trust C F (unwrap_or JNull input) trust)"

section \<open>The members of the vector\<close>

lemma get_object_collect: "get (JObject (btree_collect ps)) k = map_of (rev ps) k"
  by (simp add: get_def map_of_btree_collect)

lemma get_str_collect: "get_str (JObject (btree_collect ps)) k = Option.bind (map_of (rev ps) k) as_str"
  by (simp add: get_str_def get_object_collect)

abbreviation late_members :: "string set" where
  "late_members \<equiv> {''technical_eligibility'', ''registration_status'', ''mark'', ''subject_ids''}"

lemma derive_innerE:
  assumes "derive_inner C F vi trust = Some v"
  obtains members te where "vector_members C F vi trust = Some members" "eligibility F vi (JObject (btree_collect members)) = Some te"
    "is_object v" "get_str v ''technical_eligibility'' = Some te" "get_str v ''registration_status'' = Some (registration_status C vi trust)"
    "\<And>k. k \<notin> late_members \<Longrightarrow> get v k = map_of (rev members) k"
    "\<exists>w. get_str v ''mark'' = Some (mark te (registration_status C vi trust) w) \<and>
      (\<forall>k. k \<notin> late_members \<longrightarrow> get w k = get v k)"
proof -
  obtain members te where m: "vector_members C F vi trust = Some members" "eligibility F vi (JObject (btree_collect members)) = Some te"
    using assms by (auto simp: derive_inner_def Let_def bind_eq_Some_conv)
  let ?reg = "registration_status C vi trust"
  let ?w = "set_member ''registration_status'' (JString ?reg) (set_member ''technical_eligibility'' (JString te) (JObject (btree_collect members)))"
  have o: "is_object (JObject (btree_collect members))" by (simp add: is_object_def as_object_def)
  have w: "get_str ?w ''technical_eligibility'' = Some te" "get_str ?w ''registration_status'' = Some ?reg"
    using o by (simp_all add: get_str_set_member)
  have v: "v = (case ofilter is_object (get (fst (authority_block vi)) ''subject_ids'') of
      Some ids \<Rightarrow> set_member ''subject_ids'' ids (set_member ''mark'' (JString (mark te ?reg ?w)) ?w)
    | None \<Rightarrow> set_member ''mark'' (JString (mark te ?reg ?w)) ?w)"
    using assms [symmetric]
    by (cases "ofilter is_object (get (fst (authority_block vi)) ''subject_ids'')") (simp_all add: derive_inner_def Let_def m w unwrap_or_def)
  have e: "ofilter is_object (get (fst (authority_block vi)) ''subject_ids'') = None \<or>
      (\<exists>ids. ofilter is_object (get (fst (authority_block vi)) ''subject_ids'') = Some ids)" by (metis not_None_eq)
  have g: "get v k = get ?w k" if "k \<notin> {''mark'', ''subject_ids''}" for k
    using e o that by (elim disjE exE) (simp_all add: v get_set_member)
  have mk: "get_str v ''mark'' = Some (mark te ?reg ?w)" and ob: "is_object v"
    using e o by (elim disjE exE; simp add: v get_str_set_member)+
  have te: "get_str v ''technical_eligibility'' = Some te" and reg: "get_str v ''registration_status'' = Some ?reg"
    using w g [of "''technical_eligibility''"] g [of "''registration_status''"] by (simp_all add: get_str_def)
  have get: "get v k = map_of (rev members) k"
    if "k \<notin> late_members" for k
    using g [of k] that o by (simp add: get_set_member get_object_collect)
  have "\<forall>k. k \<notin> late_members \<longrightarrow> get ?w k = get v k"
    using g by simp
  with mk show thesis by (intro that [OF m ob te reg get]) (assumption, blast)
qed

lemma inner_get:
  assumes "derive_inner C F vi trust = Some v"
  shows "\<exists>members te. vector_members C F vi trust = Some members \<and> eligibility F vi (JObject (btree_collect members)) = Some te \<and>
    get_str v ''technical_eligibility'' = Some te \<and> (\<forall>k. k \<notin> late_members \<longrightarrow> get v k = map_of (rev members) k)"
  using assms by (rule derive_innerE) blast

text \<open>The observation of the node, on which coverage and assurance depend.\<close>

lemma node_dims_parts:
  assumes "node_dims C vi trust = (observed, client, basis)"
  shows "observed = (if node_observed C vi trust then ''OBSERVED'' else ''NOT_OBSERVED'')"
    "client = (if flag vi ''client_attestation_present'' \<and> node_observed C vi trust then ''ATTESTED'' else ''NONE'')"
    "basis \<in> set NODE_BASES"
    "basis \<noteq> ''LOG_WITNESSED_SOFTWARE'' \<Longrightarrow> (let att = index vi ''node_attestation'' in
       verified C trust ''node_roots'' (get_str att ''attestor'') ''node-attestation'' att \<and> get_str att ''method'' = Some basis)"
  using assms by (auto simp: node_dims_def Let_def tri_def NODE_BASES_def split: if_splits)

definition node_basis :: "crates \<Rightarrow> json \<Rightarrow> json option \<Rightarrow> string" where
  "node_basis C vi trust = snd (snd (node_dims C vi trust))"

lemma observed_iff: "fst (node_dims C vi trust) = ''OBSERVED'' \<longleftrightarrow> node_observed C vi trust"
  by (simp add: node_dims_def Let_def tri_def)

lemma vector_membersE:
  assumes "vector_members C F vi trust = Some members"
  obtains linkage outcome rows oos breaches source control accountable scope hist where
    "linkage_outcome C F vi = Some (linkage, outcome)" "surfaces C F vi trust = Some (rows, oos, breaches)"
    "source_signature C F vi trust = Some source" "control_domain C vi trust = Some control"
    "accountability C F vi trust = Some accountable" "scope_relation C F vi = Some scope" "history F vi = Some hist"
    "members = (let derived = snd (authority_block vi); n = node_dims C vi trust;
        c = coverage C vi (node_basis C vi trust) (node_observed C vi trust) trust in
      [(''schema'', JString ''evd/verdict-vector/v1''),
       (''identity'', index derived ''identity''), (''authority'', index derived ''authority''), (''intent'', index derived ''intent''),
       (''outcome'', outcome), (''linkage'', JString linkage), (''coverage'', JString (fst c)), (''integrity'', index derived ''integrity''),
       (''source_signature'', JString source), (''control_domain'', JString control), (''node_observation'', JString (fst n)),
       (''client_attestation'', JString (fst (snd n))), (''coverage_basis'', JString (snd c)), (''node_integrity_basis'', JString (snd (snd n))),
       (''temporal_binding'', JString (temporal C vi trust)), (''intent_interval'', index derived ''intent_interval''),
       (''surfaces'', JArray rows), (''out_of_scope_surfaces'', JArray oos), (''boundary_breaches'', JArray breaches),
       (''accountability_basis'', JString accountable), (''assurance_linkage'', JString (assurance vi (node_observed C vi trust))),
       (''scope_relation'', scope), (''population_status'', population C vi trust), (''history_state'', hist),
       (''authority_proof'', authority_proof vi)])"
proof -
  obtain linkage outcome rows oos breaches source control accountable scope hist where p:
    "linkage_outcome C F vi = Some (linkage, outcome)" "surfaces C F vi trust = Some (rows, oos, breaches)"
    "source_signature C F vi trust = Some source" "control_domain C vi trust = Some control"
    "accountability C F vi trust = Some accountable" "scope_relation C F vi = Some scope" "history F vi = Some hist"
    using assms unfolding vector_members_def Let_def case_prod_beta
    by (auto simp: bind_eq_Some_conv)
  show thesis
    by (rule that [OF p]) (use assms in \<open>simp add: vector_members_def p Let_def case_prod_beta observed_iff node_basis_def\<close>)
qed

section \<open>The weak derivation is total\<close>

lemma empty_get [simp]: "get (JObject []) k = None" "get JNull k = None" "index (JObject []) k = JNull" "index JNull k = JNull"
  by (simp_all add: get_def index_def unwrap_or_def)

lemma empty_access [simp]: "obj (JObject []) k = None" "is_object JNull = False" "iter_items None = Some []" "get_str JNull k = None"
  "flag JNull k = False" "nonempty JNull k = False" "arr JNull k = []" "get_i64 JNull k = None"
  by (simp_all add: obj_def ofilter_def is_object_def as_object_def iter_items_def get_str_def flag_def get_bool_def nonempty_def truthy_def
      arr_def get_array_def get_i64_def unwrap_or_def)

lemma weak_total: "derive_inner C F (JObject []) trust \<noteq> None"
proof -
  have "withheld_fields F (JObject []) = Some []" by (simp add: withheld_fields_def)
  moreover have "vector_members C F (JObject []) trust \<noteq> None"
    by (simp add: vector_members_def case_prod_beta linkage_outcome_def match_candidates_def surfaces_def source_signature_def
        field_withheld_def withheld_fields_def bound_source_keys_def bounded_source_proofs_def control_domain_def accountability_def
        scope_relation_def history_def Let_def)
  ultimately show ?thesis by (auto simp: derive_inner_def eligibility_def Let_def)
qed

text \<open>The published vector is a derivation that did not raise: of the input under the given trust, or of nothing under none.\<close>

lemma derive_vector_cases:
  obtains (input) "derive_inner C F vi trust = Some (derive_vector_with_trust C F vi trust)"
  | (weak) "derive_inner C F vi trust = None" "derive_inner C F (JObject []) None = Some (derive_vector_with_trust C F vi trust)"
proof (cases "derive_inner C F vi trust")
  case None
  then show thesis using weak weak_total [of C F None] by (auto simp: derive_vector_with_trust_def)
next
  case (Some v)
  then show thesis using input by (simp add: derive_vector_with_trust_def)
qed

section \<open>Dimensions\<close>

text \<open>Without a trust context no statement verifies.\<close>

lemma no_trust [simp]: "verified C None category name domain' payload = False" "mac_verified C None name domain' payload = False"
  "source_webhook_verified C None name family payload = False"
  by (auto simp: verified_def mac_verified_def source_webhook_verified_def source_webhook_ed25519_def source_webhook_mac_def key_for_def
      split: option.splits prod.splits)

lemma node_no_trust [simp]: "node_observed C vi None = False"
  "node_dims C vi None = (''NOT_OBSERVED'', ''NONE'', ''LOG_WITNESSED_SOFTWARE'')" "node_basis C vi None = ''LOG_WITNESSED_SOFTWARE''"
  by (simp_all add: node_basis_def node_dims_def node_observed_def Let_def tri_def)

lemma kind_no_trust [simp]: "source_proof_kind C p keys None = ''NOTHING''"
  by (simp add: source_proof_kind_def full_source_proof_kind_def legacy_source_proof_kind_def Let_def)

text \<open>The values each dimension can take, and the weak ones it takes without trust.\<close>

lemma source_signature_vals:
  "source_signature C F vi trust = Some x \<Longrightarrow> x \<in> {''NOT_RECOMPUTED'', ''NONE'', ''ASYMMETRIC'', ''SHARED_SECRET''}"
  "source_signature C F vi None = Some x \<Longrightarrow> x \<in> {''NOT_RECOMPUTED'', ''NONE''}"
  by (auto simp: source_signature_def bind_eq_Some_conv Let_def tri_def split: if_splits option.splits)

lemma control_domain_vals:
  "control_domain C vi trust = Some x \<Longrightarrow> x \<in> {''OVERLAPPING'', ''INDEPENDENT'', ''UNKNOWN''}"
  "control_domain C vi None = Some x \<Longrightarrow> x \<in> {''OVERLAPPING'', ''UNKNOWN''}"
  by (auto simp: control_domain_def bind_eq_Some_conv Let_def tri_def split: if_splits)

lemma coverage_vals:
  "coverage C vi b obs trust \<in> {''GAPPED'', ''CLOSED'', ''UNKNOWN''} \<times> {''SOURCE_PROVEN_POPULATION'', ''ATTESTED_NODE_FULL_SCAN'', ''INSUFFICIENT''}"
  "coverage C vi ''LOG_WITNESSED_SOFTWARE'' obs None \<in> {''GAPPED'', ''UNKNOWN''} \<times> {''INSUFFICIENT''}"
  by (simp_all add: coverage_def Let_def tri_def)

lemma linkage_outcome_vals:
  "linkage_outcome C F vi = Some (l, x) \<Longrightarrow> l \<in> {''NONE'', ''DIRECT'', ''DETERMINISTIC'', ''AMBIGUOUS''} \<and>
     x \<in> {JNull, JString ''ORPHAN'', JString ''CONTRADICTED'', JString ''MATCHED'', JString ''CLAIM_ONLY''}"
  by (auto simp: linkage_outcome_def bind_eq_Some_conv Let_def linkage_of_def split: if_splits list.splits)

lemma temporal_vals:
  "temporal C vi trust \<in> {''PROVEN_SOURCE_ECHO'', ''PROVEN_INDEPENDENT'', ''UNPROVEN''}" "temporal C vi None = ''UNPROVEN''"
  by (auto simp: temporal_def Let_def split: option.splits)

lemma binding_rank_bound: "binding_rank C F trust b = Some r \<Longrightarrow> r < length ORDER"
  by (auto simp: binding_rank_def acc_basis_def ACC_KINDS_def ORDER_def split: option.splits if_splits)

lemma accountability_fold:
  assumes "\<forall>b \<in> set bs. \<forall>r. binding_rank C F trust b = Some r \<longrightarrow> P r" "\<forall>r \<in> set_option best. P r"
  shows "\<forall>r \<in> set_option (foldl (\<lambda>best b. case binding_rank C F trust b of None \<Rightarrow> best
     | Some rank \<Rightarrow> Some (case best of None \<Rightarrow> rank | Some cur \<Rightarrow> max cur rank)) best bs). P r"
  using assms
proof (induction bs arbitrary: best)
  case (Cons b bs)
  show ?case unfolding foldl_Cons
    by (rule Cons.IH) (use Cons.prems in \<open>auto split: option.splits simp: max_def\<close>)
qed simp

lemma accountability_vals:
  assumes "accountability C F vi trust = Some x"
  shows "x \<in> insert ''UNKNOWN'' (set ORDER)" and "trust = None \<Longrightarrow> x = ''UNKNOWN''"
proof -
  obtain bs best where x: "x = (case best of Some r \<Rightarrow> ORDER ! r | None \<Rightarrow> ''UNKNOWN'')"
    and best: "best = foldl (\<lambda>best b. case binding_rank C F trust b of None \<Rightarrow> best
       | Some rank \<Rightarrow> Some (case best of None \<Rightarrow> rank | Some cur \<Rightarrow> max cur rank)) None bs"
    using assms by (auto simp: accountability_def bind_eq_Some_conv Let_def)
  have "\<forall>r \<in> set_option best. r < length ORDER"
    unfolding best by (rule accountability_fold) (auto intro: binding_rank_bound)
  then show "x \<in> insert ''UNKNOWN'' (set ORDER)" by (auto simp: x split: option.splits)
  assume "trust = None"
  then have "\<forall>r \<in> set_option best. False"
    unfolding best by (intro accountability_fold) (auto simp: binding_rank_def split: option.splits)
  then show "x = ''UNKNOWN''" by (auto simp: x split: option.splits)
qed

lemma assurance_vals:
  "assurance vi obs \<in> {''NONE'', ''AMBIGUOUS'', ''DIRECT'', ''DETERMINISTIC''}" "assurance vi False \<noteq> ''DIRECT''"
  by (auto simp: assurance_def Let_def tri_def)

lemma scope_relation_vals: "scope_relation C F vi = Some x \<Longrightarrow> x \<in> {JNull, JString ''RELATED'', JString ''UNRELATED'', JString ''UNKNOWN''}"
  by (auto simp: scope_relation_def bind_eq_Some_conv Let_def tri_def split: option.splits if_splits)

lemma population_vals:
  "population C vi trust \<in> {JNull, JString ''PROVEN'', JString ''INDETERMINATE''}" "population C vi None \<noteq> JString ''PROVEN''"
  by (auto simp: population_def Let_def tri_def split: option.splits)

lemma authority_proof_vals:
  "authority_proof vi \<in> {JNull, JString ''ACTION_SPECIFIC_AUTHORIZATION'', JString ''DISCLOSED_LIMIT'', JString ''NONE''}"
  by (auto simp: authority_proof_def split: option.splits)

lemma registration_vals:
  "registration_status C vi trust \<in> {''REGISTERED'', ''PENDING'', ''UNREGISTERED''}" "registration_status C vi None \<noteq> ''REGISTERED''"
  by (auto simp: registration_status_def Let_def tri_def)

lemma mark_vals:
  "mark te reg v \<in> {''NOT_RECOMPUTED'', ''PENDING_REGISTRATION'', ''UNMARKED_UNREGISTERED'', ''UNMARKED_TECHNICAL'', ''UNMARKED_ASSURANCE_WITHDRAWN''}"
  by (auto simp: mark_def Let_def tri_def)

lemma mark_unregistered:
  "reg \<noteq> ''REGISTERED'' \<Longrightarrow> reg \<in> {''REGISTERED'', ''PENDING'', ''UNREGISTERED''} \<Longrightarrow> mark te reg v \<noteq> ''UNMARKED_ASSURANCE_WITHDRAWN''"
  by (elim insertE) (simp_all add: mark_def)

lemma eligibility_vals: "eligibility F vi v = Some x \<Longrightarrow> x \<in> {''NOT_RECOMPUTED'', ''ELIGIBLE'', ''INELIGIBLE''}"
  by (auto simp: eligibility_def bind_eq_Some_conv Let_def tri_def split: if_splits)

lemma pick_vals: "weak \<in> set allowed \<Longrightarrow> pick a integ name allowed weak \<in> set allowed"
  by (auto simp: pick_def split: option.splits)

lemma authority_block_members:
  fixes vi
  defines "a \<equiv> index vi ''authority''"
  defines "integ \<equiv> (if get_str a ''integrity'' = Some ''VALID'' then ''VALID'' else ''INVALID'')"
  shows "index (snd (authority_block vi)) ''identity'' = JString (pick a integ ''identity'' ID_VALS ''NOT_VERIFIED'')"
    "index (snd (authority_block vi)) ''authority'' = JString (pick a integ ''authority'' ID_VALS ''NOT_VERIFIED'')"
    "index (snd (authority_block vi)) ''intent'' = JString (pick a integ ''intent'' INTENT_VALS ''NOT_RECORDED'')"
    "index (snd (authority_block vi)) ''integrity'' = JString integ"
    "index (snd (authority_block vi)) ''intent_interval'' = JObject
       [(''lower'', index (index a ''intent_interval'') ''lower''), (''upper'', index (index a ''intent_interval'') ''upper'')]"
  unfolding authority_block_def Let_def snd_conv index_def [of "JObject (btree_collect _)"] get_object_collect
  by (simp_all add: a_def integ_def tri_def unwrap_or_def)

lemma surfaces_rows:
  assumes "surfaces C F vi trust = Some (rows, oos, breaches)" "row \<in> set rows"
  shows "\<exists>e. row = surface_row C F e trust"
  using assms by (auto simp: surfaces_def bind_eq_Some_conv Let_def split: option.splits if_splits)

lemma surface_row_members:
  "get_str (surface_row C F e trust) ''control_domain'' \<in> Some ` {''OVERLAPPING'', ''INDEPENDENT'', ''UNKNOWN''}"
  "get_str (surface_row C F e trust) ''coverage'' \<in> Some ` {''GAPPED'', ''CLOSED'', ''UNKNOWN''}"
  "get_str (surface_row C F e None) ''control_domain'' \<noteq> Some ''INDEPENDENT''"
  "get_str (surface_row C F e None) ''coverage'' \<noteq> Some ''CLOSED''"
  by (simp_all add: surface_row_def Let_def get_str_collect tri_def as_str_def)

section \<open>The values of a derived vector\<close>

text \<open>What a derived vector holds for the dimensions that depend on the trust context.\<close>

lemma inner_anchored:
  assumes "derive_inner C F vi trust = Some v"
  shows "Option.bind (get v ''source_signature'') as_str = source_signature C F vi trust"
    "Option.bind (get v ''control_domain'') as_str = control_domain C vi trust"
    "get v ''node_observation'' = Some (JString (if node_observed C vi trust then ''OBSERVED'' else ''NOT_OBSERVED''))"
    "get v ''client_attestation'' = Some (JString (if flag vi ''client_attestation_present'' \<and> node_observed C vi trust then ''ATTESTED'' else ''NONE''))"
    "get v ''node_integrity_basis'' = Some (JString (node_basis C vi trust))"
    "get v ''coverage'' = Some (JString (fst (coverage C vi (node_basis C vi trust) (node_observed C vi trust) trust)))"
    "get v ''coverage_basis'' = Some (JString (snd (coverage C vi (node_basis C vi trust) (node_observed C vi trust) trust)))"
    "get v ''temporal_binding'' = Some (JString (temporal C vi trust))"
    "Option.bind (get v ''accountability_basis'') as_str = accountability C F vi trust"
    "get v ''assurance_linkage'' = Some (JString (assurance vi (node_observed C vi trust)))"
    "get v ''population_status'' = Some (population C vi trust)"
    "map_option JArray (map_option fst (surfaces C F vi trust)) = get v ''surfaces''"
proof -
  obtain members where m: "vector_members C F vi trust = Some members"
    and get: "\<forall>k. k \<notin> late_members \<longrightarrow> get v k = map_of (rev members) k"
    using inner_get [OF assms] by blast
  obtain observed client basis where n: "node_dims C vi trust = (observed, client, basis)" by (cases "node_dims C vi trust")
  note nd = node_dims_parts [OF n]
  from m show "Option.bind (get v ''source_signature'') as_str = source_signature C F vi trust"
    "Option.bind (get v ''control_domain'') as_str = control_domain C vi trust"
    "get v ''node_observation'' = Some (JString (if node_observed C vi trust then ''OBSERVED'' else ''NOT_OBSERVED''))"
    "get v ''client_attestation'' = Some (JString (if flag vi ''client_attestation_present'' \<and> node_observed C vi trust then ''ATTESTED'' else ''NONE''))"
    "get v ''node_integrity_basis'' = Some (JString (node_basis C vi trust))"
    "get v ''coverage'' = Some (JString (fst (coverage C vi (node_basis C vi trust) (node_observed C vi trust) trust)))"
    "get v ''coverage_basis'' = Some (JString (snd (coverage C vi (node_basis C vi trust) (node_observed C vi trust) trust)))"
    "get v ''temporal_binding'' = Some (JString (temporal C vi trust))"
    "Option.bind (get v ''accountability_basis'') as_str = accountability C F vi trust"
    "get v ''assurance_linkage'' = Some (JString (assurance vi (node_observed C vi trust)))"
    "get v ''population_status'' = Some (population C vi trust)"
    "map_option JArray (map_option fst (surfaces C F vi trust)) = get v ''surfaces''"
    by (elim vector_membersE; simp add: get Let_def as_str_def n nd(1,2) node_basis_def)+
qed

lemma inner_declared:
  assumes "derive_inner C F vi trust = Some v"
  shows "get v ''identity'' = Some (index (snd (authority_block vi)) ''identity'')"
    "get v ''authority'' = Some (index (snd (authority_block vi)) ''authority'')"
    "get v ''intent'' = Some (index (snd (authority_block vi)) ''intent'')"
    "get v ''integrity'' = Some (index (snd (authority_block vi)) ''integrity'')"
    "get v ''intent_interval'' = Some (index (snd (authority_block vi)) ''intent_interval'')"
    "\<exists>l x. linkage_outcome C F vi = Some (l, x) \<and> get v ''linkage'' = Some (JString l) \<and> get v ''outcome'' = Some x"
    "get v ''scope_relation'' = scope_relation C F vi"
    "get v ''authority_proof'' = Some (authority_proof vi)"
proof -
  obtain members where m: "vector_members C F vi trust = Some members"
    and get: "\<forall>k. k \<notin> late_members \<longrightarrow> get v k = map_of (rev members) k"
    using inner_get [OF assms] by blast
  from m show "get v ''identity'' = Some (index (snd (authority_block vi)) ''identity'')"
    "get v ''authority'' = Some (index (snd (authority_block vi)) ''authority'')"
    "get v ''intent'' = Some (index (snd (authority_block vi)) ''intent'')"
    "get v ''integrity'' = Some (index (snd (authority_block vi)) ''integrity'')"
    "get v ''intent_interval'' = Some (index (snd (authority_block vi)) ''intent_interval'')"
    "\<exists>l x. linkage_outcome C F vi = Some (l, x) \<and> get v ''linkage'' = Some (JString l) \<and> get v ''outcome'' = Some x"
    "get v ''scope_relation'' = scope_relation C F vi"
    "get v ''authority_proof'' = Some (authority_proof vi)"
    by (elim vector_membersE; simp add: get Let_def)+
qed

text \<open>The favourable values, which only a statement signed under a key of the relying party can give.\<close>

definition favourable :: "json \<Rightarrow> bool" where
  "favourable v \<longleftrightarrow>
     get_str v ''source_signature'' \<in> {Some ''ASYMMETRIC'', Some ''SHARED_SECRET''} \<or> get_str v ''control_domain'' = Some ''INDEPENDENT'' \<or>
     get_str v ''node_observation'' = Some ''OBSERVED'' \<or> get_str v ''client_attestation'' = Some ''ATTESTED'' \<or>
     get_str v ''node_integrity_basis'' \<noteq> Some ''LOG_WITNESSED_SOFTWARE'' \<or> get_str v ''coverage_basis'' \<noteq> Some ''INSUFFICIENT'' \<or>
     get_str v ''coverage'' = Some ''CLOSED'' \<or> get_str v ''temporal_binding'' \<noteq> Some ''UNPROVEN'' \<or>
     get_str v ''accountability_basis'' \<noteq> Some ''UNKNOWN'' \<or> get_str v ''assurance_linkage'' = Some ''DIRECT'' \<or>
     get_str v ''population_status'' = Some ''PROVEN'' \<or> get_str v ''registration_status'' = Some ''REGISTERED'' \<or>
     get_str v ''technical_eligibility'' = Some ''ELIGIBLE'' \<or> get_str v ''mark'' = Some ''UNMARKED_ASSURANCE_WITHDRAWN'' \<or>
     (\<exists>row \<in> set (arr v ''surfaces''). get_str row ''control_domain'' = Some ''INDEPENDENT'' \<or> get_str row ''coverage'' = Some ''CLOSED'')"

lemma inner_vals:
  assumes "derive_inner C F vi trust = Some v"
  shows "get_str v ''technical_eligibility'' \<in> Some ` {''NOT_RECOMPUTED'', ''ELIGIBLE'', ''INELIGIBLE''}"
    "get_str v ''registration_status'' = Some (registration_status C vi trust)"
    "\<exists>te w. get_str v ''technical_eligibility'' = Some te \<and> get_str v ''mark'' = Some (mark te (registration_status C vi trust) w)"
    "is_object v"
proof -
  obtain members te where e: "eligibility F vi (JObject (btree_collect members)) = Some te" "get_str v ''technical_eligibility'' = Some te"
    using inner_get [OF assms] by blast
  show "get_str v ''technical_eligibility'' \<in> Some ` {''NOT_RECOMPUTED'', ''ELIGIBLE'', ''INELIGIBLE''}"
    using e(2) eligibility_vals [OF e(1)] by simp
  show "get_str v ''registration_status'' = Some (registration_status C vi trust)"
    using assms by (rule derive_innerE)
  show "is_object v" using assms by (rule derive_innerE)
  show "\<exists>te w. get_str v ''technical_eligibility'' = Some te \<and> get_str v ''mark'' = Some (mark te (registration_status C vi trust) w)"
    using assms by (rule derive_innerE) blast
qed

lemma eligible_coverage:
  assumes "derive_inner C F vi trust = Some v" "get_str v ''technical_eligibility'' = Some ''ELIGIBLE''"
  shows "get_str v ''coverage'' = Some ''CLOSED''"
proof -
  obtain members where e: "eligibility F vi (JObject (btree_collect members)) = Some ''ELIGIBLE''"
    and get: "\<forall>k. k \<notin> late_members \<longrightarrow> get v k = map_of (rev members) k"
    using inner_get [OF assms(1)] assms(2) by auto
  have "get_str (JObject (btree_collect members)) ''coverage'' = Some ''CLOSED''"
    using e by (auto simp: eligibility_def bind_eq_Some_conv Let_def tri_def ELIGIBLE_EXACT_def split: if_splits)
  then show ?thesis by (simp add: get_str_def get get_object_collect)
qed

lemma inner_unfavourable:
  assumes v: "derive_inner C F vi None = Some v"
  shows "\<not> favourable v"
proof -
  note a = inner_anchored [OF v]
  have src: "get_str v ''source_signature'' \<notin> {Some ''ASYMMETRIC'', Some ''SHARED_SECRET''}"
    using a(1) source_signature_vals(2) [of C F vi] by (fastforce simp: get_str_def)
  have ctl: "get_str v ''control_domain'' \<noteq> Some ''INDEPENDENT''"
    using a(2) control_domain_vals(2) [of C vi] by (fastforce simp: get_str_def)
  have acc: "get_str v ''accountability_basis'' = Some ''UNKNOWN''"
  proof -
    obtain members where "vector_members C F vi None = Some members" using inner_get [OF v] by blast
    then obtain x where "accountability C F vi None = Some x" by (rule vector_membersE)
    then show ?thesis using a(9) accountability_vals(2) by (simp add: get_str_def)
  qed
  have cov: "get_str v ''coverage_basis'' = Some ''INSUFFICIENT''" "get_str v ''coverage'' \<noteq> Some ''CLOSED''"
    using a(6,7) coverage_vals(2) [of C vi False] by (auto simp: get_str_def as_str_def)
  have rest: "get_str v ''node_observation'' \<noteq> Some ''OBSERVED''" "get_str v ''client_attestation'' \<noteq> Some ''ATTESTED''"
    "get_str v ''node_integrity_basis'' = Some ''LOG_WITNESSED_SOFTWARE''" "get_str v ''temporal_binding'' = Some ''UNPROVEN''"
    "get_str v ''assurance_linkage'' \<noteq> Some ''DIRECT''"
    using a(3,4,5,8,10) assurance_vals(2) [of vi] by (simp_all add: get_str_def as_str_def temporal_vals(2))
  have pop: "get_str v ''population_status'' \<noteq> Some ''PROVEN''"
    using a(11) population_vals(2) [of C vi] by (cases "population C vi None") (auto simp: get_str_def as_str_def)
  have el: "get_str v ''technical_eligibility'' \<noteq> Some ''ELIGIBLE''" using eligible_coverage [OF v] cov(2) by blast
  have reg: "get_str v ''registration_status'' \<noteq> Some ''REGISTERED''" "get_str v ''mark'' \<noteq> Some ''UNMARKED_ASSURANCE_WITHDRAWN''"
    using inner_vals(2,3) [OF v] registration_vals(2) [of C vi] mark_unregistered [OF registration_vals(2) [of C vi] registration_vals(1)]
    by (simp, metis option.inject)
  have rows: "get_str row ''control_domain'' \<noteq> Some ''INDEPENDENT'' \<and> get_str row ''coverage'' \<noteq> Some ''CLOSED''"
    if row: "row \<in> set (arr v ''surfaces'')" for row
  proof -
    obtain rows oos breaches where s: "surfaces C F vi None = Some (rows, oos, breaches)" and "row \<in> set rows"
      using row a(12) [symmetric] by (cases "surfaces C F vi None") (auto simp: arr_def get_array_def as_array_def unwrap_or_def)
    then obtain e where "row = surface_row C F e None" using surfaces_rows by blast
    then show ?thesis using surface_row_members(3,4) by simp
  qed
  show ?thesis unfolding favourable_def using src ctl acc cov rest pop el reg rows by blast
qed

section \<open>Properties of the vector\<close>

text \<open>C15: Without trust anchors an evidence document never produces a favourable value: no signature, independence, observation,
  attestation, closed coverage, temporal proof, accountability, proven population, registration, eligibility or mark, at the
  top level or on a surface.\<close>

theorem no_anchor_no_favour: "\<not> favourable (derive_vector C F vi)"
  using inner_unfavourable by (cases rule: derive_vector_cases [of C F vi None]) (auto simp: derive_vector_def)

text \<open>Closed coverage: no gap, no open fork or finding, and a population the source signed for or a full scan by an observed
  node on attested hardware.\<close>

definition covered :: "crates \<Rightarrow> json \<Rightarrow> json option \<Rightarrow> bool" where
  "covered C vi trust \<longleftrightarrow> (let batch = index vi ''batch''; scan = index vi ''scan''; pp = index batch ''population_proof'' in
     \<not> nonempty batch ''gaps'' \<and> \<not> flag vi ''fork_findings_open'' \<and> \<not> has_open_finding vi \<and>
     \<not> (flag scan ''performed'' \<and> get scan ''cursor_gap_free'' = Some (JBool False)) \<and>
     (flag pp ''source_scope_defined'' \<and> verified C trust ''population_keys'' (get_str pp ''source_id'') ''population-proof'' pp \<or>
      flag scan ''performed'' \<and> flag scan ''complete'' \<and> flag scan ''cursor_gap_free'' \<and> node_observed C vi trust \<and>
      node_basis C vi trust = ''HARDWARE_ATTESTED''))"

lemma coverage_closed_iff:
  "fst (coverage C vi (node_basis C vi trust) (node_observed C vi trust) trust) = ''CLOSED'' \<longleftrightarrow> covered C vi trust"
  by (auto simp: coverage_def covered_def full_scan_def Let_def tri_def)

lemma coverage_closed_basis: "fst (coverage C vi b obs trust) = ''CLOSED'' \<Longrightarrow> snd (coverage C vi b obs trust) \<noteq> ''INSUFFICIENT''"
  by (auto simp: coverage_def Let_def tri_def split: if_splits)

lemma matched_linkage:
  "linkage_outcome C F vi = Some (l, JString ''MATCHED'') \<Longrightarrow> l = ''DIRECT'' \<or> l = ''DETERMINISTIC''"
  by (auto simp: linkage_outcome_def bind_eq_Some_conv Let_def split: if_splits)

lemma pick_strong: "x \<in> set allowed \<Longrightarrow> x \<noteq> weak \<Longrightarrow> pick a integ name allowed weak = x \<longleftrightarrow> integ = ''VALID'' \<and> get_str a name = Some x"
  by (auto simp: pick_def split: option.splits)

lemma eligibility_iff:
  "eligibility F vi v = Some ''ELIGIBLE'' \<longleftrightarrow>
     (\<exists>w. withheld_fields F vi = Some w \<and> set w \<inter> set GATED = {}) \<and>
     get_str v ''identity'' = Some ''VERIFIED'' \<and> get_str v ''authority'' = Some ''VERIFIED'' \<and> get_str v ''intent'' = Some ''RECORDED'' \<and>
     get_str v ''integrity'' = Some ''VALID'' \<and> get_str v ''outcome'' = Some ''MATCHED'' \<and> get_str v ''coverage'' = Some ''CLOSED'' \<and>
     index (index v ''intent_interval'') ''lower'' \<noteq> JNull \<and> index (index v ''intent_interval'') ''upper'' \<noteq> JNull \<and>
     (get_str v ''linkage'' = Some ''DIRECT'' \<or> get_str v ''linkage'' = Some ''DETERMINISTIC'') \<and>
     get_str v ''coverage_basis'' \<noteq> Some ''INSUFFICIENT'' \<and> \<not> flag vi ''fork_findings_open'' \<and>
     get_str v ''temporal_binding'' \<noteq> Some ''UNPROVEN'' \<and> flag (index vi ''registration'') ''scitt_receipt_valid''"
proof -
  have "list_ex (\<lambda>w. w \<in> set GATED) ws \<longleftrightarrow> set ws \<inter> set GATED \<noteq> {}" for ws by (auto simp: list_ex_iff)
  then show ?thesis
    by (cases "withheld_fields F vi") (simp_all add: eligibility_def Let_def tri_def ELIGIBLE_EXACT_def id_def)
qed

text \<open>What the producer must declare about the intent for it to be eligible.\<close>

definition intent_declared :: "json \<Rightarrow> bool" where
  "intent_declared vi \<longleftrightarrow> (let a = index vi ''authority''; ii = index a ''intent_interval'' in
     get_str a ''integrity'' = Some ''VALID'' \<and> get_str a ''identity'' = Some ''VERIFIED'' \<and> get_str a ''authority'' = Some ''VERIFIED'' \<and>
     get_str a ''intent'' = Some ''RECORDED'' \<and> index ii ''lower'' \<noteq> JNull \<and> index ii ''upper'' \<noteq> JNull)"

lemma inner_eligible:
  assumes v: "derive_inner C F vi trust = Some v"
  shows "get_str v ''technical_eligibility'' = Some ''ELIGIBLE'' \<longleftrightarrow>
    (\<exists>w. withheld_fields F vi = Some w \<and> set w \<inter> set GATED = {}) \<and> intent_declared vi \<and>
    (\<exists>l. linkage_outcome C F vi = Some (l, JString ''MATCHED'')) \<and> covered C vi trust \<and> temporal C vi trust \<noteq> ''UNPROVEN'' \<and>
    flag (index vi ''registration'') ''scitt_receipt_valid''"
proof -
  obtain members te where e: "eligibility F vi (JObject (btree_collect members)) = Some te"
    and te: "get_str v ''technical_eligibility'' = Some te"
    and get: "\<forall>k. k \<notin> late_members \<longrightarrow> get v k = map_of (rev members) k"
    using inner_get [OF v] by blast
  have m: "get (JObject (btree_collect members)) k = get v k" if "k \<notin> late_members" for k
    using get that by (simp add: get_object_collect)
  obtain l x where lx: "linkage_outcome C F vi = Some (l, x)" "get v ''linkage'' = Some (JString l)" "get v ''outcome'' = Some x"
    using inner_declared(6) [OF v] by blast
  let ?W = "JObject (btree_collect members)" and ?a = "index vi ''authority''"
  let ?c = "coverage C vi (node_basis C vi trust) (node_observed C vi trust) trust"
  note mem = m inner_declared(1-5) [OF v] inner_anchored(6,7,8) [OF v] lx(2,3) authority_block_members
  have declared: "get_str ?W ''identity'' = Some ''VERIFIED'' \<and> get_str ?W ''authority'' = Some ''VERIFIED'' \<and> get_str ?W ''intent'' = Some ''RECORDED'' \<and>
      get_str ?W ''integrity'' = Some ''VALID'' \<and> index (index ?W ''intent_interval'') ''lower'' \<noteq> JNull \<and> index (index ?W ''intent_interval'') ''upper'' \<noteq> JNull
      \<longleftrightarrow> intent_declared vi"
    by (simp add: get_str_def index_def [of ?W] mem as_str_def pick_strong ID_VALS_def INTENT_VALS_def intent_declared_def Let_def
        unwrap_or_def) (auto simp: index_def get_def unwrap_or_def get_str_def as_str_def)
  have cov: "get_str ?W ''coverage'' = Some ''CLOSED'' \<and> get_str ?W ''coverage_basis'' \<noteq> Some ''INSUFFICIENT'' \<longleftrightarrow> covered C vi trust"
    using coverage_closed_basis [of C vi "node_basis C vi trust" "node_observed C vi trust" trust]
    by (auto simp: get_str_def mem as_str_def simp flip: coverage_closed_iff)
  have fork: "covered C vi trust \<Longrightarrow> \<not> flag vi ''fork_findings_open''" by (simp add: covered_def Let_def)
  have temp: "get_str ?W ''temporal_binding'' \<noteq> Some ''UNPROVEN'' \<longleftrightarrow> temporal C vi trust \<noteq> ''UNPROVEN''"
    by (simp add: get_str_def mem as_str_def)
  have out: "get_str ?W ''outcome'' = Some ''MATCHED'' \<and> (get_str ?W ''linkage'' = Some ''DIRECT'' \<or> get_str ?W ''linkage'' = Some ''DETERMINISTIC'')
      \<longleftrightarrow> (\<exists>l. linkage_outcome C F vi = Some (l, JString ''MATCHED''))"
    using matched_linkage [of C F vi l] by (cases x) (auto simp: get_str_def mem lx(1) as_str_def)
  have "te = ''ELIGIBLE'' \<longleftrightarrow> eligibility F vi ?W = Some ''ELIGIBLE''" using e by auto
  also have "\<dots> \<longleftrightarrow> (\<exists>w. withheld_fields F vi = Some w \<and> set w \<inter> set GATED = {}) \<and> intent_declared vi \<and>
    (\<exists>l. linkage_outcome C F vi = Some (l, JString ''MATCHED'')) \<and> covered C vi trust \<and> temporal C vi trust \<noteq> ''UNPROVEN'' \<and>
    flag (index vi ''registration'') ''scitt_receipt_valid''"
    unfolding eligibility_iff using declared cov fork temp out by argo
  finally show ?thesis using te by simp
qed


section \<open>Outcomes\<close>

definition disagree :: "crates \<Rightarrow> (u64 \<Rightarrow> string) \<Rightarrow> json \<Rightarrow> json \<Rightarrow> string \<Rightarrow> bool" where
  "disagree C F claim event f \<longleftrightarrow> (\<exists>a b. field_text C F claim f = Some a \<and> field_text C F event f = Some b \<and> a \<noteq> b)"

definition manifest_names :: "crates \<Rightarrow> (u64 \<Rightarrow> string) \<Rightarrow> json \<Rightarrow> string set" where
  "manifest_names C F vi = (\<lambda>f. unwrap_or (value_text C F f) (as_str f)) ` set (arr (index vi ''source_manifest'') ''material_fields'')"

lemma set_material_fields: "set (material_fields C F vi) = set MATERIAL_FLOOR \<union> manifest_names C F vi"
proof -
  have "set (foldl (\<lambda>names f. let name = g f in if name \<in> set names then names else names @ [name]) acc fs) = set acc \<union> g ` set fs"
    for g :: "json \<Rightarrow> string" and acc fs
    by (induction fs arbitrary: acc) (auto simp: Let_def)
  then show ?thesis by (simp add: material_fields_def manifest_names_def)
qed

lemma tally_fold:
  "foldl (tally_step C F claim event) (n, m, u) names =
     (n + length (filter (\<lambda>f. field_text C F claim f \<noteq> None \<and> field_text C F claim f = field_text C F event f) names),
      m \<or> (\<exists>f \<in> set names. disagree C F claim event f),
      u \<or> (\<exists>f \<in> set names. (field_text C F claim f = None) \<noteq> (field_text C F event f = None)))"
  by (induction names arbitrary: n m u) (auto simp: tally_step_def disagree_def split: option.splits)

lemma undeclared_disagreement_iff:
  "undeclared_disagreement C F claim event names \<longleftrightarrow> (\<exists>f. f \<notin> set STRUCTURAL_FIELDS \<and> f \<notin> set names \<and> disagree C F claim event f)"
proof (cases claim)
  case (JObject m)
  have "field_text C F claim f = Some a \<Longrightarrow> \<exists>v. (f, v) \<in> set m" for f a
    by (auto simp: field_text_def get_def JObject dest: map_of_SomeD split: option.splits)
  then show ?thesis
    unfolding undeclared_disagreement_def disagree_def
    by (auto simp: JObject as_object_def list_ex_iff split: option.splits) force+
qed (simp_all add: undeclared_disagreement_def disagree_def field_text_def get_def as_object_def)

definition matching_event :: "json \<Rightarrow> json \<Rightarrow> json option" where
  "matching_event vi cand = find (\<lambda>e. is_object e \<and> get_str e ''event_key'' = get_str cand ''event_key'') (unwrap_or [] (get_array vi ''events''))"

text \<open>The candidate contradicts the claim: it says so, or a field of the floor or of the manifest differs.\<close>

definition contradicts :: "crates \<Rightarrow> (u64 \<Rightarrow> string) \<Rightarrow> json \<Rightarrow> json \<Rightarrow> bool" where
  "contradicts C F vi cand \<longleftrightarrow> flag cand ''material_mismatch'' \<or>
     (\<exists>event. matching_event vi cand = Some event \<and>
        (\<exists>f \<in> set MATERIAL_FLOOR \<union> manifest_names C F vi. disagree C F (index vi ''claim'') event f))"

text \<open>It corroborates the claim: every such field is the same or absent on both sides, one is present, and no other field that
  both carry differs, the structural ones apart.\<close>

definition corroborates :: "crates \<Rightarrow> (u64 \<Rightarrow> string) \<Rightarrow> json \<Rightarrow> json \<Rightarrow> bool" where
  "corroborates C F vi cand \<longleftrightarrow> \<not> flag cand ''material_mismatch'' \<and>
     (let claim = index vi ''claim''; names = set MATERIAL_FLOOR \<union> manifest_names C F vi in
      \<exists>event. matching_event vi cand = Some event \<and> (\<forall>f \<in> names. field_text C F claim f = field_text C F event f) \<and>
        (\<exists>f \<in> names. field_text C F claim f \<noteq> None) \<and> (\<forall>f. f \<notin> set STRUCTURAL_FIELDS \<longrightarrow> \<not> disagree C F claim event f))"

lemma agree_iff:
  "field_text C F claim f = field_text C F event f \<longleftrightarrow>
     \<not> disagree C F claim event f \<and> (field_text C F claim f = None) = (field_text C F event f = None)"
  by (cases "field_text C F claim f"; cases "field_text C F event f") (auto simp: disagree_def)

lemma material_agreement_exact:
  "material_agreement C F vi cand =
     (if contradicts C F vi cand then ''MISMATCH'' else if corroborates C F vi cand then ''AGREE'' else ''UNCOMPARABLE'')"
proof (cases "flag cand ''material_mismatch'' \<or> matching_event vi cand = None")
  case True
  then show ?thesis by (auto simp: material_agreement_def contradicts_def corroborates_def matching_event_def Let_def)
next
  case False
  then obtain event where e: "matching_event vi cand = Some event" and f: "\<not> flag cand ''material_mismatch''" by auto
  let ?claim = "index vi ''claim''" and ?names = "material_fields C F vi"
  have same: "(\<forall>f \<in> set ?names. field_text C F ?claim f = field_text C F event f) \<longleftrightarrow>
      \<not> (\<exists>f \<in> set ?names. disagree C F ?claim event f) \<and>
      \<not> (\<exists>f \<in> set ?names. (field_text C F ?claim f = None) \<noteq> (field_text C F event f = None))"
    using agree_iff by blast
  let ?D = "\<exists>f \<in> set ?names. disagree C F ?claim event f"
    and ?U = "\<exists>f \<in> set ?names. (field_text C F ?claim f = None) \<noteq> (field_text C F event f = None)"
    and ?L = "length (filter (\<lambda>f. field_text C F ?claim f \<noteq> None \<and> field_text C F ?claim f = field_text C F event f) ?names)"
    and ?X = "undeclared_disagreement C F ?claim event ?names"
  have code: "material_agreement C F vi cand = (if ?D then ''MISMATCH'' else if ?U \<or> ?L = 0 \<or> ?X then ''UNCOMPARABLE'' else ''AGREE'')"
    using f e unfolding matching_event_def by (simp add: material_agreement_def Let_def declared_tally_def tally_fold)
  have con: "contradicts C F vi cand \<longleftrightarrow> ?D" using f e by (simp add: contradicts_def flip: set_material_fields)
  have len: "?L \<noteq> 0 \<longleftrightarrow> (\<exists>f \<in> set ?names. field_text C F ?claim f \<noteq> None \<and> field_text C F ?claim f = field_text C F event f)"
    by (simp add: filter_empty_conv)
  have "corroborates C F vi cand \<longleftrightarrow> (\<forall>f \<in> set ?names. field_text C F ?claim f = field_text C F event f) \<and>
      (\<exists>f \<in> set ?names. field_text C F ?claim f \<noteq> None) \<and> (\<forall>f. f \<notin> set STRUCTURAL_FIELDS \<longrightarrow> \<not> disagree C F ?claim event f)"
    using f e by (simp add: corroborates_def Let_def flip: set_material_fields)
  also have "\<dots> \<longleftrightarrow> \<not> ?D \<and> \<not> ?U \<and> ?L \<noteq> 0 \<and> \<not> ?X"
    unfolding same len undeclared_disagreement_iff using same by blast
  finally have cor: "corroborates C F vi cand \<longleftrightarrow> \<not> ?D \<and> \<not> ?U \<and> ?L \<noteq> 0 \<and> \<not> ?X" .
  show ?thesis unfolding code con cor
    by (cases ?D; cases ?U; cases "?L = 0"; cases ?X) (simp_all only: simp_thms if_True if_False)
qed

definition outcome_spec :: "crates \<Rightarrow> (u64 \<Rightarrow> string) \<Rightarrow> json \<Rightarrow> json list \<Rightarrow> json" where
  "outcome_spec C F vi cands =
     (if obj vi ''claim'' = None then (if truthy (get vi ''events'') then JString ''ORPHAN'' else JNull)
      else (case cands of
              [c] \<Rightarrow> if contradicts C F vi c then JString ''CONTRADICTED''
                     else if flag c ''final'' \<and> corroborates C F vi c then JString ''MATCHED'' else JString ''CLAIM_ONLY''
            | _ \<Rightarrow> JString ''CLAIM_ONLY''))"

text \<open>C18: The linkage and the outcome are exactly those of the specification: an outcome is decided only by a unique candidate,
  contradicted when a material field differs whatever else agrees, matched when the final event corroborates every material
  field, and otherwise the claim stands alone.\<close>

theorem outcome_exact:
  "linkage_outcome C F vi = map_option (\<lambda>cands. (linkage_of cands, outcome_spec C F vi cands)) (match_candidates vi)"
proof (cases "match_candidates vi")
  case (Some cands)
  consider "cands = []" | c where "cands = [c]" | c d cs where "cands = c # d # cs" by (metis list.exhaust)
  then show ?thesis
    by cases (simp_all add: linkage_outcome_def Some outcome_spec_def linkage_of_def material_agreement_exact Let_def)
qed (simp add: linkage_outcome_def)

text \<open>C17: A disagreement on the value, the currency or the counterparty is contradicted whatever fields the producer's manifest
  names: the manifest extends the floor and cannot retract it.\<close>

theorem material_floor_contradicts:
  assumes "match_candidates vi = Some [c]" "obj vi ''claim'' = Some claim" "matching_event vi c = Some event"
    "f \<in> set MATERIAL_FLOOR" "disagree C F claim event f"
  shows "linkage_outcome C F vi = Some (linkage_of [c], JString ''CONTRADICTED'')"
proof -
  have "index vi ''claim'' = claim" using assms(2) by (simp add: obj_Some index_def unwrap_or_def)
  then have "contradicts C F vi c" using assms(3,4,5) by (auto simp: contradicts_def)
  then show ?thesis using assms(1,2) by (simp add: linkage_outcome_def Let_def material_agreement_exact linkage_of_def)
qed

section \<open>Enumerations\<close>

text \<open>The values of the text members of the vector, and of the members that may be null.\<close>

definition VECTOR_VALS :: "(string \<times> string list) list" where
  "VECTOR_VALS =
     [(''identity'', ID_VALS), (''authority'', ID_VALS), (''intent'', INTENT_VALS), (''integrity'', [''VALID'', ''INVALID'']),
      (''linkage'', [''NONE'', ''DIRECT'', ''DETERMINISTIC'', ''AMBIGUOUS'']), (''coverage'', [''GAPPED'', ''CLOSED'', ''UNKNOWN'']),
      (''source_signature'', [''NOT_RECOMPUTED'', ''NONE'', ''ASYMMETRIC'', ''SHARED_SECRET'']),
      (''control_domain'', [''OVERLAPPING'', ''INDEPENDENT'', ''UNKNOWN'']), (''node_observation'', [''OBSERVED'', ''NOT_OBSERVED'']),
      (''client_attestation'', [''ATTESTED'', ''NONE'']),
      (''coverage_basis'', [''SOURCE_PROVEN_POPULATION'', ''ATTESTED_NODE_FULL_SCAN'', ''INSUFFICIENT'']),
      (''node_integrity_basis'', NODE_BASES), (''temporal_binding'', [''PROVEN_SOURCE_ECHO'', ''PROVEN_INDEPENDENT'', ''UNPROVEN'']),
      (''accountability_basis'', ''UNKNOWN'' # ORDER), (''assurance_linkage'', [''NONE'', ''AMBIGUOUS'', ''DIRECT'', ''DETERMINISTIC'']),
      (''technical_eligibility'', [''NOT_RECOMPUTED'', ''ELIGIBLE'', ''INELIGIBLE'']),
      (''registration_status'', [''REGISTERED'', ''PENDING'', ''UNREGISTERED'']),
      (''mark'', [''NOT_RECOMPUTED'', ''PENDING_REGISTRATION'', ''UNMARKED_UNREGISTERED'', ''UNMARKED_TECHNICAL'', ''UNMARKED_ASSURANCE_WITHDRAWN''])]"

definition NULLABLE_VALS :: "(string \<times> string list) list" where
  "NULLABLE_VALS =
     [(''outcome'', [''ORPHAN'', ''CONTRADICTED'', ''MATCHED'', ''CLAIM_ONLY'']), (''scope_relation'', [''RELATED'', ''UNRELATED'', ''UNKNOWN'']),
      (''population_status'', [''PROVEN'', ''INDETERMINATE'']),
      (''authority_proof'', [''ACTION_SPECIFIC_AUTHORIZATION'', ''DISCLOSED_LIMIT'', ''NONE''])]"

lemma inner_total:
  assumes v: "derive_inner C F vi trust = Some v"
  shows "\<exists>x. source_signature C F vi trust = Some x" "\<exists>x. control_domain C vi trust = Some x" "\<exists>x. accountability C F vi trust = Some x"
    "\<exists>x. scope_relation C F vi = Some x"
proof -
  obtain members where "vector_members C F vi trust = Some members" using inner_get [OF v] by blast
  then show "\<exists>x. source_signature C F vi trust = Some x" "\<exists>x. control_domain C vi trust = Some x" "\<exists>x. accountability C F vi trust = Some x"
    "\<exists>x. scope_relation C F vi = Some x"
    by (elim vector_membersE; blast)+
qed

lemma node_basis_vals: "node_basis C vi trust \<in> set NODE_BASES"
  unfolding node_basis_def by (metis node_dims_parts(3) prod.collapse)

lemma inner_enumerated:
  assumes v: "derive_inner C F vi trust = Some v"
  shows "\<forall>(k, vals) \<in> set VECTOR_VALS. get_str v k \<in> Some ` set vals"
proof -
  note d = inner_declared [OF v] and a = inner_anchored [OF v]
  have ab: "get_str v ''identity'' \<in> Some ` set ID_VALS" "get_str v ''authority'' \<in> Some ` set ID_VALS" "get_str v ''intent'' \<in> Some ` set INTENT_VALS"
    "get_str v ''integrity'' \<in> {Some ''VALID'', Some ''INVALID''}"
    using pick_vals [of "''NOT_VERIFIED''" ID_VALS] pick_vals [of "''NOT_RECORDED''" INTENT_VALS]
    by (simp_all add: get_str_def d authority_block_members as_str_def ID_VALS_def INTENT_VALS_def)
  have l: "get_str v ''linkage'' \<in> Some ` {''NONE'', ''DIRECT'', ''DETERMINISTIC'', ''AMBIGUOUS''}"
    using d(6) linkage_outcome_vals by (fastforce simp: get_str_def as_str_def)
  have s: "get_str v ''source_signature'' \<in> Some ` {''NOT_RECOMPUTED'', ''NONE'', ''ASYMMETRIC'', ''SHARED_SECRET''}"
    "get_str v ''control_domain'' \<in> Some ` {''OVERLAPPING'', ''INDEPENDENT'', ''UNKNOWN''}"
    "get_str v ''accountability_basis'' \<in> Some ` insert ''UNKNOWN'' (set ORDER)"
    using a(1,2,9) inner_total [OF v] source_signature_vals(1) [of C F vi trust] control_domain_vals(1) [of C vi trust]
      accountability_vals(1) [of C F vi trust] by (fastforce simp: get_str_def)+
  have n: "get_str v ''node_observation'' \<in> {Some ''OBSERVED'', Some ''NOT_OBSERVED''}" "get_str v ''client_attestation'' \<in> {Some ''ATTESTED'', Some ''NONE''}"
    "get_str v ''node_integrity_basis'' \<in> Some ` set NODE_BASES"
    using node_basis_vals by (simp_all add: get_str_def a as_str_def)
  have c: "get_str v ''coverage'' \<in> Some ` {''GAPPED'', ''CLOSED'', ''UNKNOWN''}"
    "get_str v ''coverage_basis'' \<in> Some ` {''SOURCE_PROVEN_POPULATION'', ''ATTESTED_NODE_FULL_SCAN'', ''INSUFFICIENT''}"
    using coverage_vals(1) [of C vi "node_basis C vi trust" "node_observed C vi trust" trust] by (auto simp: get_str_def a as_str_def)
  have t: "get_str v ''temporal_binding'' \<in> Some ` {''PROVEN_SOURCE_ECHO'', ''PROVEN_INDEPENDENT'', ''UNPROVEN''}"
    "get_str v ''assurance_linkage'' \<in> Some ` {''NONE'', ''AMBIGUOUS'', ''DIRECT'', ''DETERMINISTIC''}"
    using temporal_vals(1) [of C vi trust] assurance_vals(1) [of vi] by (simp_all add: get_str_def a as_str_def)
  have r: "get_str v ''registration_status'' \<in> Some ` {''REGISTERED'', ''PENDING'', ''UNREGISTERED''}"
    using inner_vals(2) [OF v] registration_vals(1) [of C vi trust] by simp
  have m: "get_str v ''mark'' \<in> Some ` {''NOT_RECOMPUTED'', ''PENDING_REGISTRATION'', ''UNMARKED_UNREGISTERED'', ''UNMARKED_TECHNICAL'', ''UNMARKED_ASSURANCE_WITHDRAWN''}"
    using inner_vals(3) [OF v] mark_vals by (metis imageI)
  show ?thesis unfolding VECTOR_VALS_def using ab l s n c t r m inner_vals(1) [OF v] by (simp only: list.set ball_simps prod.case) simp
qed

lemma inner_nullable:
  assumes v: "derive_inner C F vi trust = Some v"
  shows "\<forall>(k, vals) \<in> set NULLABLE_VALS. get v k \<in> insert (Some JNull) (Some ` JString ` set vals)"
proof -
  note d = inner_declared [OF v] and a = inner_anchored [OF v]
  have "get v ''outcome'' \<in> insert (Some JNull) (Some ` JString ` {''ORPHAN'', ''CONTRADICTED'', ''MATCHED'', ''CLAIM_ONLY''})"
    using d(6) linkage_outcome_vals by fastforce
  moreover have "get v ''scope_relation'' \<in> insert (Some JNull) (Some ` JString ` {''RELATED'', ''UNRELATED'', ''UNKNOWN''})"
    using inner_total(4) [OF v] scope_relation_vals by (fastforce simp: d(7))
  moreover have "get v ''population_status'' \<in> insert (Some JNull) (Some ` JString ` {''PROVEN'', ''INDETERMINATE''})"
    using population_vals(1) [of C vi trust] by (auto simp: a(11))
  moreover have "get v ''authority_proof'' \<in> insert (Some JNull) (Some ` JString ` {''ACTION_SPECIFIC_AUTHORIZATION'', ''DISCLOSED_LIMIT'', ''NONE''})"
    using authority_proof_vals [of vi] by (auto simp: d(8))
  ultimately show ?thesis unfolding NULLABLE_VALS_def by (simp only: list.set ball_simps prod.case simp_thms)
qed

text \<open>Every verdict vector is well formed, whatever the input and the trust: the fallback derivation never raises, the vector
  is an object, and each member has a value of its enumeration.\<close>

theorem vector_well_formed:
  "derive_inner C F (JObject []) None \<noteq> None \<and> is_object (derive_vector_with_trust C F vi trust) \<and>
   list_all (\<lambda>(k, vals). get_str (derive_vector_with_trust C F vi trust) k \<in> Some ` set vals) VECTOR_VALS \<and>
   list_all (\<lambda>(k, vals). get (derive_vector_with_trust C F vi trust) k \<in> insert (Some JNull) (Some ` JString ` set vals)) NULLABLE_VALS"
proof -
  obtain vi' trust' where v: "derive_inner C F vi' trust' = Some (derive_vector_with_trust C F vi trust)"
    by (cases rule: derive_vector_cases [of C F vi trust])
  show ?thesis
    using weak_total inner_vals(4) [OF v] inner_enumerated [OF v] inner_nullable [OF v] unfolding list_all_iff by blast
qed

definition lying_claim :: json where
  "lying_claim = JObject [(''claim'', JObject [(''currency'', JString ''EUR''), (''value'', JString ''999999.99'')]),
     (''event_matches'', JArray [JObject [(''echoed_action_id'', JBool True), (''event_key'', JString ''k''), (''final'', JBool True)]]),
     (''events'', JArray [JObject [(''currency'', JString ''EUR''), (''event_key'', JString ''k''), (''value'', JString ''380.99'')]]),
     (''source_manifest'', JObject [(''material_fields'', JArray [JString ''currency''])])]"

theorem material_floor_contradicts_witness:
  "linkage_outcome toy_base (\<lambda>_. ''0'') lying_claim = Some (''DIRECT'', JString ''CONTRADICTED'')"
proof -
  have "linkage_outcome toy_base (\<lambda>_. ''0'') lying_claim =
    Some (linkage_of [JObject [(''echoed_action_id'', JBool True), (''event_key'', JString ''k''), (''final'', JBool True)]], JString ''CONTRADICTED'')"
  proof (rule material_floor_contradicts)
    show "match_candidates lying_claim = Some [JObject [(''echoed_action_id'', JBool True), (''event_key'', JString ''k''), (''final'', JBool True)]]"
      "obj lying_claim ''claim'' = Some (JObject [(''currency'', JString ''EUR''), (''value'', JString ''999999.99'')])"
      "matching_event lying_claim (JObject [(''echoed_action_id'', JBool True), (''event_key'', JString ''k''), (''final'', JBool True)])
        = Some (JObject [(''currency'', JString ''EUR''), (''event_key'', JString ''k''), (''value'', JString ''380.99'')])"
      "''value'' \<in> set MATERIAL_FLOOR"
      by code_simp+
    have "field_text toy_base (\<lambda>_. ''0'') (JObject [(''currency'', JString ''EUR''), (''value'', JString ''999999.99'')]) ''value'' = Some ''999999.99''"
      "field_text toy_base (\<lambda>_. ''0'') (JObject [(''currency'', JString ''EUR''), (''event_key'', JString ''k''), (''value'', JString ''380.99'')]) ''value''
        = Some ''380.99''"
      by code_simp+
    then show "disagree toy_base (\<lambda>_. ''0'') (JObject [(''currency'', JString ''EUR''), (''value'', JString ''999999.99'')])
        (JObject [(''currency'', JString ''EUR''), (''event_key'', JString ''k''), (''value'', JString ''380.99'')]) ''value''"
      by (simp add: disagree_def)
  qed
  then show ?thesis by (simp add: linkage_of_def flag_def get_bool_def get_def as_bool_def unwrap_or_def)
qed

end
