(* ===== verification/Dispute.thy ===== *)
theory Dispute
  imports Action_Values
begin

text \<open>
  \<open>verify-rs/src/dispute.rs\<close> and \<open>verify_dispute_json\<close> of \<open>lib.rs\<close>: the reconciliation of two verified bundles, recomputed
  from the receipts and compared with the one a package carries. \<open>BTreeMap\<close>s are sorted association lists, \<open>BTreeSet\<close>s are
  enumerated in order. The parameter \<open>F\<close> is the display of a binary64 by \<open>serde_json\<close>; the exponents of \<open>float_text\<close> are
  integers, which an \<open>i32\<close> holds for every such display.
\<close>

section \<open>Constants\<close>

definition FIELDS :: "string list" where
  "FIELDS = [''action_type'', ''external_ref'', ''value'', ''amount'', ''amount_band'', ''currency'', ''counterparty'', ''counterparty_class'',
     ''recipient'', ''status'', ''result'', ''mandate_present'']"

definition SCOPE :: string where
  "SCOPE = ''This reconciliation reports what each party's independently verified bundle can support. '' @
     ''It does not determine fault, intent, liability, or which party's record reflects what actually happened. '' @
     ''Absence of a receipt from a presented export is absence of support, not proof that no event occurred.''"

definition CONFLICT :: string where
  "CONFLICT = ''Both parties' verified bundles carry receipts for this claim; the named material fields do not carry the same values. '' @
     ''This reconciliation reports the disagreement; it does not determine which record is accurate.''"

definition ONE_SIDED :: string where
  "ONE_SIDED = ''Both parties' verified bundles carry receipts for this claim, but one or more named material fields are carried by only one side. '' @
     ''The presented evidence therefore cannot establish material agreement.''"

definition AGREEMENT :: string where
  "AGREEMENT = ''Both parties' verified bundles carry receipts for this claim and every material field carried by both sides matches.''"

section \<open>The package\<close>

type_synonym Claims = "(string \<times> json list) list"

record Party =
  p_claims :: Claims
  p_facts :: json

definition nonempty_text :: "json \<Rightarrow> string option" where
  "nonempty_text v = ofilter (\<lambda>t. t \<noteq> []) (as_str v)"

definition PACKAGE_FIELDS :: "string list" where
  "PACKAGE_FIELDS = [''schema'', ''case_ref'', ''party_labels'', ''contested_claims'', ''bundles'', ''reconciliation'']"

definition header :: "json \<Rightarrow> unit option" where
  "header package = do {
     m \<leftarrow> as_object package;
     if length m \<noteq> length PACKAGE_FIELDS \<or> \<not> list_all (contains_key m) PACKAGE_FIELDS
        \<or> as_str (index package ''schema'') \<noteq> Some ''evd/dispute-artifact/v1'' then None
     else do {
       nonempty_text (index package ''case_ref'');
       as_object (index package ''reconciliation'');
       Some ()
     }
   }"

definition labels :: "json \<Rightarrow> (string \<times> string) option" where
  "labels package = do {
     ls \<leftarrow> as_array (index package ''party_labels'');
     if length ls \<noteq> 2 then None
     else do {
       l0 \<leftarrow> nonempty_text (ls ! 0);
       l1 \<leftarrow> nonempty_text (ls ! 1);
       bundles \<leftarrow> as_object (index package ''bundles'');
       if l0 = l1 \<or> length bundles \<noteq> 2 \<or> \<not> list_all (\<lambda>l. is_some_and (map_of bundles l) is_object) [l0, l1] then None
       else Some (l0, l1)
     }
   }"

definition inputs :: "json \<Rightarrow> ((string \<times> string) \<times> (string \<times> json) list \<times> string list) option" where
  "inputs package = do {
     header package;
     ls \<leftarrow> labels package;
     contested \<leftarrow> as_array (index package ''contested_claims'');
     claims \<leftarrow> collect_opt nonempty_text contested;
     if \<not> list_all (\<lambda>(a, b). a < b) (zip claims (tl claims)) then None
     else do {
       bundles \<leftarrow> as_object (index package ''bundles'');
       Some (ls, bundles, claims)
     }
   }"

section \<open>A party\<close>

text \<open>The view of a receipt: its action type, the material fields its context carries, and its hash.\<close>

definition claim_view :: "json \<Rightarrow> string \<Rightarrow> json" where
  "claim_view body rh =
     JObject (btree_collect ((''action_type'', index body ''action_type'') #
       List.map_filter (\<lambda>f. map_option (\<lambda>v. (f, v)) (get (index body ''context'') f)) (tl FIELDS) @ [(''_receipt_hash'', JString rh)]))"

definition push_claim :: "string \<Rightarrow> json \<Rightarrow> Claims \<Rightarrow> Claims" where
  "push_claim aid view claims = btree_put aid (unwrap_or [] (map_of claims aid) @ [view]) claims"

text \<open>One entry: \<open>None\<close> fails, \<open>Some None\<close> is an internal agent, then the action id, when there is one, and the view.\<close>

definition party_entry :: "crates \<Rightarrow> json \<Rightarrow> (string \<times> json) option option option" where
  "party_entry C entry = do {
     body \<leftarrow> body_of C (index entry ''envelope'');
     agent \<leftarrow> as_str (index body ''agent_id'');
     if starts_with agent ''_'' then Some None
     else (case nonempty_text (index (index body ''context'') ''action_id'') of
             None \<Rightarrow> Some (Some None)
           | Some aid \<Rightarrow> do {
               rh \<leftarrow> receipt_hash_hex C (index entry ''envelope'');
               Some (Some (Some (aid, claim_view body rh)))
             })
   }"

fun party_loop :: "crates \<Rightarrow> Claims \<Rightarrow> nat \<Rightarrow> json list \<Rightarrow> (Claims \<times> nat) option" where
  "party_loop C claims uncorrelated [] = Some (claims, uncorrelated)"
| "party_loop C claims uncorrelated (entry # entries) =
     (case party_entry C entry of
        None \<Rightarrow> None
      | Some None \<Rightarrow> party_loop C claims uncorrelated entries
      | Some (Some None) \<Rightarrow> party_loop C claims (uncorrelated + 1) entries
      | Some (Some (Some (aid, view))) \<Rightarrow> party_loop C (push_claim aid view claims) uncorrelated entries)"

definition count_json :: "nat \<Rightarrow> json" where
  "count_json n = JNumber (PosInt (of_nat n))"

definition party :: "crates \<Rightarrow> asn1 \<Rightarrow> json \<Rightarrow> Party option" where
  "party C T b =
     (let facts = verify_bundle_facts C T b None in
      if \<not> bf_ok facts then None
      else do {
        entries \<leftarrow> as_array (index b ''entries'');
        (case collect_key_entries C entries of
           [] \<Rightarrow> None
         | (_, env, _) # _ \<Rightarrow> do {
             trust_root \<leftarrow> receipt_hash_hex C env;
             (claims, uncorrelated) \<leftarrow> party_loop C [] 0 entries;
             Some \<lparr>p_claims = claims, p_facts = JObject (btree_collect
               [(''origin'', index b ''origin''), (''trust_root'', JString trust_root),
                (''export_complete'', case bf_complete facts of None \<Rightarrow> JNull | Some c \<Rightarrow> JBool c),
                (''claims'', count_json (length claims)), (''uncorrelated_receipts'', count_json uncorrelated)])\<rparr>
           })
      })"

section \<open>Keys of values\<close>

text \<open>\<open>format!("\\u{unit:04x}")\<close> for a UTF-16 unit.\<close>

definition unit_escape :: "int \<Rightarrow> string" where
  "unit_escape u =
     [CHR 0x5c, CHR ''u''] @ map (\<lambda>k. hex_digit (nat (u div 16 ^ k mod 16))) [3, 2, 1, 0]"

definition ascii_char :: "string \<Rightarrow> string" where
  "ascii_char p =
     (case chars p of
        [c] \<Rightarrow> if c < 0x80 \<and> c \<noteq> 0x7f then p else concat (map unit_escape (encode_utf16 p))
      | _ \<Rightarrow> concat (map unit_escape (encode_utf16 p)))"

definition ascii_string :: "crates \<Rightarrow> string \<Rightarrow> string" where
  "ascii_string C t = concat (map ascii_char (char_pieces (of_bytes (json_to_writer C t))))"

definition split_once :: "char \<Rightarrow> string \<Rightarrow> (string \<times> string) option" where
  "split_once c s = (if c \<in> set s then Some (takeWhile (\<lambda>x. x \<noteq> c) s, tl (dropWhile (\<lambda>x. x \<noteq> c) s)) else None)"

definition parse_i32 :: "string \<Rightarrow> int option" where
  "parse_i32 s = ofilter (\<lambda>i. - (2 ^ 31) \<le> i \<and> i < 2 ^ 31) (parse_i64 s)"

text \<open>\<open>format!("{power:+03}")\<close>\<close>

definition signed_power :: "int \<Rightarrow> string" where
  "signed_power i =
     (let ds = nat_to_string (nat (abs i)) in (if i < 0 then ''-'' else ''+'') @ (if length ds < 2 then ''0'' else []) @ ds)"

definition trim_end_zeros :: "string \<Rightarrow> string" where
  "trim_end_zeros s = rev (dropWhile (\<lambda>c. c = CHR ''0'') (rev s))"

definition float_text :: "string \<Rightarrow> string option" where
  "float_text raw =
     (let (mantissa, expo) = unwrap_or (raw, ''0'') (split_once (CHR ''e'') raw) in
      case parse_i32 expo of
        None \<Rightarrow> None
      | Some expo \<Rightarrow>
          (let negative = starts_with mantissa ''-'';
               mantissa = dropWhile (\<lambda>c. c = CHR ''-'') mantissa;
               point = length (takeWhile (\<lambda>c. c \<noteq> CHR ''.'') mantissa);
               digits = filter (\<lambda>c. c \<noteq> CHR ''.'') mantissa;
               zeros = length (takeWhile (\<lambda>c. c = CHR ''0'') digits) in
           if zeros = length digits then Some (if negative then ''-0.0'' else ''0.0'')
           else
             (let power = int point + expo - int zeros - 1;
                  digits = trim_end_zeros (drop zeros digits);
                  sign = (if negative then ''-'' else []) in
              if \<not> (- 4 \<le> power \<and> power < 16) then
                Some (sign @ take 1 digits @ (if length digits > 1 then ''.'' @ drop 1 digits else []) @ ''e'' @ signed_power power)
              else
                (let point = power + 1;
                     body = (if point \<le> 0 then ''0.'' @ replicate (nat (- point)) (CHR ''0'') @ digits
                             else if nat point \<ge> length digits then digits @ replicate (nat point - length digits) (CHR ''0'') @ ''.0''
                             else take (nat point) digits @ ''.'' @ drop (nat point) digits) in
                 Some (sign @ body)))))"

fun value_key :: "crates \<Rightarrow> (u64 \<Rightarrow> string) \<Rightarrow> json \<Rightarrow> string option" where
  "value_key C F (JString t) = Some (ascii_string C t)"
| "value_key C F (JNumber n) = (case n of Float b \<Rightarrow> float_text (F b) | _ \<Rightarrow> Some (number_display F n))"
| "value_key C F (JArray items) =
     map_option (\<lambda>ks. ''['' @ join '', '' ks @ '']'') (collect_opt (value_key C F) items)"
| "value_key C F (JObject items) =
     map_option (\<lambda>ks. ''{'' @ join '', '' ks @ ''}'')
       (collect_opt (\<lambda>(k, v). map_option (\<lambda>t. ascii_string C k @ '': '' @ t) (value_key C F v)) items)"
| "value_key C F v = Some (value_text C F v)"

section \<open>Comparison\<close>

definition keyed :: "crates \<Rightarrow> (u64 \<Rightarrow> string) \<Rightarrow> string \<Rightarrow> json \<Rightarrow> (string \<times> json) option option" where
  "keyed C F f view =
     (case get view f of None \<Rightarrow> Some None | Some v \<Rightarrow> map_option (\<lambda>k. Some (k, v)) (value_key C F v))"

definition field_values :: "crates \<Rightarrow> (u64 \<Rightarrow> string) \<Rightarrow> json list \<Rightarrow> string \<Rightarrow> json list option" where
  "field_values C F views f =
     map_option (\<lambda>ps. map snd (btree_collect (List.map_filter (\<lambda>p. p) ps))) (collect_opt (keyed C F f) views)"

record Comparison =
  c_agreed :: "string list"
  c_conflicts :: "(string \<times> json) list"
  c_one_sided :: "(string \<times> json) list"

definition compare_step ::
  "crates \<Rightarrow> (u64 \<Rightarrow> string) \<Rightarrow> json list \<Rightarrow> json list \<Rightarrow> string \<times> string \<Rightarrow> string \<Rightarrow> Comparison \<Rightarrow> Comparison option" where
  "compare_step C F a b ls f cmp = do {
     va \<leftarrow> field_values C F a f;
     vb \<leftarrow> field_values C F b f;
     if va = [] \<and> vb = [] then Some cmp
     else if va \<noteq> [] \<and> vb \<noteq> [] then do {
       ka \<leftarrow> collect_opt (value_key C F) va;
       kb \<leftarrow> collect_opt (value_key C F) vb;
       Some (if ka = kb then cmp\<lparr>c_agreed := c_agreed cmp @ [f]\<rparr>
             else cmp\<lparr>c_conflicts := btree_put f (JObject (btree_collect [(fst ls, JArray va), (snd ls, JArray vb)])) (c_conflicts cmp)\<rparr>)
     }
     else Some (cmp\<lparr>c_one_sided := btree_put f (JString (if va = [] then snd ls else fst ls)) (c_one_sided cmp)\<rparr>)
   }"

fun compare_loop ::
  "crates \<Rightarrow> (u64 \<Rightarrow> string) \<Rightarrow> json list \<Rightarrow> json list \<Rightarrow> string \<times> string \<Rightarrow> string list \<Rightarrow> Comparison \<Rightarrow> Comparison option" where
  "compare_loop C F a b ls [] cmp = Some cmp"
| "compare_loop C F a b ls (f # fs) cmp =
     (case compare_step C F a b ls f cmp of None \<Rightarrow> None | Some cmp' \<Rightarrow> compare_loop C F a b ls fs cmp')"

definition compare ::
  "crates \<Rightarrow> (u64 \<Rightarrow> string) \<Rightarrow> json list \<Rightarrow> json list \<Rightarrow> string \<times> string \<Rightarrow> ((string \<times> json) list \<times> string \<times> string) option" where
  "compare C F a b ls = do {
     cmp \<leftarrow> compare_loop C F a b ls FIELDS \<lparr>c_agreed = [], c_conflicts = [], c_one_sided = []\<rparr>;
     let (outcome, txt) = (if c_conflicts cmp \<noteq> [] then (''CONFLICT'', CONFLICT)
                           else if c_one_sided cmp \<noteq> [] then (''UNSUPPORTED'', ONE_SIDED)
                           else (''AGREEMENT'', AGREEMENT));
     Some (btree_collect [(''agreed_fields'', JArray (map JString (c_agreed cmp))), (''conflicting_fields'', JObject (c_conflicts cmp)),
       (''one_sided_fields'', JObject (c_one_sided cmp))], outcome, txt)
   }"

definition absence_note :: "Party \<Rightarrow> string" where
  "absence_note p =
     (if index (p_facts p) ''export_complete'' = JNull then ''its export makes no completeness claim''
      else ''its signed export manifest proves the presented set intact, not that the party's log holds nothing else'')"

definition one_side_text :: "string \<Rightarrow> string \<Rightarrow> Party \<Rightarrow> string" where
  "one_side_text holder lacking p =
     holder @ [CHR 0x27] @ ''s verified bundle carries a receipt for this claim; '' @ lacking @ [CHR 0x27] @ ''s verified bundle contains none, and '' @
     absence_note p @ ''. Absence of support is not proof that no event occurred.''"

section \<open>Statements\<close>

definition views_of :: "Party \<Rightarrow> string \<Rightarrow> json list" where
  "views_of p aid = unwrap_or [] (map_of (p_claims p) aid)"

definition receipt_hashes :: "json list \<Rightarrow> json" where
  "receipt_hashes views = JArray (map (\<lambda>v. index v ''_receipt_hash'') views)"

text \<open>The JSON of a claim: what every claim has, the members of a comparison, and the outcome with its text.\<close>

definition claim_json :: "Party \<times> Party \<Rightarrow> string \<times> string \<Rightarrow> string \<Rightarrow> (string \<times> json) list \<Rightarrow> string \<Rightarrow> string \<Rightarrow> json" where
  "claim_json parties ls aid members outcome txt =
     (let va = views_of (fst parties) aid; vb = views_of (snd parties) aid; sides = [(va, fst ls), (vb, snd ls)] in
      JObject (btree_collect
        ([(''claim_id'', JString aid),
          (''supported_by'', JArray (map (\<lambda>(_, l). JString l) (filter (\<lambda>(v, _). v \<noteq> []) sides))),
          (''unsupported_by'', JArray (map (\<lambda>(_, l). JString l) (filter (\<lambda>(v, _). v = []) sides))),
          (''receipt_hashes'', JObject (btree_collect [(fst ls, receipt_hashes va), (snd ls, receipt_hashes vb)]))]
         @ members @
         [(''outcome'', JString outcome), (''statement'', JString txt), (''contested'', JBool (outcome \<noteq> ''AGREEMENT''))])))"

definition statement :: "crates \<Rightarrow> (u64 \<Rightarrow> string) \<Rightarrow> Party \<times> Party \<Rightarrow> string \<times> string \<Rightarrow> string \<Rightarrow> json option" where
  "statement C F parties ls aid =
     (let va = views_of (fst parties) aid; vb = views_of (snd parties) aid in
      if va \<noteq> [] \<and> vb \<noteq> [] then
        map_option (\<lambda>(comparison, outcome, txt). claim_json parties ls aid comparison outcome txt) (compare C F va vb ls)
      else if va \<noteq> [] then Some (claim_json parties ls aid [] ''UNSUPPORTED'' (one_side_text (fst ls) (snd ls) (snd parties)))
      else if vb \<noteq> [] then Some (claim_json parties ls aid [] ''UNSUPPORTED'' (one_side_text (snd ls) (fst ls) (fst parties)))
      else Some (claim_json parties ls aid [] ''UNSUPPORTED'' ''Neither party's verified bundle carries a receipt supporting this claim.''))"

definition population_ids :: "Party \<times> Party \<Rightarrow> string list \<Rightarrow> string list" where
  "population_ids parties contested =
     sorted_list_of_set (set (map fst (p_claims (fst parties)) @ map fst (p_claims (snd parties)) @ contested))"

definition outcome_count :: "json list \<Rightarrow> string \<Rightarrow> json" where
  "outcome_count claims outcome = count_json (length (filter (\<lambda>claim. as_str (index claim ''outcome'') = Some outcome) claims))"

text \<open>The reconciliation of two parties, recomputed.\<close>

definition reconcile :: "crates \<Rightarrow> (u64 \<Rightarrow> string) \<Rightarrow> Party \<times> Party \<Rightarrow> string \<times> string \<Rightarrow> string list \<Rightarrow> json option" where
  "reconcile C F parties ls contested = do {
     claims \<leftarrow> collect_opt (statement C F parties ls) (population_ids parties contested);
     let summary = btree_collect (map (\<lambda>outcome. (outcome, outcome_count claims outcome)) [''AGREEMENT'', ''CONFLICT'', ''UNSUPPORTED''] @
       [(''contested'', count_json (length (filter (\<lambda>claim. index claim ''contested'' = JBool True) claims)))]);
     Some (JObject (btree_collect [(''schema'', JString ''evd/two-party-reconciliation/v1''), (''scope'', JString SCOPE),
       (''parties'', JObject (btree_collect [(fst ls, p_facts (fst parties)), (snd ls, p_facts (snd parties))])),
       (''claims'', JArray claims), (''summary'', JObject summary)]))
   }"

definition reverify :: "crates \<Rightarrow> asn1 \<Rightarrow> (u64 \<Rightarrow> string) \<Rightarrow> json \<Rightarrow> json option" where
  "reverify C T F package = do {
     (ls, bundles, contested) \<leftarrow> inputs package;
     a \<leftarrow> party C T (unwrap_or JNull (map_of bundles (fst ls)));
     b \<leftarrow> party C T (unwrap_or JNull (map_of bundles (snd ls)));
     if value_eq (index (p_facts a) ''origin'') (index (p_facts b) ''origin'')
        \<or> value_eq (index (p_facts a) ''trust_root'') (index (p_facts b) ''trust_root'') then None
     else do {
       recomputed \<leftarrow> reconcile C F (a, b) ls contested;
       k \<leftarrow> value_key C F recomputed;
       k' \<leftarrow> value_key C F (index package ''reconciliation'');
       then_some (k = k') recomputed
     }
   }"

definition verify_json :: "crates \<Rightarrow> asn1 \<Rightarrow> (u64 \<Rightarrow> string) \<Rightarrow> bytes \<Rightarrow> (json \<times> string) option" where
  "verify_json C T F raw =
     (if length raw > 2 * MAX_BUNDLE_BYTES then None
      else do {
        package \<leftarrow> strict_json C raw;
        reconciliation \<leftarrow> reverify C T F package;
        canon \<leftarrow> canonical_checked C package;
        Some (reconciliation, hex (sha256 C canon))
      })"

definition verify_dispute_json :: "crates \<Rightarrow> asn1 \<Rightarrow> (u64 \<Rightarrow> string) \<Rightarrow> bytes \<Rightarrow> json" where
  "verify_dispute_json C T F package_json =
     (let (verdict, reconciliation, package_digest) =
        (case verify_json C T F package_json of
           Some (facts, digest) \<Rightarrow> (''VERIFIED'', facts, JString digest)
         | None \<Rightarrow> (''NOT_VERIFIED'', JNull, JNull)) in
      JObject (btree_collect [(''schema'', JString ''evd/dispute-verification-result/v1''), (''verdict'', JString verdict),
        (''reconciliation'', reconciliation), (''package_digest'', package_digest)]))"

section \<open>Keys of a field\<close>

lemma btree_put_keys: "map fst (btree_put k v m) = insort k (filter (\<lambda>x. x \<noteq> k) (map fst m))"
proof -
  have i: "map fst (insort_key fst p ps) = insort (fst p) (map fst ps)" for p and ps :: "('a :: linorder \<times> 'b) list"
    by (induction ps) auto
  have "map fst (filter (\<lambda>(k', _). k' \<noteq> k) m) = filter (\<lambda>x. x \<noteq> k) (map fst m)" by (induction m) auto
  then show ?thesis by (simp add: btree_put_def i)
qed

lemma btree_collect_keys: "map fst (btree_collect ps) = sorted_list_of_set (fst ` set ps)"
proof (induction ps rule: rev_induct)
  case (snoc p ps)
  obtain k v where p: "p = (k, v)" by (cases p)
  have "filter (\<lambda>x. x \<noteq> k) (sorted_list_of_set A) = sorted_list_of_set (A - {k})" if "finite A" for A :: "'a set"
    using that by (simp add: sorted_list_of_set_remove distinct_remove1_removeAll removeAll_filter_not_eq) (metis (full_types))
  moreover have "btree_collect (ps @ [p]) = btree_put k v (btree_collect ps)" by (simp add: btree_collect_def p)
  ultimately show ?case
    using snoc by (simp add: btree_put_keys p sorted_list_of_set_insert_remove)
qed (simp add: btree_collect_def)

lemma btree_collect_subset: "set (btree_collect ps) \<subseteq> set ps"
proof (induction ps rule: rev_induct)
  case (snoc p ps)
  then show ?case by (cases p) (auto simp: btree_collect_def btree_put_def set_insort_key)
qed (simp add: btree_collect_def)

text \<open>The keys of the values the views carry for a field.\<close>

definition field_keys :: "crates \<Rightarrow> (u64 \<Rightarrow> string) \<Rightarrow> json list \<Rightarrow> string \<Rightarrow> string set" where
  "field_keys C F views f = {k. \<exists>view \<in> set views. \<exists>v. get view f = Some v \<and> value_key C F v = Some k}"

lemma collect_opt_map: "\<forall>x \<in> set xs. f x = Some (g x) \<Longrightarrow> collect_opt f xs = Some (map g xs)"
  by (induction xs) auto

lemma field_values_keys:
  assumes "field_values C F views f = Some vs"
  shows "collect_opt (value_key C F) vs = Some (sorted_list_of_set (field_keys C F views f))"
    and "vs = [] \<longleftrightarrow> field_keys C F views f = {}"
proof -
  obtain ps where ps: "map (keyed C F f) views = map Some ps" "vs = map snd (btree_collect (List.map_filter (\<lambda>p. p) ps))"
    using assms by (auto simp: field_values_def collect_opt_Some_iff)
  let ?qs = "List.map_filter (\<lambda>p. p) ps"
  have "set ps = (\<lambda>view. the (keyed C F f view)) ` set views"
    using arg_cong [OF ps(1), of "\<lambda>xs. the ` set xs"] by (simp add: image_image)
  moreover have def: "keyed C F f view \<noteq> None" if "view \<in> set views" for view
    using ps(1) that by (metis (no_types, lifting) imageE list.set_map option.distinct(1) image_eqI)
  ultimately have qs: "set ?qs = {(k, v). \<exists>view \<in> set views. get view f = Some v \<and> value_key C F v = Some k}"
    by (fastforce simp: set_map_filter keyed_def image_iff split: option.splits)
  have keys: "fst ` set ?qs = field_keys C F views f" unfolding qs field_keys_def by force
  have "\<forall>q \<in> set (btree_collect ?qs). value_key C F (snd q) = Some (fst q)"
    using btree_collect_subset [of ?qs] qs by auto
  then have "collect_opt (value_key C F \<circ> snd) (btree_collect ?qs) = Some (map fst (btree_collect ?qs))"
    by (intro collect_opt_map) simp
  then show "collect_opt (value_key C F) vs = Some (sorted_list_of_set (field_keys C F views f))"
    by (simp add: ps(2) collect_opt_Some_iff btree_collect_keys keys)
  have "vs = [] \<longleftrightarrow> map fst (btree_collect ?qs) = []" by (simp add: ps(2))
  also have "\<dots> \<longleftrightarrow> fst ` set ?qs = {}" by (simp only: btree_collect_keys) simp
  finally show "vs = [] \<longleftrightarrow> field_keys C F views f = {}" unfolding keys .
qed

section \<open>Outcomes of a claim\<close>

lemma finite_field_keys: "finite (field_keys C F views f)"
proof -
  have "field_keys C F views f \<subseteq> (\<lambda>view. the (value_key C F (the (get view f)))) ` set views"
    by (force simp: field_keys_def)
  then show ?thesis by (rule finite_subset) simp
qed

definition conflicting :: "crates \<Rightarrow> (u64 \<Rightarrow> string) \<Rightarrow> json list \<Rightarrow> json list \<Rightarrow> string \<Rightarrow> bool" where
  "conflicting C F a b f \<longleftrightarrow> field_keys C F a f \<noteq> {} \<and> field_keys C F b f \<noteq> {} \<and> field_keys C F a f \<noteq> field_keys C F b f"

definition one_sided :: "crates \<Rightarrow> (u64 \<Rightarrow> string) \<Rightarrow> json list \<Rightarrow> json list \<Rightarrow> string \<Rightarrow> bool" where
  "one_sided C F a b f \<longleftrightarrow> (field_keys C F a f = {}) \<noteq> (field_keys C F b f = {})"

lemma btree_put_nonempty [simp]: "btree_put k v m \<noteq> []"
  by (metis btree_put_keys insort_not_Nil list.simps(8))

lemma compare_step_spec:
  assumes "compare_step C F a b ls f cmp = Some cmp'"
  shows "c_conflicts cmp' \<noteq> [] \<longleftrightarrow> c_conflicts cmp \<noteq> [] \<or> conflicting C F a b f"
    "c_one_sided cmp' \<noteq> [] \<longleftrightarrow> c_one_sided cmp \<noteq> [] \<or> one_sided C F a b f"
proof -
  obtain va vb where v: "field_values C F a f = Some va" "field_values C F b f = Some vb"
    using assms by (auto simp: compare_step_def bind_eq_Some_conv)
  note va = field_values_keys [OF v(1)] and vb = field_values_keys [OF v(2)]
  have eq: "sorted_list_of_set (field_keys C F a f) = sorted_list_of_set (field_keys C F b f) \<longleftrightarrow> field_keys C F a f = field_keys C F b f"
    by (metis finite_field_keys set_sorted_list_of_set)
  show "c_conflicts cmp' \<noteq> [] \<longleftrightarrow> c_conflicts cmp \<noteq> [] \<or> conflicting C F a b f"
    "c_one_sided cmp' \<noteq> [] \<longleftrightarrow> c_one_sided cmp \<noteq> [] \<or> one_sided C F a b f"
    using assms by (auto simp: compare_step_def v va vb eq conflicting_def one_sided_def split: if_splits)
qed

lemma compare_loop_spec:
  "compare_loop C F a b ls fs cmp = Some cmp' \<Longrightarrow>
     (c_conflicts cmp' \<noteq> [] \<longleftrightarrow> c_conflicts cmp \<noteq> [] \<or> (\<exists>f \<in> set fs. conflicting C F a b f)) \<and>
     (c_one_sided cmp' \<noteq> [] \<longleftrightarrow> c_one_sided cmp \<noteq> [] \<or> (\<exists>f \<in> set fs. one_sided C F a b f))"
proof (induction fs arbitrary: cmp)
  case (Cons f fs)
  then obtain c where c: "compare_step C F a b ls f cmp = Some c" "compare_loop C F a b ls fs c = Some cmp'"
    by (auto split: option.splits)
  show ?case using Cons.IH [OF c(2)] compare_step_spec [OF c(1)] by auto
qed simp

text \<open>The outcome of a claim: both sides carry it and no material field differs or is carried by one side only.\<close>

definition outcome_of :: "crates \<Rightarrow> (u64 \<Rightarrow> string) \<Rightarrow> json list \<Rightarrow> json list \<Rightarrow> string" where
  "outcome_of C F a b =
     (if a = [] \<or> b = [] then ''UNSUPPORTED''
      else if \<exists>f \<in> set FIELDS. conflicting C F a b f then ''CONFLICT''
      else if \<exists>f \<in> set FIELDS. one_sided C F a b f then ''UNSUPPORTED''
      else ''AGREEMENT'')"

lemma outcome_of_agreement:
  "outcome_of C F a b = ''AGREEMENT'' \<longleftrightarrow> a \<noteq> [] \<and> b \<noteq> [] \<and> (\<forall>f \<in> set FIELDS. field_keys C F a f = field_keys C F b f)"
  by (auto simp: outcome_of_def conflicting_def one_sided_def)

lemma compare_outcome:
  assumes "compare C F a b ls = Some (members, outcome, txt)" "a \<noteq> []" "b \<noteq> []"
  shows "outcome = outcome_of C F a b"
    and "map_of members k \<noteq> None \<Longrightarrow> k \<in> {''agreed_fields'', ''conflicting_fields'', ''one_sided_fields''}"
proof -
  obtain cmp where c: "compare_loop C F a b ls FIELDS \<lparr>c_agreed = [], c_conflicts = [], c_one_sided = []\<rparr> = Some cmp"
    and o: "outcome = (if c_conflicts cmp \<noteq> [] then ''CONFLICT'' else if c_one_sided cmp \<noteq> [] then ''UNSUPPORTED'' else ''AGREEMENT'')"
    and m: "members = btree_collect [(''agreed_fields'', JArray (map JString (c_agreed cmp))), (''conflicting_fields'', JObject (c_conflicts cmp)),
       (''one_sided_fields'', JObject (c_one_sided cmp))]"
    using assms(1) by (auto simp: compare_def bind_eq_Some_conv Let_def split: if_splits)
  show "outcome = outcome_of C F a b" using compare_loop_spec [OF c] assms(2,3) by (auto simp: o outcome_of_def)
  show "map_of members k \<noteq> None \<Longrightarrow> k \<in> {''agreed_fields'', ''conflicting_fields'', ''one_sided_fields''}"
    by (auto simp: m map_of_btree_collect split: if_splits)
qed

lemma get_collect: "get (JObject (btree_collect ps)) k = map_of (rev ps) k"
  by (simp add: get_def map_of_btree_collect)

lemma map_of_rev_None: "map_of members k = None \<Longrightarrow> map_of (rev members) k = None"
  by (simp add: map_of_eq_None_iff)

lemma claim_json_members:
  assumes "\<And>k. map_of members k \<noteq> None \<Longrightarrow> k \<in> {''agreed_fields'', ''conflicting_fields'', ''one_sided_fields''}"
  shows "get (claim_json parties ls aid members outcome msg) ''claim_id'' = Some (JString aid)"
    "get (claim_json parties ls aid members outcome msg) ''outcome'' = Some (JString outcome)"
    "get (claim_json parties ls aid members outcome msg) ''contested'' = Some (JBool (outcome \<noteq> ''AGREEMENT''))"
proof -
  have "map_of members ''claim_id'' = None" using assms [of "''claim_id''"] by (cases "map_of members ''claim_id''") simp_all
  then have "map_of (rev members) ''claim_id'' = None" by (rule map_of_rev_None)
  then show "get (claim_json parties ls aid members outcome msg) ''claim_id'' = Some (JString aid)"
    "get (claim_json parties ls aid members outcome msg) ''outcome'' = Some (JString outcome)"
    "get (claim_json parties ls aid members outcome msg) ''contested'' = Some (JBool (outcome \<noteq> ''AGREEMENT''))"
    by (simp_all add: claim_json_def Let_def get_collect map_add_def)
qed

lemma statement_members:
  assumes "statement C F parties ls aid = Some r"
  defines "o' \<equiv> outcome_of C F (views_of (fst parties) aid) (views_of (snd parties) aid)"
  shows "get r ''claim_id'' = Some (JString aid)" "get r ''outcome'' = Some (JString o')" "get r ''contested'' = Some (JBool (o' \<noteq> ''AGREEMENT''))"
proof -
  let ?va = "views_of (fst parties) aid" and ?vb = "views_of (snd parties) aid"
  have "\<exists>members msg. r = claim_json parties ls aid members o' msg \<and>
      (\<forall>k. map_of members k \<noteq> None \<longrightarrow> k \<in> {''agreed_fields'', ''conflicting_fields'', ''one_sided_fields''})"
  proof (cases "?va \<noteq> [] \<and> ?vb \<noteq> []")
    case True
    then obtain members outcome msg where c: "compare C F ?va ?vb ls = Some (members, outcome, msg)"
      using assms(1) by (auto simp: statement_def Let_def)
    have "outcome = o'" using compare_outcome(1) [OF c] True by (simp add: o'_def)
    then have "r = claim_json parties ls aid members o' msg" using assms(1) True c by (simp add: statement_def Let_def)
    then show ?thesis using compare_outcome(2) [OF c] True by blast
  next
    case False
    then have "o' = ''UNSUPPORTED''" by (auto simp: o'_def outcome_of_def)
    then have "\<exists>msg. r = claim_json parties ls aid [] o' msg"
      using assms(1) False by (auto simp: statement_def Let_def split: if_splits)
    then show ?thesis by fastforce
  qed
  then obtain members msg where r: "r = claim_json parties ls aid members o' msg"
    and k: "\<And>k. map_of members k \<noteq> None \<Longrightarrow> k \<in> {''agreed_fields'', ''conflicting_fields'', ''one_sided_fields''}" by blast
  show "get r ''claim_id'' = Some (JString aid)" "get r ''outcome'' = Some (JString o')" "get r ''contested'' = Some (JBool (o' \<noteq> ''AGREEMENT''))"
    unfolding r using claim_json_members [OF k] by blast+
qed

text \<open>C24: The outcome of every claim of a reconciliation is exact: agreement precisely when both parties' bundles carry the claim
  and, for each material field, the same set of values; a conflict when both carry a field with different values; and
  otherwise unsupported. A claim is contested unless it is agreed.\<close>

theorem claim_outcome_exact:
  assumes "statement C F parties ls aid = Some r"
  shows "let a = views_of (fst parties) aid; b = views_of (snd parties) aid in
    get_str r ''claim_id'' = Some aid \<and> get_str r ''outcome'' = Some (outcome_of C F a b) \<and>
    get_bool r ''contested'' = Some (outcome_of C F a b \<noteq> ''AGREEMENT'') \<and>
    (outcome_of C F a b = ''AGREEMENT'' \<longleftrightarrow> a \<noteq> [] \<and> b \<noteq> [] \<and> (\<forall>f \<in> set FIELDS. field_keys C F a f = field_keys C F b f))"
  using statement_members [OF assms] outcome_of_agreement
  by (simp add: Let_def get_str_def get_bool_def as_str_def as_bool_def)

definition toy_party :: "string \<Rightarrow> Party" where
  "toy_party origin = \<lparr>p_claims = [(''x'', [JObject [(''_receipt_hash'', JString ''h''), (''action_type'', JString ''pay''), (''currency'', JString ''EUR'')]])],
     p_facts = JObject [(''export_complete'', JNull), (''origin'', JString origin)]\<rparr>"

theorem claim_outcome_exact_witness:
  "\<exists>r. statement toy_base (\<lambda>_. ''0'') (toy_party ''a'', toy_party ''b'') (''A'', ''B'') ''x'' = Some r \<and> get_str r ''outcome'' = Some ''AGREEMENT''"
proof -
  have "statement toy_base (\<lambda>_. ''0'') (toy_party ''a'', toy_party ''b'') (''A'', ''B'') ''x'' \<noteq> None" by code_simp
  then obtain r where r: "statement toy_base (\<lambda>_. ''0'') (toy_party ''a'', toy_party ''b'') (''A'', ''B'') ''x'' = Some r" by auto
  from claim_outcome_exact [OF r] have "get_str r ''outcome'' = Some ''AGREEMENT''"
    by (simp add: Let_def views_of_def toy_party_def unwrap_or_def)
  with r show ?thesis by blast
qed

section \<open>The reconciliation\<close>

lemma length_partition3:
  "\<forall>x \<in> set xs. g x \<in> {a, b, c} \<Longrightarrow> distinct [a, b, c] \<Longrightarrow>
     length (filter (\<lambda>x. g x = a) xs) + length (filter (\<lambda>x. g x = b) xs) + length (filter (\<lambda>x. g x = c) xs) = length xs"
  by (induction xs) auto

lemma outcome_of_vals: "outcome_of C F a b \<in> {''AGREEMENT'', ''CONFLICT'', ''UNSUPPORTED''}"
  by (simp add: outcome_of_def)

text \<open>The number of claims with an outcome.\<close>

definition tally :: "json list \<Rightarrow> string \<Rightarrow> nat" where
  "tally claims outcome = length (filter (\<lambda>claim. get_str claim ''outcome'' = Some outcome) claims)"

lemma as_str_index: "as_str (index v k) = get_str v k"
  by (simp add: index_def get_str_def unwrap_or_def as_str_def split: option.split)

text \<open>C25: A recomputed reconciliation states every claim that either party's receipts name or the package contests, exactly once
  and in order, and its summary accounts for all of them: the outcomes add up to the claims, and the contested ones are those
  in conflict or unsupported.\<close>

theorem reconcile_complete:
  assumes "reconcile C F parties ls contested = Some r"
  shows "\<exists>claims summary. get r ''claims'' = Some (JArray claims) \<and> get r ''summary'' = Some summary \<and>
    map (\<lambda>c. get_str c ''claim_id'') claims = map Some (population_ids parties contested) \<and>
    sorted (population_ids parties contested) \<and> distinct (population_ids parties contested) \<and>
    set (population_ids parties contested) = fst ` set (p_claims (fst parties)) \<union> fst ` set (p_claims (snd parties)) \<union> set contested \<and>
    (\<forall>o' \<in> {''AGREEMENT'', ''CONFLICT'', ''UNSUPPORTED''}. get summary o' = Some (count_json (tally claims o'))) \<and>
    tally claims ''AGREEMENT'' + tally claims ''CONFLICT'' + tally claims ''UNSUPPORTED'' = length claims \<and>
    get summary ''contested'' = Some (count_json (tally claims ''CONFLICT'' + tally claims ''UNSUPPORTED''))"
proof -
  obtain claims where c: "collect_opt (statement C F parties ls) (population_ids parties contested) = Some claims"
    using assms by (auto simp: reconcile_def bind_eq_Some_conv)
  then have m: "map (statement C F parties ls) (population_ids parties contested) = map Some claims" by (simp only: collect_opt_Some_iff)
  have st: "\<exists>aid \<in> set (population_ids parties contested). statement C F parties ls aid = Some x" if "x \<in> set claims" for x
    using arg_cong [OF m, of set] that by (metis (no_types, lifting) imageE image_eqI list.set_map)
  have claim: "\<exists>o' \<in> {''AGREEMENT'', ''CONFLICT'', ''UNSUPPORTED''}. get x ''outcome'' = Some (JString o') \<and> get x ''contested'' = Some (JBool (o' \<noteq> ''AGREEMENT''))"
    if x: "x \<in> set claims" for x
  proof -
    obtain aid where "statement C F parties ls aid = Some x" using st [OF x] by blast
    from statement_members(2,3) [OF this] show ?thesis
      by (intro bexI [of _ "outcome_of C F (views_of (fst parties) aid) (views_of (snd parties) aid)"] conjI)
        (assumption, assumption, rule outcome_of_vals)
  qed
  have ids: "map (\<lambda>c. get_str c ''claim_id'') claims = map Some (population_ids parties contested)"
  proof (rule nth_equalityI)
    show "length (map (\<lambda>c. get_str c ''claim_id'') claims) = length (map Some (population_ids parties contested))"
      using collect_opt_length [OF c] by simp
    fix i assume "i < length (map (\<lambda>c. get_str c ''claim_id'') claims)"
    then have i: "i < length claims" "i < length (population_ids parties contested)" using collect_opt_length [OF c] by auto
    from statement_members(1) [OF collect_opt_nth [OF c i(2)]] show "map (\<lambda>c. get_str c ''claim_id'') claims ! i = map Some (population_ids parties contested) ! i"
      using i by (simp add: get_str_def as_str_def)
  qed
  define summary where "summary = btree_collect (map (\<lambda>outcome. (outcome, outcome_count claims outcome)) [''AGREEMENT'', ''CONFLICT'', ''UNSUPPORTED''] @
       [(''contested'', count_json (length (filter (\<lambda>claim. index claim ''contested'' = JBool True) claims)))])"
  have r: "get r ''claims'' = Some (JArray claims)" "get r ''summary'' = Some (JObject summary)"
    using assms by (auto simp: reconcile_def c Let_def get_collect summary_def)
  have count: "\<forall>o' \<in> {''AGREEMENT'', ''CONFLICT'', ''UNSUPPORTED''}. get (JObject summary) o' = Some (count_json (tally claims o'))"
    by (simp add: summary_def get_collect outcome_count_def tally_def as_str_index)
  have sum: "tally claims ''AGREEMENT'' + tally claims ''CONFLICT'' + tally claims ''UNSUPPORTED'' = length claims"
    unfolding tally_def by (rule length_partition3) (use claim in \<open>force simp: get_str_def as_str_def\<close>, simp)
  have "filter (\<lambda>claim. index claim ''contested'' = JBool True) claims = filter (\<lambda>claim. get_str claim ''outcome'' \<noteq> Some ''AGREEMENT'') claims"
    by (rule filter_cong [OF refl]) (use claim in \<open>fastforce simp: index_def unwrap_or_def get_str_def as_str_def\<close>)
  moreover have "length (filter (\<lambda>claim. get_str claim ''outcome'' \<noteq> Some ''AGREEMENT'') claims) + tally claims ''AGREEMENT'' = length claims"
    unfolding tally_def using sum_length_filter_compl [of "\<lambda>claim. get_str claim ''outcome'' = Some ''AGREEMENT''" claims] by simp
  ultimately have con: "length (filter (\<lambda>claim. index claim ''contested'' = JBool True) claims) = tally claims ''CONFLICT'' + tally claims ''UNSUPPORTED''"
    using sum by simp
  have "get (JObject summary) ''contested'' = Some (count_json (tally claims ''CONFLICT'' + tally claims ''UNSUPPORTED''))"
    by (simp add: summary_def get_collect con)
  with r ids count sum show ?thesis by (auto simp: population_ids_def)
qed

theorem reconcile_complete_witness:
  "\<exists>r claims. reconcile toy_base (\<lambda>_. ''0'') (toy_party ''a'', toy_party ''b'') (''A'', ''B'') [''y''] = Some r \<and>
     get r ''claims'' = Some (JArray claims) \<and> map (\<lambda>c. get_str c ''claim_id'') claims = [Some ''x'', Some ''y'']"
proof -
  have "reconcile toy_base (\<lambda>_. ''0'') (toy_party ''a'', toy_party ''b'') (''A'', ''B'') [''y''] \<noteq> None" by code_simp
  then obtain r where r: "reconcile toy_base (\<lambda>_. ''0'') (toy_party ''a'', toy_party ''b'') (''A'', ''B'') [''y''] = Some r" by auto
  have ids: "population_ids (toy_party ''a'', toy_party ''b'') [''y''] = [''x'', ''y'']" by code_simp
  obtain claims where "get r ''claims'' = Some (JArray claims)" "map (\<lambda>c. get_str c ''claim_id'') claims = map Some [''x'', ''y'']"
    using reconcile_complete [OF r] unfolding ids by blast
  with r show ?thesis by (intro exI [of _ r] exI [of _ claims]) simp
qed

section \<open>The parties\<close>

definition names_claim :: "crates \<Rightarrow> string \<Rightarrow> json \<Rightarrow> json option" where
  "names_claim C aid entry =
     (case party_entry C entry of Some (Some (Some (a, view))) \<Rightarrow> if a = aid then Some view else None | _ \<Rightarrow> None)"

lemma map_of_push_claim: "unwrap_or [] (map_of (push_claim a view claims) aid) = unwrap_or [] (map_of claims aid) @ (if a = aid then [view] else [])"
  by (simp add: push_claim_def map_of_btree_put unwrap_or_def)

lemma party_loop_views:
  "party_loop C claims n entries = Some (claims', n') \<Longrightarrow>
     unwrap_or [] (map_of claims' aid) = unwrap_or [] (map_of claims aid) @ List.map_filter (names_claim C aid) entries"
proof (induction C claims n entries rule: party_loop.induct)
  case (2 C claims n entry entries)
  then obtain e where e: "party_entry C entry = Some e" by (auto split: option.splits)
  show ?case
    using "2.IH" "2.prems" e by (auto simp: map_filter_simps names_claim_def map_of_push_claim split: option.splits)
qed (simp add: map_filter_simps)

text \<open>A party of a dispute is a verified bundle, and the claims it is credited with are exactly those of its receipts: the views
  of a claim are the receipts of external agents that name it, in the order of the bundle.\<close>

theorem party_views_exact:
  assumes "party C T b = Some p"
  shows "bf_ok (verify_bundle_facts C T b None) \<and>
    (\<exists>entries. index b ''entries'' = JArray entries \<and> (\<forall>aid. views_of p aid = List.map_filter (names_claim C aid) entries))"
proof -
  have ok: "bf_ok (verify_bundle_facts C T b None)" using assms by (auto simp: party_def Let_def split: if_splits)
  then obtain entries where e: "as_array (index b ''entries'') = Some entries"
    using assms by (auto simp: party_def Let_def bind_eq_Some_conv)
  obtain x xs where k: "collect_key_entries C entries = x # xs"
    using assms ok e by (cases "collect_key_entries C entries") (auto simp: party_def Let_def)
  obtain claims n where l: "party_loop C [] 0 entries = Some (claims, n)" "p_claims p = claims"
    using assms ok e k by (cases x) (auto simp: party_def Let_def bind_eq_Some_conv)
  have "index b ''entries'' = JArray entries" using e by (cases "index b ''entries''") (auto simp: as_array_def)
  moreover have "views_of p aid = List.map_filter (names_claim C aid) entries" for aid
    using party_loop_views [OF l(1), of aid] by (simp add: views_of_def l(2) unwrap_or_def)
  ultimately show ?thesis using ok by blast
qed

text \<open>An accepted package: two verified bundles of distinct origins and trust roots, whose recomputed reconciliation has the key of
  the one it carries.\<close>

lemma reverify_sound:
  assumes "reverify C T F package = Some r"
  shows "\<exists>ls bundles contested a b. inputs package = Some (ls, bundles, contested) \<and> fst ls \<noteq> snd ls \<and>
    party C T (unwrap_or JNull (map_of bundles (fst ls))) = Some a \<and> party C T (unwrap_or JNull (map_of bundles (snd ls))) = Some b \<and>
    \<not> value_eq (index (p_facts a) ''origin'') (index (p_facts b) ''origin'') \<and>
    \<not> value_eq (index (p_facts a) ''trust_root'') (index (p_facts b) ''trust_root'') \<and>
    reconcile C F (a, b) ls contested = Some r \<and> value_key C F r = value_key C F (index package ''reconciliation'')"
proof -
  obtain ls bundles contested a b where i: "inputs package = Some (ls, bundles, contested)"
    and r: "party C T (unwrap_or JNull (map_of bundles (fst ls))) = Some a" "party C T (unwrap_or JNull (map_of bundles (snd ls))) = Some b"
    "\<not> value_eq (index (p_facts a) ''origin'') (index (p_facts b) ''origin'')"
    "\<not> value_eq (index (p_facts a) ''trust_root'') (index (p_facts b) ''trust_root'')"
    "reconcile C F (a, b) ls contested = Some r" "value_key C F r = value_key C F (index package ''reconciliation'')"
    using assms by (auto simp: reverify_def bind_eq_Some_conv then_some_def split: if_splits)
  have "labels package = Some ls" using i by (auto simp: inputs_def bind_eq_Some_conv split: if_splits)
  then have "fst ls \<noteq> snd ls" by (auto simp: labels_def bind_eq_Some_conv split: if_splits)
  with i r show ?thesis by blast
qed

theorem party_views_exact_witness:
  "\<exists>p. party toy_world toy_asn1 (toy_bundle JNull) = Some p \<and> views_of p ''x'' = List.map_filter (names_claim toy_world ''x'') [toy_entry]"
proof -
  let ?env = "toy_env [(toy_kid CHR 0x20, replicate 32 0x61)] toy_genesis"
  have es: "index (toy_bundle JNull) ''entries'' = JArray [toy_entry]" by (simp add: toy_bundle_def json_access unwrap_or_def)
  have body: "body_of toy_world ?env = Some toy_genesis" by (rule toy_genesis_read)
  have b: "get_str toy_genesis ''agent_id'' = Some ''_system''" "get_str toy_genesis ''action_type'' = Some ''evd.key.created''"
    "index toy_genesis ''agent_id'' = JString ''_system''" "get_u64 toy_entry ''leaf_index'' = Some 0"
    by (simp_all add: toy_genesis_def toy_receipt_def toy_entry_def json_access unwrap_or_def)
  have keys: "collect_key_entries toy_world [toy_entry] = [(0, ?env, toy_genesis)]"
    by (simp add: collect_key_entries_def map_filter_simps toy_entry_fields body is_key_body_def b starts_with_def)
  obtain h where h: "receipt_hash_hex toy_world ?env = Some h" using body by (auto simp: body_of_iff receipt_hash_hex_def)
  have "party_entry toy_world toy_entry = Some None" by (simp add: party_entry_def toy_entry_fields body b as_str_def starts_with_def)
  then have "party toy_world toy_asn1 (toy_bundle JNull) \<noteq> None"
    using toy_bundle_ok [of toy_asn1] h by (simp add: party_def Let_def es keys as_array_def)
  then obtain p where p: "party toy_world toy_asn1 (toy_bundle JNull) = Some p" by auto
  from party_views_exact [OF p] es p show ?thesis by auto
qed

end
