(* ===== verification/Certificate.thy ===== *)
theory Certificate
  imports Scitt Authority Verdict
begin

text \<open>
  \<open>verify-rs/src/certificate.rs\<close>: action certificates. The core carries a bundle, a claim with its events and the verdict
  input the producer proposes; the verifier recomputes everything the input says about the bundle and the events, derives
  the registration receipt itself, and only then derives the vector. The JSON text of a result is modelled by its value.
\<close>

section \<open>Constants\<close>

definition CORE_SCHEMA :: string where
  "CORE_SCHEMA = ''evd/certificate/v1''"

definition VIEW_SCHEMA :: string where
  "VIEW_SCHEMA = ''evd/certificate-view/v1''"

definition VIEW_DOMAIN :: bytes where
  "VIEW_DOMAIN = as_bytes ''evd/v1/certificate/view'' @ [0]"

definition MAX_CORE_BYTES :: nat where
  "MAX_CORE_BYTES = 1024 * 1024"

definition MAX_LIST :: nat where
  "MAX_LIST = 10000"

definition MAX_ATTACHMENTS :: nat where
  "MAX_ATTACHMENTS = 1000"

definition MAX_DISCLOSURES :: nat where
  "MAX_DISCLOSURES = 256"

definition CORE_KEYS :: "string list" where
  "CORE_KEYS = [''schema'', ''subject'', ''bundle'', ''claim'', ''events'', ''event_matches'', ''source_identity'', ''control_evidence'', ''batch'',
     ''scan'', ''coverage_doc'', ''node_attestation'', ''open_findings'', ''proof_digests'', ''assurance_transcript_digest'',
     ''challenge_envelope_hash'', ''presentation_envelope_hash'', ''asa_envelope_hash'', ''presentation_digest'', ''agent_context_digest'',
     ''verdict_input'', ''limitations'', ''current_through'', ''policy_version'', ''attachments'']"

definition SUBJECT_KEYS :: "string list" where
  "SUBJECT_KEYS = [''action_id'', ''action_class'', ''origin'', ''subject_ids'']"

definition LIMITATION_CODES :: "string list" where
  "LIMITATION_CODES = [''AGENT_CONTEXT_UNBOUND'', ''ACCEPTED_SOURCE_COLLUSION_OUT_OF_MODEL'', ''COVERAGE_CONVENTIONS_UNBOUND'']"

definition ZERO_DIGEST :: string where
  "ZERO_DIGEST = replicate 64 (CHR ''0'')"

section \<open>Utilities\<close>

definition cget :: "cbor \<Rightarrow> string \<Rightarrow> cbor option" where
  "cget v key = (case v of CMap m \<Rightarrow> map_option snd (find (\<lambda>(k, _). k = CText key) m) | _ \<Rightarrow> None)"

definition ctext :: "cbor \<Rightarrow> string \<Rightarrow> string option" where
  "ctext v key = (case cget v key of Some (CText t) \<Rightarrow> Some t | _ \<Rightarrow> None)"

definition cbytes :: "cbor \<Rightarrow> string \<Rightarrow> bytes option" where
  "cbytes v key = (case cget v key of Some (CBytes b) \<Rightarrow> Some b | _ \<Rightarrow> None)"

definition int_number :: "int \<Rightarrow> json option" where
  "int_number i =
     (if - (2 ^ 63) \<le> i \<and> i < 2 ^ 63 then Some (JNumber (if 0 \<le> i then PosInt (of_int i) else NegInt i)) else None)"

function cbor_to_json :: "cbor \<Rightarrow> int \<Rightarrow> json option" where
  "cbor_to_json v limit =
     (if limit < 0 then None
      else (case v of
              CNull \<Rightarrow> Some JNull
            | CBool b \<Rightarrow> Some (JBool b)
            | CInteger i \<Rightarrow> int_number i
            | CText s \<Rightarrow> Some (JString s)
            | CArray a \<Rightarrow> map_option JArray (collect_opt (\<lambda>x. cbor_to_json x (limit - 1)) a)
            | CMap m \<Rightarrow>
                map_option (\<lambda>ps. JObject (btree_collect ps))
                  (collect_opt (\<lambda>(k, x). case k of
                      CText key \<Rightarrow> map_option (\<lambda>j. (key, j)) (cbor_to_json x (limit - 1))
                    | _ \<Rightarrow> None) m)
            | _ \<Rightarrow> None))"
  by pat_completeness auto
termination
  by (relation "measure (\<lambda>(_, limit). nat (limit + 1))") auto

declare cbor_to_json.simps [simp del]

definition pystr :: "crates \<Rightarrow> (u64 \<Rightarrow> string) \<Rightarrow> json option \<Rightarrow> string" where
  "pystr C F v =
     (case v of
        None \<Rightarrow> []
      | Some JNull \<Rightarrow> ''None''
      | Some (JBool b) \<Rightarrow> if b then ''True'' else ''False''
      | Some (JString s) \<Rightarrow> s
      | Some (JNumber n) \<Rightarrow> number_display F n
      | Some other \<Rightarrow> value_text C F other)"

definition text_or_empty :: "crates \<Rightarrow> (u64 \<Rightarrow> string) \<Rightarrow> json \<Rightarrow> string \<Rightarrow> string" where
  "text_or_empty C F v key = (if absent (get v key) then [] else pystr C F (get v key))"

record Report =
  r_parse_ok :: bool
  r_layers :: "string list"
  r_certificate_id :: "string option"
  r_core_present :: bool
  r_cross_checks_ok :: bool
  r_vector :: json
  r_mark :: json
  r_errors :: "string list"
  r_export_complete :: "bool option"
  r_origin_attested :: "bool option"

definition Report_default :: Report where
  "Report_default = \<lparr>r_parse_ok = False, r_layers = [], r_certificate_id = None, r_core_present = False, r_cross_checks_ok = False,
     r_vector = JNull, r_mark = JNull, r_errors = [], r_export_complete = None, r_origin_attested = None\<rparr>"

definition report_json :: "Report \<Rightarrow> json" where
  "report_json r = JObject (btree_collect
     [(''parse_ok'', JBool (r_parse_ok r)), (''layers'', JArray (map JString (r_layers r))),
      (''certificate_id'', opt_json JString (r_certificate_id r)), (''core_present'', JBool (r_core_present r)),
      (''cross_checks_ok'', JBool (r_cross_checks_ok r)), (''vector'', r_vector r), (''mark'', r_mark r),
      (''errors'', JArray (map JString (r_errors r))), (''export_complete'', opt_json JBool (r_export_complete r)),
      (''origin_attested'', opt_json JBool (r_origin_attested r))])"

section \<open>Cross-checks of the subject\<close>

definition check_authority :: "crates \<Rightarrow> asn1 \<Rightarrow> json \<Rightarrow> json \<Rightarrow> bool" where
  "check_authority C T core b =
     (let aid = ofilter (\<lambda>a. a \<noteq> []) (get_str (index core ''subject'') ''action_id'') in
      value_eq_opt (get (index core ''verdict_input'') ''authority'') (Some (authority_facts C T b aid)))"

definition subject_origin_matches_bundle :: "json \<Rightarrow> json \<Rightarrow> bool" where
  "subject_origin_matches_bundle core b =
     (case (get_str (index core ''subject'') ''origin'', get_str b ''origin'') of
        (Some subject, Some origin) \<Rightarrow> subject = origin
      | _ \<Rightarrow> False)"

text \<open>\<open>subject_action_id_matches_input\<close> and \<open>subject_action_class_matches_input\<close>, which differ in the member they compare.\<close>

definition subject_member_matches_input :: "crates \<Rightarrow> string \<Rightarrow> json \<Rightarrow> json \<Rightarrow> bool" where
  "subject_member_matches_input C k core b =
     (case (get_str (index core ''subject'') k, Option.bind (get (index core ''verdict_input'') ''action'') (\<lambda>action. get_str action k)) of
        (Some subject, Some input) \<Rightarrow> subject = input \<and> (subject \<noteq> [] \<or> \<not> has_signed_action_intent C b)
      | _ \<Rightarrow> False)"

definition subject_action_id_matches_input :: "crates \<Rightarrow> json \<Rightarrow> json \<Rightarrow> bool" where
  "subject_action_id_matches_input C core b = subject_member_matches_input C ''action_id'' core b"

definition subject_action_class_matches_input :: "crates \<Rightarrow> json \<Rightarrow> json \<Rightarrow> bool" where
  "subject_action_class_matches_input C core b = subject_member_matches_input C ''action_class'' core b"

definition input_action_matches_signed_intent :: "crates \<Rightarrow> (u64 \<Rightarrow> string) \<Rightarrow> json \<Rightarrow> json \<Rightarrow> bool" where
  "input_action_matches_signed_intent C F core b =
     (let action = index (index core ''verdict_input'') ''action'' in
      case (get_str action ''action_id'', get_str action ''action_class'') of
        (Some action_id, Some action_class) \<Rightarrow>
          if has_signed_action_intent C b then
            is_some_and (signed_action_context C b action_id) (\<lambda>ctx.
              get_str ctx ''action_id'' = Some action_id \<and> get_str ctx ''action_class'' = Some action_class)
          else
            (case signed_action_intents C F b action_id of (ids, classes) \<Rightarrow>
               (action_class = [] \<or> action_class \<in> classes) \<and> (action_id = [] \<or> action_id \<in> ids))
      | _ \<Rightarrow> False)"

definition claim_matches_subject :: "crates \<Rightarrow> (u64 \<Rightarrow> string) \<Rightarrow> json \<Rightarrow> bool" where
  "claim_matches_subject C F core =
     (case obj core ''claim'' of
        None \<Rightarrow> True
      | Some claim \<Rightarrow> list_all (\<lambda>k. pystr C F (get claim k) = pystr C F (get (index core ''subject'') k)) [''action_id'', ''action_class''])"

definition signed_coverage_digests :: "crates \<Rightarrow> json \<Rightarrow> string set" where
  "signed_coverage_digests C b =
     set (List.map_filter (\<lambda>r. get_str (rec_ctx r) ''coverage_doc_digest'') (filter (\<lambda>r. rec_action r = ''evd.coverage.recorded'') (entry_rows C b)))"

definition coverage_conventions_bound :: "crates \<Rightarrow> json \<Rightarrow> json \<Rightarrow> bool" where
  "coverage_conventions_bound C core b =
     (let signed' = signed_coverage_digests C b in
      signed' \<noteq> {} \<and> is_some_and (canonical_checked C (index core ''coverage_doc'')) (\<lambda>body. hex (sha256 C body) \<in> signed'))"

definition coverage_doc_bound :: "crates \<Rightarrow> json \<Rightarrow> json \<Rightarrow> bool" where
  "coverage_doc_bound C core b = (coverage_conventions_bound C core b \<or> signed_coverage_digests C b = {})"

definition limitations_consistent :: "crates \<Rightarrow> json \<Rightarrow> json \<Rightarrow> bool" where
  "limitations_consistent C core b =
     (let lims = unwrap_or [] (as_array (index core ''limitations''));
          codes = set (filter (\<lambda>c. c \<in> set LIMITATION_CODES) (List.map_filter as_str lims)) in
      if card codes \<noteq> length lims then False
      else if (''AGENT_CONTEXT_UNBOUND'' \<in> codes) \<noteq> (get_str core ''agent_context_digest'' = Some ZERO_DIGEST) then False
      else (''COVERAGE_CONVENTIONS_UNBOUND'' \<in> codes) \<noteq> coverage_conventions_bound C core b)"

definition subject_ids_match_authority :: "crates \<Rightarrow> asn1 \<Rightarrow> json \<Rightarrow> json \<Rightarrow> bool" where
  "subject_ids_match_authority C T core b =
     (case get_str (index core ''subject'') ''action_id'' of
        None \<Rightarrow> False
      | Some action_id \<Rightarrow>
          (let subject_ids = get (index core ''subject'') ''subject_ids'';
               expected = get_object (authority_facts C T b (Some action_id)) ''subject_ids'' in
           case ofilter (\<lambda>m. m \<noteq> []) expected of
             Some expected \<Rightarrow> is_some_and (Option.bind subject_ids as_object) (\<lambda>ids. ids \<noteq> [] \<and> value_eq (JObject ids) (JObject expected))
           | None \<Rightarrow> absent subject_ids))"

section \<open>Cross-checks of the input\<close>

definition listed :: "json \<Rightarrow> string \<Rightarrow> json" where
  "listed vi k = unwrap_or (JArray []) (ofilter (\<lambda>v. truthy (Some v)) (get vi k))"

definition stated :: "json \<Rightarrow> string \<Rightarrow> json option" where
  "stated v k = ofilter (\<lambda>x. x \<noteq> JNull) (get v k)"

definition check_input_echo :: "json \<Rightarrow> bool" where
  "check_input_echo core =
     (let vi = index core ''verdict_input'' in
      if \<not> value_eq (index core ''events'') (listed vi ''events'') \<or> \<not> value_eq (index core ''event_matches'') (listed vi ''event_matches'') then False
      else list_all (\<lambda>k. value_eq_opt (stated core k) (stated vi k)) [''claim'', ''source_identity'', ''control_evidence'', ''batch'', ''scan''])"

definition check_findings_carried :: "json \<Rightarrow> bool" where
  "check_findings_carried core =
     (let carried = unwrap_or [] (as_array (index core ''open_findings'')) in
      carried = [] \<or>
      (case get_array (index core ''verdict_input'') ''findings'' of
         None \<Rightarrow> False
       | Some consumed \<Rightarrow> list_all (\<lambda>f. list_ex (\<lambda>g. value_eq g f) consumed) carried))"

fun dedup_loop :: "crates \<Rightarrow> (u64 \<Rightarrow> string) \<Rightarrow> string set \<Rightarrow> json list \<Rightarrow> (string \<times> json) list" where
  "dedup_loop C F seen [] = []"
| "dedup_loop C F seen (e # es) =
     (let k = pystr C F (get e ''event_key'') in
      if is_object e \<and> k \<notin> seen then (k, e) # dedup_loop C F (insert k seen) es else dedup_loop C F seen es)"

definition deduped_events :: "crates \<Rightarrow> (u64 \<Rightarrow> string) \<Rightarrow> json \<Rightarrow> (string \<times> json) list" where
  "deduped_events C F core = dedup_loop C F {} (unwrap_or [] (as_array (index core ''events'')))"

definition unique_field_match :: "crates \<Rightarrow> (u64 \<Rightarrow> string) \<Rightarrow> json \<Rightarrow> json \<Rightarrow> json \<Rightarrow> bool" where
  "unique_field_match C F claim ev man =
     list_ex (\<lambda>f. case (stated claim f, stated ev f) of
         (Some l, Some r) \<Rightarrow> (let ls = pystr C F (Some l) in ls \<noteq> [] \<and> ls = pystr C F (Some r))
       | _ \<Rightarrow> False)
       (List.map_filter as_str (unwrap_or [] (get_array man ''unique_fields'')))"

definition link_flags :: "crates \<Rightarrow> (u64 \<Rightarrow> string) \<Rightarrow> json \<Rightarrow> json \<Rightarrow> json \<Rightarrow> bool \<times> bool \<times> bool" where
  "link_flags C F claim ev man =
     (let token = text_or_empty C F claim ''action_id'';
          reference = pystr C F (get ev ''reference'');
          corr = unwrap_or [] (get_str man ''correlation_field'');
          echo = (token \<noteq> [] \<and> (corr \<noteq> [] \<and> pystr C F (get ev corr) = token \<or> reference = token));
          external = text_or_empty C F claim ''external_ref'' in
      (echo, external \<noteq> [] \<and> reference = external, unique_field_match C F claim ev man))"

definition is_final :: "crates \<Rightarrow> (u64 \<Rightarrow> string) \<Rightarrow> json \<Rightarrow> json option \<Rightarrow> bool" where
  "is_final C F ev rule =
     (let fin = pystr C F (get ev ''finality'') in
      case rule of
        Some (JString s) \<Rightarrow> fin = s
      | Some (JObject m) \<Rightarrow> list_ex (\<lambda>k. case Option.bind (map_of m k) as_array of
            Some a \<Rightarrow> list_ex (\<lambda>v. pystr C F (Some v) = fin) a
          | None \<Rightarrow> False) [''final'', ''correction'']
      | _ \<Rightarrow> False)"

definition class_fields :: "crates \<Rightarrow> (u64 \<Rightarrow> string) \<Rightarrow> json \<Rightarrow> json \<Rightarrow> string list" where
  "class_fields C F claim man =
     List.map_filter as_str
       (unwrap_or [] (Option.bind (get man ''material_fields'') (\<lambda>m. get_array m (pystr C F (get claim ''action_class'')))))"

definition material_mismatch :: "crates \<Rightarrow> (u64 \<Rightarrow> string) \<Rightarrow> json \<Rightarrow> json \<Rightarrow> json \<Rightarrow> bool" where
  "material_mismatch C F claim ev man =
     (let names = foldl (\<lambda>names f. if f \<in> set names then names else names @ [f]) MATERIAL_FLOOR (class_fields C F claim man) in
      list_ex (\<lambda>f. case (stated claim f, stated ev f) of
          (Some l, Some r) \<Rightarrow> pystr C F (Some l) \<noteq> pystr C F (Some r)
        | _ \<Rightarrow> False) (filter (\<lambda>f. f \<noteq> ''source_effect_time'') names))"

definition FLAG_NAMES :: "string list" where
  "FLAG_NAMES = [''echoed_action_id'', ''immutable_ref_match'', ''unique_field_match'', ''final'', ''material_mismatch'']"

definition flags_equal :: "json \<Rightarrow> bool list \<Rightarrow> bool" where
  "flags_equal m want = list_all (\<lambda>(k, w). get m k = Some (JBool w)) (zip FLAG_NAMES want)"

definition match_ok :: "crates \<Rightarrow> (u64 \<Rightarrow> string) \<Rightarrow> json \<Rightarrow> json \<Rightarrow> (string \<times> json) list \<Rightarrow> bool \<Rightarrow> json \<Rightarrow> bool" where
  "match_ok C F man claim events uniq m =
     (case find (\<lambda>(k, _). k = pystr C F (get m ''event_key'')) events of
        None \<Rightarrow> False
      | Some (_, ev) \<Rightarrow>
          (case link_flags C F claim ev man of (e, i, u) \<Rightarrow>
             flags_equal m [e, i, u, is_final C F ev (get man ''finality_rule''), uniq \<and> material_mismatch C F claim ev man]))"

definition check_matches :: "crates \<Rightarrow> (u64 \<Rightarrow> string) \<Rightarrow> json \<Rightarrow> bool" where
  "check_matches C F core =
     (let man = index core ''coverage_doc'';
          claim = unwrap_or (JObject []) (obj core ''claim'');
          events = deduped_events C F core;
          matches = unwrap_or [] (as_array (index core ''event_matches''));
          uniq = (length matches = 1);
          named = set (map (\<lambda>m. pystr C F (get m ''event_key'')) matches) in
      list_all (match_ok C F man claim events uniq) matches \<and>
      list_all (\<lambda>(k, ev). case link_flags C F claim ev man of (e, i, u) \<Rightarrow> \<not> (e \<or> i \<or> u) \<or> k \<in> named) events)"

definition count_pair_ok :: "json \<Rightarrow> string \<Rightarrow> string \<Rightarrow> bool" where
  "count_pair_ok cov lst cnt =
     (case (get_array cov lst, get_i64 cov cnt) of
        (Some a, Some n) \<Rightarrow> n = int (length a)
      | _ \<Rightarrow> get cov lst = None \<and> get cov cnt = None)"

definition batch_consistent :: "crates \<Rightarrow> (u64 \<Rightarrow> string) \<Rightarrow> json option \<Rightarrow> json \<Rightarrow> bool" where
  "batch_consistent C F batch cov =
     (case ofilter is_object batch of
        None \<Rightarrow> True
      | Some batch \<Rightarrow>
          \<not> list_ex (\<lambda>f. case (get batch f, get cov f) of
              (Some b, Some c) \<Rightarrow> pystr C F (Some b) \<noteq> pystr C F (Some c)
            | _ \<Rightarrow> False) [''cursor_start'', ''cursor_end'', ''filter_digest'', ''mapping_version'', ''event_key_root'', ''finality_watermark''] \<and>
          list_all (\<lambda>l. let doc = set (map (\<lambda>x. pystr C F (Some x)) (unwrap_or [] (get_array cov l))) in
              case get_array batch l of
                Some a \<Rightarrow> list_all (\<lambda>g. pystr C F (Some g) \<in> doc) a
              | None \<Rightarrow> True) [''gaps'', ''exclusions''])"

definition check_coverage :: "crates \<Rightarrow> (u64 \<Rightarrow> string) \<Rightarrow> json \<Rightarrow> bool" where
  "check_coverage C F core =
     (let cov = index core ''coverage_doc'';
          keys = map (\<lambda>(k, _). JString k) (deduped_events C F core) in
      if get_i64 cov ''event_count'' \<noteq> Some (int (length keys)) then False
      else (case canonical_checked C (JArray keys) of None \<Rightarrow> False | Some root' \<Rightarrow>
        if get cov ''event_key_root'' \<noteq> Some (JString (hex (sha256 C root'))) then False
        else if \<not> count_pair_ok cov ''claim_refs'' ''claim_count'' \<or> \<not> count_pair_ok cov ''orphans'' ''orphan_count'' then False
        else if (case obj core ''claim'' of
                   None \<Rightarrow> False
                 | Some claim \<Rightarrow>
                     (case get_array cov ''claim_refs'' of
                        None \<Rightarrow> True
                      | Some refs \<Rightarrow> \<not> list_ex (\<lambda>r. pystr C F (Some r) = pystr C F (get claim ''action_id'')) refs)) then False
        else batch_consistent C F (get core ''batch'') cov))"

section \<open>The view\<close>

text \<open>\<open>authorized_keys\<close>, as the map of the keys it holds.\<close>

definition authorized_keys :: "crates \<Rightarrow> json \<Rightarrow> bool \<Rightarrow> string \<rightharpoonup> bytes" where
  "authorized_keys C b scitt_role =
     (let kl = replay_key_log C (unwrap_or [] (get_array b ''entries'')) in
      (\<lambda>kid. if kl_ok kl \<and> is_some_and (kl_state kl kid) (\<lambda>st. revoked_at st = None \<and> (if scitt_role then scitt st else \<not> non_issuer st))
             then kl_keys kl kid else None))"

definition view_body :: "cbor \<Rightarrow> bytes option" where
  "view_body view =
     (case view of
        CMap members \<Rightarrow>
          canonical_cbor (CMap (filter (\<lambda>(k, _). \<not> (case k of CText t \<Rightarrow> t = ''signature'' \<or> ends_with t ''_sig'' | _ \<Rightarrow> False)) members))
      | _ \<Rightarrow> None)"

definition view_sig_ok :: "crates \<Rightarrow> cbor \<Rightarrow> json \<Rightarrow> bool" where
  "view_sig_ok C view b =
     (case view of
        CMap _ \<Rightarrow>
          (case Option.bind (ctext view ''signature'') (B64_decode C) of None \<Rightarrow> False | Some sig \<Rightarrow>
          (case view_body view of None \<Rightarrow> False | Some body \<Rightarrow>
             list_ex (\<lambda>kid. is_some_and (authorized_keys C b False kid) (\<lambda>k. ed25519_verify C k (VIEW_DOMAIN @ body) sig))
               (entry_kids C (unwrap_or [] (get_array b ''entries'')))))
      | _ \<Rightarrow> False)"

definition view_withheld :: "cbor \<Rightarrow> json" where
  "view_withheld view =
     unwrap_or (JArray []) (ofilter is_array
       (Option.bind (Option.bind (cget view ''manifest'') (\<lambda>m. cget m ''withheld_field_set'')) (\<lambda>w. cbor_to_json w MAX_DEPTH)))"

definition view_checks :: "crates \<Rightarrow> cbor \<Rightarrow> string \<Rightarrow> json \<Rightarrow> json \<Rightarrow> string list" where
  "view_checks C view cid b mk =
     (let man = cget view ''manifest'' in
      (if \<not> view_sig_ok C view b then [''VIEW_SIGNATURE_INVALID''] else []) @
      (if Option.bind man (\<lambda>m. ctext m ''certificate_id'') \<noteq> Some cid then [''MANIFEST_MISMATCH''] else []) @
      (if Option.bind man (\<lambda>m. ctext m ''mark_result'') \<noteq> as_str mk then [''MARK_MISMATCH''] else []))"

section \<open>The registration receipt\<close>

definition scitt_pack_valid :: "crates \<Rightarrow> json \<Rightarrow> string \<Rightarrow> json \<Rightarrow> bytes option \<Rightarrow> bool" where
  "scitt_pack_valid C pack cid b ts_root =
     (case ts_root of None \<Rightarrow> False | Some rk \<Rightarrow>
        (case (Option.bind (get_str pack ''signed_statement'') hex_to_bytes, Option.bind (get_str pack ''receipt'') hex_to_bytes, get pack ''checkpoint'') of
           (Some ss, Some rc, Some cp) \<Rightarrow>
             (case verified_scitt_pack_keys C pack [([], rk)] ss of
                None \<Rightarrow> False
              | Some ts_keys \<Rightarrow> get_str pack ''certificate_id'' = Some cid
                  \<and> verify_scitt_receipt_with_checkpoint C ss rc ts_keys (authorized_keys C b True) cid cp)
         | _ \<Rightarrow> False))"

definition scitt_root :: "crates \<Rightarrow> json \<Rightarrow> json option \<Rightarrow> bytes option" where
  "scitt_root C registration trust =
     ofilter (\<lambda>raw. length raw = 32)
       (key_for C trust ''scitt_ts_keys'' (Option.bind (get registration ''scope_registration'') (\<lambda>s. get_str s ''transparency_service'')))"

definition apply_scitt_override :: "crates \<Rightarrow> json \<Rightarrow> string \<Rightarrow> json \<Rightarrow> json option \<Rightarrow> json" where
  "apply_scitt_override C vi cid b trust =
     (case obj vi ''registration'' of
        None \<Rightarrow> vi
      | Some registration \<Rightarrow>
          (let ok = is_some_and (obj registration ''scitt_pack'') (\<lambda>pack. scitt_pack_valid C pack cid b (scitt_root C registration trust)) in
           set_member ''registration'' (set_member ''scitt_receipt_valid'' (JBool ok) registration) vi))"

section \<open>The pipeline\<close>

definition core_shape_ok :: "json \<Rightarrow> bool" where
  "core_shape_ok j =
     (list_all (\<lambda>k. is_some_and (get j k) is_object) [''subject'', ''bundle'', ''coverage_doc'', ''verdict_input''] \<and>
      list_all (\<lambda>k. is_some_and (get j k) is_array) [''events'', ''event_matches'', ''open_findings'', ''proof_digests'', ''limitations''])"

definition closed_keys :: "json \<Rightarrow> string list \<Rightarrow> bool" where
  "closed_keys v allowed = is_some_and (as_object v) (\<lambda>m. list_all (\<lambda>(k, _). k \<in> set allowed) m)"

definition core_keys_ok :: "json \<Rightarrow> bool" where
  "core_keys_ok j = (closed_keys j CORE_KEYS \<and> closed_keys (index j ''subject'') SUBJECT_KEYS)"

definition B28_NAMES :: "string list" where
  "B28_NAMES = [''assurance_transcript_digest'', ''challenge_envelope_hash'', ''presentation_envelope_hash'', ''asa_envelope_hash'']"

definition b28_bindings_ok :: "json \<Rightarrow> bool" where
  "b28_bindings_ok j =
     (let present = List.map_filter (get j) B28_NAMES in
      present = [] \<or>
      length present = length B28_NAMES \<and> list_all (\<lambda>v. is_some_and (as_str v) (\<lambda>t. length t = 64 \<and> list_all is_lower_hex t)) present)"

definition core_caps_ok :: "json \<Rightarrow> bool" where
  "core_caps_ok j =
     (let len = (\<lambda>k. length (unwrap_or [] (get_array j k))) in
      len ''events'' \<le> MAX_LIST \<and> len ''event_matches'' \<le> MAX_LIST \<and> len ''open_findings'' \<le> MAX_LIST \<and> len ''limitations'' \<le> MAX_LIST
      \<and> len ''attachments'' \<le> MAX_ATTACHMENTS)"

definition core_checks :: "crates \<Rightarrow> asn1 \<Rightarrow> (u64 \<Rightarrow> string) \<Rightarrow> json \<Rightarrow> json \<Rightarrow> bool \<Rightarrow> bool option \<Rightarrow> (bool \<times> string) list" where
  "core_checks C T F j b bundle_ok attested =
     [(bundle_ok, ''BUNDLE_INVALID''),
      (subject_origin_matches_bundle j b, ''SUBJECT_ORIGIN_MISMATCH''),
      (attested \<noteq> Some False, ''ORIGIN_NOT_ATTESTED''),
      (subject_action_id_matches_input C j b, ''SUBJECT_ACTION_ID_MISMATCH''),
      (subject_action_class_matches_input C j b, ''SUBJECT_ACTION_CLASS_MISMATCH''),
      (input_action_matches_signed_intent C F j b, ''ACTION_CONTEXT_MISMATCH''),
      (claim_matches_subject C F j, ''CLAIM_IDENTITY_MISMATCH''),
      (subject_ids_match_authority C T j b, ''SUBJECT_IDS_MISMATCH''),
      (check_authority C T j b, ''AUTHORITY_MISMATCH''),
      (check_input_echo j, ''VERDICT_INPUT_MISMATCH''),
      (check_findings_carried j, ''FINDINGS_NOT_CONSUMED''),
      (check_matches C F j, ''EVENT_MATCHES_MISMATCH''),
      (check_coverage C F j, ''COVERAGE_INCONSISTENT''),
      (coverage_doc_bound C j b, ''COVERAGE_DOC_MISMATCH''),
      (limitations_consistent C j b, ''LIMITATIONS_INCONSISTENT'')]"

definition cross_check_errors ::
  "crates \<Rightarrow> asn1 \<Rightarrow> (u64 \<Rightarrow> string) \<Rightarrow> json \<Rightarrow> json \<Rightarrow> json option \<Rightarrow> string list \<times> bool option \<times> bool option" where
  "cross_check_errors C T F j b trust =
     (case verify_bundle_report C T b trust of (bundle_ok, cmpl, attested) \<Rightarrow>
        (map snd (filter (\<lambda>(ok, _). \<not> ok) (core_checks C T F j b bundle_ok attested)), cmpl, attested))"

text \<open>The verdict input of a core: withheld fields from the view, invalid integrity after an error, the derived receipt flag.\<close>

definition core_input :: "crates \<Rightarrow> json \<Rightarrow> string \<Rightarrow> cbor option \<Rightarrow> string list \<Rightarrow> json option \<Rightarrow> json" where
  "core_input C j cid view errors trust =
     (let b = index j ''bundle'';
          vi = index j ''verdict_input'';
          vi = (case view of Some vw \<Rightarrow> set_member ''view'' (JObject [(''withheld_fields'', view_withheld vw)]) vi | None \<Rightarrow> vi);
          vi = (if errors \<noteq> []
                then (let a = (if is_object (index vi ''authority'') then index vi ''authority'' else JObject []) in
                      set_member ''authority'' (set_member ''integrity'' (JString ''INVALID'') a) vi)
                else vi) in
      apply_scitt_override C vi cid b trust)"

definition verify_core :: "crates \<Rightarrow> asn1 \<Rightarrow> (u64 \<Rightarrow> string) \<Rightarrow> string \<Rightarrow> cbor \<Rightarrow> cbor option \<Rightarrow> json option \<Rightarrow> Report" where
  "verify_core C T F cid core view trust =
     (let layers = (if view \<noteq> None then [''core'', ''view''] else [''core'']);
          held = (\<lambda>errs. Report_default\<lparr>r_parse_ok := True, r_layers := layers, r_certificate_id := Some cid, r_core_present := True, r_errors := errs\<rparr>) in
      case ofilter core_shape_ok (cbor_to_json core MAX_DEPTH) of
        None \<Rightarrow> held [''CORE_MALFORMED'']
      | Some j \<Rightarrow>
          if \<not> core_keys_ok j then held [''CORE_UNDECLARED_FIELD'']
          else if \<not> b28_bindings_ok j then held [''CORE_MALFORMED'']
          else if \<not> core_caps_ok j then held [''OVER_CAP'']
          else
            (let b = index j ''bundle'';
                 (errors, cmpl, attested) = cross_check_errors C T F j b trust;
                 vi = core_input C j cid view errors trust;
                 vector = derive_vector_with_trust C F vi trust;
                 baseline = (if trust \<noteq> None then derive_vector_with_trust C F vi None else vector);
                 mk = index vector ''mark'';
                 errors = errors @ (case view of Some vw \<Rightarrow> view_checks C vw cid b (index baseline ''mark'') | None \<Rightarrow> []) in
             \<lparr>r_parse_ok = True, r_layers = layers, r_certificate_id = Some cid, r_core_present = True, r_cross_checks_ok = (errors = []),
              r_vector = vector, r_mark = mk, r_errors = errors, r_export_complete = cmpl, r_origin_attested = attested\<rparr>))"

definition run_view :: "crates \<Rightarrow> asn1 \<Rightarrow> (u64 \<Rightarrow> string) \<Rightarrow> cbor \<Rightarrow> json option \<Rightarrow> Report" where
  "run_view C T F view trust =
     (let held = (\<lambda>cid errs. Report_default\<lparr>r_parse_ok := True, r_layers := [''view''], r_certificate_id := cid, r_errors := errs\<rparr>);
          both = (\<lambda>cid errs. Report_default\<lparr>r_parse_ok := True, r_layers := [''core'', ''view''], r_certificate_id := Some cid,
            r_core_present := True, r_errors := errs\<rparr>);
          cid = ctext view ''certificate_id'' in
      if (case cget view ''disclosures'' of Some (CArray a) \<Rightarrow> length a > MAX_DISCLOSURES | _ \<Rightarrow> False) then held cid [''OVER_CAP'']
      else (case cid of None \<Rightarrow> held None [''VIEW_MALFORMED''] | Some cid \<Rightarrow>
      (case cbytes view ''core'' of None \<Rightarrow> held (Some cid) [''VIEW_SIGNATURE_UNVERIFIED''] | Some core_b \<Rightarrow>
        if is_some_and (as_array (view_withheld view)) (\<lambda>v. v \<noteq> []) then both cid [''WITHHELD_CORE_PRESENT'']
        else if length core_b > MAX_CORE_BYTES then held (Some cid) [''OVER_CAP'']
        else (case decode_cbor C core_b (nat MAX_DEPTH) MAX_CORE_BYTES of None \<Rightarrow> held (Some cid) [''PARSE''] | Some core \<Rightarrow>
          if hex (sha256 C core_b) \<noteq> cid then both cid [''CERTIFICATE_ID_MISMATCH'']
          else if ctext core ''schema'' \<noteq> Some CORE_SCHEMA then both cid [''CORE_MALFORMED'']
          else verify_core C T F cid core (Some view) trust))))"

definition run :: "crates \<Rightarrow> asn1 \<Rightarrow> (u64 \<Rightarrow> string) \<Rightarrow> bytes \<Rightarrow> json option \<Rightarrow> Report" where
  "run C T F bs trust =
     (case decode_cbor C bs (nat MAX_DEPTH) MAX_BYTES of
        None \<Rightarrow> Report_default\<lparr>r_errors := [''PARSE'']\<rparr>
      | Some top' \<Rightarrow>
          (let schema = ctext top' ''schema'' in
           if schema = Some CORE_SCHEMA \<and> length bs > MAX_CORE_BYTES then
             Report_default\<lparr>r_parse_ok := True, r_layers := [''core''], r_core_present := True, r_errors := [''OVER_CAP'']\<rparr>
           else if schema = Some CORE_SCHEMA then verify_core C T F (hex (sha256 C bs)) top' None trust
           else if schema = Some VIEW_SCHEMA then run_view C T F top' trust
           else Report_default\<lparr>r_parse_ok := True, r_errors := [''SCHEMA'']\<rparr>))"

definition verify_certificate_cbor_with_trust :: "crates \<Rightarrow> asn1 \<Rightarrow> (u64 \<Rightarrow> string) \<Rightarrow> bytes \<Rightarrow> json option \<Rightarrow> json" where
  "verify_certificate_cbor_with_trust C T F bs trust = report_json (run C T F bs trust)"

definition verify_certificate_cbor :: "crates \<Rightarrow> asn1 \<Rightarrow> (u64 \<Rightarrow> string) \<Rightarrow> bytes \<Rightarrow> json" where
  "verify_certificate_cbor C T F bs = verify_certificate_cbor_with_trust C T F bs None"


section \<open>Reports\<close>

text \<open>A report holds an empty vector, or the vector derived from the input of a core whose cross-checks were run.\<close>

lemma Report_default_fields [simp]:
  "r_parse_ok Report_default = False" "r_cross_checks_ok Report_default = False" "r_vector Report_default = JNull"
  "r_errors Report_default = []"
  by (simp_all add: Report_default_def)

definition admitted_core :: "cbor \<Rightarrow> json option" where
  "admitted_core core = ofilter (\<lambda>j. core_keys_ok j \<and> b28_bindings_ok j \<and> core_caps_ok j) (ofilter core_shape_ok (cbor_to_json core MAX_DEPTH))"

lemma verify_core_admitted:
  fixes C T F cid view trust
  assumes "admitted_core core = Some j"
  defines "b \<equiv> index j ''bundle''"
  defines "errors \<equiv> fst (cross_check_errors C T F j b trust)"
  defines "vi \<equiv> core_input C j cid view errors trust"
  shows "r_vector (verify_core C T F cid core view trust) = derive_vector_with_trust C F vi trust"
    "r_errors (verify_core C T F cid core view trust) =
       errors @ (case view of Some vw \<Rightarrow> view_checks C vw cid b (index (derive_vector_with_trust C F vi None) ''mark'') | None \<Rightarrow> [])"
    "r_cross_checks_ok (verify_core C T F cid core view trust) \<longleftrightarrow> r_errors (verify_core C T F cid core view trust) = []"
    "r_parse_ok (verify_core C T F cid core view trust)"
  using assms(1) unfolding errors_def b_def vi_def
  by (auto simp: verify_core_def admitted_core_def Let_def split: option.splits prod.splits)


text \<open>The bytes of a core that a certificate carries: the certificate itself, or the \<open>core\<close> member of a view that names
  their digest and withholds nothing.\<close>

definition carries :: "crates \<Rightarrow> bytes \<Rightarrow> bytes \<Rightarrow> cbor \<Rightarrow> cbor option \<Rightarrow> bool" where
  "carries C bs core_b core view \<longleftrightarrow>
     length core_b \<le> MAX_CORE_BYTES \<and> ctext core ''schema'' = Some CORE_SCHEMA \<and>
     (case view of
        None \<Rightarrow> core_b = bs \<and> decode_cbor C bs (nat MAX_DEPTH) MAX_BYTES = Some core
      | Some vw \<Rightarrow> decode_cbor C bs (nat MAX_DEPTH) MAX_BYTES = Some vw \<and> ctext vw ''schema'' = Some VIEW_SCHEMA \<and>
          cbytes vw ''core'' = Some core_b \<and> decode_cbor C core_b (nat MAX_DEPTH) MAX_CORE_BYTES = Some core \<and>
          ctext vw ''certificate_id'' = Some (hex (sha256 C core_b)) \<and> as_array (view_withheld vw) = Some [] \<and>
          \<not> (\<exists>a. cget vw ''disclosures'' = Some (CArray a) \<and> length a > MAX_DISCLOSURES))"

lemma view_withheld_array: "\<exists>a. as_array (view_withheld vw) = Some a"
  by (auto simp: view_withheld_def unwrap_or_def ofilter_def is_array_def as_array_def split: option.splits)

lemma schemas_differ: "CORE_SCHEMA \<noteq> VIEW_SCHEMA"
  by (simp add: CORE_SCHEMA_def VIEW_SCHEMA_def)

definition GATE_CODES :: "string list" where
  "GATE_CODES = [''PARSE'', ''SCHEMA'', ''OVER_CAP'', ''VIEW_MALFORMED'', ''VIEW_SIGNATURE_UNVERIFIED'', ''WITHHELD_CORE_PRESENT'',
     ''CERTIFICATE_ID_MISMATCH'', ''CORE_MALFORMED'', ''CORE_UNDECLARED_FIELD'']"

text \<open>A report that fails a gate: nothing is derived.\<close>

definition gated :: "Report \<Rightarrow> bool" where
  "gated r \<longleftrightarrow> r_vector r = JNull \<and> \<not> r_cross_checks_ok r \<and> (\<exists>e \<in> set GATE_CODES. r_errors r = [e])"

lemma verify_core_gated: "admitted_core core = None \<Longrightarrow> gated (verify_core C T F cid core view trust)"
  by (auto simp: verify_core_def admitted_core_def ofilter_def Let_def gated_def GATE_CODES_def split: option.splits if_splits)

lemma over_cap_iff:
  "(case cget vw k of Some (CArray a) \<Rightarrow> length a > n | _ \<Rightarrow> False) \<longleftrightarrow> (\<exists>a. cget vw k = Some (CArray a) \<and> length a > n)"
  by (auto split: option.splits cbor.splits)

lemma run_view_gated:
  assumes "decode_cbor C bs (nat MAX_DEPTH) MAX_BYTES = Some vw" "ctext vw ''schema'' = Some VIEW_SCHEMA"
    "\<nexists>core_b core. carries C bs core_b core (Some vw)"
  shows "gated (run_view C T F vw trust)"
proof -
  obtain a where a: "as_array (view_withheld vw) = Some a" using view_withheld_array by blast
  have "\<not> (cbytes vw ''core'' = Some core_b \<and> length core_b \<le> MAX_CORE_BYTES \<and> ctext core ''schema'' = Some CORE_SCHEMA \<and>
      decode_cbor C core_b (nat MAX_DEPTH) MAX_CORE_BYTES = Some core \<and> ctext vw ''certificate_id'' = Some (hex (sha256 C core_b)) \<and> a = [] \<and>
      \<not> (\<exists>a. cget vw ''disclosures'' = Some (CArray a) \<and> length a > MAX_DISCLOSURES))" for core_b core
    using assms a by (simp add: carries_def)
  from this [of "the (cbytes vw ''core'')" "the (decode_cbor C (the (cbytes vw ''core'')) (nat MAX_DEPTH) MAX_CORE_BYTES)"]
  show ?thesis
    unfolding run_view_def Let_def over_cap_iff gated_def GATE_CODES_def using a
    by (cases "ctext vw ''certificate_id''"; cases "cbytes vw ''core''";
        cases "decode_cbor C (the (cbytes vw ''core'')) (nat MAX_DEPTH) MAX_CORE_BYTES") auto
qed

lemma run_carried:
  assumes "carries C bs core_b core view"
  shows "run C T F bs trust = verify_core C T F (hex (sha256 C core_b)) core view trust"
proof (cases view)
  case None
  then show ?thesis using assms by (auto simp: carries_def run_def Let_def)
next
  case (Some vw)
  then have "run C T F bs trust = run_view C T F vw trust"
    using assms schemas_differ by (simp add: carries_def run_def Let_def)
  also have "\<dots> = verify_core C T F (hex (sha256 C core_b)) core view trust"
    unfolding run_view_def Let_def over_cap_iff using assms Some by (auto simp: carries_def)
  finally show ?thesis .
qed

lemma run_cases:
  obtains (gate) "gated (run C T F bs trust)" "\<nexists>core_b core view. carries C bs core_b core view \<and> admitted_core core \<noteq> None"
  | (core) core_b core view j where "carries C bs core_b core view" "admitted_core core = Some j"
      "run C T F bs trust = verify_core C T F (hex (sha256 C core_b)) core view trust"
proof (cases "\<exists>core_b core view. carries C bs core_b core view \<and> admitted_core core \<noteq> None")
  case True
  then show thesis using core run_carried by blast
next
  case False
  have "gated (run C T F bs trust)"
  proof (cases "\<exists>core_b core view. carries C bs core_b core view")
    case True
    then show ?thesis using False run_carried verify_core_gated by metis
  next
    case none: False
    have "gated (Report_default\<lparr>r_errors := [''PARSE'']\<rparr>)" "gated (Report_default\<lparr>r_parse_ok := True, r_errors := [''SCHEMA'']\<rparr>)"
      "gated (Report_default\<lparr>r_parse_ok := True, r_layers := [''core''], r_core_present := True, r_errors := [''OVER_CAP'']\<rparr>)"
      by (simp_all add: gated_def GATE_CODES_def)
    moreover have "gated (run_view C T F vw trust)"
      if "decode_cbor C bs (nat MAX_DEPTH) MAX_BYTES = Some vw" "ctext vw ''schema'' = Some VIEW_SCHEMA" for vw
      using run_view_gated [OF that] none by blast
    moreover have "length bs > MAX_CORE_BYTES"
      if "decode_cbor C bs (nat MAX_DEPTH) MAX_BYTES = Some c" "ctext c ''schema'' = Some CORE_SCHEMA" for c
    proof (rule ccontr)
      assume "\<not> length bs > MAX_CORE_BYTES"
      then have "carries C bs bs c None" using that by (simp add: carries_def)
      then show False using none by blast
    qed
    ultimately show ?thesis by (auto simp: run_def Let_def split: option.splits)
  qed
  then show thesis using gate False by blast
qed


section \<open>What an accepted certificate states\<close>

definition CROSS_CODES :: "string list" where
  "CROSS_CODES = [''BUNDLE_INVALID'', ''SUBJECT_ORIGIN_MISMATCH'', ''ORIGIN_NOT_ATTESTED'', ''SUBJECT_ACTION_ID_MISMATCH'',
     ''SUBJECT_ACTION_CLASS_MISMATCH'', ''ACTION_CONTEXT_MISMATCH'', ''CLAIM_IDENTITY_MISMATCH'', ''SUBJECT_IDS_MISMATCH'',
     ''AUTHORITY_MISMATCH'', ''VERDICT_INPUT_MISMATCH'', ''FINDINGS_NOT_CONSUMED'', ''EVENT_MATCHES_MISMATCH'',
     ''COVERAGE_INCONSISTENT'', ''COVERAGE_DOC_MISMATCH'', ''LIMITATIONS_INCONSISTENT'']"

definition VIEW_CODES :: "string list" where
  "VIEW_CODES = [''VIEW_SIGNATURE_INVALID'', ''MANIFEST_MISMATCH'', ''MARK_MISMATCH'']"

lemma core_checks_codes: "map snd (core_checks C T F j b ok att) = CROSS_CODES"
  by (simp add: core_checks_def CROSS_CODES_def)

lemma cross_errors_subset: "set (fst (cross_check_errors C T F j b trust)) \<subseteq> set CROSS_CODES"
  unfolding core_checks_codes [of C T F j b "fst (verify_bundle_report C T b trust)" "snd (snd (verify_bundle_report C T b trust))", symmetric]
  by (auto simp: cross_check_errors_def split: prod.splits)

lemma cross_errors_Nil: "fst (cross_check_errors C T F j b trust) = [] \<longleftrightarrow>
    list_all fst (core_checks C T F j b (fst (verify_bundle_report C T b trust)) (snd (snd (verify_bundle_report C T b trust))))"
  by (auto simp: cross_check_errors_def list_all_iff filter_empty_conv split: prod.splits)

lemma view_errors_subset: "set (view_checks C vw cid b mk) \<subseteq> set VIEW_CODES"
  by (auto simp: view_checks_def VIEW_CODES_def Let_def)

lemma codes_disjoint: "set CROSS_CODES \<inter> set VIEW_CODES = {}" "set CROSS_CODES \<inter> set GATE_CODES = {}"
  by (simp_all add: CROSS_CODES_def VIEW_CODES_def GATE_CODES_def)

text \<open>The subject, the input and the claim name one action, and a signed row of the bundle names it too.\<close>

definition action_bound :: "crates \<Rightarrow> (u64 \<Rightarrow> string) \<Rightarrow> json \<Rightarrow> json \<Rightarrow> bool" where
  "action_bound C F j b \<longleftrightarrow>
     (\<exists>aid cls.
        get_str (index j ''subject'') ''action_id'' = Some aid \<and> get_str (index j ''subject'') ''action_class'' = Some cls \<and>
        get_str (index (index j ''verdict_input'') ''action'') ''action_id'' = Some aid \<and>
        get_str (index (index j ''verdict_input'') ''action'') ''action_class'' = Some cls \<and>
        (\<forall>claim. obj j ''claim'' = Some claim \<longrightarrow>
           pystr C F (get claim ''action_id'') = aid \<and> pystr C F (get claim ''action_class'') = cls) \<and>
        (if has_signed_action_intent C b
         then aid \<noteq> [] \<and> cls \<noteq> [] \<and> (\<exists>ctx. signed_action_context C b aid = Some ctx \<and>
           get_str ctx ''action_id'' = Some aid \<and> get_str ctx ''action_class'' = Some cls)
         else (aid = [] \<or> aid \<in> fst (signed_action_intents C F b aid)) \<and> (cls = [] \<or> cls \<in> snd (signed_action_intents C F b aid))))"

definition core_coherent :: "crates \<Rightarrow> asn1 \<Rightarrow> (u64 \<Rightarrow> string) \<Rightarrow> json \<Rightarrow> json \<Rightarrow> json option \<Rightarrow> bool" where
  "core_coherent C T F j b trust \<longleftrightarrow>
     fst (verify_bundle_report C T b trust) \<and> snd (snd (verify_bundle_report C T b trust)) \<noteq> Some False \<and>
     (\<exists>orig. get_str (index j ''subject'') ''origin'' = Some orig \<and> get_str b ''origin'' = Some orig) \<and>
     action_bound C F j b \<and> subject_ids_match_authority C T j b \<and> check_authority C T j b \<and>
     check_input_echo j \<and> check_findings_carried j \<and> check_matches C F j \<and> check_coverage C F j \<and>
     (signed_coverage_digests C b = {} \<or> coverage_conventions_bound C j b) \<and> limitations_consistent C j b"

lemma get_str_index_bind: "Option.bind (get v k) (\<lambda>w. get_str w k') = get_str (index v k) k'"
  by (cases "get v k") (auto simp: index_def unwrap_or_def get_str_def get_def)

lemma get_str_iff: "get_str v k = Some s \<longleftrightarrow> get v k = Some (JString s)"
  by (cases "get v k") (auto simp: get_str_def as_str_def split: json.splits)

lemma pystr_text: "get_str v k = Some s \<Longrightarrow> pystr C F (get v k) = s"
  by (simp add: get_str_iff pystr_def)

lemma action_bound_iff:
  "action_bound C F j b \<longleftrightarrow> subject_action_id_matches_input C j b \<and> subject_action_class_matches_input C j b \<and>
     input_action_matches_signed_intent C F j b \<and> claim_matches_subject C F j"
proof (cases "\<exists>aid cls. get_str (index j ''subject'') ''action_id'' = Some aid \<and> get_str (index j ''subject'') ''action_class'' = Some cls \<and>
    get_str (index (index j ''verdict_input'') ''action'') ''action_id'' = Some aid \<and>
    get_str (index (index j ''verdict_input'') ''action'') ''action_class'' = Some cls")
  case True
  then obtain aid cls where *: "get_str (index j ''subject'') ''action_id'' = Some aid" "get_str (index j ''subject'') ''action_class'' = Some cls"
    "get_str (index (index j ''verdict_input'') ''action'') ''action_id'' = Some aid"
    "get_str (index (index j ''verdict_input'') ''action'') ''action_class'' = Some cls" by blast
  have p: "pystr C F (get (index j ''subject'') ''action_id'') = aid" "pystr C F (get (index j ''subject'') ''action_class'') = cls"
    using *(1,2) by (simp_all add: pystr_text)
  show ?thesis
    by (auto simp: action_bound_def subject_action_id_matches_input_def subject_action_class_matches_input_def subject_member_matches_input_def
        get_str_index_bind * input_action_matches_signed_intent_def claim_matches_subject_def p is_some_and_iff Let_def
        split: option.splits prod.splits)
next
  case False
  then show ?thesis
    by (auto simp: action_bound_def subject_action_id_matches_input_def subject_action_class_matches_input_def subject_member_matches_input_def
        get_str_index_bind split: option.splits)
qed

lemma core_coherent_iff: "fst (cross_check_errors C T F j b trust) = [] \<longleftrightarrow> core_coherent C T F j b trust"
  unfolding cross_errors_Nil core_checks_def core_coherent_def action_bound_iff
  by (auto simp: subject_origin_matches_bundle_def coverage_doc_bound_def split: option.splits)


text \<open>A view signed by an unrevoked issuer of the bundle's key log, over the digest of its core and the mark anyone derives.\<close>

definition view_coherent :: "crates \<Rightarrow> cbor \<Rightarrow> string \<Rightarrow> json \<Rightarrow> json \<Rightarrow> bool" where
  "view_coherent C vw cid b mk \<longleftrightarrow>
     (\<exists>kid key sig body. authorized_keys C b False kid = Some key \<and> Option.bind (ctext vw ''signature'') (B64_decode C) = Some sig \<and>
        view_body vw = Some body \<and> ed25519_verify C key (VIEW_DOMAIN @ body) sig) \<and>
     Option.bind (cget vw ''manifest'') (\<lambda>m. ctext m ''certificate_id'') = Some cid \<and>
     Option.bind (cget vw ''manifest'') (\<lambda>m. ctext m ''mark_result'') = as_str mk"

lemma authorized_keys_kids:
  "authorized_keys C b role kid = Some key \<Longrightarrow> kid \<in> set (entry_kids C (unwrap_or [] (get_array b ''entries'')))"
  using replay_key_log_kids [of C "unwrap_or [] (get_array b ''entries'')"] by (auto simp: authorized_keys_def Let_def split: if_splits)

lemma view_sig_ok_iff:
  "view_sig_ok C vw b \<longleftrightarrow> (\<exists>kid key sig body. authorized_keys C b False kid = Some key \<and>
     Option.bind (ctext vw ''signature'') (B64_decode C) = Some sig \<and> view_body vw = Some body \<and> ed25519_verify C key (VIEW_DOMAIN @ body) sig)"
proof -
  have "view_sig_ok C vw b \<longleftrightarrow> (\<exists>sig body. Option.bind (ctext vw ''signature'') (B64_decode C) = Some sig \<and> view_body vw = Some body \<and>
      (\<exists>kid \<in> set (entry_kids C (unwrap_or [] (get_array b ''entries''))). \<exists>key. authorized_keys C b False kid = Some key \<and>
         ed25519_verify C key (VIEW_DOMAIN @ body) sig))"
    by (cases vw) (auto simp: view_sig_ok_def view_body_def list_ex_iff is_some_and_iff split: option.splits)
  then show ?thesis using authorized_keys_kids by blast
qed

lemma view_coherent_iff: "view_checks C vw cid b mk = [] \<longleftrightarrow> view_coherent C vw cid b mk"
  by (simp add: view_checks_def view_coherent_def view_sig_ok_iff Let_def)


text \<open>C23: 
  The report is consistent: the flag is set exactly when no error is listed, every error is one of the closed codes, a failed
  gate is the only error and derives nothing, and otherwise the vector is an object.
\<close>

theorem certificate_report_consistent:
  "(r_cross_checks_ok (run C T F bs trust) \<longleftrightarrow> r_errors (run C T F bs trust) = []) \<and>
   set (r_errors (run C T F bs trust)) \<subseteq> set GATE_CODES \<union> set CROSS_CODES \<union> set VIEW_CODES \<and>
   (r_vector (run C T F bs trust) = JNull \<longleftrightarrow> (\<exists>e. e \<in> set GATE_CODES \<and> r_errors (run C T F bs trust) = [e])) \<and>
   (is_object (r_vector (run C T F bs trust)) \<longleftrightarrow> r_vector (run C T F bs trust) \<noteq> JNull)"
proof (cases rule: run_cases [of C T F bs trust])
  case gate
  then show ?thesis by (auto simp: gated_def)
next
  case (core core_b core view j)
  let ?r = "verify_core C T F (hex (sha256 C core_b)) core view trust"
  have o: "is_object (r_vector ?r)"
    using inner_vals(4) by (metis verify_core_admitted(1) [OF core(2)] derive_vector_cases)
  have e: "set (r_errors ?r) \<subseteq> set CROSS_CODES \<union> set VIEW_CODES"
    using cross_errors_subset view_errors_subset by (fastforce simp: verify_core_admitted(2) [OF core(2)] split: option.splits)
  have "set VIEW_CODES \<inter> set GATE_CODES = {}" by (simp add: VIEW_CODES_def GATE_CODES_def)
  then have "r_errors ?r \<noteq> [e]" if "e \<in> set GATE_CODES" for e
    using e codes_disjoint(2) that by fastforce
  moreover have "r_vector ?r \<noteq> JNull" using o by auto
  ultimately show ?thesis using o e core(3) verify_core_admitted(3) [OF core(2)] by auto
qed


section \<open>No partial pass\<close>

lemma override_get:
  "get (apply_scitt_override C vi cid b trust) k =
     (if k = ''registration'' then (case obj vi ''registration'' of
          None \<Rightarrow> get vi ''registration''
        | Some r \<Rightarrow> Some (set_member ''scitt_receipt_valid''
            (JBool (is_some_and (obj r ''scitt_pack'') (\<lambda>pack. scitt_pack_valid C pack cid b (scitt_root C r trust)))) r))
      else get vi k)"
proof (cases "is_object vi")
  case True
  then show ?thesis by (auto simp: apply_scitt_override_def get_set_member Let_def split: option.splits)
next
  case False
  then have "get vi k = None" for k by (cases vi) (auto simp: get_def is_object_def as_object_def)
  then show ?thesis by (simp add: apply_scitt_override_def obj_def)
qed

lemma override_integrity:
  assumes "is_object vi" "is_object a"
  shows "get_str (index (apply_scitt_override C (set_member ''authority'' (set_member ''integrity'' x a) vi) cid b trust) ''authority'') ''integrity'' = as_str x"
  using assms by (simp add: index_def [of "apply_scitt_override _ _ _ _ _"] override_get get_set_member get_str_def)

lemma core_input_invalid:
  assumes "is_object (index j ''verdict_input'')" "errors \<noteq> []"
  shows "get_str (index (core_input C j cid view errors trust) ''authority'') ''integrity'' = Some ''INVALID''"
proof -
  have "is_object (if is_object a then a else JObject [])" for a by (simp add: is_object_def as_object_def)
  then show ?thesis using assms by (cases view) (simp_all add: core_input_def Let_def override_integrity as_str_def)
qed

lemma pick_invalid: "pick a ''INVALID'' name allowed weak = weak"
  by (simp add: pick_def split: option.splits)

lemma invalid_integrity:
  assumes "get_str (index vi ''authority'') ''integrity'' \<noteq> Some ''VALID''"
  shows "get_str (derive_vector_with_trust C F vi trust) ''integrity'' = Some ''INVALID''"
    "get_str (derive_vector_with_trust C F vi trust) ''identity'' = Some ''NOT_VERIFIED''"
    "get_str (derive_vector_with_trust C F vi trust) ''authority'' = Some ''NOT_VERIFIED''"
    "get_str (derive_vector_with_trust C F vi trust) ''intent'' = Some ''NOT_RECORDED''"
    "get_str (derive_vector_with_trust C F vi trust) ''technical_eligibility'' \<noteq> Some ''ELIGIBLE''"
proof -
  obtain vi' trust' where v: "derive_inner C F vi' trust' = Some (derive_vector_with_trust C F vi trust)"
    and i: "get_str (index vi' ''authority'') ''integrity'' \<noteq> Some ''VALID''"
    using assms by (cases rule: derive_vector_cases [of C F vi trust]) auto
  note d = inner_declared [OF v]
  show "get_str (derive_vector_with_trust C F vi trust) ''integrity'' = Some ''INVALID''"
    "get_str (derive_vector_with_trust C F vi trust) ''identity'' = Some ''NOT_VERIFIED''"
    "get_str (derive_vector_with_trust C F vi trust) ''authority'' = Some ''NOT_VERIFIED''"
    "get_str (derive_vector_with_trust C F vi trust) ''intent'' = Some ''NOT_RECORDED''"
    using i by (simp_all add: get_str_def d authority_block_members as_str_def pick_invalid)
  show "get_str (derive_vector_with_trust C F vi trust) ''technical_eligibility'' \<noteq> Some ''ELIGIBLE''"
    using i inner_eligible [OF v] by (auto simp: intent_declared_def)
qed

text \<open>C20: 
  Never a partial pass: when any cross-check between the core and its bundle fails, whatever the producer's input says, the
  derived vector has invalid integrity, an unverified identity and authority, no recorded intent, and is not eligible.
\<close>

theorem no_partial_pass:
  assumes "e \<in> set (r_errors (verify_core C T F cid core view trust))" "e \<in> set CROSS_CODES"
  shows "\<not> r_cross_checks_ok (verify_core C T F cid core view trust) \<and>
    get_str (r_vector (verify_core C T F cid core view trust)) ''integrity'' = Some ''INVALID'' \<and>
    get_str (r_vector (verify_core C T F cid core view trust)) ''identity'' = Some ''NOT_VERIFIED'' \<and>
    get_str (r_vector (verify_core C T F cid core view trust)) ''authority'' = Some ''NOT_VERIFIED'' \<and>
    get_str (r_vector (verify_core C T F cid core view trust)) ''intent'' = Some ''NOT_RECORDED'' \<and>
    get_str (r_vector (verify_core C T F cid core view trust)) ''technical_eligibility'' \<noteq> Some ''ELIGIBLE''"
proof -
  obtain j where j: "admitted_core core = Some j"
    using assms codes_disjoint(2) verify_core_gated [of core C T F cid view trust] by (cases "admitted_core core") (auto simp: gated_def)
  let ?errors = "fst (cross_check_errors C T F j (index j ''bundle'') trust)"
  have "set (view_checks C vw cid b mk) \<inter> set CROSS_CODES = {}" for vw b mk
    using view_errors_subset codes_disjoint(1) by fastforce
  then have ne: "?errors \<noteq> []"
    using assms by (auto simp: verify_core_admitted(2) [OF j] split: option.splits)
  have "is_object (index j ''verdict_input'')"
    using j by (auto simp: admitted_core_def core_shape_ok_def is_some_and_iff index_def unwrap_or_def)
  from core_input_invalid [OF this ne]
  have i: "get_str (index (core_input C j cid view ?errors trust) ''authority'') ''integrity'' \<noteq> Some ''VALID''" by simp
  show ?thesis
    using assms(1) invalid_integrity [OF i] unfolding verify_core_admitted(1,3) [OF j] by auto
qed


section \<open>Anchors\<close>

lemma scitt_pack_valid_iff:
  "scitt_pack_valid C pack cid b ts_root \<longleftrightarrow> (\<exists>rk ss rc cp ts_keys. ts_root = Some rk \<and>
     Option.bind (get_str pack ''signed_statement'') hex_to_bytes = Some ss \<and> Option.bind (get_str pack ''receipt'') hex_to_bytes = Some rc \<and>
     get pack ''checkpoint'' = Some cp \<and> verified_scitt_pack_keys C pack [([], rk)] ss = Some ts_keys \<and>
     get_str pack ''certificate_id'' = Some cid \<and> verify_scitt_receipt_with_checkpoint C ss rc ts_keys (authorized_keys C b True) cid cp)"
  by (cases ts_root; cases "Option.bind (get_str pack ''signed_statement'') hex_to_bytes"; cases "Option.bind (get_str pack ''receipt'') hex_to_bytes";
      cases "get pack ''checkpoint''"; cases "verified_scitt_pack_keys C pack [([], the ts_root)] (the (Option.bind (get_str pack ''signed_statement'') hex_to_bytes))")
    (simp_all add: scitt_pack_valid_def)

text \<open>C21: 
  The registration receipt is derived by the verifier: the flag the verdict engine reads holds exactly when the registration
  carries a pack whose statement, receipt and checkpoint verify for this certificate id, under the keys a policy signed by
  the relying party's root for the named service grants, with the statement signed by a key the bundle's log holds for that role.
\<close>

theorem receipt_flag_derived:
  "flag (index (apply_scitt_override C vi cid b trust) ''registration'') ''scitt_receipt_valid'' \<longleftrightarrow>
     (\<exists>r pack rk ss rc cp ts_keys. obj vi ''registration'' = Some r \<and> obj r ''scitt_pack'' = Some pack \<and>
        key_for C trust ''scitt_ts_keys'' (get_str (index r ''scope_registration'') ''transparency_service'') = Some rk \<and> length rk = 32 \<and>
        Option.bind (get_str pack ''signed_statement'') hex_to_bytes = Some ss \<and> Option.bind (get_str pack ''receipt'') hex_to_bytes = Some rc \<and>
        get pack ''checkpoint'' = Some cp \<and> verified_scitt_pack_keys C pack [([], rk)] ss = Some ts_keys \<and>
        get_str pack ''certificate_id'' = Some cid \<and> verify_scitt_receipt_with_checkpoint C ss rc ts_keys (authorized_keys C b True) cid cp)"
proof (cases "obj vi ''registration''")
  case None
  then have "\<not> (\<exists>r. get vi ''registration'' = Some r \<and> is_object r)" by (auto simp: obj_def ofilter_def split: option.splits)
  then have "\<not> is_object (index vi ''registration'')"
    by (cases "get vi ''registration''") (auto simp: index_def unwrap_or_def)
  then have "get (index vi ''registration'') k = None" for k
    by (cases "index vi ''registration''") (auto simp: get_def is_object_def as_object_def)
  then show ?thesis using None by (simp add: apply_scitt_override_def flag_iff)
next
  case (Some r)
  then have "is_object r" by (simp add: obj_Some)
  then have "flag (index (apply_scitt_override C vi cid b trust) ''registration'') ''scitt_receipt_valid'' \<longleftrightarrow>
      is_some_and (obj r ''scitt_pack'') (\<lambda>pack. scitt_pack_valid C pack cid b (scitt_root C r trust))"
    using Some by (simp add: index_def override_get flag_iff get_set_member)
  then show ?thesis
    using Some unfolding is_some_and_iff scitt_pack_valid_iff scitt_root_def get_str_index_bind ofilter_simps by simp
qed

text \<open>The certificate is no anchor: checked without a trust context, no certificate obtains a favourable member, whatever its
  producer wrote.
\<close>

theorem certificate_no_anchor: "\<not> (is_object (r_vector (run C T F bs None)) \<and> favourable (r_vector (run C T F bs None)))"
proof (cases rule: run_cases [of C T F bs None])
  case gate
  then show ?thesis by (auto simp: gated_def)
next
  case (core core_b core view j)
  then show ?thesis
    using inner_unfavourable by (metis verify_core_admitted(1) derive_vector_cases)
qed

section \<open>Events\<close>

text \<open>Deduplication keeps the first object of every key.\<close>

lemma dedup_loop_spec:
  "distinct (map fst (dedup_loop C F seen es)) \<and> fst ` set (dedup_loop C F seen es) \<inter> seen = {} \<and>
   (\<forall>k. k \<notin> seen \<longrightarrow> map_of (dedup_loop C F seen es) k = find (\<lambda>e. is_object e \<and> pystr C F (get e ''event_key'') = k) es)"
proof (induction es arbitrary: seen)
  case (Cons e es)
  let ?k = "pystr C F (get e ''event_key'')"
  show ?case
  proof (cases "is_object e \<and> ?k \<notin> seen")
    case True
    then show ?thesis using Cons [of "insert ?k seen"] by (auto simp: Let_def)
  next
    case False
    then show ?thesis using Cons [of seen] by (auto simp: Let_def)
  qed
qed simp

lemma deduped_events_map: "map_of (deduped_events C F core) k =
    find (\<lambda>e. is_object e \<and> pystr C F (get e ''event_key'') = k) (unwrap_or [] (as_array (index core ''events'')))"
  using dedup_loop_spec [of C F "{}"] by (simp add: deduped_events_def)

lemma find_key_map_of: "find (\<lambda>(k, _). k = key) ps = map_option (\<lambda>v. (key, v)) (map_of ps key)"
  by (induction ps) auto

lemma material_mismatch_floor:
  assumes "f \<in> set MATERIAL_FLOOR" "stated claim f = Some l" "stated ev f = Some r" "pystr C F (Some l) \<noteq> pystr C F (Some r)"
  shows "material_mismatch C F claim ev man"
proof -
  have "set acc \<subseteq> set (foldl (\<lambda>names f. if f \<in> set names then names else names @ [f]) acc fs)" for acc :: "string list" and fs
    by (induction fs arbitrary: acc) (simp, fastforce)
  moreover have "f \<noteq> ''source_effect_time''" using assms(1) by (auto simp: MATERIAL_FLOOR_def)
  ultimately show ?thesis using assms by (force simp: material_mismatch_def Let_def list_ex_iff)
qed

text \<open>C22: 
  A material lie cannot be hidden by the coverage document: if the one match of a core whose matches were checked links a claim
  and an event that state a floor field differently, the carried match must admit the mismatch, even where the
  document declares no material field for the class.
\<close>

theorem material_lie_detected:
  assumes "check_matches C F core" "index core ''event_matches'' = JArray [m]" "obj core ''claim'' = Some claim"
    "find (\<lambda>e. is_object e \<and> pystr C F (get e ''event_key'') = pystr C F (get m ''event_key'')) (unwrap_or [] (as_array (index core ''events''))) = Some ev"
    "f \<in> set MATERIAL_FLOOR" "stated claim f = Some l" "stated ev f = Some r" "pystr C F (Some l) \<noteq> pystr C F (Some r)"
  shows "flag m ''material_mismatch''"
proof -
  have "match_ok C F (index core ''coverage_doc'') claim (deduped_events C F core) True m"
    using assms(1-3) by (simp add: check_matches_def Let_def as_array_def)
  moreover have "find (\<lambda>(k, _). k = pystr C F (get m ''event_key'')) (deduped_events C F core) = Some (pystr C F (get m ''event_key''), ev)"
    using assms(4) by (simp add: find_key_map_of deduped_events_map)
  moreover have "material_mismatch C F claim ev (index core ''coverage_doc'')" using material_mismatch_floor assms(5-8) by blast
  ultimately show ?thesis by (auto simp: match_ok_def flags_equal_def FLAG_NAMES_def flag_iff split: prod.splits)
qed


section \<open>Examples\<close>

text \<open>A core over an empty bundle whose producer declares itself verified, and one with a lying claim.\<close>

definition boastful_core :: cbor where
  "boastful_core = CMap
     ((CText ''verdict_input'', CMap [(CText ''authority'', CMap [(CText ''identity'', CText ''VERIFIED''), (CText ''integrity'', CText ''VALID'')])]) #
      map (\<lambda>k. (CText k, CMap [])) [''subject'', ''bundle'', ''coverage_doc''] @
      map (\<lambda>k. (CText k, CArray [])) [''events'', ''event_matches'', ''open_findings'', ''proof_digests'', ''limitations''])"

definition lie_match :: json where
  "lie_match = JObject [(''echoed_action_id'', JBool True), (''event_key'', JString ''k''), (''final'', JBool False),
     (''immutable_ref_match'', JBool False), (''material_mismatch'', JBool True), (''unique_field_match'', JBool False)]"

definition lie_claim :: json where
  "lie_claim = JObject [(''action_id'', JString ''a''), (''value'', JString ''999999.99'')]"

definition lie_event :: json where
  "lie_event = JObject [(''event_key'', JString ''k''), (''reference'', JString ''a''), (''value'', JString ''1.00'')]"

definition lying_core :: json where
  "lying_core = JObject [(''claim'', lie_claim), (''coverage_doc'', JObject []), (''event_matches'', JArray [lie_match]), (''events'', JArray [lie_event])]"

lemma boastful_admitted: "\<exists>j. admitted_core boastful_core = Some j \<and> get_str (index j ''subject'') ''origin'' = None"
proof -
  have "is_some_and (admitted_core boastful_core) (\<lambda>j. get_str (index j ''subject'') ''origin'' = None)" by code_simp
  then show ?thesis by (simp add: is_some_and_iff)
qed

theorem no_partial_pass_witness:
  "''SUBJECT_ORIGIN_MISMATCH'' \<in> set (r_errors (verify_core toy_base toy_asn1 (\<lambda>_. ''0'') ''id'' boastful_core None None)) \<and>
   get_str (r_vector (verify_core toy_base toy_asn1 (\<lambda>_. ''0'') ''id'' boastful_core None None)) ''identity'' = Some ''NOT_VERIFIED''"
proof -
  obtain j where j: "admitted_core boastful_core = Some j" "get_str (index j ''subject'') ''origin'' = None" using boastful_admitted by blast
  have e: "''SUBJECT_ORIGIN_MISMATCH'' \<in> set (r_errors (verify_core toy_base toy_asn1 (\<lambda>_. ''0'') ''id'' boastful_core None None))"
    by (simp add: verify_core_admitted(2) [OF j(1)] cross_check_errors_def core_checks_def subject_origin_matches_bundle_def j(2) split: prod.splits)
  then show ?thesis using no_partial_pass [OF e] by (simp add: CROSS_CODES_def)
qed

theorem material_lie_detected_witness: "check_matches toy_base (\<lambda>_. ''0'') lying_core \<and> flag lie_match ''material_mismatch''"
proof
  show c: "check_matches toy_base (\<lambda>_. ''0'') lying_core" by code_simp
  show "flag lie_match ''material_mismatch''"
  proof (rule material_lie_detected [OF c])
    show "index lying_core ''event_matches'' = JArray [lie_match]" by (simp add: lying_core_def index_def get_def)
    show "obj lying_core ''claim'' = Some lie_claim" by (simp add: lying_core_def lie_claim_def obj_def get_def is_object_def as_object_def)
    show "''value'' \<in> set MATERIAL_FLOOR" by (simp add: MATERIAL_FLOOR_def)
    show "find (\<lambda>e. is_object e \<and> pystr toy_base (\<lambda>_. ''0'') (get e ''event_key'') = pystr toy_base (\<lambda>_. ''0'') (get lie_match ''event_key''))
        (unwrap_or [] (as_array (index lying_core ''events''))) = Some lie_event"
      by code_simp
    show "stated lie_claim ''value'' = Some (JString ''999999.99'')" "stated lie_event ''value'' = Some (JString ''1.00'')"
      by (simp_all add: stated_def get_def lie_claim_def lie_event_def)
    show "pystr toy_base (\<lambda>_. ''0'') (Some (JString ''999999.99'')) \<noteq> pystr toy_base (\<lambda>_. ''0'') (Some (JString ''1.00''))"
      by (simp add: pystr_def)
  qed
qed

end
