(* ===== verification/Assurance.thy ===== *)
theory Assurance
  imports Bundle
begin

text \<open>
  \<open>verify-rs/src/b28.rs\<close>, first part: the signed documents of a counterparty assurance exchange. A document is a CBOR map
  with text keys and a closed field set; a CWT is a COSE_Sign1 whose payload carries one validated document. Acknowledgements
  (\<open>verified_acknowledgement\<close>, and \<open>verify_acknowledgement_json\<close> of \<open>lib.rs\<close>) are the first clients.

  A \<open>Doc\<close> is an association list with distinct keys. Where the source indexes a document (\<open>doc["k"]\<close>), a missing key would
  panic: \<open>document\<close> returns only documents that hold every field it names, and the validators index no other field.
\<close>

section \<open>Constants\<close>

definition PROFILE :: string where
  "PROFILE = ''https://swarrm.ai/spec/eat/b28/cwt/v1''"

definition PROFILE_V2 :: string where
  "PROFILE_V2 = ''https://swarrm.ai/spec/eat/action/cwt/v2''"

definition V1_NS :: string where
  "V1_NS = ''swarrm-b28/''"

definition V2_NS :: string where
  "V2_NS = ''swarrm/''"

definition MEDIA :: string where
  "MEDIA = ''application/eat+cwt''"

definition LOCAL_ACKNOWLEDGEMENT_CONTEXT :: string where
  "LOCAL_ACKNOWLEDGEMENT_CONTEXT = ''swarrm-b28/local-acknowledgement-context/v1''"

definition ACTION :: string where "ACTION = ''swarrm-b28/action-core/v1''"
definition AGENT_REF :: string where "AGENT_REF = ''swarrm-b28/agent-ref/v1''"
definition RESOURCE_REF :: string where "RESOURCE_REF = ''swarrm-b28/resource-ref/v1''"
definition PARTY_REF :: string where "PARTY_REF = ''swarrm-b28/party-ref/v1''"
definition CHALLENGE :: string where "CHALLENGE = ''swarrm-b28/challenge-core/v1''"
definition ASA :: string where "ASA = ''swarrm-b28/asa-core/v1''"
definition PRESENTATION :: string where "PRESENTATION = ''swarrm-b28/presentation-core/v1''"
definition ACKNOWLEDGEMENT :: string where "ACKNOWLEDGEMENT = ''swarrm-b28/acknowledgement-core/v1''"
definition REFUSAL :: string where "REFUSAL = ''swarrm-b28/refusal-core/v1''"
definition ROOT_DELEGATION :: string where "ROOT_DELEGATION = ''swarrm-b28/root-delegation/v1''"
definition TEMPLATE :: string where "TEMPLATE = ''swarrm-b28/registration-template/v1''"
definition ADMIN_BINDING :: string where "ADMIN_BINDING = ''swarrm-b28/admin-binding/v1''"
definition ADMIN_SELECTION :: string where "ADMIN_SELECTION = ''swarrm-b28/admin-selection/v1''"
definition ADMIN_CHALLENGE :: string where "ADMIN_CHALLENGE = ''swarrm-b28/admin-challenge/v1''"
definition ADMIN_CONSUMPTION :: string where "ADMIN_CONSUMPTION = ''swarrm-b28/admin-consumption/v1''"
definition AGENT_POP :: string where "AGENT_POP = ''swarrm-b28/agent-pop/v1''"
definition CREDENTIAL :: string where "CREDENTIAL = ''swarrm-b28/agent-credential/v1''"
definition AGENT_SUCCESSOR :: string where "AGENT_SUCCESSOR = ''swarrm-b28/agent-successor/v1''"
definition GRANT :: string where "GRANT = ''swarrm-b28/limit-grant/v1''"
definition CHECKPOINT :: string where "CHECKPOINT = ''swarrm-b28/authority-checkpoint/v1''"
definition SNAPSHOT :: string where "SNAPSHOT = ''swarrm-b28/status-snapshot/v1''"

definition NON_ASSERTION :: string where
  "NON_ASSERTION = ''This proves identity, current proof-bearing authority and durable replay at a bounded checkpoint. It does not evaluate Node, source, coverage, history or post-action evidence readiness in v1, predict behaviour, certify an outcome, establish later evidence, or express a Swarrm opinion.''"

definition MAX_CWT :: nat where "MAX_CWT = 65536"
definition MAX_LOCAL_CONTEXT :: nat where "MAX_LOCAL_CONTEXT = 65536"
definition MAX_LOCAL_ITEMS :: nat where "MAX_LOCAL_ITEMS = 64"
definition MAX_CBOR_DEPTH :: nat where "MAX_CBOR_DEPTH = 64"
definition MAX_CBOR_ITEMS :: nat where "MAX_CBOR_ITEMS = 100000"
definition CWT_PROFILE_CLAIM :: int where "CWT_PROFILE_CLAIM = 265"
definition B28_CORE_CLAIM :: int where "B28_CORE_CLAIM = - 65537"

type_synonym Doc = "(string \<times> cbor) list"

section \<open>Documents\<close>

definition sha_parts :: "crates \<Rightarrow> bytes list \<Rightarrow> bytes" where
  "sha_parts C parts = sha256 C (concat parts)"

definition CWT_PROFILE :: profile where
  "CWT_PROFILE = \<lparr>int_keys = True, bools = True\<rparr>"

definition cwt_canonical :: "cbor \<Rightarrow> bytes option" where
  "cwt_canonical value = canonical_bytes value (int MAX_CBOR_DEPTH) CWT_PROFILE"

text \<open>\<open>from_reader_with_recursion_limit\<close> of \<open>ciborium\<close> is the parameter \<open>rd\<close>: the value and the position after it.\<close>

type_synonym cbor_reader = "nat \<Rightarrow> bytes \<Rightarrow> (cbor \<times> nat) option"

definition cwt_decode :: "cbor_reader \<Rightarrow> bytes \<Rightarrow> nat \<Rightarrow> cbor option" where
  "cwt_decode rd data cap =
     (if length data > cap then None
      else do {
        n \<leftarrow> structural_scan data MAX_CBOR_DEPTH MAX_CBOR_ITEMS;
        if n \<noteq> length data then None
        else do {
          (value, position) \<leftarrow> rd 64 data;
          if position \<noteq> length data then None
          else do { b \<leftarrow> cwt_canonical value; then_some (b = data) value } } })"

definition cbor_array :: "cbor \<Rightarrow> nat \<Rightarrow> cbor list option" where
  "cbor_array value cap = (case value of CArray values \<Rightarrow> then_some (length values \<le> cap) values | _ \<Rightarrow> None)"

fun doc_fold :: "Doc \<Rightarrow> (cbor \<times> cbor) list \<Rightarrow> Doc option" where
  "doc_fold out [] = Some out"
| "doc_fold out ((key, value) # entries) =
     (case key of
        CText k \<Rightarrow> if map_of out k \<noteq> None then None else doc_fold (out @ [(k, value)]) entries
      | _ \<Rightarrow> None)"

definition map_doc :: "cbor \<Rightarrow> Doc option" where
  "map_doc value = (case value of CMap entries \<Rightarrow> doc_fold [] entries | _ \<Rightarrow> None)"

definition profile_matches :: "string option \<Rightarrow> bool" where
  "profile_matches observed = (observed = Some PROFILE \<or> observed = Some PROFILE_V2)"

text \<open>\<open>replacen(from, to, 1)\<close>.\<close>

fun replace_first :: "string \<Rightarrow> string \<Rightarrow> string \<Rightarrow> string" where
  "replace_first from to [] = (if from = [] then to else [])"
| "replace_first from to (c # s) =
     (if take (length from) (c # s) = from then to @ drop (length from) (c # s) else c # replace_first from to s)"

definition accepted_name :: "string option \<Rightarrow> string \<Rightarrow> bool" where
  "accepted_name observed expected = is_some_and observed (\<lambda>value. replace_first V2_NS V1_NS value = expected)"

fun has_window :: "bytes \<Rightarrow> bytes \<Rightarrow> bool" where
  "has_window needle [] = (needle = [])"
| "has_window needle (b # bs) = (take (length needle) (b # bs) = needle \<or> has_window needle bs)"

definition mixed_generation :: "bytes list \<Rightarrow> bool" where
  "mixed_generation envelopes =
     (let has = (\<lambda>needle. list_ex (has_window needle) envelopes) in has (as_bytes V1_NS) \<and> has (as_bytes V2_NS))"

definition cbor_text :: "cbor \<Rightarrow> string option" where
  "cbor_text value = (case value of CText t \<Rightarrow> Some t | _ \<Rightarrow> None)"

definition document :: "cbor \<Rightarrow> string option \<Rightarrow> string list \<Rightarrow> Doc option" where
  "document value schema names =
     do {
       out \<leftarrow> map_doc value;
       then_some
         (length out = length names + (if schema \<noteq> None then 1 else 0) \<and> list_all (\<lambda>name. map_of out name \<noteq> None) names
          \<and> is_none_or schema (\<lambda>schema. accepted_name (Option.bind (map_of out ''schema'') cbor_text) schema)) out }"

definition plain :: "cbor \<Rightarrow> Doc option" where
  "plain value = map_doc value"

section \<open>Values\<close>

definition bounded :: "nat \<Rightarrow> cbor \<Rightarrow> string option" where
  "bounded maximum value =
     do { t \<leftarrow> cbor_text value; then_some (t \<noteq> [] \<and> length t \<le> maximum \<and> CHR 0x00 \<notin> set t) t }"

definition cbor_bytes :: "cbor \<Rightarrow> bytes option" where
  "cbor_bytes value = (case value of CBytes b \<Rightarrow> Some b | _ \<Rightarrow> None)"

definition fixed :: "nat \<Rightarrow> cbor \<Rightarrow> bytes option" where
  "fixed n value = do { b \<leftarrow> cbor_bytes value; then_some (length b = n) b }"

definition opaque :: "cbor \<Rightarrow> bytes option" where
  "opaque value = do { b \<leftarrow> fixed 32 value; then_some (list_ex (\<lambda>x. x \<noteq> 0) b) b }"

definition cbor_uint :: "cbor \<Rightarrow> u64 option" where
  "cbor_uint value = (case value of CInteger i \<Rightarrow> then_some (0 \<le> i \<and> i \<le> 2 ^ 63 - 1) (word_of_int i) | _ \<Rightarrow> None)"

definition cbor_positive :: "cbor \<Rightarrow> u64 option" where
  "cbor_positive value = do { n \<leftarrow> cbor_uint value; then_some (n > 0) n }"

definition cbor_decimal :: "cbor \<Rightarrow> string option" where
  "cbor_decimal value =
     do {
       t \<leftarrow> cbor_text value;
       then_some (t = ''0'' \<or> t \<noteq> [] \<and> length t \<le> 78 \<and> is_ascii_digit (hd t) \<and> hd t \<noteq> CHR ''0'' \<and> list_all is_ascii_digit (tl t)) t }"

definition decimal_at_most :: "cbor \<Rightarrow> cbor \<Rightarrow> bool" where
  "decimal_at_most left right =
     (case (cbor_decimal left, cbor_decimal right) of
        (Some a, Some b) \<Rightarrow> length a < length b \<or> length a = length b \<and> a \<le> b
      | _ \<Rightarrow> False)"

text \<open>\<open>f(&doc[k])\<close> and \<open>f(&doc[k]).is_some()\<close>.\<close>

definition fld :: "(cbor \<Rightarrow> 'a option) \<Rightarrow> Doc \<Rightarrow> string \<Rightarrow> 'a option" where
  "fld f doc k = Option.bind (map_of doc k) f"

definition good :: "(cbor \<Rightarrow> 'a option) \<Rightarrow> Doc \<Rightarrow> string \<Rightarrow> bool" where
  "good f doc k = (fld f doc k \<noteq> None)"

definition window :: "Doc \<Rightarrow> string \<Rightarrow> string \<Rightarrow> bool" where
  "window doc start finish =
     (case (fld cbor_uint doc start, fld cbor_uint doc finish) of (Some left, Some right) \<Rightarrow> left < right | _ \<Rightarrow> False)"

definition key_id :: "crates \<Rightarrow> bytes \<Rightarrow> string" where
  "key_id C public = take 16 (URL_SAFE_NO_PAD_encode C (sha_parts C [public]))"


section \<open>Validators\<close>

definition agent :: "cbor \<Rightarrow> Doc option" where
  "agent value =
     do {
       doc \<leftarrow> document value (Some AGENT_REF) [''organisation_root'', ''birthtag'', ''revision'', ''agent_kid''];
       then_some (good opaque doc ''organisation_root'' \<and> good opaque doc ''birthtag'' \<and> good cbor_positive doc ''revision''
         \<and> good (bounded 128) doc ''agent_kid'') doc }"

definition resource :: "cbor \<Rightarrow> Doc option" where
  "resource value =
     do {
       doc \<leftarrow> document value (Some RESOURCE_REF) [''namespace'', ''identifier_digest''];
       then_some (good (bounded 128) doc ''namespace'' \<and> good opaque doc ''identifier_digest'') doc }"

definition party_ref :: "cbor \<Rightarrow> Doc option" where
  "party_ref value =
     do {
       doc \<leftarrow> document value (Some PARTY_REF) [''party_id'', ''organisation_root''];
       then_some (good (bounded 256) doc ''party_id'' \<and> good opaque doc ''organisation_root'') doc }"

definition strip_prefix :: "string \<Rightarrow> string \<Rightarrow> string option" where
  "strip_prefix s p = (if take (length p) s = p then Some (drop (length p) s) else None)"

definition is_ascii_upper :: "char \<Rightarrow> bool" where
  "is_ascii_upper c = (65 \<le> (of_char c :: nat) \<and> (of_char c :: nat) \<le> 90)"

definition is_ascii_graphic :: "char \<Rightarrow> bool" where
  "is_ascii_graphic c = (33 \<le> (of_char c :: nat) \<and> (of_char c :: nat) \<le> 126)"

definition unit_ok :: "string \<Rightarrow> bool" where
  "unit_ok u =
     (is_some_and (strip_prefix u ''iso4217:'') (\<lambda>tail. length tail = 11 \<and> list_all is_ascii_upper (take 3 tail)
         \<and> take 7 (drop 3 tail) = '':minor-'' \<and> is_ascii_digit (tail ! 10))
      \<or> is_some_and (case strip_prefix u ''ucum:'' of Some name \<Rightarrow> Some name | None \<Rightarrow> strip_prefix u ''count:'')
          (\<lambda>name. name \<noteq> [] \<and> length name \<le> 48 \<and> list_all is_ascii_graphic name))"

definition action_core :: "cbor \<Rightarrow> Doc option" where
  "action_core value =
     do {
       doc \<leftarrow> document value (Some ACTION) [''action_id'', ''asa_id'', ''actor'', ''operation'', ''parameter_schema'', ''parameter_digest'',
         ''value'', ''unit'', ''source'', ''destination'', ''counterparty'', ''recipient'', ''grant_id'', ''grant_version'', ''policy_version'',
         ''policy_digest'', ''nonce'', ''expires_at''];
       counterparty \<leftarrow> fld party_ref doc ''counterparty'';
       recipient \<leftarrow> fld agent doc ''recipient'';
       then_some
         (list_all (good opaque doc) [''action_id'', ''asa_id'', ''parameter_digest'', ''grant_id'', ''policy_digest'', ''nonce'']
          \<and> good agent doc ''actor'' \<and> good resource doc ''source'' \<and> good resource doc ''destination''
          \<and> good (bounded 256) doc ''operation'' \<and> good (bounded 512) doc ''parameter_schema'' \<and> good cbor_decimal doc ''value''
          \<and> is_some_and (fld (bounded 64) doc ''unit'') unit_ok
          \<and> good cbor_positive doc ''grant_version'' \<and> good (bounded 128) doc ''policy_version'' \<and> good cbor_positive doc ''expires_at''
          \<and> map_of counterparty ''organisation_root'' = map_of recipient ''organisation_root'') doc }"

definition KNOWN_DIMENSIONS :: "string list" where
  "KNOWN_DIMENSIONS = [''passport_identity'', ''live_key_control'', ''root_chain'', ''template_admin_pop'', ''fresh_status'', ''binding'',
     ''grant'', ''delegation'', ''exact_action'', ''asa_reservation'', ''challenge'', ''transcript'', ''replay'', ''node_basis'',
     ''source_basis'', ''coverage_basis'', ''history'', ''post_action_evidence_readiness'']"

definition known_dimension :: "string \<Rightarrow> bool" where
  "known_dimension name = (name \<in> set KNOWN_DIMENSIONS)"

text \<open>\<open>windows(2).all(|pair| pair[0] < pair[1])\<close>, for strings the order of their bytes.\<close>

definition increasing :: "'a::linorder list \<Rightarrow> bool" where
  "increasing xs = list_all (\<lambda>(x, y). x < y) (zip xs (tl xs))"

definition validate_challenge :: "cbor \<Rightarrow> bool" where
  "validate_challenge value =
     (case document value (Some CHALLENGE) [''profile'', ''challenger'', ''action'', ''accepted_encodings'', ''required_dimensions'',
        ''max_checkpoint_age'', ''issued_at''] of
        None \<Rightarrow> False
      | Some doc \<Rightarrow>
          (case (fld (\<lambda>v. cbor_array v 1) doc ''accepted_encodings'', fld (\<lambda>v. cbor_array v MAX_LOCAL_ITEMS) doc ''required_dimensions'') of
             (Some encodings, Some required) \<Rightarrow>
               (case collect_opt (bounded 64) required of
                  None \<Rightarrow> False
                | Some names \<Rightarrow>
                    profile_matches (fld cbor_text doc ''profile'') \<and> good agent doc ''challenger''
                    \<and> is_some_and (fld action_core doc ''action'') (\<lambda>action.
                        map_of doc ''challenger'' = map_of action ''recipient''
                        \<and> (case (fld cbor_positive doc ''issued_at'', fld cbor_positive action ''expires_at'') of
                             (Some a, Some b) \<Rightarrow> a < b | _ \<Rightarrow> False))
                    \<and> encodings = [CText MEDIA] \<and> increasing names \<and> list_all known_dimension names
                    \<and> good cbor_positive doc ''max_checkpoint_age'')
           | _ \<Rightarrow> False))"

definition validate_asa :: "cbor \<Rightarrow> bool" where
  "validate_asa value =
     is_some_and (document value (Some ASA) [''tenant'', ''organisation_root'', ''authority_delegation_id'', ''asa_id'', ''action_digest'',
       ''challenge_digest'', ''grant_id'', ''grant_version'', ''reservation_state'', ''issued_at'', ''expires_at''])
       (\<lambda>doc. good (bounded 128) doc ''tenant''
          \<and> list_all (good opaque doc) [''organisation_root'', ''authority_delegation_id'', ''asa_id'', ''action_digest'', ''challenge_digest'', ''grant_id'']
          \<and> good cbor_positive doc ''grant_version'' \<and> fld cbor_text doc ''reservation_state'' = Some ''ISSUED_HELD''
          \<and> window doc ''issued_at'' ''expires_at'')"

definition STATE_PROOFS :: "string list" where
  "STATE_PROOFS = [''root_delegation'', ''registration_template'', ''mandate'', ''agent_config'', ''admin_binding'', ''admin_selection'',
     ''admin_challenge'', ''admin_consumption'', ''admin_counter'', ''agent_pop'', ''passport'', ''agent_head'', ''agent_successor'',
     ''predecessor_head'', ''limit_grant'', ''grant_head'']"

definition PRESENTATION_FIELDS :: "string list" where
  "PRESENTATION_FIELDS = [''profile'', ''challenge_envelope_hash'', ''challenge_digest'', ''action_digest'', ''root_delegation'',
     ''registration_template'', ''admin_binding'', ''admin_selection'', ''admin_challenge'', ''admin_consumption'', ''agent_pop'',
     ''agent_successor'', ''passport'', ''passport_holder_proof'', ''limit_grant'', ''authority_checkpoint'',
     ''issuance_consistency_proof'', ''status_snapshot'', ''state_proofs'', ''asa'', ''transcript_digest'', ''non_assertion'', ''created_at'']"

definition inline_cwt :: "Doc \<Rightarrow> string \<Rightarrow> bool" where
  "inline_cwt doc k = is_some_and (fld cbor_bytes doc k) (\<lambda>raw. raw \<noteq> [] \<and> length raw \<le> MAX_CWT)"

definition validate_presentation :: "cbor \<Rightarrow> bool" where
  "validate_presentation value =
     is_some_and (document value (Some PRESENTATION) PRESENTATION_FIELDS) (\<lambda>doc.
       is_some_and (fld (\<lambda>v. document v None STATE_PROOFS) doc ''state_proofs'') (\<lambda>proofs.
         profile_matches (fld cbor_text doc ''profile'') \<and> fld cbor_text doc ''non_assertion'' = Some NON_ASSERTION
         \<and> list_all (good (fixed 32) doc) [''challenge_envelope_hash'', ''challenge_digest'', ''action_digest'', ''transcript_digest'']
         \<and> list_all (inline_cwt doc) [''root_delegation'', ''registration_template'', ''admin_binding'', ''admin_challenge'', ''admin_consumption'',
              ''agent_pop'', ''passport'', ''passport_holder_proof'', ''limit_grant'', ''authority_checkpoint'', ''status_snapshot'', ''asa'']
         \<and> (map_of doc ''agent_successor'' = Some CNull \<or> inline_cwt doc ''agent_successor'')
         \<and> is_some_and (fld cbor_bytes doc ''admin_selection'') (\<lambda>raw. length raw \<le> 16384)
         \<and> is_some_and (fld (\<lambda>v. cbor_array v 64) doc ''issuance_consistency_proof'') (\<lambda>path. list_all (\<lambda>item. fixed 32 item \<noteq> None) path)
         \<and> list_all (\<lambda>(name, proof). (case proof of CMap _ \<Rightarrow> True | _ \<Rightarrow> False)
              \<or> (name = ''agent_successor'' \<or> name = ''predecessor_head'') \<and> proof = CNull) proofs
         \<and> good cbor_uint doc ''created_at''))"

definition validate_refusal :: "cbor \<Rightarrow> bool" where
  "validate_refusal value =
     is_some_and (document value (Some REFUSAL) [''profile'', ''challenge_envelope_hash'', ''challenge_digest'', ''reason_code'', ''created_at''])
       (\<lambda>doc. profile_matches (fld cbor_text doc ''profile'') \<and> good (fixed 32) doc ''challenge_envelope_hash''
          \<and> good (fixed 32) doc ''challenge_digest'' \<and> good (bounded 128) doc ''reason_code'' \<and> good cbor_uint doc ''created_at'')"

definition tenant_root :: "Doc \<Rightarrow> bool" where
  "tenant_root doc = (good (bounded 128) doc ''tenant'' \<and> good opaque doc ''organisation_root'')"

definition validate_delegation :: "crates \<Rightarrow> cbor \<Rightarrow> bool" where
  "validate_delegation C value =
     (case document value (Some ROOT_DELEGATION) [''tenant'', ''organisation_root'', ''delegation_id'', ''passport_authority_kid'',
        ''passport_authority_key'', ''action_authority_kid'', ''action_authority_key'', ''valid_from'', ''valid_to''] of
        None \<Rightarrow> False
      | Some doc \<Rightarrow>
          (case (fld (fixed 32) doc ''organisation_root'', fld (fixed 32) doc ''passport_authority_key'', fld (fixed 32) doc ''action_authority_key'') of
             (Some org_root, Some psa, Some action) \<Rightarrow>
               tenant_root doc \<and> good opaque doc ''delegation_id'' \<and> psa \<noteq> action \<and> sha_parts C [psa] \<noteq> org_root \<and> sha_parts C [action] \<noteq> org_root
               \<and> key_id C psa \<noteq> key_id C action \<and> fld (bounded 128) doc ''passport_authority_kid'' = Some (key_id C psa)
               \<and> fld (bounded 128) doc ''action_authority_kid'' = Some (key_id C action) \<and> window doc ''valid_from'' ''valid_to''
           | _ \<Rightarrow> False))"

definition validate_template :: "cbor \<Rightarrow> bool" where
  "validate_template value =
     is_some_and (document value (Some TEMPLATE) [''tenant'', ''organisation_root'', ''template_id'', ''template_version'', ''owner'', ''purpose'',
       ''mandate_digest'', ''config_digest'', ''valid_from'', ''valid_to''])
       (\<lambda>doc. tenant_root doc \<and> good opaque doc ''template_id'' \<and> good cbor_positive doc ''template_version'' \<and> good (bounded 1024) doc ''owner''
          \<and> good (bounded 1024) doc ''purpose'' \<and> good (fixed 32) doc ''mandate_digest'' \<and> good (fixed 32) doc ''config_digest''
          \<and> window doc ''valid_from'' ''valid_to'')"

definition sized :: "nat \<Rightarrow> nat \<Rightarrow> cbor \<Rightarrow> bytes option" where
  "sized lo hi value = do { raw \<leftarrow> cbor_bytes value; then_some (lo \<le> length raw \<and> length raw \<le> hi) raw }"

definition validate_admin_binding :: "cbor \<Rightarrow> bool" where
  "validate_admin_binding value =
     is_some_and (document value (Some ADMIN_BINDING) [''tenant'', ''organisation_root'', ''binding_id'', ''credential_id'', ''cose_public_key'',
       ''rp_id'', ''role'', ''valid_from'', ''valid_to'', ''initial_state''])
       (\<lambda>doc. tenant_root doc \<and> good opaque doc ''binding_id'' \<and> good (sized 16 1024) doc ''credential_id'' \<and> good (sized 16 256) doc ''cose_public_key''
          \<and> good (bounded 253) doc ''rp_id''
          \<and> is_some_and (fld cbor_text doc ''role'') (\<lambda>r. r \<in> set [''agent-registrar'', ''security-admin'', ''governance-admin''])
          \<and> fld cbor_text doc ''initial_state'' = Some ''ACTIVE'' \<and> window doc ''valid_from'' ''valid_to'')"

definition validate_selection :: "cbor \<Rightarrow> bool" where
  "validate_selection value =
     is_some_and (document value (Some ADMIN_SELECTION) [''tenant'', ''binding_id'', ''template_id'', ''template_version'', ''proposed_agent_digest'',
       ''credential_id'', ''challenge_id'', ''challenge'', ''client_data_json'', ''authenticator_data'', ''signature'', ''selected_at''])
       (\<lambda>doc. good (bounded 128) doc ''tenant'' \<and> good opaque doc ''binding_id'' \<and> good opaque doc ''template_id'' \<and> good cbor_positive doc ''template_version''
          \<and> good opaque doc ''proposed_agent_digest'' \<and> good (sized 0 1024) doc ''credential_id'' \<and> good opaque doc ''challenge_id'' \<and> good opaque doc ''challenge''
          \<and> good (sized 0 4096) doc ''client_data_json'' \<and> good (sized 37 1024) doc ''authenticator_data'' \<and> good (sized 64 80) doc ''signature''
          \<and> good cbor_uint doc ''selected_at'')"

definition validate_admin_challenge :: "cbor \<Rightarrow> bool" where
  "validate_admin_challenge value =
     is_some_and (document value (Some ADMIN_CHALLENGE) [''tenant'', ''organisation_root'', ''challenge_id'', ''binding_id'', ''template_id'',
       ''template_version'', ''proposed_agent_digest'', ''challenge'', ''issued_at'', ''expires_at''])
       (\<lambda>doc. tenant_root doc \<and> list_all (good opaque doc) [''challenge_id'', ''binding_id'', ''template_id'', ''proposed_agent_digest'', ''challenge'']
          \<and> good cbor_positive doc ''template_version'' \<and> window doc ''issued_at'' ''expires_at'')"

definition validate_admin_consumption :: "cbor \<Rightarrow> bool" where
  "validate_admin_consumption value =
     is_some_and (document value (Some ADMIN_CONSUMPTION) [''tenant'', ''organisation_root'', ''binding_id'', ''challenge_id'', ''challenge_digest'',
       ''selection_digest'', ''credential_digest'', ''counter_version'', ''sign_count_before'', ''sign_count_after'', ''backup_eligible'',
       ''backup_state'', ''consumed_at''])
       (\<lambda>doc. (case (fld cbor_uint doc ''sign_count_before'', fld cbor_uint doc ''sign_count_after'', map_of doc ''backup_eligible'', map_of doc ''backup_state'') of
            (Some before, Some after, Some (CBool eligible), Some (CBool state)) \<Rightarrow>
              (before = 0 \<and> after = 0 \<or> after > before) \<and> (\<not> state \<or> eligible)
          | _ \<Rightarrow> False)
          \<and> tenant_root doc \<and> list_all (good opaque doc) [''binding_id'', ''challenge_id'', ''challenge_digest'', ''selection_digest'', ''credential_digest'']
          \<and> good cbor_positive doc ''counter_version'' \<and> good cbor_uint doc ''consumed_at'')"

definition validate_pop :: "cbor \<Rightarrow> bool" where
  "validate_pop value =
     is_some_and (document value (Some AGENT_POP) [''tenant'', ''birthtag'', ''revision'', ''agent_kid'', ''proposed_agent_digest'', ''challenge''])
       (\<lambda>doc. good (bounded 128) doc ''tenant'' \<and> good opaque doc ''birthtag'' \<and> good cbor_positive doc ''revision'' \<and> good (bounded 128) doc ''agent_kid''
          \<and> good opaque doc ''proposed_agent_digest'' \<and> good opaque doc ''challenge'')"

definition validate_credential :: "crates \<Rightarrow> cbor \<Rightarrow> bool" where
  "validate_credential C value =
     (case document value (Some CREDENTIAL) [''tenant'', ''organisation_root'', ''authority_delegation_id'', ''birthtag'', ''revision'', ''agent_kid'',
        ''agent_key'', ''owner'', ''purpose'', ''mandate_digest'', ''config_digest'', ''template_id'', ''template_version'', ''principal_binding_id'',
        ''admin_selection_digest'', ''agent_pop_digest'', ''agent_successor_digest'', ''issuance_checkpoint'', ''valid_from'', ''valid_to''] of
        None \<Rightarrow> False
      | Some doc \<Rightarrow>
          (case (fld (fixed 32) doc ''organisation_root'', fld (fixed 32) doc ''agent_key'') of
             (Some org_root, Some agent_key) \<Rightarrow>
               tenant_root doc
               \<and> list_all (good opaque doc) [''authority_delegation_id'', ''birthtag'', ''agent_key'', ''mandate_digest'', ''config_digest'', ''template_id'',
                    ''principal_binding_id'', ''admin_selection_digest'', ''agent_pop_digest'', ''issuance_checkpoint'']
               \<and> sha_parts C [agent_key] \<noteq> org_root \<and> good cbor_positive doc ''revision'' \<and> good cbor_positive doc ''template_version''
               \<and> fld (bounded 128) doc ''agent_kid'' = Some (key_id C agent_key)
               \<and> (map_of doc ''agent_successor_digest'' = Some CNull \<or> good opaque doc ''agent_successor_digest'')
               \<and> good (bounded 1024) doc ''owner'' \<and> good (bounded 1024) doc ''purpose'' \<and> window doc ''valid_from'' ''valid_to''
           | _ \<Rightarrow> False))"

definition validate_successor :: "cbor \<Rightarrow> bool" where
  "validate_successor value =
     is_some_and (document value (Some AGENT_SUCCESSOR) [''tenant'', ''organisation_root'', ''predecessor_birthtag'', ''predecessor_revision'',
       ''predecessor_credential_digest'', ''successor_birthtag'', ''successor_revision'', ''successor_proposal_digest'', ''effective_at''])
       (\<lambda>doc. tenant_root doc
          \<and> list_all (good opaque doc) [''predecessor_birthtag'', ''predecessor_credential_digest'', ''successor_birthtag'', ''successor_proposal_digest'']
          \<and> good cbor_positive doc ''predecessor_revision'' \<and> fld cbor_positive doc ''successor_revision'' = Some 1
          \<and> map_of doc ''predecessor_birthtag'' \<noteq> map_of doc ''successor_birthtag'' \<and> good cbor_uint doc ''effective_at'')"

definition validate_grant :: "cbor \<Rightarrow> bool" where
  "validate_grant value =
     is_some_and (document value (Some GRANT) [''tenant'', ''organisation_root'', ''grant_id'', ''grant_version'', ''authority_delegation_id'',
       ''actor_birthtag'', ''recipient_organisation_root'', ''operation'', ''unit'', ''action_scope_digest'', ''kind'', ''ceiling'', ''window_start'',
       ''window_end'', ''valid_from'', ''valid_to'', ''max_unresolved_exposure''])
       (\<lambda>doc. tenant_root doc \<and> list_all (good opaque doc) [''grant_id'', ''authority_delegation_id'', ''actor_birthtag'', ''recipient_organisation_root'']
          \<and> good cbor_positive doc ''grant_version'' \<and> good (bounded 1024) doc ''operation'' \<and> good (bounded 64) doc ''unit'' \<and> good opaque doc ''action_scope_digest''
          \<and> is_some_and (fld cbor_text doc ''kind'') (\<lambda>k. k \<in> set [''ONE_SHOT'', ''FLOW'', ''STOCK''])
          \<and> good cbor_decimal doc ''ceiling'' \<and> good cbor_decimal doc ''max_unresolved_exposure''
          \<and> (case (map_of doc ''max_unresolved_exposure'', map_of doc ''ceiling'') of (Some e, Some c) \<Rightarrow> decimal_at_most e c | _ \<Rightarrow> False)
          \<and> window doc ''window_start'' ''window_end'' \<and> window doc ''valid_from'' ''valid_to'')"

definition validate_checkpoint :: "cbor \<Rightarrow> bool" where
  "validate_checkpoint value =
     is_some_and (document value (Some CHECKPOINT) [''tenant'', ''organisation_root'', ''sequence'', ''authority_root'', ''log_root'', ''log_size'', ''issued_at''])
       (\<lambda>doc. tenant_root doc \<and> good (fixed 32) doc ''authority_root'' \<and> good (fixed 32) doc ''log_root'' \<and> good cbor_uint doc ''sequence''
          \<and> good cbor_uint doc ''log_size'' \<and> good cbor_uint doc ''issued_at'')"

definition validate_snapshot :: "cbor \<Rightarrow> bool" where
  "validate_snapshot value =
     is_some_and (document value (Some SNAPSHOT) [''tenant'', ''organisation_root'', ''authority_delegation_id'', ''checkpoint_digest'', ''proofs_digest'',
       ''status_as_of'', ''expires_at''])
       (\<lambda>doc. tenant_root doc \<and> good opaque doc ''authority_delegation_id'' \<and> good (fixed 32) doc ''checkpoint_digest''
          \<and> good (fixed 32) doc ''proofs_digest'' \<and> window doc ''status_as_of'' ''expires_at'')"

definition validate_acknowledgement :: "cbor \<Rightarrow> bool" where
  "validate_acknowledgement value =
     is_some_and (document value (Some ACKNOWLEDGEMENT) [''profile'', ''counterparty'', ''origin'', ''from_hash'', ''to_hash'', ''issued_at''])
       (\<lambda>doc. fld cbor_text doc ''schema'' = Some ACKNOWLEDGEMENT \<and> profile_matches (fld cbor_text doc ''profile'')
          \<and> list_all (good (bounded 1024) doc) [''counterparty'', ''origin'', ''from_hash'', ''to_hash''] \<and> good cbor_uint doc ''issued_at'')"

definition validate_core :: "crates \<Rightarrow> cbor \<Rightarrow> string \<Rightarrow> bool" where
  "validate_core C value schema =
     (if schema = ACTION then action_core value \<noteq> None else if schema = CHALLENGE then validate_challenge value
      else if schema = ASA then validate_asa value else if schema = PRESENTATION then validate_presentation value
      else if schema = ACKNOWLEDGEMENT then validate_acknowledgement value else if schema = REFUSAL then validate_refusal value
      else if schema = ROOT_DELEGATION then validate_delegation C value else if schema = TEMPLATE then validate_template value
      else if schema = ADMIN_BINDING then validate_admin_binding value else if schema = ADMIN_SELECTION then validate_selection value
      else if schema = ADMIN_CHALLENGE then validate_admin_challenge value
      else if schema = ADMIN_CONSUMPTION then validate_admin_consumption value else if schema = AGENT_POP then validate_pop value
      else if schema = CREDENTIAL then validate_credential C value else if schema = AGENT_SUCCESSOR then validate_successor value
      else if schema = GRANT then validate_grant value else if schema = CHECKPOINT then validate_checkpoint value
      else if schema = SNAPSHOT then validate_snapshot value else False)"


section \<open>Envelopes\<close>

definition int_entry :: "(cbor \<times> cbor) list \<Rightarrow> int \<Rightarrow> cbor option" where
  "int_entry m key = map_option snd (find (\<lambda>(candidate, _). candidate = CInteger key) m)"

record Cwt =
  cwt_core :: cbor
  cwt_core_bytes :: bytes
  cwt_payload :: bytes
  cwt_protected :: bytes
  cwt_signature :: bytes
  cwt_kid :: string

definition cwt_items :: "cbor \<Rightarrow> (bytes \<times> bytes \<times> bytes) option" where
  "cwt_items value =
     (case value of
        CArray [CBytes protected, CMap unprotected, CBytes payload, CBytes signature] \<Rightarrow>
          then_some (unprotected = [] \<and> length signature = 64) (protected, payload, signature)
      | _ \<Rightarrow> None)"

definition header_kid :: "cbor \<Rightarrow> string option" where
  "header_kid value =
     (case value of
        CMap header \<Rightarrow>
          if length header \<noteq> 3 \<or> int_entry header 1 \<noteq> Some (CInteger (- 8)) \<or> Option.bind (int_entry header 3) cbor_text \<noteq> Some MEDIA then None
          else do {
            kid_raw \<leftarrow> Option.bind (int_entry header 4) cbor_bytes;
            kid \<leftarrow> from_utf8 kid_raw;
            then_some (kid \<noteq> [] \<and> length kid \<le> 128 \<and> list_all (\<lambda>c. (of_char c :: nat) < 128) kid) kid }
      | _ \<Rightarrow> None)"

definition claims_core :: "cbor \<Rightarrow> cbor option" where
  "claims_core value =
     (case value of
        CMap claims \<Rightarrow>
          if length claims \<noteq> 2 \<or> \<not> list_all (\<lambda>(key, _). key = CInteger CWT_PROFILE_CLAIM \<or> key = CInteger B28_CORE_CLAIM) claims then None
          else do {
            profile_claim \<leftarrow> int_entry claims CWT_PROFILE_CLAIM;
            if \<not> profile_matches (cbor_text profile_claim) then None else int_entry claims B28_CORE_CLAIM }
      | _ \<Rightarrow> None)"

definition inspect_cwt :: "crates \<Rightarrow> cbor_reader \<Rightarrow> bytes \<Rightarrow> string \<Rightarrow> Cwt option" where
  "inspect_cwt C rd raw schema =
     (if length raw > MAX_CWT \<or> raw = [] \<or> hd raw \<noteq> 0xd2 then None
      else do {
        items \<leftarrow> cwt_decode rd (tl raw) MAX_CWT;
        (protected, payload, signature) \<leftarrow> cwt_items items;
        header \<leftarrow> cwt_decode rd protected 4096;
        kid \<leftarrow> header_kid header;
        claims \<leftarrow> cwt_decode rd payload MAX_CWT;
        core \<leftarrow> claims_core claims;
        core_bytes \<leftarrow> cwt_canonical core;
        then_some (validate_core C core schema)
          \<lparr>cwt_core = core, cwt_core_bytes = core_bytes, cwt_payload = payload, cwt_protected = protected, cwt_signature = signature, cwt_kid = kid\<rparr> })"

definition verify_ed25519 :: "crates \<Rightarrow> bytes \<Rightarrow> bytes \<Rightarrow> bytes \<Rightarrow> bool" where
  "verify_ed25519 C key message signature =
     (length key = 32 \<and> length signature = 64 \<and> vk_from_bytes C key \<and> vk_verify C key message signature)"

definition cwt_signature_valid :: "crates \<Rightarrow> Cwt \<Rightarrow> bytes \<Rightarrow> bool" where
  "cwt_signature_valid C cwt key =
     is_some_and (cwt_canonical (CArray [CText ''Signature1'', CBytes (cwt_protected cwt), CBytes [], CBytes (cwt_payload cwt)]))
       (\<lambda>message. cwt_kid cwt = key_id C key \<and> verify_ed25519 C key message (cwt_signature cwt))"

definition signed_cwt :: "crates \<Rightarrow> cbor_reader \<Rightarrow> bytes \<Rightarrow> string \<Rightarrow> (string \<times> bytes) list \<Rightarrow> Cwt option" where
  "signed_cwt C rd raw schema keys =
     do {
       cwt \<leftarrow> inspect_cwt C rd raw schema;
       key \<leftarrow> map_of keys (cwt_kid cwt);
       then_some (cwt_signature_valid C cwt key) cwt }"

section \<open>Local tables\<close>

fun entries_parsed :: "string list \<Rightarrow> (Doc \<Rightarrow> ('k \<times> 'v) option) \<Rightarrow> ('k \<times> 'v) list \<Rightarrow> cbor list \<Rightarrow> ('k \<times> 'v) list option" where
  "entries_parsed names parse_entry out [] = Some out"
| "entries_parsed names parse_entry out (item # items) =
     do {
       doc \<leftarrow> document item None names;
       (key, value) \<leftarrow> parse_entry doc;
       if map_of out key \<noteq> None then None else entries_parsed names parse_entry (out @ [(key, value)]) items }"

text \<open>\<open>lt\<close> is the order of the key type; the table comes back in the order of the array.\<close>

definition sorted_entries :: "('k \<Rightarrow> 'k \<Rightarrow> bool) \<Rightarrow> cbor \<Rightarrow> string list \<Rightarrow> (Doc \<Rightarrow> ('k \<times> 'v) option) \<Rightarrow> ('k \<times> 'v) list option" where
  "sorted_entries lt value names parse_entry =
     do {
       entries \<leftarrow> cbor_array value MAX_LOCAL_ITEMS;
       out \<leftarrow> entries_parsed names parse_entry [] entries;
       then_some (list_all (\<lambda>(a, b). lt (fst a) (fst b)) (zip out (tl out))) out }"

definition parse_key :: "crates \<Rightarrow> Doc \<Rightarrow> (string \<times> bytes) option" where
  "parse_key C entry =
     do {
       kid \<leftarrow> fld (bounded 128) entry ''kid'';
       key \<leftarrow> fld (fixed 32) entry ''public_key'';
       then_some (kid = key_id C key \<and> vk_from_bytes C key) (kid, key) }"

definition local_keys :: "crates \<Rightarrow> cbor \<Rightarrow> (string \<times> bytes) list option" where
  "local_keys C value = sorted_entries (<) value [''kid'', ''public_key''] (parse_key C)"

section \<open>Acknowledgements\<close>

definition verified_acknowledgement :: "crates \<Rightarrow> cbor_reader \<Rightarrow> bytes \<Rightarrow> bytes \<Rightarrow> json option" where
  "verified_acknowledgement C rd raw context =
     do {
       value \<leftarrow> cwt_decode rd context MAX_LOCAL_CONTEXT;
       local_doc \<leftarrow> document value (Some LOCAL_ACKNOWLEDGEMENT_CONTEXT) [''keys'', ''now''];
       keys \<leftarrow> fld (local_keys C) local_doc ''keys'';
       ack \<leftarrow> signed_cwt C rd raw ACKNOWLEDGEMENT keys;
       doc \<leftarrow> plain (cwt_core ack);
       if fld cbor_text local_doc ''schema'' \<noteq> Some LOCAL_ACKNOWLEDGEMENT_CONTEXT \<or> fld cbor_text doc ''counterparty'' \<noteq> Some (cwt_kid ack) then None
       else do {
         issued \<leftarrow> fld cbor_uint doc ''issued_at'';
         now \<leftarrow> fld cbor_uint local_doc ''now'';
         if issued > now \<or> map_of doc ''from_hash'' = map_of doc ''to_hash'' then None
         else Some (JObject (btree_collect
           [(''counterparty'', JString (cwt_kid ack)), (''origin'', opt_json JString (fld cbor_text doc ''origin'')),
            (''from_hash'', opt_json JString (fld cbor_text doc ''from_hash'')), (''to_hash'', opt_json JString (fld cbor_text doc ''to_hash'')),
            (''issued_at'', JNumber (PosInt issued))])) } }"

definition accepted_acknowledgement :: "crates \<Rightarrow> asn1 \<Rightarrow> cbor_reader \<Rightarrow> bytes \<Rightarrow> bytes \<Rightarrow> bytes \<Rightarrow> (json \<times> string \<times> string) option" where
  "accepted_acknowledgement C T rd envelope context bundle_json =
     (if length bundle_json > MAX_BUNDLE_BYTES then None
      else do {
        b \<leftarrow> strict_json C bundle_json;
        (let facts = verify_bundle_facts C T b None in
         if \<not> bf_ok facts then None
         else do {
           ack \<leftarrow> verified_acknowledgement C rd envelope context;
           covering \<leftarrow> acknowledgement_coverage ack b facts;
           canon \<leftarrow> canonical_checked C b;
           Some (ack, covering, hex (sha256 C canon)) }) })"

definition verify_acknowledgement_json :: "crates \<Rightarrow> asn1 \<Rightarrow> cbor_reader \<Rightarrow> bytes \<Rightarrow> bytes \<Rightarrow> bytes \<Rightarrow> json" where
  "verify_acknowledgement_json C T rd envelope context bundle_json =
     (let accepted = accepted_acknowledgement C T rd envelope context bundle_json in
      JObject (btree_collect
        [(''schema'', JString ''evd/acknowledgement-assessment/v1''),
         (''verdict'', JString (if accepted \<noteq> None then ''VERIFIED'' else ''NOT_VERIFIED'')),
         (''acknowledgement'', opt_json fst accepted), (''coverage'', opt_json (\<lambda>(_, covering, _). JString covering) accepted),
         (''bundle_digest'', opt_json (\<lambda>(_, _, digest). JString digest) accepted),
         (''context_digest'', opt_json (\<lambda>_. JString (hex (sha256 C context))) accepted),
         (''envelope_digest'', opt_json (\<lambda>_. JString (hex (sha256 C envelope))) accepted)]))"


section \<open>Documents hold what they declare\<close>

lemma doc_fold_distinct: "doc_fold out entries = Some doc \<Longrightarrow> distinct (map fst out) \<Longrightarrow> distinct (map fst doc)"
  by (induction out entries rule: doc_fold.induct) (auto split: cbor.splits if_splits simp: map_of_eq_None_iff)

lemma doc_fold_set: "doc_fold out entries = Some doc \<Longrightarrow> map (\<lambda>(k, v). (CText k, v)) doc = map (\<lambda>(k, v). (CText k, v)) out @ entries"
  by (induction out entries rule: doc_fold.induct) (auto split: cbor.splits if_splits)

lemma plain_Some: "plain v = Some doc \<longleftrightarrow> v = CMap (map (\<lambda>(k, v). (CText k, v)) doc) \<and> distinct (map fst doc)"
proof -
  have "doc_fold out (map (\<lambda>(k, v). (CText k, v)) d) = Some (out @ d)" if "distinct (map fst (out @ d))" for out d :: Doc
    using that
  proof (induction d arbitrary: out)
    case (Cons p d)
    then have "distinct (map fst ((out @ [p]) @ d))" by simp
    from Cons.IH [OF this] Cons.prems show ?case by (cases p) (auto simp: map_of_eq_None_iff)
  qed simp
  from this [of "[]" doc] show ?thesis
    using doc_fold_distinct [of "[]" _ doc] doc_fold_set [of "[]" _ doc] by (cases v) (auto simp: plain_def map_doc_def)
qed

lemma document_plain: "document v schema names = Some doc \<Longrightarrow> plain v = Some doc"
  by (auto simp: document_def plain_def then_some_def bind_eq_Some_conv split: if_splits)

lemma document_fields: "document v schema names = Some doc \<Longrightarrow> k \<in> set names \<Longrightarrow> map_of doc k \<noteq> None"
  by (auto simp: document_def then_some_def bind_eq_Some_conv list_all_iff split: if_splits)

lemma document_keys:
  assumes "document v schema names = Some doc" "distinct names" "schema \<noteq> None \<longrightarrow> ''schema'' \<notin> set names"
  shows "fst ` set doc = set names \<union> (if schema = None then {} else {''schema''})"
proof -
  have d: "distinct (map fst doc)" using document_plain [OF assms(1)] by (simp add: plain_Some)
  have len: "length doc = length names + (if schema \<noteq> None then 1 else 0)"
    using assms(1) by (auto simp: document_def then_some_def bind_eq_Some_conv split: if_splits)
  have "''schema'' \<in> fst ` set doc" if "schema \<noteq> None"
    using that assms(1) by (force simp: document_def then_some_def bind_eq_Some_conv accepted_name_def is_some_and_iff is_none_or_iff
        split: if_splits dest: map_of_SomeD)
  moreover have "set names \<subseteq> fst ` set doc" using document_fields [OF assms(1)] by (fastforce simp: map_of_eq_None_iff)
  ultimately have sub: "set names \<union> (if schema = None then {} else {''schema''}) \<subseteq> fst ` set doc" by auto
  have "card (fst ` set doc) = length doc" using distinct_card [OF d] by simp
  moreover have "card (set names \<union> (if schema = None then {} else {''schema''})) = length doc"
    using assms(2,3) len by (auto simp: distinct_card)
  ultimately show ?thesis using card_subset_eq [OF _ sub] by simp
qed

text \<open>A closed document: the accepted maps have exactly the fields the caller names, and the schema when one is asked for.\<close>

lemma good_field [dest]: "good f doc k \<Longrightarrow> map_of doc k \<noteq> None"
  by (cases "map_of doc k") (auto simp: good_def fld_def)

lemma good_weaken:
  "good opaque doc k \<Longrightarrow> good (fixed 32) doc k" "good (fixed n) doc k \<Longrightarrow> good cbor_bytes doc k"
  "good opaque doc k \<Longrightarrow> good cbor_bytes doc k" "good (sized lo hi) doc k \<Longrightarrow> good cbor_bytes doc k"
  "good cbor_positive doc k \<Longrightarrow> good cbor_uint doc k" "good (bounded n) doc k \<Longrightarrow> good cbor_text doc k"
  by (auto simp: good_def fld_def opaque_def fixed_def sized_def cbor_positive_def bounded_def bind_eq_Some_conv then_some_def split: if_splits)

lemma window_good: "window doc a b \<Longrightarrow> good cbor_uint doc a \<and> good cbor_uint doc b"
  by (auto simp: window_def good_def split: option.splits)

section \<open>Decimals\<close>

lemma cbor_decimal_digits: "cbor_decimal v = Some t \<Longrightarrow> list_all is_ascii_digit t \<and> t \<noteq> []"
  by (cases t) (auto simp: cbor_decimal_def bind_eq_Some_conv then_some_def is_ascii_digit_def split: if_splits)

lemma char_of_nat_48: "char_of (48 :: nat) = CHR ''0''"
  by code_simp

lemma decimal_lead: "cbor_decimal v = Some t \<Longrightarrow> length t > 1 \<Longrightarrow> 10 ^ (length t - 1) \<le> digits_value t"
proof -
  assume t: "cbor_decimal v = Some t" "length t > 1"
  then obtain c s where cs: "t = c # s" "s \<noteq> []" by (cases t) auto
  have "is_ascii_digit c" "c \<noteq> CHR ''0''"
    using t cs by (auto simp: cbor_decimal_def bind_eq_Some_conv then_some_def split: if_splits)
  moreover have "c = CHR ''0''" if "of_char c = (48 :: nat)"
    using that char_of_char [of c] by (metis char_of_nat_48)
  ultimately have "1 \<le> of_char c - (48 :: nat)" by (fastforce simp: is_ascii_digit_def)
  then obtain n where "of_char c - (48 :: nat) = Suc n" by (cases "of_char c - (48 :: nat)") auto
  then show "10 ^ (length t - 1) \<le> digits_value t" by (simp add: cs digits_value_Cons)
qed

text \<open>
  The order of canonical decimals by length and then by text is the order of the numbers they denote, of any size up to 78 digits.
\<close>

lemma decimal_at_most_iff:
  "decimal_at_most left right \<longleftrightarrow>
     (\<exists>a b. cbor_decimal left = Some a \<and> cbor_decimal right = Some b \<and> digits_value a \<le> digits_value b)"
proof (cases "\<exists>a b. cbor_decimal left = Some a \<and> cbor_decimal right = Some b")
  case True
  then obtain a b where ab: "cbor_decimal left = Some a" "cbor_decimal right = Some b" by blast
  note d = cbor_decimal_digits [OF ab(1)] cbor_decimal_digits [OF ab(2)]
  have shorter: "digits_value x < digits_value y"
    if "length x < length y" "cbor_decimal v = Some x" "cbor_decimal w = Some y" for x y v w
  proof -
    note dx = cbor_decimal_digits [OF that(2)]
    have "digits_value x < 10 ^ length x" using dx digits_value_bound by blast
    also have "\<dots> \<le> 10 ^ (length y - 1)" using that(1) by (intro power_increasing) auto
    also have "\<dots> \<le> digits_value y" using decimal_lead [OF that(3)] that(1) dx by (cases x) auto
    finally show ?thesis .
  qed
  have "decimal_at_most left right \<longleftrightarrow> length a < length b \<or> length a = length b \<and> a \<le> b"
    by (simp add: decimal_at_most_def ab)
  also have "\<dots> \<longleftrightarrow> digits_value a \<le> digits_value b"
  proof (cases "length a" "length b" rule: linorder_cases)
    case less
    then show ?thesis using shorter [OF less ab] by simp
  next
    case equal
    then show ?thesis using digits_less [OF equal] d by (auto simp: le_less)
  next
    case greater
    then show ?thesis using shorter [OF greater ab(2,1)] by simp
  qed
  finally show ?thesis using ab by simp
qed (auto simp: decimal_at_most_def split: option.splits)


section \<open>Envelopes and acknowledgements\<close>

lemma inspect_cwt_Some:
  "inspect_cwt C rd raw schema = Some cwt \<Longrightarrow>
     validate_core C (cwt_core cwt) schema \<and> cwt_canonical (cwt_core cwt) = Some (cwt_core_bytes cwt)"
  by (auto simp: inspect_cwt_def bind_eq_Some_conv then_some_def split: if_splits prod.splits)

lemma signed_cwt_iff:
  "signed_cwt C rd raw schema keys = Some cwt \<longleftrightarrow>
     inspect_cwt C rd raw schema = Some cwt \<and> (\<exists>key. map_of keys (cwt_kid cwt) = Some key \<and> cwt_signature_valid C cwt key)"
  by (auto simp: signed_cwt_def bind_eq_Some_conv then_some_def split: if_splits)

text \<open>The values of an encodable document are encodable one level below it.\<close>

lemma canonical_member:
  assumes "canonical_bytes v l CWT_PROFILE = Some b" "plain v = Some doc" "map_of doc k = Some w"
  shows "canonical_bytes w (l - 1) CWT_PROFILE \<noteq> None"
proof -
  have "(CText k, w) \<in> set (map (\<lambda>(k, v). (CText k, v)) doc)" using map_of_SomeD [OF assms(3)] by force
  moreover have "v = CMap (map (\<lambda>(k, v). (CText k, v)) doc)" using assms(2) by (simp add: plain_Some)
  ultimately show ?thesis using assms(1) unfolding canonical_bytes_def by (fastforce simp: write_value_CMap)
qed

lemma canonical_mono: "canonical_bytes v l p = Some b \<Longrightarrow> l \<le> l' \<Longrightarrow> canonical_bytes v l' p = Some b"
  unfolding canonical_bytes_def by (rule write_value_mono)

lemma canonical_named:
  assumes "\<And>k v. (k, v) \<in> set items \<Longrightarrow> canonical_bytes v (l - 1) CWT_PROFILE \<noteq> None" "distinct (map (\<lambda>(k, _). write_text k) items)" "0 \<le> l"
  shows "canonical_bytes (CMap (map (\<lambda>(k, v). (CText k, v)) items)) l CWT_PROFILE \<noteq> None"
proof -
  have "map (key_bytes CWT_PROFILE) (map (\<lambda>(k, v). (CText k, v)) items) = map (\<lambda>(k, _). write_text k) items"
    by (auto simp: key_bytes_def write_key_def)
  then have "distinct (map (key_bytes CWT_PROFILE) (map (\<lambda>(k, v). (CText k, v)) items))" using assms(2) by (simp only:)
  moreover have "write_key CWT_PROFILE (fst kv) \<noteq> None \<and> write_value CWT_PROFILE (l - 1) (snd kv) \<noteq> None"
    if "kv \<in> set (map (\<lambda>(k, v). (CText k, v)) items)" for kv
    using that assms(1) by (auto simp: write_key_def canonical_bytes_def)
  ultimately have "\<exists>b. write_value CWT_PROFILE l (CMap (map (\<lambda>(k, v). (CText k, v)) items)) = Some b"
    using assms(3) unfolding write_value_CMap by blast
  then show ?thesis by (auto simp: canonical_bytes_def)
qed

text \<open>
  An acknowledgement the relying party can attribute: an envelope of the profile, signed by the key its local context holds for
  the counterparty the document names, issued no later than the local clock, over two different heads.
\<close>

definition attributed :: "crates \<Rightarrow> cbor_reader \<Rightarrow> bytes \<Rightarrow> bytes \<Rightarrow> Cwt \<Rightarrow> Doc \<Rightarrow> bool" where
  "attributed C rd envelope context cwt doc \<longleftrightarrow>
     (\<exists>value loc keys key now issued.
        cwt_decode rd context MAX_LOCAL_CONTEXT = Some value \<and> document value (Some LOCAL_ACKNOWLEDGEMENT_CONTEXT) [''keys'', ''now''] = Some loc \<and>
        fld cbor_text loc ''schema'' = Some LOCAL_ACKNOWLEDGEMENT_CONTEXT \<and> fld (local_keys C) loc ''keys'' = Some keys \<and> fld cbor_uint loc ''now'' = Some now \<and>
        inspect_cwt C rd envelope ACKNOWLEDGEMENT = Some cwt \<and> map_of keys (cwt_kid cwt) = Some key \<and> cwt_signature_valid C cwt key \<and>
        plain (cwt_core cwt) = Some doc \<and> fld cbor_text doc ''counterparty'' = Some (cwt_kid cwt) \<and>
        fld cbor_uint doc ''issued_at'' = Some issued \<and> issued \<le> now \<and> map_of doc ''from_hash'' \<noteq> map_of doc ''to_hash'')"

lemma verified_acknowledgement_iff:
  "verified_acknowledgement C rd envelope context = Some ack \<longleftrightarrow>
     (\<exists>cwt doc issued. attributed C rd envelope context cwt doc \<and> fld cbor_uint doc ''issued_at'' = Some issued \<and>
        ack = JObject (btree_collect
           [(''counterparty'', JString (cwt_kid cwt)), (''origin'', opt_json JString (fld cbor_text doc ''origin'')),
            (''from_hash'', opt_json JString (fld cbor_text doc ''from_hash'')), (''to_hash'', opt_json JString (fld cbor_text doc ''to_hash'')),
            (''issued_at'', JNumber (PosInt issued))]))" (is "?L \<longleftrightarrow> ?R")
proof
  assume ?L
  then show ?R unfolding attributed_def by (auto simp: verified_acknowledgement_def bind_eq_Some_conv signed_cwt_iff not_less split: if_splits)
next
  assume ?R
  then obtain cwt doc cv loc keys key now issued where
    *: "cwt_decode rd context MAX_LOCAL_CONTEXT = Some cv" "document cv (Some LOCAL_ACKNOWLEDGEMENT_CONTEXT) [''keys'', ''now''] = Some loc"
      "fld cbor_text loc ''schema'' = Some LOCAL_ACKNOWLEDGEMENT_CONTEXT" "fld (local_keys C) loc ''keys'' = Some keys" "fld cbor_uint loc ''now'' = Some now"
      "inspect_cwt C rd envelope ACKNOWLEDGEMENT = Some cwt" "map_of keys (cwt_kid cwt) = Some key" "cwt_signature_valid C cwt key"
      "plain (cwt_core cwt) = Some doc" "fld cbor_text doc ''counterparty'' = Some (cwt_kid cwt)"
      "fld cbor_uint doc ''issued_at'' = Some issued" "issued \<le> now" "map_of doc ''from_hash'' \<noteq> map_of doc ''to_hash''"
    and ack: "ack = JObject (btree_collect
           [(''counterparty'', JString (cwt_kid cwt)), (''origin'', opt_json JString (fld cbor_text doc ''origin'')),
            (''from_hash'', opt_json JString (fld cbor_text doc ''from_hash'')), (''to_hash'', opt_json JString (fld cbor_text doc ''to_hash'')),
            (''issued_at'', JNumber (PosInt issued))])"
    unfolding attributed_def by auto
  have "signed_cwt C rd envelope ACKNOWLEDGEMENT keys = Some cwt" using * by (auto simp: signed_cwt_iff)
  then show ?L using * ack by (simp add: verified_acknowledgement_def not_less)
qed

lemma acknowledgement_texts:
  assumes "attributed C rd envelope context cwt doc"
  obtains orig from_hash to_hash where "fld cbor_text doc ''origin'' = Some orig" "fld cbor_text doc ''from_hash'' = Some from_hash"
    "fld cbor_text doc ''to_hash'' = Some to_hash"
proof -
  have "validate_core C (cwt_core cwt) ACKNOWLEDGEMENT" "plain (cwt_core cwt) = Some doc"
    using assms inspect_cwt_Some by (auto simp: attributed_def)
  then have "validate_acknowledgement (cwt_core cwt)" by (simp add: validate_core_def ACTION_def CHALLENGE_def ASA_def PRESENTATION_def ACKNOWLEDGEMENT_def)
  then have "list_all (good (bounded 1024) doc) [''counterparty'', ''origin'', ''from_hash'', ''to_hash'']"
    using document_plain \<open>plain (cwt_core cwt) = Some doc\<close> by (fastforce simp: validate_acknowledgement_def is_some_and_iff)
  then have "good cbor_text doc ''origin''" "good cbor_text doc ''from_hash''" "good cbor_text doc ''to_hash''"
    using good_weaken(6) by auto
  then show thesis using that by (auto simp: good_def)
qed


text \<open>The assessment reads the acknowledgement through its JSON form; both are one.\<close>

definition ack_value :: "Cwt \<Rightarrow> Doc \<Rightarrow> u64 \<Rightarrow> json" where
  "ack_value cwt doc issued = JObject (btree_collect
     [(''counterparty'', JString (cwt_kid cwt)), (''origin'', opt_json JString (fld cbor_text doc ''origin'')),
      (''from_hash'', opt_json JString (fld cbor_text doc ''from_hash'')), (''to_hash'', opt_json JString (fld cbor_text doc ''to_hash'')),
      (''issued_at'', JNumber (PosInt issued))])"

lemma ack_value_coverage:
  assumes "attributed C rd envelope context cwt doc"
  shows "acknowledgement_coverage (ack_value cwt doc issued) b facts = Some ''covered'' \<longleftrightarrow>
    (\<exists>orig from_hash to_hash start finish. fld cbor_text doc ''origin'' = Some orig \<and> get_str b ''origin'' = Some orig \<and>
       fld cbor_text doc ''from_hash'' = Some from_hash \<and> map_of (bf_chain_sizes facts) from_hash = Some start \<and>
       fld cbor_text doc ''to_hash'' = Some to_hash \<and> map_of (bf_chain_sizes facts) to_hash = Some finish \<and> start < finish)"
proof -
  obtain orig from_hash to_hash where t: "fld cbor_text doc ''origin'' = Some orig" "fld cbor_text doc ''from_hash'' = Some from_hash"
    "fld cbor_text doc ''to_hash'' = Some to_hash"
    using acknowledgement_texts [OF assms] by blast
  have "get (ack_value cwt doc issued) ''origin'' = Some (JString orig)" "get (ack_value cwt doc issued) ''from_hash'' = Some (JString from_hash)"
    "get (ack_value cwt doc issued) ''to_hash'' = Some (JString to_hash)"
    by (simp_all add: ack_value_def get_def map_of_btree_collect t opt_json_def)
  then show ?thesis
    unfolding t by (cases "index b ''origin''")
      (auto simp: acknowledgement_coverage_def index_def unwrap_or_def get_str_def as_str_def value_eq_def split: option.splits json.splits)
qed

lemma accepted_acknowledgement_iff:
  "accepted_acknowledgement C T rd envelope context bundle_json = Some (ack, covering, digest) \<longleftrightarrow>
     length bundle_json \<le> MAX_BUNDLE_BYTES \<and>
     (\<exists>b canon. strict_json C bundle_json = Some b \<and> bf_ok (verify_bundle_facts C T b None) \<and>
        verified_acknowledgement C rd envelope context = Some ack \<and> acknowledgement_coverage ack b (verify_bundle_facts C T b None) = Some covering \<and>
        canonical_checked C b = Some canon \<and> digest = hex (sha256 C canon))"
  by (auto simp: accepted_acknowledgement_def bind_eq_Some_conv Let_def not_less)


end
