(* ===== verification/Exchange.thy ===== *)
theory Exchange
  imports Assurance
begin

text \<open>
  \<open>verify-rs/src/b28.rs\<close>, second part: the evaluation of a counterparty assurance exchange. The local context and the pinned
  trust pack come from the relying party, the challenge and the presentation (or the refusal) from the exchange.

  Two layers of failure are kept apart. A step of the evaluation returns \<open>Go\<close> or \<open>Stop\<close> with a result, as \<open>Result\<close> in the
  source. Around it, \<open>None\<close> is a panic: every \<open>doc["k"]\<close> is a lookup and every \<open>unwrap()\<close>, \<open>unreachable!()\<close> and unchecked
  subtraction is a bind of the option monad, so that the absence of panics is a theorem and not an assumption.
\<close>

section \<open>Parameters and inputs\<close>

text \<open>The crates this part adds: \<open>ciborium\<close>'s bounded reader, \<open>p256\<close> (keys by their SEC1 bytes) and \<open>serde_json\<close> for one string.\<close>

record host =
  h_reader :: cbor_reader
  h_p256_from_sec1 :: "bytes \<Rightarrow> bool"
  h_p256_from_der :: "bytes \<Rightarrow> bytes option"
  h_p256_normalize_s :: "bytes \<Rightarrow> bytes"
  h_p256_verify :: "bytes \<Rightarrow> bytes \<Rightarrow> bytes \<Rightarrow> bool"
  h_json_string :: "bytes \<Rightarrow> string option"

definition LOCAL_CONTEXT :: string where "LOCAL_CONTEXT = ''swarrm-b28/local-verifier-context/v1''"
definition LOCAL_REFUSAL_CONTEXT :: string where "LOCAL_REFUSAL_CONTEXT = ''swarrm-b28/local-refusal-context/v1''"
definition TRUST_PACK :: string where "TRUST_PACK = ''swarrm-b28/trust-pack/v1''"
definition MEMBERSHIP :: string where "MEMBERSHIP = ''swarrm-b28/authority-membership-proof/v1''"
definition MAX_INPUT :: nat where "MAX_INPUT = 2 * 1024 * 1024"

record RootAnchor =
  fingerprint :: bytes
  anchor_key :: bytes

type_synonym keymap = "(string \<times> bytes) list"
type_synonym anchors = "(string \<times> RootAnchor) list"
type_synonym Head = "u64 \<times> bytes \<times> bytes \<times> u64"
type_synonym Heads = "((string \<times> bytes) \<times> Head) list"
type_synonym Checkpoints = "(bytes \<times> string \<times> bytes \<times> u64 \<times> bytes \<times> bytes \<times> u64) list"
type_synonym PresentationLocal = "keymap \<times> Checkpoints \<times> Heads \<times> string \<times> u64 \<times> u64"
type_synonym RefusalLocal = "keymap \<times> keymap \<times> u64"

datatype LocalContext = Presentation PresentationLocal | Refusal RefusalLocal

record InputContext =
  ic_challenge :: bytes
  ic_presentation :: bytes
  ic_roots :: anchors
  ic_challenger_keys :: keymap
  ic_checkpoints :: Checkpoints
  ic_heads :: Heads
  ic_origin :: string
  ic_max_action_lifetime_s :: u64
  ic_now :: u64

record RefusalContext =
  rc_challenge :: bytes
  rc_refusal :: bytes
  rc_challenger_keys :: keymap
  rc_responder_keys :: keymap
  rc_now :: u64

record CounterState =
  cs_before :: u64
  cs_after :: u64
  cs_backup_eligible :: bool
  cs_backup_state :: bool

definition parse_root :: "crates \<Rightarrow> Doc \<Rightarrow> (string \<times> RootAnchor) option" where
  "parse_root C entry =
     do {
       kid \<leftarrow> fld (bounded 128) entry ''kid'';
       fp \<leftarrow> fld (fixed 32) entry ''organisation_root'';
       key \<leftarrow> fld (fixed 32) entry ''public_key'';
       then_some (kid = key_id C key \<and> fp = sha_parts C [key] \<and> vk_from_bytes C key) (kid, \<lparr>fingerprint = fp, anchor_key = key\<rparr>) }"

definition parse_pinned_trust_pack :: "crates \<Rightarrow> cbor_reader \<Rightarrow> bytes \<Rightarrow> bytes \<Rightarrow> anchors option" where
  "parse_pinned_trust_pack C rd raw pin =
     (if length pin \<noteq> 32 \<or> pin \<noteq> sha_parts C [raw] \<or> length raw > MAX_CWT then None
      else do {
        value \<leftarrow> cwt_decode rd raw MAX_CWT;
        doc \<leftarrow> document value (Some TRUST_PACK) [''roots''];
        anchors \<leftarrow> fld (\<lambda>v. sorted_entries (<) v [''kid'', ''organisation_root'', ''public_key''] (parse_root C)) doc ''roots'';
        then_some (anchors \<noteq> []) anchors })"

definition parse_checkpoint :: "Doc \<Rightarrow> (bytes \<times> string \<times> bytes \<times> u64 \<times> bytes \<times> bytes \<times> u64) option" where
  "parse_checkpoint entry =
     do {
       digest \<leftarrow> fld (fixed 32) entry ''digest'';
       tenant \<leftarrow> fld (bounded 128) entry ''tenant'';
       org \<leftarrow> fld (fixed 32) entry ''organisation_root'';
       sequence \<leftarrow> fld cbor_uint entry ''sequence'';
       authority_root \<leftarrow> fld (fixed 32) entry ''authority_root'';
       log_root \<leftarrow> fld (fixed 32) entry ''log_root'';
       log_size \<leftarrow> fld cbor_uint entry ''log_size'';
       Some (digest, tenant, org, sequence, authority_root, log_root, log_size) }"

definition local_checkpoints :: "cbor \<Rightarrow> Checkpoints option" where
  "local_checkpoints value =
     sorted_entries (<) value [''digest'', ''tenant'', ''organisation_root'', ''sequence'', ''authority_root'', ''log_root'', ''log_size''] parse_checkpoint"

definition parse_head :: "Doc \<Rightarrow> ((string \<times> bytes) \<times> Head) option" where
  "parse_head entry =
     do {
       tenant \<leftarrow> fld (bounded 128) entry ''tenant'';
       org \<leftarrow> fld opaque entry ''organisation_root'';
       sequence \<leftarrow> fld cbor_uint entry ''sequence'';
       authority_root \<leftarrow> fld (fixed 32) entry ''authority_root'';
       log_root \<leftarrow> fld (fixed 32) entry ''log_root'';
       log_size \<leftarrow> fld cbor_uint entry ''log_size'';
       Some ((tenant, org), sequence, authority_root, log_root, log_size) }"

definition head_lt :: "string \<times> bytes \<Rightarrow> string \<times> bytes \<Rightarrow> bool" where
  "head_lt a b = (fst a < fst b \<or> fst a = fst b \<and> snd a < snd b)"

definition local_heads :: "cbor \<Rightarrow> Heads option" where
  "local_heads value =
     sorted_entries head_lt value [''tenant'', ''organisation_root'', ''sequence'', ''authority_root'', ''log_root'', ''log_size''] parse_head"

definition presentation_context :: "crates \<Rightarrow> Doc \<Rightarrow> PresentationLocal option" where
  "presentation_context C loc =
     do {
       lifetime \<leftarrow> ofilter (\<lambda>n. n \<le> 300) (fld cbor_positive loc ''max_action_lifetime_s'');
       keys \<leftarrow> fld (local_keys C) loc ''challenger_keys'';
       cps \<leftarrow> fld local_checkpoints loc ''registered_checkpoints'';
       hs \<leftarrow> fld local_heads loc ''authority_heads'';
       orig \<leftarrow> fld (bounded 2048) loc ''expected_admin_origin'';
       now \<leftarrow> fld cbor_uint loc ''now'';
       Some (keys, cps, hs, orig, lifetime, now) }"

definition refusal_context :: "crates \<Rightarrow> Doc \<Rightarrow> RefusalLocal option" where
  "refusal_context C loc =
     do {
       challengers \<leftarrow> fld (local_keys C) loc ''challenger_keys'';
       responders \<leftarrow> fld (local_keys C) loc ''responder_keys'';
       now \<leftarrow> fld cbor_uint loc ''now'';
       Some (challengers, responders, now) }"

definition parse_local_context :: "crates \<Rightarrow> cbor_reader \<Rightarrow> bytes \<Rightarrow> string + LocalContext" where
  "parse_local_context C rd raw =
     (case cwt_decode rd raw MAX_LOCAL_CONTEXT of
        None \<Rightarrow> Inl ''VERIFIER_CONTEXT_INVALID''
      | Some value \<Rightarrow>
          (case document value (Some LOCAL_CONTEXT) [''challenger_keys'', ''registered_checkpoints'', ''authority_heads'', ''expected_admin_origin'',
             ''max_action_lifetime_s'', ''now''] of
             Some loc \<Rightarrow>
               if fld cbor_uint loc ''now'' = None then Inl ''LOCAL_CLOCK_INVALID''
               else (case presentation_context C loc of Some p \<Rightarrow> Inr (Presentation p) | None \<Rightarrow> Inl ''VERIFIER_CONTEXT_INVALID'')
           | None \<Rightarrow>
               (case document value (Some LOCAL_REFUSAL_CONTEXT) [''challenger_keys'', ''responder_keys'', ''now''] of
                  Some loc \<Rightarrow>
                    if fld cbor_uint loc ''now'' = None then Inl ''LOCAL_CLOCK_INVALID''
                    else (case refusal_context C loc of Some r \<Rightarrow> Inr (Refusal r) | None \<Rightarrow> Inl ''VERIFIER_CONTEXT_INVALID'')
                | None \<Rightarrow> Inl ''VERIFIER_CONTEXT_INVALID'')))"

definition parse_input :: "cbor_reader \<Rightarrow> bytes \<Rightarrow> PresentationLocal \<Rightarrow> InputContext option" where
  "parse_input rd exchange loc =
     do {
       value \<leftarrow> cwt_decode rd exchange MAX_INPUT;
       doc \<leftarrow> document value None [''challenge'', ''presentation''];
       challenge \<leftarrow> fld cbor_bytes doc ''challenge'';
       presentation \<leftarrow> fld cbor_bytes doc ''presentation'';
       (case loc of (keys, cps, hs, orig, lifetime, now) \<Rightarrow>
          Some \<lparr>ic_challenge = challenge, ic_presentation = presentation, ic_roots = [], ic_challenger_keys = keys, ic_checkpoints = cps,
            ic_heads = hs, ic_origin = orig, ic_max_action_lifetime_s = lifetime, ic_now = now\<rparr>) }"

definition parse_refusal :: "cbor_reader \<Rightarrow> bytes \<Rightarrow> RefusalLocal \<Rightarrow> RefusalContext option" where
  "parse_refusal rd exchange loc =
     do {
       value \<leftarrow> cwt_decode rd exchange MAX_INPUT;
       doc \<leftarrow> document value None [''challenge'', ''refusal''];
       challenge \<leftarrow> fld cbor_bytes doc ''challenge'';
       refusal \<leftarrow> fld cbor_bytes doc ''refusal'';
       (case loc of (challengers, responders, now) \<Rightarrow>
          Some \<lparr>rc_challenge = challenge, rc_refusal = refusal, rc_challenger_keys = challengers, rc_responder_keys = responders, rc_now = now\<rparr>) }"

section \<open>Results\<close>

definition VERIFIED :: "string list" where
  "VERIFIED = [''passport_identity'', ''live_key_control'', ''root_chain'', ''template_admin_pop'', ''fresh_status'', ''binding'', ''grant'',
     ''delegation'', ''exact_action'', ''asa_reservation'', ''challenge'', ''transcript'', ''replay'']"

definition UNEVALUATED :: "string list" where
  "UNEVALUATED = [''node_basis'', ''source_basis'', ''coverage_basis'', ''history'', ''post_action_evidence_readiness'']"

record ResultValue =
  rv_verdict :: string
  rv_reason :: string
  rv_vector :: "(string \<times> string) list"

definition rv_new :: "string \<Rightarrow> string \<Rightarrow> (string \<times> string) list \<Rightarrow> ResultValue" where
  "rv_new verdict reason vector = \<lparr>rv_verdict = verdict, rv_reason = reason, rv_vector = vector\<rparr>"

definition result_json :: "ResultValue \<Rightarrow> json" where
  "result_json r = JObject (btree_collect
     [(''verdict'', JString (rv_verdict r)), (''reasons'', JArray [JString (rv_reason r)]),
      (''vector'', JObject (map (\<lambda>(k, v). (k, JString v)) (rv_vector r))), (''should_execute'', JBool False)])"

definition mark_dims :: "(string \<times> string) list \<Rightarrow> string list \<Rightarrow> string \<Rightarrow> (string \<times> string) list" where
  "mark_dims vector names state = foldl (\<lambda>v name. btree_put name state v) vector names"

definition initial_vector :: "(string \<times> string) list" where
  "initial_vector = mark_dims (btree_collect (map (\<lambda>name. (name, ''INDETERMINATE'')) VERIFIED)) UNEVALUATED ''NOT_EVALUATED_V1''"

definition core_digest :: "crates \<Rightarrow> bytes \<Rightarrow> bytes" where
  "core_digest C canonical_core = sha_parts C [as_bytes ''swarrm-b28/core/v1'' @ [0], canonical_core]"

section \<open>Registration by an administrator\<close>

function string_end_loop :: "bytes \<Rightarrow> nat \<Rightarrow> nat" where
  "string_end_loop raw i =
     (if i < length raw \<and> raw ! i \<noteq> 34 then string_end_loop raw (i + (if raw ! i = 92 then 2 else 1)) else i)"
  by pat_completeness auto
termination
  by (relation "measure (\<lambda>(raw, i). length raw - i)") auto

declare string_end_loop.simps [simp del]

definition json_string_end :: "bytes \<Rightarrow> nat \<Rightarrow> nat option" where
  "json_string_end raw start = (let i = string_end_loop raw (start + 1) in then_some (i < length raw) (i + 1))"

definition is_ascii_whitespace :: "u8 \<Rightarrow> bool" where
  "is_ascii_whitespace b = (b \<in> {9, 10, 12, 13, 32})"

lemma string_end_loop_ge: "i \<le> string_end_loop raw i"
proof (induction raw i rule: string_end_loop.induct)
  case (1 raw i)
  show ?case
  proof (cases "i < length raw \<and> raw ! i \<noteq> 34")
    case True
    then show ?thesis using "1.IH" by (subst string_end_loop.simps) (auto split: if_splits)
  next
    case False
    then show ?thesis by (subst string_end_loop.simps) auto
  qed
qed

lemma json_string_end_gt: "json_string_end raw i = Some finish \<Longrightarrow> i < finish"
  using string_end_loop_ge [of "i + 1" raw] by (auto simp: json_string_end_def Let_def then_some_def split: if_splits)

function keys_loop :: "(bytes \<Rightarrow> string option) \<Rightarrow> bytes \<Rightarrow> nat \<Rightarrow> int \<Rightarrow> string list \<Rightarrow> string list option" where
  "keys_loop js raw i depth keys =
     (if i \<ge> length raw then Some keys
      else if raw ! i = 123 \<or> raw ! i = 91 then keys_loop js raw (i + 1) (depth + 1) keys
      else if raw ! i = 125 \<or> raw ! i = 93 then keys_loop js raw (i + 1) (depth - 1) keys
      else if raw ! i = 34 then
        (case json_string_end raw i of
           None \<Rightarrow> None
         | Some finish \<Rightarrow>
             (let rest = dropWhile is_ascii_whitespace (drop finish raw) in
              if depth = 1 \<and> rest \<noteq> [] \<and> hd rest = 58 then
                (case js (take (finish - i) (drop i raw)) of
                   None \<Rightarrow> None
                 | Some key \<Rightarrow> if key \<in> set keys then None else keys_loop js raw finish depth (keys @ [key]))
              else keys_loop js raw finish depth keys))
      else keys_loop js raw (i + 1) depth keys)"
  by pat_completeness auto
termination
  by (relation "measure (\<lambda>(js, raw, i, depth, keys). length raw - i)") (auto dest: json_string_end_gt)

declare keys_loop.simps [simp del]


definition top_level_json_keys :: "(bytes \<Rightarrow> string option) \<Rightarrow> bytes \<Rightarrow> string list option" where
  "top_level_json_keys js raw = keys_loop js raw 0 0 []"

definition strict_client_json :: "crates \<Rightarrow> host \<Rightarrow> bytes \<Rightarrow> (string \<times> json) list option" where
  "strict_client_json C H raw =
     (case json_from_slice C raw of
        Some (JObject object) \<Rightarrow>
          if length object = 4 \<and> list_all (\<lambda>name. map_of object name \<noteq> None) [''type'', ''challenge'', ''origin'', ''crossOrigin'']
          then do { keys \<leftarrow> top_level_json_keys (h_json_string H) raw; then_some (length keys = 4) object }
          else None
      | _ \<Rightarrow> None)"

fun split_dots :: "string \<Rightarrow> string list" where
  "split_dots [] = [[]]"
| "split_dots (c # s) = (if c = CHR ''.'' then [] # split_dots s else (c # hd (split_dots s)) # tl (split_dots s))"

definition is_ascii_lower :: "char \<Rightarrow> bool" where
  "is_ascii_lower c = (97 \<le> (of_char c :: nat) \<and> (of_char c :: nat) \<le> 122)"

definition label_ok :: "string \<Rightarrow> bool" where
  "label_ok part = (part \<noteq> [] \<and> length part \<le> 63 \<and> hd part \<noteq> CHR ''-'' \<and> last part \<noteq> CHR ''-''
     \<and> list_all (\<lambda>c. is_ascii_lower c \<or> is_ascii_digit c \<or> c = CHR ''-'') part)"

definition canonical_origin :: "string \<Rightarrow> string \<Rightarrow> bool" where
  "canonical_origin orig rp_id =
     (rp_id \<noteq> [] \<and> list_all (\<lambda>c. (of_char c :: nat) < 128) rp_id \<and> list_all label_ok (split_dots rp_id)
      \<and> is_some_and (strip_prefix orig ''https://'') (\<lambda>h. h = rp_id \<or> h = rp_id @ ''/''))"

text \<open>Equality and interval tests on indexed members; \<open>None\<close> where an index panics.\<close>

definition same :: "Doc \<Rightarrow> string \<Rightarrow> Doc \<Rightarrow> string \<Rightarrow> bool option" where
  "same d k d' k' = do { x \<leftarrow> map_of d k; y \<leftarrow> map_of d' k'; Some (x = y) }"

definition bytes_are :: "Doc \<Rightarrow> string \<Rightarrow> bytes \<Rightarrow> bool option" where
  "bytes_are d k b = do { x \<leftarrow> map_of d k; Some (cbor_bytes x = Some b) }"

definition text_is :: "Doc \<Rightarrow> string \<Rightarrow> string \<Rightarrow> bool option" where
  "text_is d k t = do { x \<leftarrow> map_of d k; Some (cbor_text x = Some t) }"

definition in_window :: "Doc \<Rightarrow> string \<Rightarrow> Doc \<Rightarrow> string \<Rightarrow> Doc \<Rightarrow> string \<Rightarrow> bool option" where
  "in_window d1 k1 d2 k2 d3 k3 =
     do {
       x \<leftarrow> map_of d1 k1; y \<leftarrow> map_of d2 k2; z \<leftarrow> map_of d3 k3;
       Some (case (cbor_uint x, cbor_uint y, cbor_uint z) of (Some a, Some b, Some c) \<Rightarrow> a \<le> b \<and> b < c | _ \<Rightarrow> False) }"

definition current :: "Doc \<Rightarrow> string \<Rightarrow> string \<Rightarrow> u64 \<Rightarrow> bool option" where
  "current d k k' now =
     do {
       x \<leftarrow> map_of d k; y \<leftarrow> map_of d k';
       Some (case (cbor_uint x, cbor_uint y) of (Some a, Some b) \<Rightarrow> a \<le> now \<and> now < b | _ \<Rightarrow> False) }"

text \<open>An array of checks, all of them evaluated.\<close>

definition all_held :: "bool option list \<Rightarrow> bool option" where
  "all_held checks = map_option (list_all (\<lambda>b. b)) (collect_opt (\<lambda>c. c) checks)"

definition admin_context :: "Doc \<Rightarrow> Doc \<Rightarrow> u64 \<Rightarrow> bool option" where
  "admin_context admin picked now =
     all_held
       [text_is admin ''role'' ''agent-registrar'', current admin ''valid_from'' ''valid_to'' now,
        same picked ''tenant'' admin ''tenant'', same picked ''binding_id'' admin ''binding_id'', same picked ''credential_id'' admin ''credential_id'',
        do {
          x \<leftarrow> map_of picked ''selected_at''; y \<leftarrow> map_of admin ''valid_from'';
          Some (is_some_and (cbor_uint x) (\<lambda>t. is_none_or (cbor_uint y) (\<lambda>a. a \<le> t) \<and> t \<le> now)) }]"

definition client_binding :: "crates \<Rightarrow> (string \<times> json) list \<Rightarrow> bytes \<Rightarrow> Doc \<Rightarrow> Doc \<Rightarrow> string \<Rightarrow> bool option" where
  "client_binding C client auth admin picked orig =
     (if length auth \<noteq> 37 then Some False
      else do {
        x \<leftarrow> map_of picked ''challenge''; y \<leftarrow> map_of admin ''rp_id'';
        Some (case (cbor_bytes x, cbor_text y) of
                (Some challenge, Some rp_id) \<Rightarrow>
                  map_of client ''type'' = Some (JString ''webauthn.get'')
                  \<and> map_of client ''challenge'' = Some (JString (URL_SAFE_NO_PAD_encode C challenge))
                  \<and> map_of client ''origin'' = Some (JString orig) \<and> map_of client ''crossOrigin'' = Some (JBool False)
                  \<and> take 32 auth = sha_parts C [as_bytes rp_id]
              | _ \<Rightarrow> False) })"

definition counter_progresses :: "u64 \<Rightarrow> u64 \<Rightarrow> bool" where
  "counter_progresses previous now_at = (previous = 0 \<and> now_at = 0 \<or> now_at > previous)"

definition be_u32 :: "bytes \<Rightarrow> u64" where
  "be_u32 b = foldl (\<lambda>n x. push_bit 8 n OR ucast x) 0 b"

definition admin_flags :: "bytes \<Rightarrow> u64 \<Rightarrow> (bool \<times> bool \<times> u64) option" where
  "admin_flags auth previous =
     (if length auth \<le> 32 then None
      else
        (let flags = auth ! 32; backup_eligible = (flags AND 0x08 \<noteq> 0); backup_state = (flags AND 0x10 \<noteq> 0) in
         if \<not> (flags AND NOT 0x1d = 0 \<and> flags AND 0x05 = 0x05 \<and> (\<not> backup_state \<or> backup_eligible)) then None
         else if length auth < 37 then None
         else
           (let counter = be_u32 (take 4 (drop 33 auth)) in
            then_some (counter_progresses previous counter) (backup_eligible, backup_state, counter))))"

definition admin_p256_key :: "host \<Rightarrow> Doc \<Rightarrow> bytes option option" where
  "admin_p256_key H admin =
     do {
       v \<leftarrow> map_of admin ''cose_public_key'';
       Some (case Option.bind (cbor_bytes v) (\<lambda>raw. cwt_decode (h_reader H) raw 256) of
               Some (CMap cose) \<Rightarrow>
                 (case (Option.bind (int_entry cose (- 2)) cbor_bytes, Option.bind (int_entry cose (- 3)) cbor_bytes) of
                    (Some x, Some y) \<Rightarrow>
                      if \<not> (length cose = 5 \<and> int_entry cose 1 = Some (CInteger 2) \<and> int_entry cose 3 = Some (CInteger (- 7))
                             \<and> int_entry cose (- 1) = Some (CInteger 1)) \<or> length x \<noteq> 32 \<or> length y \<noteq> 32 then None
                      else then_some (h_p256_from_sec1 H (4 # x @ y)) (4 # x @ y)
                  | _ \<Rightarrow> None)
             | _ \<Rightarrow> None) }"

text \<open>\<open>?\<close> on an option inside a function that may panic.\<close>

definition tried :: "'a option \<Rightarrow> ('a \<Rightarrow> 'b option option) \<Rightarrow> 'b option option" where
  "tried x f = (case x of None \<Rightarrow> Some None | Some y \<Rightarrow> f y)"

definition verify_admin :: "crates \<Rightarrow> host \<Rightarrow> Doc \<Rightarrow> cbor \<Rightarrow> string \<Rightarrow> u64 \<Rightarrow> u64 \<Rightarrow> CounterState option option" where
  "verify_admin C H admin selection orig previous now =
     tried (plain selection) (\<lambda>picked. do {
       held \<leftarrow> admin_context admin picked now;
       rp \<leftarrow> map_of admin ''rp_id'';
       if \<not> (held \<and> canonical_origin orig (unwrap_or [] (cbor_text rp))) then Some None
       else do {
         raw_v \<leftarrow> map_of picked ''client_data_json'';
         tried (cbor_bytes raw_v) (\<lambda>client_raw. do {
           auth_v \<leftarrow> map_of picked ''authenticator_data'';
           tried (cbor_bytes auth_v) (\<lambda>auth. do {
             sig_v \<leftarrow> map_of picked ''signature'';
             tried (cbor_bytes sig_v) (\<lambda>sig.
               tried (strict_client_json C H client_raw) (\<lambda>client. do {
                 bound \<leftarrow> client_binding C client auth admin picked orig;
                 if \<not> bound then Some None
                 else tried (admin_flags auth previous) (\<lambda>(backup_eligible, backup_state, counter).
                   tried (h_p256_from_der H sig) (\<lambda>signature.
                     if h_p256_normalize_s H signature \<noteq> signature then Some None
                     else do {
                       key_opt \<leftarrow> admin_p256_key H admin;
                       Some (case key_opt of
                               None \<Rightarrow> None
                             | Some key \<Rightarrow> then_some (h_p256_verify H key (auth @ sha_parts C [client_raw]) signature)
                                 \<lparr>cs_before = previous, cs_after = counter, cs_backup_eligible = backup_eligible, cs_backup_state = backup_state\<rparr>) })) })) }) }) } })"

section \<open>Authority state\<close>

definition state_key :: "crates \<Rightarrow> string \<Rightarrow> bytes \<Rightarrow> bytes" where
  "state_key C what object_id = sha_parts C [as_bytes ''swarrm-authority-state/v1'' @ [0], as_bytes what, [0], object_id]"

definition PROOF_FIELDS :: "string list" where
  "PROOF_FIELDS = [''key'', ''value'', ''index'', ''tree_size'', ''path'']"

definition STATE_FIELDS :: "string list" where
  "STATE_FIELDS = [''key'', ''state'', ''version'', ''object_digest'']"

definition verify_state :: "crates \<Rightarrow> cbor \<Rightarrow> bytes \<Rightarrow> bytes \<Rightarrow> bytes \<Rightarrow> string \<Rightarrow> u64 option \<Rightarrow> bool" where
  "verify_state C proof rt expected_key digest expected_state expected_version =
     is_some_and (document proof (Some MEMBERSHIP) PROOF_FIELDS) (\<lambda>doc.
       is_some_and (fld (\<lambda>v. document v None STATE_FIELDS) doc ''value'') (\<lambda>value.
         case (fld cbor_uint doc ''index'', fld cbor_positive doc ''tree_size'', map_of doc ''path'') of
           (Some i, Some n, Some (CArray path)) \<Rightarrow>
             i < n \<and> length path \<le> 64 \<and> fld cbor_bytes doc ''key'' = Some expected_key \<and> map_of value ''key'' = map_of doc ''key''
             \<and> fld cbor_text value ''state'' = Some expected_state \<and> good cbor_positive value ''version''
             \<and> is_none_or expected_version (\<lambda>v. fld cbor_uint value ''version'' = Some v) \<and> fld cbor_bytes value ''object_digest'' = Some digest
             \<and> is_some_and (collect_opt (fixed 32) path) (\<lambda>siblings.
                 is_some_and (fld cwt_canonical doc ''value'') (\<lambda>leaf.
                   verify_inclusion (sha256 C) (sha_parts C [[0], leaf]) i n siblings rt))
         | _ \<Rightarrow> False))"

definition verify_counter_head :: "crates \<Rightarrow> cbor \<Rightarrow> bytes \<Rightarrow> bytes \<Rightarrow> u64 \<Rightarrow> bool" where
  "verify_counter_head C proof rt binding_id minimum_version =
     is_some_and (document proof (Some MEMBERSHIP) PROOF_FIELDS) (\<lambda>doc.
       is_some_and (fld (\<lambda>v. document v None STATE_FIELDS) doc ''value'') (\<lambda>value.
         case (fld cbor_positive value ''version'', fld (fixed 32) value ''object_digest'') of
           (Some vers, Some digest) \<Rightarrow>
             vers \<ge> minimum_version \<and> verify_state C proof rt (state_key C ''admin_counter'' binding_id) digest ''ACTIVE'' (Some vers)
         | _ \<Rightarrow> False))"

definition log_consistent :: "crates \<Rightarrow> cbor \<Rightarrow> u64 \<Rightarrow> u64 \<Rightarrow> bytes \<Rightarrow> bytes \<Rightarrow> bool" where
  "log_consistent C value first second first_root second_root =
     is_some_and (Option.bind (cbor_array value 64) (collect_opt (fixed 32)))
       (\<lambda>path. verify_consistency (sha256 C) first second first_root second_root path)"

definition map_value :: "(string \<times> cbor) list \<Rightarrow> cbor" where
  "map_value items = CMap (map (\<lambda>(k, v). (CText k, v)) items)"

text \<open>\<open>named_digest\<close> indexes the document; its inner option is the \<open>None\<close> of an encoding that fails.\<close>

definition named_digest :: "crates \<Rightarrow> Doc \<Rightarrow> string list \<Rightarrow> bytes \<Rightarrow> bytes option option" where
  "named_digest C doc names domain' =
     do {
       items \<leftarrow> collect_opt (\<lambda>name. map_option (\<lambda>v. (name, v)) (map_of doc name)) names;
       Some (map_option (\<lambda>b. sha_parts C [domain', b]) (cwt_canonical (map_value items))) }"

definition PROPOSAL_FIELDS :: "string list" where
  "PROPOSAL_FIELDS = [''tenant'', ''birthtag'', ''revision'', ''agent_kid'', ''agent_key'', ''owner'', ''purpose'', ''mandate_digest'',
     ''config_digest'', ''template_id'', ''template_version'', ''principal_binding_id'']"

definition ACTION_SCOPE_FIELDS :: "string list" where
  "ACTION_SCOPE_FIELDS = [''actor'', ''operation'', ''parameter_schema'', ''parameter_digest'', ''unit'', ''source'', ''destination'',
     ''counterparty'', ''recipient'', ''policy_version'', ''policy_digest'']"

definition selected_digest :: "crates \<Rightarrow> Doc \<Rightarrow> bytes option option" where
  "selected_digest C credential = named_digest C credential PROPOSAL_FIELDS (as_bytes ''swarrm-b28/agent-proposal/v1'' @ [0])"

definition action_scope_digest :: "crates \<Rightarrow> Doc \<Rightarrow> bytes option option" where
  "action_scope_digest C action = named_digest C action ACTION_SCOPE_FIELDS (as_bytes ''swarrm-b28/action-scope/v1'' @ [0])"

text \<open>\<open>&&\<close> of two checks that may panic.\<close>

definition and_then :: "bool option \<Rightarrow> bool option \<Rightarrow> bool option" where
  "and_then x y = do { a \<leftarrow> x; if a then y else Some False }"

definition successor_matches :: "crates \<Rightarrow> Doc \<Rightarrow> Cwt option \<Rightarrow> u64 \<Rightarrow> bool option" where
  "successor_matches C credential envelope now =
     do {
       digest_v \<leftarrow> map_of credential ''agent_successor_digest'';
       (case (digest_v, envelope) of
          (CNull, None) \<Rightarrow> Some True
        | (CBytes digest, Some envelope) \<Rightarrow>
            do {
              link \<leftarrow> plain (cwt_core envelope);
              and_then (Some (digest = core_digest C (cwt_core_bytes envelope)))
                (and_then (same link ''successor_birthtag'' credential ''birthtag'')
                  (and_then (same link ''successor_revision'' credential ''revision'')
                    (and_then
                      (do { v \<leftarrow> map_of link ''successor_proposal_digest''; d \<leftarrow> selected_digest C credential; Some (cbor_bytes v = d) })
                      (do { v \<leftarrow> map_of link ''effective_at''; Some (is_some_and (cbor_uint v) (\<lambda>t. t \<le> now)) })))) }
        | _ \<Rightarrow> Some False) }"

definition checkpoint_head_error :: "Doc \<Rightarrow> u64 \<Rightarrow> Head \<Rightarrow> (string \<times> string) option option" where
  "checkpoint_head_error checkpoint sequence head =
     (case head of (head_seq, head_auth, head_log, head_size) \<Rightarrow>
        if sequence < head_seq then Some (Some (''FAIL'', ''AUTHORITY_CHECKPOINT_ROLLBACK''))
        else if sequence > head_seq then Some (Some (''INDETERMINATE'', ''AUTHORITY_CHECKPOINT_AHEAD_OF_LOCAL_HEAD''))
        else do {
          agrees \<leftarrow> and_then (bytes_are checkpoint ''authority_root'' head_auth) (and_then (bytes_are checkpoint ''log_root'' head_log)
            (do { z \<leftarrow> map_of checkpoint ''log_size''; Some (cbor_uint z = Some head_size) }));
          Some (then_some (\<not> agrees) (''FAIL'', ''AUTHORITY_CHECKPOINT_FORK'')) })"

definition registration_digests_match :: "crates \<Rightarrow> Doc \<Rightarrow> bytes \<Rightarrow> bytes \<Rightarrow> bool option" where
  "registration_digests_match C credential selection pop =
     and_then (bytes_are credential ''admin_selection_digest'' (core_digest C selection)) (bytes_are credential ''agent_pop_digest'' (core_digest C pop))"


section \<open>The evaluation\<close>

datatype 'a step = Go 'a | Stop ResultValue

record ConsumeContext =
  cc_key :: "string \<times> bytes \<times> bytes \<times> bytes"
  cc_action_key :: "string \<times> bytes \<times> bytes"
  cc_action_digest :: bytes
  cc_presentation_digest :: bytes
  cc_vector :: "(string \<times> string) list"

record Evaluation =
  ev_vector :: "(string \<times> string) list"
  ev_challenge :: Cwt
  ev_challenge_doc :: Doc
  ev_action :: Doc
  ev_action_bytes :: bytes
  ev_pres :: Doc
  ev_rooted :: "(string \<times> Cwt) list"
  ev_signed :: "(string \<times> Cwt) list"
  ev_credential :: "Cwt option"
  ev_selection :: "cbor option"
  ev_selection_raw :: bytes
  ev_head_root :: bytes

definition root_cwt :: "crates \<Rightarrow> host \<Rightarrow> bytes \<Rightarrow> string \<Rightarrow> anchors \<Rightarrow> Cwt option option" where
  "root_cwt C H raw schema anchors =
     tried (inspect_cwt C (h_reader H) raw schema) (\<lambda>cwt.
       tried (map_of anchors (cwt_kid cwt)) (\<lambda>anchor.
         if \<not> cwt_signature_valid C cwt (anchor_key anchor) then Some None
         else tried (plain (cwt_core cwt)) (\<lambda>doc. do {
           v \<leftarrow> map_of doc ''organisation_root'';
           Some (Option.bind (cbor_bytes v) (\<lambda>b. then_some (b = fingerprint anchor) cwt)) })))"

definition ev_reject :: "Evaluation \<Rightarrow> string \<Rightarrow> string \<Rightarrow> 'a step option" where
  "ev_reject e verdict reason = Some (Stop (rv_new verdict reason (ev_vector e)))"

text \<open>Members of the evaluation that the source reaches through an index and an \<open>unwrap\<close>.\<close>

definition rooted_doc :: "Evaluation \<Rightarrow> string \<Rightarrow> Doc option" where
  "rooted_doc e name = do { cwt \<leftarrow> map_of (ev_rooted e) name; plain (cwt_core cwt) }"

definition signed_doc :: "Evaluation \<Rightarrow> string \<Rightarrow> Doc option" where
  "signed_doc e name = do { cwt \<leftarrow> map_of (ev_signed e) name; plain (cwt_core cwt) }"

definition credential_doc :: "Evaluation \<Rightarrow> Doc option" where
  "credential_doc e = do { cwt \<leftarrow> ev_credential e; plain (cwt_core cwt) }"

definition rooted_digest :: "crates \<Rightarrow> Evaluation \<Rightarrow> string \<Rightarrow> bytes option" where
  "rooted_digest C e name = map_option (\<lambda>cwt. core_digest C (cwt_core_bytes cwt)) (map_of (ev_rooted e) name)"

definition signed_digest :: "crates \<Rightarrow> Evaluation \<Rightarrow> string \<Rightarrow> bytes option" where
  "signed_digest C e name = map_option (\<lambda>cwt. core_digest C (cwt_core_bytes cwt)) (map_of (ev_signed e) name)"

definition ev_start :: "crates \<Rightarrow> host \<Rightarrow> InputContext \<Rightarrow> Evaluation step option" where
  "ev_start C H input =
     (let vector = initial_vector; stop = (\<lambda>verdict reason vector. Some (Stop (rv_new verdict reason vector))) in
      if ic_challenger_keys input = [] then stop ''INDETERMINATE'' ''NO_LOCAL_CHALLENGER_KEY'' vector
      else (case signed_cwt C (h_reader H) (ic_challenge input) CHALLENGE (ic_challenger_keys input) of
        None \<Rightarrow> stop ''FAIL'' ''CHALLENGE_SIGNATURE_OR_PROFILE_INVALID'' vector
      | Some challenge \<Rightarrow> do {
          challenge_doc \<leftarrow> plain (cwt_core challenge);
          challenger \<leftarrow> fld plain challenge_doc ''challenger'';
          signer_ok \<leftarrow> text_is challenger ''agent_kid'' (cwt_kid challenge);
          if \<not> signer_ok then stop ''FAIL'' ''CHALLENGE_SIGNER_MISMATCH'' vector
          else do {
            action \<leftarrow> fld plain challenge_doc ''action'';
            issued \<leftarrow> fld cbor_uint challenge_doc ''issued_at'';
            if issued > ic_now input then stop ''INDETERMINATE'' ''CHALLENGE_NOT_CURRENT'' vector
            else do {
              expires \<leftarrow> fld cbor_uint action ''expires_at'';
              if ic_now input \<ge> expires then stop ''FAIL'' ''CHALLENGE_EXPIRED'' vector
              else do {
                lifetime \<leftarrow> then_some (issued \<le> expires) (expires - issued);
                if lifetime > ic_max_action_lifetime_s input then stop ''INDETERMINATE'' ''ACTION_LIFETIME_EXCEEDS_LOCAL_POLICY'' vector
                else
                  (let vector = mark_dims vector [''challenge''] ''VERIFIED'' in
                   case inspect_cwt C (h_reader H) (ic_presentation input) PRESENTATION of
                     None \<Rightarrow> stop ''FAIL'' ''PRESENTATION_NOT_STRICT_CWT'' vector
                   | Some presentation \<Rightarrow> do {
                       pres \<leftarrow> plain (cwt_core presentation);
                       action_bytes \<leftarrow> fld cwt_canonical challenge_doc ''action'';
                       bound \<leftarrow> all_held
                         [bytes_are pres ''challenge_envelope_hash'' (sha_parts C [ic_challenge input]),
                          bytes_are pres ''challenge_digest'' (core_digest C (cwt_core_bytes challenge)),
                          bytes_are pres ''action_digest'' (core_digest C action_bytes)];
                       if \<not> bound then stop ''FAIL'' ''PRESENTATION_CHALLENGE_OR_ACTION_MISMATCH'' vector
                       else Some (Go \<lparr>ev_vector = vector, ev_challenge = challenge, ev_challenge_doc = challenge_doc, ev_action = action,
                         ev_action_bytes = action_bytes, ev_pres = pres, ev_rooted = [], ev_signed = [], ev_credential = None,
                         ev_selection = None, ev_selection_raw = [], ev_head_root = []\<rparr>) }) } } } }))"

definition ROOTED_ITEMS :: "(string \<times> string) list" where
  "ROOTED_ITEMS = [(''root_delegation'', ROOT_DELEGATION), (''registration_template'', TEMPLATE), (''admin_binding'', ADMIN_BINDING),
     (''admin_challenge'', ADMIN_CHALLENGE), (''admin_consumption'', ADMIN_CONSUMPTION), (''limit_grant'', GRANT),
     (''authority_checkpoint'', CHECKPOINT)]"

fun rooted_loop :: "crates \<Rightarrow> host \<Rightarrow> anchors \<Rightarrow> (string \<times> string) list \<Rightarrow> Evaluation \<Rightarrow> Evaluation step option" where
  "rooted_loop C H anchors [] e = Some (Go e)"
| "rooted_loop C H anchors ((name, schema) # items) e =
     do {
       v \<leftarrow> map_of (ev_pres e) name;
       r \<leftarrow> tried (cbor_bytes v) (\<lambda>raw. root_cwt C H raw schema anchors);
       (case r of
          None \<Rightarrow> ev_reject e ''FAIL'' ''ROOT_AUTHORITY_CHAIN_INVALID''
        | Some cwt \<Rightarrow> rooted_loop C H anchors items (e\<lparr>ev_rooted := btree_put name cwt (ev_rooted e)\<rparr>)) }"

definition rooted_successor :: "crates \<Rightarrow> host \<Rightarrow> anchors \<Rightarrow> Evaluation \<Rightarrow> Evaluation step option" where
  "rooted_successor C H anchors e =
     do {
       v \<leftarrow> map_of (ev_pres e) ''agent_successor'';
       (case cbor_bytes v of
          None \<Rightarrow> Some (Go e)
        | Some raw \<Rightarrow> do {
            r \<leftarrow> root_cwt C H raw AGENT_SUCCESSOR anchors;
            (case r of
               None \<Rightarrow> ev_reject e ''FAIL'' ''ROOT_AUTHORITY_CHAIN_INVALID''
             | Some cwt \<Rightarrow> Some (Go (e\<lparr>ev_rooted := btree_put ''agent_successor'' cwt (ev_rooted e)\<rparr>))) }) }"

fun substituted :: "Doc \<Rightarrow> (string \<times> Cwt) list \<Rightarrow> bool option" where
  "substituted delegation [] = Some False"
| "substituted delegation ((_, cwt) # rooted) =
     (case plain (cwt_core cwt) of
        None \<Rightarrow> Some True
      | Some doc \<Rightarrow> do {
          ok \<leftarrow> and_then (same doc ''organisation_root'' delegation ''organisation_root'') (same doc ''tenant'' delegation ''tenant'');
          if \<not> ok then Some True else substituted delegation rooted })"

text \<open>Sequencing of steps: \<open>step!\<close> of \<open>evaluate\<close>, and \<open>?\<close> inside a step.\<close>

definition go_on :: "'a step option \<Rightarrow> ('a \<Rightarrow> 'b step option) \<Rightarrow> 'b step option" where
  "go_on s f = do { r \<leftarrow> s; (case r of Stop result \<Rightarrow> Some (Stop result) | Go x \<Rightarrow> f x) }"

definition ev_verified :: "Evaluation \<Rightarrow> string list \<Rightarrow> Evaluation step option" where
  "ev_verified e names = Some (Go (e\<lparr>ev_vector := mark_dims (ev_vector e) names ''VERIFIED''\<rparr>))"

definition ev_roots :: "crates \<Rightarrow> host \<Rightarrow> InputContext \<Rightarrow> Evaluation \<Rightarrow> Evaluation step option" where
  "ev_roots C H input e0 =
     go_on (rooted_loop C H (ic_roots input) ROOTED_ITEMS e0) (\<lambda>e1.
     go_on (rooted_successor C H (ic_roots input) e1) (\<lambda>e. do {
       delegation \<leftarrow> rooted_doc e ''root_delegation'';
       subst \<leftarrow> substituted delegation (ev_rooted e);
       if subst then ev_reject e ''FAIL'' ''ROOT_OR_TENANT_SUBSTITUTION''
       else do {
         actor \<leftarrow> fld plain (ev_action e) ''actor'';
         org_ok \<leftarrow> same actor ''organisation_root'' delegation ''organisation_root'';
         if \<not> org_ok then ev_reject e ''FAIL'' ''ACTOR_ORGANISATION_MISMATCH''
         else do {
           live \<leftarrow> current delegation ''valid_from'' ''valid_to'' (ic_now input);
           if \<not> live then ev_reject e ''FAIL'' ''AUTHORITY_DELEGATION_INACTIVE''
           else ev_verified e [''root_chain'', ''delegation''] } } }))"

fun signed_loop :: "crates \<Rightarrow> host \<Rightarrow> (string \<times> string \<times> keymap) list \<Rightarrow> Evaluation \<Rightarrow> Evaluation step option" where
  "signed_loop C H [] e = Some (Go e)"
| "signed_loop C H ((name, schema, keys) # items) e =
     do {
       v \<leftarrow> map_of (ev_pres e) name;
       (case Option.bind (cbor_bytes v) (\<lambda>raw. signed_cwt C (h_reader H) raw schema keys) of
          None \<Rightarrow> ev_reject e ''FAIL'' ''DELEGATED_OR_AGENT_SIGNATURE_INVALID''
        | Some cwt \<Rightarrow> signed_loop C H items (e\<lparr>ev_signed := btree_put name cwt (ev_signed e)\<rparr>)) }"

definition ev_signatures :: "crates \<Rightarrow> host \<Rightarrow> InputContext \<Rightarrow> Evaluation \<Rightarrow> Evaluation step option" where
  "ev_signatures C H input e =
     (let bad = ev_reject e ''FAIL'' ''DELEGATED_OR_AGENT_SIGNATURE_INVALID'' in
      do {
        delegation \<leftarrow> rooted_doc e ''root_delegation'';
        psa_kid \<leftarrow> fld cbor_text delegation ''passport_authority_kid'';
        psa_key \<leftarrow> fld cbor_bytes delegation ''passport_authority_key'';
        action_kid \<leftarrow> fld cbor_text delegation ''action_authority_kid'';
        action_key \<leftarrow> fld cbor_bytes delegation ''action_authority_key'';
        passport \<leftarrow> map_of (ev_pres e) ''passport'';
        (case Option.bind (cbor_bytes passport) (\<lambda>raw. signed_cwt C (h_reader H) raw CREDENTIAL [(psa_kid, psa_key)]) of
           None \<Rightarrow> bad
         | Some credential \<Rightarrow> do {
             proof_v \<leftarrow> map_of (ev_pres e) ''passport_holder_proof'';
             (case Option.bind (cbor_bytes proof_v) (\<lambda>raw. inspect_cwt C (h_reader H) raw CREDENTIAL) of
                None \<Rightarrow> bad
              | Some holder \<Rightarrow>
                  if cwt_core holder \<noteq> cwt_core credential then ev_reject e ''FAIL'' ''PASSPORT_HOLDER_CORE_MISMATCH''
                  else do {
                    doc \<leftarrow> plain (cwt_core credential);
                    agent_kid \<leftarrow> fld cbor_text doc ''agent_kid'';
                    agent_key \<leftarrow> fld cbor_bytes doc ''agent_key'';
                    go_on (signed_loop C H
                        [(''passport_holder_proof'', CREDENTIAL, [(agent_kid, agent_key)]), (''agent_pop'', AGENT_POP, [(agent_kid, agent_key)]),
                         (''status_snapshot'', SNAPSHOT, [(psa_kid, psa_key)]), (''asa'', ASA, [(action_kid, action_key)])] e)
                      (\<lambda>e'. if signed_cwt C (h_reader H) (ic_presentation input) PRESENTATION [(agent_kid, agent_key)] = None
                         then ev_reject e' ''FAIL'' ''DELEGATED_OR_AGENT_SIGNATURE_INVALID''
                         else ev_verified (e'\<lparr>ev_credential := Some credential\<rparr>) [''live_key_control'', ''passport_identity'']) }) }) })"

definition ev_passport :: "crates \<Rightarrow> InputContext \<Rightarrow> Evaluation \<Rightarrow> Evaluation step option" where
  "ev_passport C input e =
     do {
       credential \<leftarrow> credential_doc e;
       delegation \<leftarrow> rooted_doc e ''root_delegation'';
       template \<leftarrow> rooted_doc e ''registration_template'';
       actor \<leftarrow> fld plain (ev_action e) ''actor'';
       agree \<leftarrow> all_held
         [same credential ''organisation_root'' delegation ''organisation_root'', same credential ''tenant'' delegation ''tenant'',
          same credential ''authority_delegation_id'' delegation ''delegation_id'', same credential ''birthtag'' actor ''birthtag'',
          same credential ''revision'' actor ''revision'', same credential ''agent_kid'' actor ''agent_kid''];
       distinct_roles \<leftarrow> and_then (map_option Not (same credential ''agent_key'' delegation ''passport_authority_key''))
         (map_option Not (same credential ''agent_key'' delegation ''action_authority_key''));
       live \<leftarrow> current credential ''valid_from'' ''valid_to'' (ic_now input);
       if \<not> distinct_roles then ev_reject e ''FAIL'' ''AUTHORITY_KEY_ROLE_COLLISION''
       else if \<not> agree \<or> \<not> live then ev_reject e ''FAIL'' ''PASSPORT_BINDING_OR_VALIDITY_INVALID''
       else do {
         successor_ok \<leftarrow> successor_matches C credential (map_of (ev_rooted e) ''agent_successor'') (ic_now input);
         if \<not> successor_ok then ev_reject e ''FAIL'' ''AGENT_SUCCESSOR_INVALID''
         else do {
           template_live \<leftarrow> current template ''valid_from'' ''valid_to'' (ic_now input);
           template_ok \<leftarrow> foldr and_then (map (\<lambda>name. same credential name template name)
             [''template_id'', ''template_version'', ''owner'', ''purpose'', ''mandate_digest'', ''config_digest'']) (Some True);
           if \<not> template_ok \<or> \<not> template_live then ev_reject e ''FAIL'' ''PASSPORT_TEMPLATE_MISMATCH''
           else ev_verified e [''binding''] } } }"


definition registration_checks :: "bytes \<Rightarrow> Doc \<Rightarrow> Doc \<Rightarrow> Doc \<Rightarrow> Doc \<Rightarrow> Doc \<Rightarrow> Doc \<Rightarrow> bool option list" where
  "registration_checks proposal selection template admin credential challenge pop =
     [bytes_are selection ''proposed_agent_digest'' proposal, same selection ''template_id'' template ''template_id'',
      same selection ''template_version'' template ''template_version'', same selection ''binding_id'' admin ''binding_id'',
      same credential ''principal_binding_id'' admin ''binding_id'', same selection ''challenge_id'' challenge ''challenge_id'',
      same selection ''challenge'' challenge ''challenge'', same selection ''binding_id'' challenge ''binding_id'',
      same selection ''template_id'' challenge ''template_id'', same selection ''template_version'' challenge ''template_version'',
      same selection ''proposed_agent_digest'' challenge ''proposed_agent_digest'', bytes_are pop ''proposed_agent_digest'' proposal,
      same pop ''challenge'' selection ''challenge'', same pop ''birthtag'' credential ''birthtag'', same pop ''revision'' credential ''revision'',
      same pop ''agent_kid'' credential ''agent_kid'', same challenge ''tenant'' credential ''tenant'',
      same challenge ''organisation_root'' credential ''organisation_root'',
      in_window admin ''valid_from'' challenge ''issued_at'' admin ''valid_to'',
      in_window challenge ''issued_at'' selection ''selected_at'' challenge ''expires_at'']"

definition consumption_checks :: "bytes \<Rightarrow> bytes \<Rightarrow> bytes \<Rightarrow> u64 \<Rightarrow> Doc \<Rightarrow> Doc \<Rightarrow> Doc \<Rightarrow> Doc \<Rightarrow> bool option list" where
  "consumption_checks challenge_digest selection_digest credential_digest now consumption challenge admin selection =
     [same consumption ''tenant'' challenge ''tenant'', same consumption ''organisation_root'' challenge ''organisation_root'',
      same consumption ''binding_id'' admin ''binding_id'', same consumption ''challenge_id'' challenge ''challenge_id'',
      bytes_are consumption ''challenge_digest'' challenge_digest, bytes_are consumption ''selection_digest'' selection_digest,
      bytes_are consumption ''credential_digest'' credential_digest,
      do {
        x \<leftarrow> map_of selection ''selected_at''; y \<leftarrow> map_of consumption ''consumed_at''; z \<leftarrow> map_of challenge ''expires_at'';
        Some (case (cbor_uint x, cbor_uint y, cbor_uint z) of (Some a, Some b, Some c) \<Rightarrow> a \<le> b \<and> b \<le> now \<and> b < c | _ \<Rightarrow> False) }]"

definition consumed_state :: "Doc \<Rightarrow> CounterState option" where
  "consumed_state consumption =
     do {
       eligible \<leftarrow> map_of consumption ''backup_eligible'';
       state \<leftarrow> map_of consumption ''backup_state'';
       (case (eligible, state) of
          (CBool backup_eligible, CBool backup_state) \<Rightarrow> do {
            before \<leftarrow> fld cbor_uint consumption ''sign_count_before'';
            after \<leftarrow> fld cbor_uint consumption ''sign_count_after'';
            Some \<lparr>cs_before = before, cs_after = after, cs_backup_eligible = backup_eligible, cs_backup_state = backup_state\<rparr> }
        | _ \<Rightarrow> None) }"

definition ev_registration :: "crates \<Rightarrow> host \<Rightarrow> InputContext \<Rightarrow> Evaluation \<Rightarrow> Evaluation step option" where
  "ev_registration C H input e0 =
     do {
       credential \<leftarrow> credential_doc e0;
       template \<leftarrow> rooted_doc e0 ''registration_template'';
       admin \<leftarrow> rooted_doc e0 ''admin_binding'';
       challenge \<leftarrow> rooted_doc e0 ''admin_challenge'';
       consumption \<leftarrow> rooted_doc e0 ''admin_consumption'';
       pop \<leftarrow> signed_doc e0 ''agent_pop'';
       raw \<leftarrow> fld cbor_bytes (ev_pres e0) ''admin_selection'';
       (let e = e0\<lparr>ev_selection_raw := raw\<rparr> in
        case ofilter validate_selection (cwt_decode (h_reader H) raw 16384) of
          None \<Rightarrow> ev_reject e ''FAIL'' ''TEMPLATE_ADMIN_POP_ISSUANCE_INVALID''
        | Some selection_value \<Rightarrow> do {
            selection \<leftarrow> plain selection_value;
            proposal_opt \<leftarrow> selected_digest C credential;
            proposal \<leftarrow> proposal_opt;
            held \<leftarrow> all_held (registration_checks proposal selection template admin credential challenge pop);
            if \<not> held then ev_reject e ''FAIL'' ''TEMPLATE_ADMIN_POP_ISSUANCE_INVALID''
            else do {
              signed_state \<leftarrow> consumed_state consumption;
              admin_state \<leftarrow> verify_admin C H admin selection_value (ic_origin input) (cs_before signed_state) (ic_now input);
              if admin_state \<noteq> Some signed_state then ev_reject e ''FAIL'' ''TEMPLATE_ADMIN_POP_CONSUMPTION_INVALID''
              else do {
                pop_cwt \<leftarrow> map_of (ev_signed e) ''agent_pop'';
                digests_ok \<leftarrow> registration_digests_match C credential raw (cwt_core_bytes pop_cwt);
                if \<not> digests_ok then ev_reject e ''FAIL'' ''TEMPLATE_ADMIN_POP_ISSUANCE_INVALID''
                else do {
                  challenge_digest \<leftarrow> rooted_digest C e ''admin_challenge'';
                  credential_cwt \<leftarrow> ev_credential e;
                  consumed \<leftarrow> all_held (consumption_checks challenge_digest (core_digest C raw) (core_digest C (cwt_core_bytes credential_cwt))
                    (ic_now input) consumption challenge admin selection);
                  if \<not> consumed then ev_reject e ''FAIL'' ''TEMPLATE_ADMIN_POP_CONSUMPTION_INVALID''
                  else ev_verified (e\<lparr>ev_selection := Some selection_value\<rparr>) [''template_admin_pop''] } } } }) }"

definition snapshot_checks :: "crates \<Rightarrow> bytes \<Rightarrow> bytes \<Rightarrow> Doc \<Rightarrow> Doc \<Rightarrow> Doc \<Rightarrow> bool option list" where
  "snapshot_checks C digest proof_bytes snapshot checkpoint delegation =
     [same snapshot ''organisation_root'' checkpoint ''organisation_root'', same snapshot ''tenant'' checkpoint ''tenant'',
      same snapshot ''authority_delegation_id'' delegation ''delegation_id'', bytes_are snapshot ''checkpoint_digest'' digest,
      bytes_are snapshot ''proofs_digest'' (sha_parts C [as_bytes ''swarrm-b28/proofs/v1'' @ [0], proof_bytes])]"

definition ev_checkpoint :: "crates \<Rightarrow> InputContext \<Rightarrow> Evaluation \<Rightarrow> Evaluation step option" where
  "ev_checkpoint C input e =
     do {
       checkpoint \<leftarrow> rooted_doc e ''authority_checkpoint'';
       credential \<leftarrow> credential_doc e;
       delegation \<leftarrow> rooted_doc e ''root_delegation'';
       digest \<leftarrow> rooted_digest C e ''authority_checkpoint'';
       tenant \<leftarrow> fld cbor_text checkpoint ''tenant'';
       org \<leftarrow> fld cbor_bytes checkpoint ''organisation_root'';
       sequence \<leftarrow> fld cbor_uint checkpoint ''sequence'';
       authority_root \<leftarrow> fld cbor_bytes checkpoint ''authority_root'';
       log_root \<leftarrow> fld cbor_bytes checkpoint ''log_root'';
       log_size \<leftarrow> fld cbor_uint checkpoint ''log_size'';
       if map_of (ic_checkpoints input) digest \<noteq> Some (tenant, org, sequence, authority_root, log_root, log_size)
       then ev_reject e ''INDETERMINATE'' ''AUTHORITY_CHECKPOINT_UNREGISTERED''
       else (case map_of (ic_heads input) (tenant, org) of
         None \<Rightarrow> ev_reject e ''INDETERMINATE'' ''LOCAL_AUTHORITY_HEAD_UNAVAILABLE''
       | Some head \<Rightarrow> do {
           head_error \<leftarrow> checkpoint_head_error checkpoint sequence head;
           (case head_error of
              Some (verdict, reason) \<Rightarrow> ev_reject e verdict reason
            | None \<Rightarrow> do {
                issuance \<leftarrow> fld cbor_bytes credential ''issuance_checkpoint'';
                (case ofilter (\<lambda>(t, o', s, _). t = tenant \<and> o' = org \<and> s \<le> sequence) (map_of (ic_checkpoints input) issuance) of
                   None \<Rightarrow> ev_reject e ''INDETERMINATE'' ''PASSPORT_ISSUANCE_CHECKPOINT_UNREGISTERED''
                 | Some (_, _, _, _, issued_log_root, issued_log_size) \<Rightarrow> do {
                     consistency \<leftarrow> map_of (ev_pres e) ''issuance_consistency_proof'';
                     if \<not> log_consistent C consistency issued_log_size log_size issued_log_root log_root
                     then ev_reject e ''FAIL'' ''PASSPORT_ISSUANCE_LOG_NOT_ANCESTOR''
                     else do {
                       snapshot \<leftarrow> signed_doc e ''status_snapshot'';
                       proof_bytes \<leftarrow> fld cwt_canonical (ev_pres e) ''state_proofs'';
                       bound \<leftarrow> all_held (snapshot_checks C digest proof_bytes snapshot checkpoint delegation);
                       if \<not> bound then ev_reject e ''FAIL'' ''STATUS_CHECKPOINT_BINDING_INVALID''
                       else do {
                         issued_at \<leftarrow> fld cbor_uint checkpoint ''issued_at'';
                         max_age \<leftarrow> (if issued_at \<le> ic_now input then fld cbor_uint (ev_challenge_doc e) ''max_checkpoint_age'' else Some 0);
                         if issued_at > ic_now input \<or> ic_now input - issued_at > max_age then ev_reject e ''INDETERMINATE'' ''STATUS_CHECKPOINT_STALE''
                         else do {
                           same_time \<leftarrow> same checkpoint ''issued_at'' snapshot ''status_as_of'';
                           if \<not> same_time then ev_reject e ''FAIL'' ''STATUS_CHECKPOINT_BINDING_INVALID''
                           else do {
                             snapshot_expires \<leftarrow> fld cbor_uint snapshot ''expires_at'';
                             if ic_now input \<ge> snapshot_expires then ev_reject e ''INDETERMINATE'' ''STATUS_CHECKPOINT_STALE''
                             else Some (Go (e\<lparr>ev_head_root := fst (snd head)\<rparr>)) } } } } }) }) }) }"

text \<open>One row of the table of objects: the member of the proofs, the kind and identifier of the object, its digest, state and version.\<close>

type_synonym state_object = "string \<times> string \<times> bytes \<times> bytes \<times> string \<times> u64 option"

fun objects_loop :: "crates \<Rightarrow> Doc \<Rightarrow> state_object list \<Rightarrow> Evaluation \<Rightarrow> Evaluation step option" where
  "objects_loop C proofs [] e = Some (Go e)"
| "objects_loop C proofs ((name, what, ident, digest, state, vers) # objects) e =
     do {
       proof_v \<leftarrow> map_of proofs name;
       if \<not> verify_state C proof_v (ev_head_root e) (state_key C what ident) digest state vers
       then ev_reject e ''FAIL'' (''AUTHORITY_STATE_PROOF_INVALID:'' @ name)
       else objects_loop C proofs objects e }"

text \<open>\<open>try_into().unwrap()\<close> to 32 bytes.\<close>

definition digest32 :: "bytes \<Rightarrow> bytes option" where
  "digest32 b = then_some (length b = 32) b"

definition state_objects :: "crates \<Rightarrow> Evaluation \<Rightarrow> state_object list option" where
  "state_objects C e =
     do {
       credential \<leftarrow> credential_doc e;
       delegation \<leftarrow> rooted_doc e ''root_delegation'';
       template \<leftarrow> rooted_doc e ''registration_template'';
       admin \<leftarrow> rooted_doc e ''admin_binding'';
       grant \<leftarrow> rooted_doc e ''limit_grant'';
       selection \<leftarrow> Option.bind (ev_selection e) plain;
       admin_challenge \<leftarrow> rooted_doc e ''admin_challenge'';
       admin_consumption \<leftarrow> rooted_doc e ''admin_consumption'';
       birthtag \<leftarrow> fld cbor_bytes credential ''birthtag'';
       revision_no \<leftarrow> fld cbor_uint credential ''revision'';
       selection_id \<leftarrow> fld cbor_bytes selection ''challenge_id'';
       grant_id \<leftarrow> fld cbor_bytes grant ''grant_id'';
       grant_version \<leftarrow> fld cbor_uint grant ''grant_version'';
       delegation_id \<leftarrow> fld cbor_bytes delegation ''delegation_id'';
       delegation_digest \<leftarrow> rooted_digest C e ''root_delegation'';
       template_id \<leftarrow> fld cbor_bytes template ''template_id'';
       template_digest \<leftarrow> rooted_digest C e ''registration_template'';
       mandate \<leftarrow> fld cbor_bytes template ''mandate_digest'';
       mandate_digest \<leftarrow> digest32 mandate;
       config \<leftarrow> fld cbor_bytes template ''config_digest'';
       config_digest \<leftarrow> digest32 config;
       binding_id \<leftarrow> fld cbor_bytes admin ''binding_id'';
       binding_digest \<leftarrow> rooted_digest C e ''admin_binding'';
       challenge_id \<leftarrow> fld cbor_bytes admin_challenge ''challenge_id'';
       challenge_digest \<leftarrow> rooted_digest C e ''admin_challenge'';
       consumption_id \<leftarrow> fld cbor_bytes admin_consumption ''challenge_id'';
       consumption_digest \<leftarrow> rooted_digest C e ''admin_consumption'';
       pop_digest \<leftarrow> signed_digest C e ''agent_pop'';
       credential_cwt \<leftarrow> ev_credential e;
       grant_digest \<leftarrow> rooted_digest C e ''limit_grant'';
       Some
         [(''root_delegation'', ''root_delegation'', delegation_id, delegation_digest, ''ACTIVE'', None),
          (''registration_template'', ''registration_template'', template_id, template_digest, ''ACTIVE'', None),
          (''mandate'', ''mandate'', mandate, mandate_digest, ''ACTIVE'', None),
          (''agent_config'', ''agent_config'', config, config_digest, ''ACTIVE'', None),
          (''admin_binding'', ''admin_binding'', binding_id, binding_digest, ''ACTIVE'', None),
          (''admin_selection'', ''admin_selection'', selection_id, core_digest C (ev_selection_raw e), ''ACTIVE'', None),
          (''admin_challenge'', ''admin_challenge'', challenge_id, challenge_digest, ''SUPERSEDED'', None),
          (''admin_consumption'', ''admin_consumption'', consumption_id, consumption_digest, ''ACTIVE'', None),
          (''agent_pop'', ''agent_pop'', birthtag @ be_bytes 8 revision_no, pop_digest, ''ACTIVE'', None),
          (''passport'', ''agent_credential'', birthtag @ be_bytes 8 revision_no, core_digest C (cwt_core_bytes credential_cwt), ''ACTIVE'', None),
          (''agent_head'', ''agent_head'', birthtag, core_digest C (cwt_core_bytes credential_cwt), ''ACTIVE'', Some revision_no),
          (''limit_grant'', ''limit_grant'', grant_id @ be_bytes 8 grant_version, grant_digest, ''ACTIVE'', None),
          (''grant_head'', ''grant_head'', grant_id, grant_digest, ''ACTIVE'', None)] }"

definition successor_proofs :: "crates \<Rightarrow> Doc \<Rightarrow> Evaluation \<Rightarrow> Evaluation step option" where
  "successor_proofs C proofs e =
     (case map_of (ev_rooted e) ''agent_successor'' of
        Some envelope \<Rightarrow> do {
          credential \<leftarrow> credential_doc e;
          link \<leftarrow> plain (cwt_core envelope);
          successor_proof \<leftarrow> map_of proofs ''agent_successor'';
          birthtag \<leftarrow> fld cbor_bytes credential ''birthtag'';
          predecessor_proof \<leftarrow> map_of proofs ''predecessor_head'';
          predecessor_tag \<leftarrow> fld cbor_bytes link ''predecessor_birthtag'';
          predecessor_digest \<leftarrow> fld cbor_bytes link ''predecessor_credential_digest'';
          predecessor_revision \<leftarrow> map_of link ''predecessor_revision'';
          (let successor = verify_state C successor_proof (ev_head_root e) (state_key C ''agent_successor'' birthtag)
                 (core_digest C (cwt_core_bytes envelope)) ''ACTIVE'' (Some 1);
               predecessor = verify_state C predecessor_proof (ev_head_root e) (state_key C ''agent_head'' predecessor_tag)
                 predecessor_digest ''SUPERSEDED''
                 (Option.bind (cbor_uint predecessor_revision) (\<lambda>v. then_some (v \<noteq> - 1) (v + 1))) in
           if \<not> successor \<or> \<not> predecessor
           then ev_reject e ''FAIL'' (if \<not> successor then ''AUTHORITY_STATE_PROOF_INVALID:agent_successor'' else ''AUTHORITY_STATE_PROOF_INVALID:predecessor_head'')
           else Some (Go e)) }
      | None \<Rightarrow> do {
          absent_both \<leftarrow> and_then (map_option (\<lambda>v. v = CNull) (map_of proofs ''agent_successor'')) (map_option (\<lambda>v. v = CNull) (map_of proofs ''predecessor_head''));
          if \<not> absent_both then ev_reject e ''FAIL'' ''AGENT_SUCCESSOR_INVALID'' else Some (Go e) })"

definition ev_authority_proofs :: "crates \<Rightarrow> Evaluation \<Rightarrow> Evaluation step option" where
  "ev_authority_proofs C e0 =
     do {
       objects \<leftarrow> state_objects C e0;
       proofs \<leftarrow> fld plain (ev_pres e0) ''state_proofs'';
       go_on (objects_loop C proofs objects e0) (\<lambda>e1.
       go_on (successor_proofs C proofs e1) (\<lambda>e. do {
         counter_proof \<leftarrow> map_of proofs ''admin_counter'';
         consumption \<leftarrow> rooted_doc e ''admin_consumption'';
         binding_id \<leftarrow> fld cbor_bytes consumption ''binding_id'';
         counter_version \<leftarrow> fld cbor_uint consumption ''counter_version'';
         if \<not> verify_counter_head C counter_proof (ev_head_root e) binding_id counter_version
         then ev_reject e ''FAIL'' ''AUTHORITY_STATE_PROOF_INVALID:admin_counter''
         else ev_verified e [''fresh_status''] })) }"

definition grant_checks :: "bytes \<Rightarrow> u64 \<Rightarrow> Doc \<Rightarrow> Doc \<Rightarrow> Doc \<Rightarrow> Doc \<Rightarrow> Doc \<Rightarrow> bool option list" where
  "grant_checks action_scope now grant delegation actor recipient action =
     [same grant ''tenant'' delegation ''tenant'', same grant ''organisation_root'' delegation ''organisation_root'',
      same grant ''authority_delegation_id'' delegation ''delegation_id'', same grant ''actor_birthtag'' actor ''birthtag'',
      same grant ''recipient_organisation_root'' recipient ''organisation_root'', same grant ''operation'' action ''operation'',
      same grant ''unit'' action ''unit'', bytes_are grant ''action_scope_digest'' action_scope, same grant ''grant_id'' action ''grant_id'',
      same grant ''grant_version'' action ''grant_version'', current grant ''valid_from'' ''valid_to'' now,
      current grant ''window_start'' ''window_end'' now,
      do { v \<leftarrow> map_of action ''value''; c \<leftarrow> map_of grant ''ceiling''; Some (decimal_at_most v c) }]"

definition asa_checks :: "bytes \<Rightarrow> bytes \<Rightarrow> u64 \<Rightarrow> Doc \<Rightarrow> Doc \<Rightarrow> Doc \<Rightarrow> bool option list" where
  "asa_checks action_digest challenge_digest now asa delegation action =
     [same asa ''organisation_root'' delegation ''organisation_root'', same asa ''tenant'' delegation ''tenant'',
      same asa ''authority_delegation_id'' delegation ''delegation_id'', same asa ''asa_id'' action ''asa_id'',
      bytes_are asa ''action_digest'' action_digest, bytes_are asa ''challenge_digest'' challenge_digest,
      same asa ''grant_id'' action ''grant_id'', same asa ''grant_version'' action ''grant_version'', same asa ''expires_at'' action ''expires_at'',
      current asa ''issued_at'' ''expires_at'' now]"

definition ev_exact_action :: "crates \<Rightarrow> InputContext \<Rightarrow> Evaluation \<Rightarrow> Evaluation step option" where
  "ev_exact_action C input e =
     do {
       delegation \<leftarrow> rooted_doc e ''root_delegation'';
       grant \<leftarrow> rooted_doc e ''limit_grant'';
       actor \<leftarrow> fld plain (ev_action e) ''actor'';
       recipient \<leftarrow> fld plain (ev_action e) ''recipient'';
       scope_opt \<leftarrow> action_scope_digest C (ev_action e);
       action_scope \<leftarrow> scope_opt;
       granted \<leftarrow> all_held (grant_checks action_scope (ic_now input) grant delegation actor recipient (ev_action e));
       if \<not> granted then ev_reject e ''FAIL'' ''ACTION_OUTSIDE_ROOT_LIMIT_GRANT''
       else
         (let e = e\<lparr>ev_vector := mark_dims (ev_vector e) [''grant''] ''VERIFIED''\<rparr> in
          do {
            asa \<leftarrow> signed_doc e ''asa'';
            exact \<leftarrow> all_held (asa_checks (core_digest C (ev_action_bytes e)) (core_digest C (cwt_core_bytes (ev_challenge e))) (ic_now input) asa delegation (ev_action e));
            if \<not> exact then ev_reject e ''FAIL'' ''ASA_EXACT_BINDING_OR_VALIDITY_INVALID''
            else ev_verified e [''asa_reservation'', ''exact_action''] }) }"

definition transcript_value :: "crates \<Rightarrow> bytes \<Rightarrow> bytes \<Rightarrow> bytes \<Rightarrow> bytes \<Rightarrow> bytes \<Rightarrow> cbor" where
  "transcript_value C challenge challenge_core action_bytes asa_raw asa_core = map_value
     [(''schema'', CText ''swarrm-b28/transcript/v1''), (''challenge_envelope_hash'', CBytes (sha_parts C [challenge])),
      (''challenge_digest'', CBytes (core_digest C challenge_core)), (''action_digest'', CBytes (core_digest C action_bytes)),
      (''asa_envelope_hash'', CBytes (sha_parts C [asa_raw])), (''asa_digest'', CBytes (core_digest C asa_core))]"

fun joined :: "string list \<Rightarrow> string" where
  "joined [] = []"
| "joined [x] = x"
| "joined (x # xs) = x @ '','' @ joined xs"

definition ev_finish :: "crates \<Rightarrow> InputContext \<Rightarrow> Evaluation \<Rightarrow> ConsumeContext step option" where
  "ev_finish C input e0 =
     do {
       delegation \<leftarrow> rooted_doc e0 ''root_delegation'';
       asa_raw \<leftarrow> fld cbor_bytes (ev_pres e0) ''asa'';
       asa_cwt \<leftarrow> map_of (ev_signed e0) ''asa'';
       transcript \<leftarrow> cwt_canonical (transcript_value C (ic_challenge input) (cwt_core_bytes (ev_challenge e0)) (ev_action_bytes e0) asa_raw (cwt_core_bytes asa_cwt));
       transcript_ok \<leftarrow> bytes_are (ev_pres e0) ''transcript_digest'' (sha_parts C [as_bytes ''swarrm-b28/transcript/v1'' @ [0], transcript]);
       if \<not> transcript_ok then ev_reject e0 ''FAIL'' ''TRANSCRIPT_BINDING_INVALID''
       else do {
         in_time \<leftarrow> in_window (ev_challenge_doc e0) ''issued_at'' (ev_pres e0) ''created_at'' (ev_action e0) ''expires_at'';
         if \<not> in_time then ev_reject e0 ''FAIL'' ''PRESENTATION_TIME_OUTSIDE_CHALLENGE''
         else do {
           asa \<leftarrow> plain (cwt_core asa_cwt);
           checkpoint \<leftarrow> rooted_doc e0 ''authority_checkpoint'';
           snapshot \<leftarrow> signed_doc e0 ''status_snapshot'';
           created_at \<leftarrow> fld cbor_uint (ev_pres e0) ''created_at'';
           x \<leftarrow> map_of asa ''issued_at'';
           y \<leftarrow> map_of checkpoint ''issued_at'';
           z \<leftarrow> map_of snapshot ''status_as_of'';
           if \<not> (case (cbor_uint x, cbor_uint y, cbor_uint z) of
                 (Some a, Some b, Some c) \<Rightarrow> a \<le> created_at \<and> b \<le> created_at \<and> c \<le> created_at | _ \<Rightarrow> False)
           then ev_reject e0 ''FAIL'' ''PRESENTATION_TIME_OUTSIDE_ASSURANCE''
           else if created_at > ic_now input then ev_reject e0 ''FAIL'' ''PRESENTATION_TIME_OUTSIDE_LOCAL_CLOCK''
           else
             (let e = e0\<lparr>ev_vector := mark_dims (ev_vector e0) [''transcript''] ''VERIFIED''\<rparr> in
              do {
                required_v \<leftarrow> map_of (ev_challenge_doc e) ''required_dimensions'';
                required \<leftarrow> (case required_v of CArray r \<Rightarrow> Some r | _ \<Rightarrow> None);
                (let unavailable = filter (\<lambda>name. name \<in> set UNEVALUATED) (List.map_filter cbor_text required) in
                 if unavailable \<noteq> [] then ev_reject e ''INDETERMINATE'' (''REQUIRED_DIMENSION_NOT_EVALUATED_V1:'' @ joined unavailable)
                 else do {
                   actor \<leftarrow> fld plain (ev_action e) ''actor'';
                   tenant \<leftarrow> fld cbor_text delegation ''tenant'';
                   org \<leftarrow> fld cbor_bytes delegation ''organisation_root'';
                   delegation_id \<leftarrow> fld cbor_bytes delegation ''delegation_id'';
                   asa_id \<leftarrow> fld cbor_bytes (ev_action e) ''asa_id'';
                   actor_org \<leftarrow> fld cbor_bytes actor ''organisation_root'';
                   action_id \<leftarrow> fld cbor_bytes (ev_action e) ''action_id'';
                   Some (Go \<lparr>cc_key = (tenant, org, delegation_id, asa_id), cc_action_key = (tenant, actor_org, action_id),
                     cc_action_digest = core_digest C (ev_action_bytes e), cc_presentation_digest = sha_parts C [ic_presentation input],
                     cc_vector = ev_vector e\<rparr>) }) }) } } }"

definition evaluation :: "crates \<Rightarrow> host \<Rightarrow> InputContext \<Rightarrow> ConsumeContext step option" where
  "evaluation C H input =
     go_on (ev_start C H input) (\<lambda>e. go_on (ev_roots C H input e) (\<lambda>e. go_on (ev_signatures C H input e) (\<lambda>e.
     go_on (ev_passport C input e) (\<lambda>e. go_on (ev_registration C H input e) (\<lambda>e. go_on (ev_checkpoint C input e) (\<lambda>e.
     go_on (ev_authority_proofs C e) (\<lambda>e. go_on (ev_exact_action C input e) (ev_finish C input))))))))"

definition evaluate :: "crates \<Rightarrow> host \<Rightarrow> InputContext \<Rightarrow> (ResultValue \<times> ConsumeContext option) option" where
  "evaluate C H input =
     map_option (\<lambda>r. case r of
         Go context \<Rightarrow> (rv_new ''INDETERMINATE'' ''DURABLE_REPLAY_REQUIRED'' (cc_vector context), Some context)
       | Stop result \<Rightarrow> (result, None)) (evaluation C H input)"

section \<open>Refusals and the entry point\<close>

definition refusal_time_reason :: "Doc \<Rightarrow> Doc \<Rightarrow> Doc \<Rightarrow> u64 \<Rightarrow> string option option" where
  "refusal_time_reason challenge refusal action now =
     do {
       created_v \<leftarrow> map_of refusal ''created_at'';
       (case cbor_uint created_v of
          None \<Rightarrow> Some (Some ''REFUSAL_TIME_OUTSIDE_LOCAL_CLOCK'')
        | Some created \<Rightarrow>
            if created > now then Some (Some ''REFUSAL_TIME_OUTSIDE_LOCAL_CLOCK'')
            else do {
              x \<leftarrow> map_of challenge ''issued_at''; y \<leftarrow> map_of action ''expires_at'';
              Some (then_some (\<not> (case (cbor_uint x, cbor_uint y) of (Some a, Some b) \<Rightarrow> a \<le> created \<and> created < b | _ \<Rightarrow> False))
                ''REFUSAL_TIME_OUTSIDE_CHALLENGE'') }) }"

definition evaluate_refusal :: "crates \<Rightarrow> host \<Rightarrow> RefusalContext \<Rightarrow> ResultValue option" where
  "evaluate_refusal C H input =
     (let vector = initial_vector in
      if rc_challenger_keys input = [] then Some (rv_new ''INDETERMINATE'' ''NO_LOCAL_CHALLENGER_KEY'' vector)
      else if rc_responder_keys input = [] then Some (rv_new ''INDETERMINATE'' ''NO_LOCAL_RESPONDER_KEY'' vector)
      else (case signed_cwt C (h_reader H) (rc_challenge input) CHALLENGE (rc_challenger_keys input) of
        None \<Rightarrow> Some (rv_new ''FAIL'' ''SIGNED_REFUSAL_INVALID'' vector)
      | Some challenge \<Rightarrow> do {
          challenge_doc \<leftarrow> plain (cwt_core challenge);
          challenger \<leftarrow> fld plain challenge_doc ''challenger'';
          signer_ok \<leftarrow> text_is challenger ''agent_kid'' (cwt_kid challenge);
          if \<not> signer_ok then Some (rv_new ''FAIL'' ''CHALLENGE_SIGNER_MISMATCH'' vector)
          else do {
            action \<leftarrow> fld plain challenge_doc ''action'';
            x \<leftarrow> map_of challenge_doc ''issued_at'';
            y \<leftarrow> map_of action ''expires_at'';
            if \<not> (case (cbor_uint x, cbor_uint y) of (Some a, Some b) \<Rightarrow> a \<le> rc_now input \<and> rc_now input < b | _ \<Rightarrow> False)
            then Some (rv_new ''FAIL'' ''CHALLENGE_EXPIRED'' vector)
            else (case signed_cwt C (h_reader H) (rc_refusal input) REFUSAL (rc_responder_keys input) of
              None \<Rightarrow> Some (rv_new ''FAIL'' ''SIGNED_REFUSAL_INVALID'' vector)
            | Some refusal \<Rightarrow> do {
                refusal_doc \<leftarrow> plain (cwt_core refusal);
                actor \<leftarrow> fld plain action ''actor'';
                actor_ok \<leftarrow> text_is actor ''agent_kid'' (cwt_kid refusal);
                if \<not> actor_ok then Some (rv_new ''FAIL'' ''REFUSAL_SIGNER_MISMATCH'' vector)
                else do {
                  bound \<leftarrow> all_held
                    [bytes_are refusal_doc ''challenge_envelope_hash'' (sha_parts C [rc_challenge input]),
                     bytes_are refusal_doc ''challenge_digest'' (core_digest C (cwt_core_bytes challenge))];
                  if \<not> bound then Some (rv_new ''FAIL'' ''REFUSAL_CHALLENGE_MISMATCH'' vector)
                  else do {
                    time_reason \<leftarrow> refusal_time_reason challenge_doc refusal_doc action (rc_now input);
                    (case time_reason of
                       Some reason \<Rightarrow> Some (rv_new ''FAIL'' reason vector)
                     | None \<Rightarrow> Some (rv_new ''FAIL'' ''SIGNED_REFUSAL'' (mark_dims vector [''challenge'', ''binding''] ''VERIFIED''))) } } }) } }))"

definition guarded :: "bytes list \<Rightarrow> anchors option \<Rightarrow> (anchors \<Rightarrow> ResultValue option) \<Rightarrow> ResultValue option" where
  "guarded envelopes pinned run_it =
     (if mixed_generation envelopes then Some (rv_new ''FAIL'' ''MIXED_PROFILE_GENERATION'' initial_vector)
      else (case pinned of
        None \<Rightarrow> Some (rv_new ''INDETERMINATE'' ''NO_PINNED_TRUST_PACK'' initial_vector)
      | Some anchors \<Rightarrow> run_it anchors))"

definition b28_result :: "crates \<Rightarrow> host \<Rightarrow> bytes \<Rightarrow> bytes \<Rightarrow> bytes \<Rightarrow> bytes \<Rightarrow> ResultValue option" where
  "b28_result C H exchange local_context trust_pack expected_trust_pack_digest =
     (let rd = h_reader H; pinned = parse_pinned_trust_pack C rd trust_pack expected_trust_pack_digest;
          bad = Some (rv_new ''INDETERMINATE'' ''VERIFIER_CONTEXT_INVALID'' initial_vector) in
      case parse_local_context C rd local_context of
        Inl reason \<Rightarrow> Some (rv_new ''INDETERMINATE'' reason initial_vector)
      | Inr (Presentation loc) \<Rightarrow>
          (case parse_input rd exchange loc of
             None \<Rightarrow> bad
           | Some input \<Rightarrow> guarded [ic_challenge input, ic_presentation input] pinned
               (\<lambda>anchors. map_option fst (evaluate C H (input\<lparr>ic_roots := anchors\<rparr>))))
      | Inr (Refusal loc) \<Rightarrow>
          (case parse_refusal rd exchange loc of
             None \<Rightarrow> bad
           | Some input \<Rightarrow> guarded [rc_challenge input, rc_refusal input] pinned (\<lambda>_. evaluate_refusal C H input)))"

definition verify_b28_cwt :: "crates \<Rightarrow> host \<Rightarrow> bytes \<Rightarrow> bytes \<Rightarrow> bytes \<Rightarrow> bytes \<Rightarrow> json option" where
  "verify_b28_cwt C H exchange local_context trust_pack expected_trust_pack_digest =
     map_option result_json (b28_result C H exchange local_context trust_pack expected_trust_pack_digest)"

end
