(* ===== verification/Exchange_State.thy ===== *)
theory Exchange_State
  imports Exchange
begin

text \<open>
  Membership of an object in the authority state. The relying party pins the root of the state and not its size: index, size and
  path all come from the proof. The theorem below shows that this is enough, because leaves and inner nodes are hashed under
  different first bytes.
\<close>

section \<open>Hash chains into a tree\<close>

definition prefixed_leaf :: "(bytes \<Rightarrow> bytes) \<Rightarrow> bytes \<Rightarrow> bytes" where
  "prefixed_leaf sha x = sha (0 # x)"

text \<open>Every input hashed when the tree over \<open>xs\<close> is built.\<close>

definition state_inputs :: "(bytes \<Rightarrow> bytes) \<Rightarrow> bytes list \<Rightarrow> bytes list" where
  "state_inputs sha xs = map ((#) 0) xs @ tree_inputs sha (map (prefixed_leaf sha) xs)"

text \<open>A set of hash inputs in which the children of an inner node are hashes of members.\<close>

definition node_closed :: "(bytes \<Rightarrow> bytes) \<Rightarrow> bytes set \<Rightarrow> bool" where
  "node_closed sha T \<longleftrightarrow> (\<forall>a b. 0x01 # a @ b \<in> T \<longrightarrow> length a = 32 \<longrightarrow> length b = 32 \<longrightarrow> a \<in> sha ` T \<and> b \<in> sha ` T)"

lemma node_child:
  assumes "node_closed sha T" "0x01 # a @ b \<in> T" "length a = 32" "length b = 32"
  shows "a \<in> sha ` T" "b \<in> sha ` T"
  using assms unfolding node_closed_def by blast+

lemma climb_descends:
  assumes "\<And>x. length (sha x) = 32" "node_closed sha T" "climb sha i l r ps = Some y" "y \<in> sha ` T" "length r = 32" "\<forall>p \<in> set ps. length p = 32"
    "\<And>x t. x \<in> set (climb_inputs sha i l r ps) \<Longrightarrow> t \<in> T \<Longrightarrow> sha x = sha t \<Longrightarrow> x = t"
  shows "r \<in> sha ` T"
  using assms
proof (induction sha i l r ps rule: climb.induct)
  case (1 sha i l r ps)
  note unfolded = climb.simps [of sha i l] climb_inputs.simps [of sha i l]
  consider "l = 0" | "l \<noteq> 0" "odd i" | "l \<noteq> 0" "even i" "i = l" | "l \<noteq> 0" "even i" "i \<noteq> l" by blast
  then show ?case
  proof cases
    case 1
    then show ?thesis using "1.prems"(3,4) by (simp add: climb_0 split: if_splits)
  next
    case 2
    then obtain p ps' where ps: "ps = p # ps'" using "1.prems"(3) by (cases ps) (auto simp: unfolded)
    have "node sha p r \<in> sha ` T"
      using 2 "1.prems" by (intro "1.IH"(1) [OF _ _ ps]) (auto simp: unfolded ps node_def)
    then have "0x01 # p @ r \<in> T" using 2 "1.prems"(7) by (auto simp: unfolded ps node_def)
    then show ?thesis using node_child(2) [OF "1.prems"(2)] "1.prems"(5,6) by (simp add: ps)
  next
    case 3
    then have "climb sha i l r ps = climb sha (i div 2) (l div 2) r ps" "climb_inputs sha i l r ps = climb_inputs sha (i div 2) (l div 2) r ps"
      by (simp_all add: climb.simps [of sha l l] climb_inputs.simps [of sha l l])
    then show ?thesis using 3 "1.prems" by (intro "1.IH"(2)) auto
  next
    case 4
    then obtain p ps' where ps: "ps = p # ps'" using "1.prems"(3) by (cases ps) (auto simp: unfolded)
    have "node sha r p \<in> sha ` T"
      using 4 "1.prems" by (intro "1.IH"(3) [OF _ _ _ ps]) (auto simp: unfolded ps node_def)
    then have "0x01 # r @ p \<in> T" using 4 "1.prems"(7) by (auto simp: unfolded ps node_def)
    then show ?thesis using node_child(1) [OF "1.prems"(2)] "1.prems"(5,6) by (simp add: ps)
  qed
qed

lemma pair_inputs_children:
  assumes "0x01 # a @ b \<in> set (pair_inputs hs)" "\<forall>h \<in> set hs. length h = 32" "length a = 32"
  shows "a \<in> set hs \<and> b \<in> set hs"
  using assms by (induction hs rule: pair_inputs.induct) auto

lemma pairup_hashes: "set (pairup sha hs) \<subseteq> set hs \<union> sha ` set (pair_inputs hs)"
  by (induction sha hs rule: pairup.induct) (auto simp: node_def)

lemma pair_inputs_prefix: "x \<in> set (pair_inputs hs) \<Longrightarrow> \<exists>y. x = 0x01 # y"
  by (induction hs rule: pair_inputs.induct) auto

lemma tree_inputs_facts:
  assumes "\<And>x. length (sha x) = 32" "set hs \<subseteq> sha ` T" "hs \<noteq> []" "node_closed sha T"
  shows "node_closed sha (T \<union> set (tree_inputs sha hs)) \<and> mth sha hs \<in> sha ` (T \<union> set (tree_inputs sha hs)) \<and>
    (\<forall>x \<in> set (tree_inputs sha hs). \<exists>y. x = 0x01 # y)"
  using assms
proof (induction sha hs arbitrary: T rule: tree_inputs.induct)
  case (1 sha hs)
  show ?case
  proof (cases "length hs \<le> 1")
    case True
    then obtain h where "hs = [h]" using "1.prems"(3) by (cases hs) auto
    then show ?thesis using "1.prems"(2,4) by (auto simp: tree_inputs.simps)
  next
    case False
    let ?T = "T \<union> set (pair_inputs hs)"
    have len: "\<forall>h \<in> set hs. length h = 32" using "1.prems"(1,2) by auto
    have T: "T \<union> set (tree_inputs sha hs) = ?T \<union> set (tree_inputs sha (pairup sha hs))"
      using False by (auto simp: tree_inputs.simps [of sha hs])
    have sub: "set (pairup sha hs) \<subseteq> sha ` ?T" using pairup_hashes [of sha hs] "1.prems"(2) by auto
    have "0 < length (pairup sha hs)" using "1.prems"(3) by (cases hs) auto
    then have ne: "pairup sha hs \<noteq> []" by (rule length_greater_0_conv [THEN iffD1])
    have closed: "node_closed sha ?T"
      unfolding node_closed_def
    proof (intro allI impI)
      fix a b assume ab: "0x01 # a @ b \<in> ?T" "length a = 32" "length b = 32"
      show "a \<in> sha ` ?T \<and> b \<in> sha ` ?T"
      proof (cases "0x01 # a @ b \<in> T")
        case True
        then show ?thesis using node_child [OF "1.prems"(4) True ab(2,3)] by auto
      next
        case False
        then show ?thesis using ab pair_inputs_children [of a b hs] len "1.prems"(2) by auto
      qed
    qed
    from "1.IH" [OF False "1.prems"(1) sub ne closed]
    have "node_closed sha (?T \<union> set (tree_inputs sha (pairup sha hs))) \<and>
        mth sha (pairup sha hs) \<in> sha ` (?T \<union> set (tree_inputs sha (pairup sha hs))) \<and>
        (\<forall>x \<in> set (tree_inputs sha (pairup sha hs)). \<exists>y. x = 0x01 # y)" .
    then show ?thesis
      unfolding T mth_pairup [OF "1.prems"(3)] using False pair_inputs_prefix
      by (auto simp: tree_inputs.simps [of sha hs])
  qed
qed

lemma unpinned_inclusion:
  assumes sha: "\<And>x. length (sha x) = 32" and "xs \<noteq> []" and path: "\<forall>p \<in> set path. length p = 32"
    and acc: "verify_inclusion sha (prefixed_leaf sha v) i n path (mth sha (map (prefixed_leaf sha) xs))"
  shows "v \<in> set xs \<or> collides sha ((0 # v) # climb_inputs sha (unat i) (unat n - 1) (prefixed_leaf sha v) path) (state_inputs sha xs)"
proof (rule disjCI)
  assume no: "\<not> collides sha ((0 # v) # climb_inputs sha (unat i) (unat n - 1) (prefixed_leaf sha v) path) (state_inputs sha xs)"
  let ?hs = "map (prefixed_leaf sha) xs" let ?T = "set (map ((#) 0) xs) \<union> set (tree_inputs sha ?hs)"
  have f: "node_closed sha ?T \<and> mth sha ?hs \<in> sha ` ?T \<and> (\<forall>x \<in> set (tree_inputs sha ?hs). \<exists>y. x = 0x01 # y)"
    by (rule tree_inputs_facts [OF sha]) (use assms(2) in \<open>auto simp: node_closed_def prefixed_leaf_def\<close>)
  have inj: "x = t" if "x \<in> set ((0 # v) # climb_inputs sha (unat i) (unat n - 1) (prefixed_leaf sha v) path)" "t \<in> ?T" "sha x = sha t" for x t
    using no that unfolding collides_def state_inputs_def by auto
  have "climb sha (unat i) (unat n - 1) (prefixed_leaf sha v) path = Some (mth sha ?hs)"
    using acc by (simp add: verify_inclusion_climb)
  then have "prefixed_leaf sha v \<in> sha ` ?T"
    by (rule climb_descends [OF sha f [THEN conjunct1]]) (use f path inj sha in \<open>auto simp: prefixed_leaf_def\<close>)
  then have "0 # v \<in> ?T" using inj by (fastforce simp: prefixed_leaf_def)
  then show "v \<in> set xs" using f by auto
qed

section \<open>Members of the authority state\<close>

text \<open>The leaf a proof shows: the canonical encoding of its value, with the key, state and digest the caller asked for.\<close>

definition state_entry :: "bytes \<Rightarrow> bytes \<Rightarrow> bytes \<Rightarrow> string \<Rightarrow> bool" where
  "state_entry leaf key digest state \<longleftrightarrow> (\<exists>v entry. cwt_canonical v = Some leaf \<and> document v None STATE_FIELDS = Some entry \<and>
     fld cbor_bytes entry ''key'' = Some key \<and> fld cbor_bytes entry ''object_digest'' = Some digest \<and> fld cbor_text entry ''state'' = Some state)"

text \<open>The hash inputs of the verifier's own run on a proof.\<close>

definition proof_inputs :: "crates \<Rightarrow> bytes \<Rightarrow> u64 \<Rightarrow> u64 \<Rightarrow> bytes list \<Rightarrow> bytes list" where
  "proof_inputs C leaf i n path = (0 # leaf) # climb_inputs (sha256 C) (unat i) (unat n - 1) (prefixed_leaf (sha256 C) leaf) path"

lemma verify_state_D:
  assumes "verify_state C prf rt key digest state vers"
  obtains leaf i n path where "state_entry leaf key digest state" "\<forall>p \<in> set path. length p = 32"
    "verify_inclusion (sha256 C) (prefixed_leaf (sha256 C) leaf) i n path rt"
proof -
  obtain doc entry where d: "document prf (Some MEMBERSHIP) PROOF_FIELDS = Some doc"
    and e: "fld (\<lambda>v. document v None STATE_FIELDS) doc ''value'' = Some entry"
    and m: "case (fld cbor_uint doc ''index'', fld cbor_positive doc ''tree_size'', map_of doc ''path'') of
           (Some i, Some n, Some (CArray path)) \<Rightarrow>
             i < n \<and> length path \<le> 64 \<and> fld cbor_bytes doc ''key'' = Some key \<and> map_of entry ''key'' = map_of doc ''key''
             \<and> fld cbor_text entry ''state'' = Some state \<and> good cbor_positive entry ''version''
             \<and> is_none_or vers (\<lambda>v. fld cbor_uint entry ''version'' = Some v) \<and> fld cbor_bytes entry ''object_digest'' = Some digest
             \<and> is_some_and (collect_opt (fixed 32) path) (\<lambda>siblings.
                 is_some_and (fld cwt_canonical doc ''value'') (\<lambda>leaf.
                   verify_inclusion (sha256 C) (sha_parts C [[0], leaf]) i n siblings rt))
         | _ \<Rightarrow> False"
    using assms unfolding verify_state_def is_some_and_iff by blast
  obtain i n pv where x: "fld cbor_uint doc ''index'' = Some i" "fld cbor_positive doc ''tree_size'' = Some n" "map_of doc ''path'' = Some pv"
    using m by (auto split: option.splits)
  obtain ps where ps: "pv = CArray ps" using m by (cases pv) (simp_all add: x)
  obtain path leaf where k: "fld cbor_bytes doc ''key'' = Some key" "map_of entry ''key'' = map_of doc ''key''" "fld cbor_text entry ''state'' = Some state"
      "fld cbor_bytes entry ''object_digest'' = Some digest"
    and p: "collect_opt (fixed 32) ps = Some path" and l: "fld cwt_canonical doc ''value'' = Some leaf"
    and inc: "verify_inclusion (sha256 C) (sha_parts C [[0], leaf]) i n path rt"
    using m by (auto simp: x ps is_some_and_iff)
  have "fld cbor_bytes entry ''key'' = Some key" using k(1,2) by (simp add: fld_def)
  then have "state_entry leaf key digest state"
    using e l k(3,4) unfolding state_entry_def by (auto simp: fld_def bind_eq_Some_conv)
  moreover have "\<forall>q \<in> set path. length q = 32"
  proof
    fix q assume "q \<in> set path"
    then have "Some q \<in> set (map (fixed 32) ps)" using p by (simp add: collect_opt_Some_iff)
    then show "length q = 32" by (auto simp: fixed_def bind_eq_Some_conv eq_commute [of "Some _"])
  qed
  ultimately show thesis using that inc by (simp add: sha_parts_def prefixed_leaf_def)
qed

text \<open>C28: (a state proof shows a member): when the root the relying party holds is the root of the authority state with the entries
  \<open>leaves\<close>, a proof that is accepted for a key, a digest and a state shows an entry of that state with exactly that key, digest
  and state, whatever index, size and path it claims; the only other possibility is a pair of different inputs with equal digests,
  one hashed by the verifier and one hashed when the tree was built.\<close>

theorem state_proof_sound:
  assumes "\<And>x. length (sha256 C x) = 32" and "leaves \<noteq> []"
    and "verify_state C prf (mth (sha256 C) (map (prefixed_leaf (sha256 C)) leaves)) key digest state vers"
  shows "\<exists>leaf i n path. state_entry leaf key digest state \<and>
    (leaf \<in> set leaves \<or> collides (sha256 C) (proof_inputs C leaf i n path) (state_inputs (sha256 C) leaves))"
proof -
  obtain leaf i n path where "state_entry leaf key digest state" "\<forall>p \<in> set path. length p = 32"
    "verify_inclusion (sha256 C) (prefixed_leaf (sha256 C) leaf) i n path (mth (sha256 C) (map (prefixed_leaf (sha256 C)) leaves))"
    by (rule verify_state_D [OF assms(3)])
  then show ?thesis using unpinned_inclusion [of "sha256 C", OF assms(1,2)] unfolding proof_inputs_def by blast
qed

definition toy_entry :: cbor where
  "toy_entry = map_value [(''key'', CBytes [1]), (''state'', CText ''ACTIVE''), (''version'', CInteger 1), (''object_digest'', CBytes [7])]"

definition toy_proof :: cbor where
  "toy_proof = map_value [(''schema'', CText MEMBERSHIP), (''key'', CBytes [1]), (''value'', toy_entry), (''index'', CInteger 0), (''tree_size'', CInteger 1), (''path'', CArray [])]"

definition toy_leaf :: bytes where
  "toy_leaf = unwrap_or [] (cwt_canonical toy_entry)"

lemma toy_proof_accepted:
  "verify_state toy_base toy_proof (mth (sha256 toy_base) (map (prefixed_leaf (sha256 toy_base)) [toy_leaf])) [1] [7] ''ACTIVE'' (Some 1)"
  unfolding list.map mth_single by code_simp

lemma toy_digest_size: "length (sha256 toy_base x) = 32"
  by (simp add: toy_base_def sha256_def)

theorem state_proof_sound_witness:
  "[toy_leaf] \<noteq> [] \<and> verify_state toy_base toy_proof (mth (sha256 toy_base) (map (prefixed_leaf (sha256 toy_base)) [toy_leaf])) [1] [7] ''ACTIVE'' (Some 1) \<and>
   (\<exists>leaf i n path. state_entry leaf [1] [7] ''ACTIVE'' \<and>
      (leaf \<in> set [toy_leaf] \<or> collides (sha256 toy_base) (proof_inputs toy_base leaf i n path) (state_inputs (sha256 toy_base) [toy_leaf])))"
  using state_proof_sound [OF toy_digest_size list.distinct(2) toy_proof_accepted] toy_proof_accepted by simp

end
