(* ===== verification/Exchange_Docs.thy ===== *)
theory Exchange_Docs
  imports Exchange
begin

text \<open>
  What the validators of an exchange guarantee: rules for computations that may panic, the members each validated document holds
  with their types, and the invariant of an evaluation, which names the envelopes collected so far and the schema each was
  validated under.
\<close>

section \<open>Rules for panics\<close>

definition runs :: "'a option \<Rightarrow> bool" where
  "runs x \<longleftrightarrow> x \<noteq> None"

named_theorems runs_intro

lemma runs_Some [runs_intro]: "runs (Some x)"
  by (simp add: runs_def)

lemma runs_bind [runs_intro]: "runs m \<Longrightarrow> (\<And>x. m = Some x \<Longrightarrow> runs (f x)) \<Longrightarrow> runs (Option.bind m f)"
  by (auto simp: runs_def)

lemma runs_tried [runs_intro]: "(\<And>y. x = Some y \<Longrightarrow> runs (f y)) \<Longrightarrow> runs (tried x f)"
  by (cases x) (auto simp: tried_def runs_def)

lemma runs_go_on [runs_intro]: "runs s \<Longrightarrow> (\<And>x. s = Some (Go x) \<Longrightarrow> runs (f x)) \<Longrightarrow> runs (go_on s f)"
  by (auto simp: go_on_def runs_def split: step.splits)

lemma runs_and_then [runs_intro]: "runs x \<Longrightarrow> runs y \<Longrightarrow> runs (and_then x y)"
  by (auto simp: and_then_def runs_def)

lemma runs_all_held [runs_intro]: "list_all runs checks \<Longrightarrow> runs (all_held checks)"
  by (auto simp: all_held_def list_all_iff collect_opt_None_iff runs_def)

lemma runs_if [runs_intro]: "(b \<Longrightarrow> runs x) \<Longrightarrow> (\<not> b \<Longrightarrow> runs y) \<Longrightarrow> runs (if b then x else y)"
  by auto

lemma runs_map [runs_intro]: "runs x \<Longrightarrow> runs (map_option f x)"
  by (simp add: runs_def)

lemma runs_reject [runs_intro]: "runs (ev_reject e verdict reason)" "runs (ev_verified e names)"
  by (simp_all add: ev_reject_def ev_verified_def runs_def)

lemma runs_checks [runs_intro]:
  "runs (map_of d k) \<Longrightarrow> runs (map_of d' k') \<Longrightarrow> runs (same d k d' k')"
  "runs (map_of d k) \<Longrightarrow> runs (bytes_are d k b)"
  "runs (map_of d k) \<Longrightarrow> runs (text_is d k t)"
  "runs (map_of d k) \<Longrightarrow> runs (map_of d k') \<Longrightarrow> runs (current d k k' now)"
  "runs (map_of d k) \<Longrightarrow> runs (map_of d' k') \<Longrightarrow> runs (map_of d'' k'') \<Longrightarrow> runs (in_window d k d' k' d'' k'')"
  by (auto simp: same_def bytes_are_def text_is_def current_def in_window_def runs_def)

section \<open>What the validators leave behind\<close>

text \<open>A validated document: the members it holds, and those that are bytes, texts and integers.\<close>

definition typed :: "Doc \<Rightarrow> string list \<Rightarrow> string list \<Rightarrow> string list \<Rightarrow> string list \<Rightarrow> bool" where
  "typed d ks bs ts us \<longleftrightarrow> list_all (\<lambda>k. map_of d k \<noteq> None) ks \<and> list_all (good cbor_bytes d) bs \<and> list_all (good cbor_text d) ts \<and>
     list_all (good cbor_uint d) us"

lemma typed_members:
  "typed d ks bs ts us \<Longrightarrow> k \<in> set ks \<union> set bs \<union> set ts \<union> set us \<Longrightarrow> map_of d k \<noteq> None"
  "typed d ks bs ts us \<Longrightarrow> k \<in> set bs \<Longrightarrow> good cbor_bytes d k"
  "typed d ks bs ts us \<Longrightarrow> k \<in> set ts \<Longrightarrow> good cbor_text d k"
  "typed d ks bs ts us \<Longrightarrow> k \<in> set us \<Longrightarrow> good cbor_uint d k"
  unfolding typed_def list_all_iff using good_field by blast+

lemma runs_typed:
  "typed d ks bs ts us \<Longrightarrow> k \<in> set ks \<union> set bs \<union> set ts \<union> set us \<Longrightarrow> runs (map_of d k)"
  "typed d ks bs ts us \<Longrightarrow> k \<in> set bs \<Longrightarrow> runs (fld cbor_bytes d k)"
  "typed d ks bs ts us \<Longrightarrow> k \<in> set ts \<Longrightarrow> runs (fld cbor_text d k)"
  "typed d ks bs ts us \<Longrightarrow> k \<in> set us \<Longrightarrow> runs (fld cbor_uint d k)"
  using typed_members [of d ks bs ts us k] by (auto simp: runs_def good_def)

lemma typedI:
  assumes "document v schema names = Some d" "list_all (\<lambda>k. k \<in> set names) ks"
    "list_all (\<lambda>k. good cbor_bytes d k) bs" "list_all (\<lambda>k. good cbor_text d k) ts" "list_all (\<lambda>k. good cbor_uint d k) us"
  shows "\<exists>d. plain v = Some d \<and> typed d ks bs ts us"
  using assms document_plain document_fields unfolding typed_def list_all_iff by blast

lemma goodI: "fld f d k = Some x \<Longrightarrow> good f d k"
  by (simp add: good_def)

lemmas schema_defs = ACTION_def CHALLENGE_def ASA_def PRESENTATION_def ACKNOWLEDGEMENT_def REFUSAL_def ROOT_DELEGATION_def TEMPLATE_def
  ADMIN_BINDING_def ADMIN_SELECTION_def ADMIN_CHALLENGE_def ADMIN_CONSUMPTION_def AGENT_POP_def CREDENTIAL_def AGENT_SUCCESSOR_def GRANT_def
  CHECKPOINT_def SNAPSHOT_def

lemma validate_core_simps:
  "validate_core C v CHALLENGE = validate_challenge v" "validate_core C v ASA = validate_asa v"
  "validate_core C v PRESENTATION = validate_presentation v" "validate_core C v REFUSAL = validate_refusal v"
  "validate_core C v ROOT_DELEGATION = validate_delegation C v" "validate_core C v TEMPLATE = validate_template v"
  "validate_core C v ADMIN_BINDING = validate_admin_binding v" "validate_core C v ADMIN_CHALLENGE = validate_admin_challenge v"
  "validate_core C v ADMIN_CONSUMPTION = validate_admin_consumption v" "validate_core C v AGENT_POP = validate_pop v"
  "validate_core C v CREDENTIAL = validate_credential C v" "validate_core C v AGENT_SUCCESSOR = validate_successor v"
  "validate_core C v GRANT = validate_grant v" "validate_core C v CHECKPOINT = validate_checkpoint v"
  "validate_core C v SNAPSHOT = validate_snapshot v"
  by (simp_all add: validate_core_def schema_defs)

lemmas weaken = good_weaken(2-6) goodI [THEN good_weaken(2)] goodI [THEN good_weaken(6)] goodI [THEN good_weaken(5)]
  window_good [THEN conjunct1] window_good [THEN conjunct2]

abbreviation delegation_typed :: "Doc \<Rightarrow> bool" where
  "delegation_typed d \<equiv> typed d [''tenant'', ''organisation_root'', ''delegation_id'', ''valid_from'', ''valid_to'']
     [''organisation_root'', ''delegation_id'', ''passport_authority_key'', ''action_authority_key'']
     [''tenant'', ''passport_authority_kid'', ''action_authority_kid''] []"

lemma delegation_validated: "validate_delegation C v \<Longrightarrow> \<exists>d. plain v = Some d \<and> delegation_typed d"
  unfolding validate_delegation_def tenant_root_def
  by (auto split: option.splits intro: weaken intro!: typedI)

abbreviation template_typed :: "Doc \<Rightarrow> bool" where
  "template_typed d \<equiv> typed d [''organisation_root'', ''tenant'', ''template_id'', ''template_version'', ''owner'', ''purpose'', ''mandate_digest'', ''config_digest'', ''valid_from'', ''valid_to'']
     [''template_id'', ''mandate_digest'', ''config_digest''] [] []"

lemma template_validated: "validate_template v \<Longrightarrow> \<exists>d. plain v = Some d \<and> template_typed d"
  unfolding validate_template_def tenant_root_def
  by (auto simp: is_some_and_iff intro: weaken intro!: typedI)


abbreviation binding_typed :: "Doc \<Rightarrow> bool" where
  "binding_typed d \<equiv> typed d [''organisation_root'', ''tenant'', ''role'', ''valid_from'', ''valid_to'', ''binding_id'', ''credential_id'', ''rp_id'', ''cose_public_key'']
     [''binding_id''] [] []"

lemma binding_validated: "validate_admin_binding v \<Longrightarrow> \<exists>d. plain v = Some d \<and> binding_typed d"
  unfolding validate_admin_binding_def tenant_root_def
  by (auto simp: is_some_and_iff split: option.splits intro: weaken intro!: typedI)

abbreviation admin_challenge_typed :: "Doc \<Rightarrow> bool" where
  "admin_challenge_typed d \<equiv> typed d [''organisation_root'', ''tenant'', ''challenge_id'', ''binding_id'', ''template_id'', ''template_version'', ''proposed_agent_digest'', ''challenge'', ''issued_at'', ''expires_at'']
     [''challenge_id''] [] []"

lemma admin_challenge_validated: "validate_admin_challenge v \<Longrightarrow> \<exists>d. plain v = Some d \<and> admin_challenge_typed d"
  unfolding validate_admin_challenge_def tenant_root_def
  by (auto simp: is_some_and_iff split: option.splits intro: weaken intro!: typedI)

abbreviation grant_typed :: "Doc \<Rightarrow> bool" where
  "grant_typed d \<equiv> typed d [''organisation_root'', ''tenant'', ''authority_delegation_id'', ''actor_birthtag'', ''recipient_organisation_root'', ''operation'', ''unit'', ''action_scope_digest'', ''grant_id'', ''grant_version'', ''valid_from'', ''valid_to'', ''window_start'', ''window_end'', ''ceiling'']
     [''grant_id''] [] [''grant_version'']"

lemma grant_validated: "validate_grant v \<Longrightarrow> \<exists>d. plain v = Some d \<and> grant_typed d"
  unfolding validate_grant_def tenant_root_def
  by (auto simp: is_some_and_iff intro: weaken intro!: typedI)

abbreviation checkpoint_typed :: "Doc \<Rightarrow> bool" where
  "checkpoint_typed d \<equiv> typed d [''organisation_root'', ''tenant'']
     [''organisation_root'', ''authority_root'', ''log_root''] [''tenant''] [''sequence'', ''log_size'', ''issued_at'']"

lemma checkpoint_validated: "validate_checkpoint v \<Longrightarrow> \<exists>d. plain v = Some d \<and> checkpoint_typed d"
  unfolding validate_checkpoint_def tenant_root_def
  by (auto simp: is_some_and_iff split: option.splits intro: weaken intro!: typedI)

abbreviation successor_typed :: "Doc \<Rightarrow> bool" where
  "successor_typed d \<equiv> typed d [''organisation_root'', ''tenant'', ''predecessor_revision'', ''successor_birthtag'', ''successor_revision'', ''successor_proposal_digest'', ''effective_at'']
     [''predecessor_birthtag'', ''predecessor_credential_digest''] [] []"

lemma successor_validated: "validate_successor v \<Longrightarrow> \<exists>d. plain v = Some d \<and> successor_typed d"
  unfolding validate_successor_def tenant_root_def
  by (auto simp: is_some_and_iff split: option.splits intro: weaken intro!: typedI)

abbreviation credential_typed :: "Doc \<Rightarrow> bool" where
  "credential_typed d \<equiv> typed d [''tenant'', ''organisation_root'', ''authority_delegation_id'', ''birthtag'', ''revision'', ''agent_kid'', ''agent_key'', ''owner'', ''purpose'', ''mandate_digest'', ''config_digest'', ''template_id'', ''template_version'', ''principal_binding_id'', ''admin_selection_digest'', ''agent_pop_digest'', ''agent_successor_digest'', ''issuance_checkpoint'', ''valid_from'', ''valid_to'']
     [''birthtag'', ''agent_key'', ''issuance_checkpoint''] [''agent_kid''] [''revision'']"

lemma credential_validated: "validate_credential C v \<Longrightarrow> \<exists>d. plain v = Some d \<and> credential_typed d"
  unfolding validate_credential_def tenant_root_def
  by (auto simp: is_some_and_iff split: option.splits intro: weaken intro!: typedI)

abbreviation pop_typed :: "Doc \<Rightarrow> bool" where
  "pop_typed d \<equiv> typed d [''proposed_agent_digest'', ''challenge'', ''birthtag'', ''revision'', ''agent_kid'']
     [] [] []"

lemma pop_validated: "validate_pop v \<Longrightarrow> \<exists>d. plain v = Some d \<and> pop_typed d"
  unfolding validate_pop_def tenant_root_def
  by (auto simp: is_some_and_iff split: option.splits intro: weaken intro!: typedI)

abbreviation snapshot_typed :: "Doc \<Rightarrow> bool" where
  "snapshot_typed d \<equiv> typed d [''organisation_root'', ''tenant'', ''authority_delegation_id'', ''checkpoint_digest'', ''proofs_digest'', ''status_as_of'']
     [] [] [''expires_at'']"

lemma snapshot_validated: "validate_snapshot v \<Longrightarrow> \<exists>d. plain v = Some d \<and> snapshot_typed d"
  unfolding validate_snapshot_def tenant_root_def
  by (auto simp: is_some_and_iff split: option.splits intro: weaken intro!: typedI)

abbreviation asa_typed :: "Doc \<Rightarrow> bool" where
  "asa_typed d \<equiv> typed d [''organisation_root'', ''tenant'', ''authority_delegation_id'', ''asa_id'', ''action_digest'', ''challenge_digest'', ''grant_id'', ''grant_version'', ''issued_at'', ''expires_at'']
     [] [] []"

lemma asa_validated: "validate_asa v \<Longrightarrow> \<exists>d. plain v = Some d \<and> asa_typed d"
  unfolding validate_asa_def tenant_root_def
  by (auto simp: is_some_and_iff split: option.splits intro: weaken intro!: typedI)

abbreviation selection_typed :: "Doc \<Rightarrow> bool" where
  "selection_typed d \<equiv> typed d [''tenant'', ''binding_id'', ''template_id'', ''template_version'', ''proposed_agent_digest'', ''credential_id'', ''challenge_id'', ''challenge'', ''client_data_json'', ''authenticator_data'', ''signature'', ''selected_at'']
     [''challenge_id''] [] []"

lemma selection_validated: "validate_selection v \<Longrightarrow> \<exists>d. plain v = Some d \<and> selection_typed d"
  unfolding validate_selection_def tenant_root_def
  by (auto simp: is_some_and_iff split: option.splits intro: weaken intro!: typedI)

abbreviation refusal_typed :: "Doc \<Rightarrow> bool" where
  "refusal_typed d \<equiv> typed d [''challenge_envelope_hash'', ''challenge_digest'', ''created_at'']
     [] [] []"

lemma refusal_validated: "validate_refusal v \<Longrightarrow> \<exists>d. plain v = Some d \<and> refusal_typed d"
  unfolding validate_refusal_def tenant_root_def
  by (auto simp: is_some_and_iff split: option.splits intro: weaken intro!: typedI)

abbreviation consumption_typed :: "Doc \<Rightarrow> bool" where
  "consumption_typed d \<equiv> typed d [''organisation_root'', ''tenant'', ''challenge_digest'', ''selection_digest'', ''credential_digest'', ''consumed_at'']
     [''binding_id'', ''challenge_id''] [] [''counter_version''] \<and> consumed_state d \<noteq> None"

lemma consumption_validated: "validate_admin_consumption v \<Longrightarrow> \<exists>d. plain v = Some d \<and> consumption_typed d"
proof -
  assume "validate_admin_consumption v"
  then obtain d names where doc: "document v (Some ADMIN_CONSUMPTION) names = Some d"
    and names: "list_all (\<lambda>k. k \<in> set names) [''organisation_root'', ''tenant'', ''challenge_digest'', ''selection_digest'', ''credential_digest'', ''consumed_at'']"
    and c: "case (fld cbor_uint d ''sign_count_before'', fld cbor_uint d ''sign_count_after'', map_of d ''backup_eligible'', map_of d ''backup_state'') of
        (Some before, Some after, Some (CBool eligible), Some (CBool state)) \<Rightarrow> (before = 0 \<and> after = 0 \<or> after > before) \<and> (\<not> state \<or> eligible)
      | _ \<Rightarrow> False"
    and g: "good opaque d ''binding_id''" "good opaque d ''challenge_id''" "good cbor_positive d ''counter_version''"
    unfolding validate_admin_consumption_def is_some_and_iff by auto
  have cs: "consumed_state d \<noteq> None"
    using c by (cases "map_of d ''backup_eligible''"; cases "map_of d ''backup_state''"; cases "the (map_of d ''backup_eligible'')";
        cases "the (map_of d ''backup_state'')") (auto simp: consumed_state_def split: option.splits)
  have "plain v = Some d" using document_plain [OF doc] .
  moreover have "\<exists>d. plain v = Some d \<and> typed d [''organisation_root'', ''tenant'', ''challenge_digest'', ''selection_digest'', ''credential_digest'', ''consumed_at'']
     [''binding_id'', ''challenge_id''] [] [''counter_version'']"
    by (rule typedI [OF doc names]) (use g in \<open>auto intro: weaken\<close>)
  ultimately show ?thesis using cs by auto
qed


text \<open>The members of a template are digests of 32 bytes.\<close>

lemma template_digests:
  assumes "validate_template v" "plain v = Some d" "k = ''mandate_digest'' \<or> k = ''config_digest''" "fld cbor_bytes d k = Some b"
  shows "digest32 b \<noteq> None"
proof -
  have "good (fixed 32) d k"
    using assms(1-3) document_plain unfolding validate_template_def by (fastforce simp: is_some_and_iff)
  then show ?thesis
    using assms(4) by (auto simp: good_def fld_def fixed_def digest32_def then_some_def bind_eq_Some_conv split: if_splits)
qed

text \<open>References inside an action, the action inside a challenge, and the parts of a presentation.\<close>

abbreviation agent_typed :: "Doc \<Rightarrow> bool" where
  "agent_typed d \<equiv> typed d [''birthtag'', ''revision'', ''agent_kid''] [''organisation_root''] [] []"

lemma agent_validated: "agent v = Some d' \<Longrightarrow> \<exists>d. plain v = Some d \<and> agent_typed d"
  unfolding agent_def by (auto simp: bind_eq_Some_conv then_some_def split: if_splits intro: weaken intro!: typedI)

definition action_typed :: "Doc \<Rightarrow> bool" where
  "action_typed d \<longleftrightarrow> typed d (ACTION_SCOPE_FIELDS @ [''value'', ''grant_id'', ''grant_version'', ''asa_id'', ''expires_at'']) [''asa_id'', ''action_id''] [] [''expires_at''] \<and>
     (\<exists>a. fld plain d ''actor'' = Some a \<and> agent_typed a) \<and> (\<exists>r. fld plain d ''recipient'' = Some r \<and> agent_typed r)"

lemma action_validated: "action_core v = Some d \<Longrightarrow> plain v = Some d \<and> action_typed d"
proof -
  assume a: "action_core v = Some d"
  then obtain names where doc: "document v (Some ACTION) names = Some d"
    and names: "list_all (\<lambda>k. k \<in> set names) (ACTION_SCOPE_FIELDS @ [''value'', ''grant_id'', ''grant_version'', ''asa_id'', ''expires_at''])"
    and g: "good opaque d ''asa_id''" "good opaque d ''action_id''" "good cbor_positive d ''expires_at''" "good agent d ''actor''" "good agent d ''recipient''"
    unfolding action_core_def ACTION_SCOPE_FIELDS_def by (auto simp: bind_eq_Some_conv then_some_def good_def split: if_splits)
  have "\<exists>d. plain v = Some d \<and> typed d (ACTION_SCOPE_FIELDS @ [''value'', ''grant_id'', ''grant_version'', ''asa_id'', ''expires_at'']) [''asa_id'', ''action_id''] [] [''expires_at'']"
    by (rule typedI [OF doc names]) (use g in \<open>auto intro: weaken\<close>)
  moreover have "\<exists>a. fld plain d k = Some a \<and> agent_typed a" if "good agent d k" for k
  proof -
    obtain v' d' where "map_of d k = Some v'" "agent v' = Some d'" using \<open>good agent d k\<close> by (auto simp: good_def fld_def bind_eq_Some_conv)
    then show ?thesis using agent_validated [of v' d'] by (simp add: fld_def)
  qed
  ultimately show ?thesis using document_plain [OF doc] g(4,5) by (auto simp: action_typed_def)
qed

definition challenge_typed :: "Doc \<Rightarrow> bool" where
  "challenge_typed d \<longleftrightarrow> typed d [''issued_at'', ''required_dimensions''] [] [] [''issued_at'', ''max_checkpoint_age''] \<and>
     (\<exists>r. map_of d ''required_dimensions'' = Some (CArray r)) \<and> (\<exists>a. fld plain d ''challenger'' = Some a \<and> agent_typed a) \<and>
     (\<exists>a. fld plain d ''action'' = Some a \<and> action_typed a \<and>
        (\<exists>x y. fld cbor_uint d ''issued_at'' = Some x \<and> fld cbor_uint a ''expires_at'' = Some y \<and> x < y))"

lemma positive_uint: "fld cbor_positive d k = Some x \<Longrightarrow> fld cbor_uint d k = Some x"
  by (auto simp: fld_def cbor_positive_def then_some_def bind_eq_Some_conv split: if_splits)

lemma challenge_validated: "validate_challenge v \<Longrightarrow> \<exists>d. plain v = Some d \<and> challenge_typed d"
proof -
  assume "validate_challenge v"
  then obtain d names a x y required where doc: "document v (Some CHALLENGE) names = Some d"
    and names: "list_all (\<lambda>k. k \<in> set names) [''issued_at'', ''required_dimensions'']"
    and req: "fld (\<lambda>v. cbor_array v MAX_LOCAL_ITEMS) d ''required_dimensions'' = Some required"
    and g: "good agent d ''challenger''" "good cbor_positive d ''max_checkpoint_age''"
    and a: "fld action_core d ''action'' = Some a" and xy: "fld cbor_positive d ''issued_at'' = Some x" "fld cbor_positive a ''expires_at'' = Some y" "x < y"
    unfolding validate_challenge_def by (auto simp: is_some_and_iff split: option.splits)
  have "\<exists>d. plain v = Some d \<and> typed d [''issued_at'', ''required_dimensions''] [] [] [''issued_at'', ''max_checkpoint_age'']"
    by (rule typedI [OF doc names]) (use g(2) xy(1) in \<open>auto intro: weaken\<close>)
  moreover have "\<exists>r. map_of d ''required_dimensions'' = Some (CArray r)"
  proof -
    obtain w where "map_of d ''required_dimensions'' = Some w" "cbor_array w MAX_LOCAL_ITEMS = Some required"
      using req by (auto simp: fld_def bind_eq_Some_conv)
    then show ?thesis by (cases w) (auto simp: cbor_array_def)
  qed
  moreover have "\<exists>a. fld plain d ''challenger'' = Some a \<and> agent_typed a"
  proof -
    obtain v' d' where "map_of d ''challenger'' = Some v'" "agent v' = Some d'" using g(1) by (auto simp: good_def fld_def bind_eq_Some_conv)
    then show ?thesis using agent_validated [of v' d'] by (simp add: fld_def)
  qed
  moreover obtain v' where v': "map_of d ''action'' = Some v'" "action_core v' = Some a" using a by (auto simp: fld_def bind_eq_Some_conv)
  moreover have "fld plain d ''action'' = Some a" "action_typed a" using action_validated [OF v'(2)] v'(1) by (simp_all add: fld_def)
  ultimately show ?thesis using document_plain [OF doc] xy positive_uint by (auto simp: challenge_typed_def)
qed

definition presentation_typed :: "Doc \<Rightarrow> bool" where
  "presentation_typed d \<longleftrightarrow> typed d PRESENTATION_FIELDS [''asa'', ''admin_selection''] [] [''created_at''] \<and>
     (\<exists>p. fld plain d ''state_proofs'' = Some p \<and> list_all (\<lambda>k. map_of p k \<noteq> None) STATE_PROOFS)"

lemma presentation_validated: "validate_presentation v \<Longrightarrow> \<exists>d. plain v = Some d \<and> presentation_typed d"
proof -
  assume "validate_presentation v"
  then obtain d p where doc: "document v (Some PRESENTATION) PRESENTATION_FIELDS = Some d"
    and p: "fld (\<lambda>v. document v None STATE_PROOFS) d ''state_proofs'' = Some p"
    and g: "good cbor_uint d ''created_at''" "inline_cwt d ''asa''" "is_some_and (fld cbor_bytes d ''admin_selection'') (\<lambda>raw. length raw \<le> 16384)"
    unfolding validate_presentation_def by (auto simp: is_some_and_iff)
  have "\<exists>d. plain v = Some d \<and> typed d PRESENTATION_FIELDS [''asa'', ''admin_selection''] [] [''created_at'']"
    by (rule typedI [OF doc]) (use g in \<open>auto simp: inline_cwt_def is_some_and_iff list_all_iff intro: goodI\<close>)
  moreover obtain v' where v': "map_of d ''state_proofs'' = Some v'" "document v' None STATE_PROOFS = Some p"
    using p by (auto simp: fld_def bind_eq_Some_conv)
  ultimately show ?thesis
    using document_plain [OF doc] document_plain [OF v'(2)] document_fields [OF v'(2)]
    by (auto simp: presentation_typed_def fld_def list_all_iff)
qed


section \<open>The invariant of an evaluation\<close>

definition validated :: "crates \<Rightarrow> string \<Rightarrow> Cwt \<Rightarrow> bool" where
  "validated C schema cwt \<longleftrightarrow> validate_core C (cwt_core cwt) schema \<and> cwt_canonical (cwt_core cwt) = Some (cwt_core_bytes cwt)"

text \<open>Every member of a document can be encoded below the top level.\<close>

definition encodable :: "Doc \<Rightarrow> bool" where
  "encodable d \<longleftrightarrow> (\<forall>k v. map_of d k = Some v \<longrightarrow> canonical_bytes v (int MAX_CBOR_DEPTH - 1) CWT_PROFILE \<noteq> None)"

definition SIGNED_ITEMS :: "(string \<times> string) list" where
  "SIGNED_ITEMS = [(''passport_holder_proof'', CREDENTIAL), (''agent_pop'', AGENT_POP), (''status_snapshot'', SNAPSHOT), (''asa'', ASA)]"

definition base_ok :: "Evaluation \<Rightarrow> bool" where
  "base_ok e \<longleftrightarrow> challenge_typed (ev_challenge_doc e) \<and> action_typed (ev_action e) \<and> encodable (ev_action e) \<and>
     presentation_typed (ev_pres e) \<and> encodable (ev_pres e)"

text \<open>A table of envelopes: each validated under the schema of its name, and the names it must hold.\<close>

definition table_ok :: "crates \<Rightarrow> (string \<times> string) list \<Rightarrow> string list \<Rightarrow> (string \<times> Cwt) list \<Rightarrow> bool" where
  "table_ok C schemas names t \<longleftrightarrow> (\<forall>(n, cwt) \<in> set t. \<exists>S. map_of schemas n = Some S \<and> validated C S cwt) \<and>
     (\<forall>n \<in> set names. map_of t n \<noteq> None)"

abbreviation ROOTED_SCHEMAS :: "(string \<times> string) list" where
  "ROOTED_SCHEMAS \<equiv> ROOTED_ITEMS @ [(''agent_successor'', AGENT_SUCCESSOR)]"

lemma inspect_validated: "inspect_cwt C rd raw schema = Some cwt \<Longrightarrow> validated C schema cwt"
  using inspect_cwt_Some by (simp add: validated_def)

lemma signed_validated: "signed_cwt C rd raw schema keys = Some cwt \<Longrightarrow> validated C schema cwt"
  by (auto simp: signed_cwt_iff inspect_validated)

lemma table_get: "table_ok C schemas names t \<Longrightarrow> n \<in> set names \<Longrightarrow> map_of schemas n = Some S \<Longrightarrow>
    \<exists>cwt. map_of t n = Some cwt \<and> validated C S cwt"
  unfolding table_ok_def by (fastforce dest: map_of_SomeD)

lemma table_put:
  assumes "table_ok C schemas names t" "map_of schemas n = Some S" "validated C S cwt"
  shows "table_ok C schemas (n # names) (btree_put n cwt t)"
proof -
  have "set (btree_put n cwt t) \<subseteq> insert (n, cwt) (set t)" by (auto simp: btree_put_def set_insort_key)
  then show ?thesis using assms unfolding table_ok_def by (fastforce simp: map_of_btree_put)
qed

lemma encodable_plain: "canonical_bytes v l CWT_PROFILE = Some b \<Longrightarrow> l \<le> int MAX_CBOR_DEPTH \<Longrightarrow> plain v = Some d \<Longrightarrow> encodable d"
proof -
  assume a: "canonical_bytes v l CWT_PROFILE = Some b" "l \<le> int MAX_CBOR_DEPTH" "plain v = Some d"
  have "canonical_bytes w (int MAX_CBOR_DEPTH - 1) CWT_PROFILE \<noteq> None" if "map_of d k = Some w" for k w
    using canonical_member [OF a(1,3) that] canonical_mono [of w "l - 1" CWT_PROFILE _ "int MAX_CBOR_DEPTH - 1"] a(2) by auto
  then show ?thesis by (simp add: encodable_def)
qed

lemma encodable_validated: "validated C S cwt \<Longrightarrow> plain (cwt_core cwt) = Some d \<Longrightarrow> encodable d"
  by (auto simp: validated_def cwt_canonical_def intro: encodable_plain)

lemma encodable_member: "encodable d \<Longrightarrow> fld plain d k = Some d' \<Longrightarrow> encodable d'"
proof -
  assume a: "encodable d" "fld plain d k = Some d'"
  then obtain v where v: "map_of d k = Some v" "plain v = Some d'" by (auto simp: fld_def bind_eq_Some_conv)
  then obtain b where "canonical_bytes v (int MAX_CBOR_DEPTH - 1) CWT_PROFILE = Some b" using a(1) by (auto simp: encodable_def)
  from encodable_plain [OF this _ v(2)] show ?thesis by simp
qed

lemma runs_encodable: "encodable d \<Longrightarrow> runs (map_of d k) \<Longrightarrow> runs (fld cwt_canonical d k)"
proof -
  assume a: "encodable d" "runs (map_of d k)"
  then obtain v b where "map_of d k = Some v" "canonical_bytes v (int MAX_CBOR_DEPTH - 1) CWT_PROFILE = Some b"
    by (fastforce simp: encodable_def runs_def)
  then show ?thesis using canonical_mono [of v "int MAX_CBOR_DEPTH - 1" CWT_PROFILE b "int MAX_CBOR_DEPTH"]
    by (simp add: runs_def fld_def cwt_canonical_def)
qed

end
