(* ===== verification/Exchange_Roots.thy ===== *)
theory Exchange_Roots
  imports Exchange_Docs
begin

text \<open>
  The first steps of an evaluation do not panic: opening the challenge and the presentation, and checking the envelopes signed by
  the pinned roots. A step is \<open>safe Q\<close> when it returns, and \<open>Q\<close> holds of the evaluation it goes on with; the rules below
  compose such facts along the steps.
\<close>

section \<open>Safe steps\<close>

definition safe :: "('a \<Rightarrow> bool) \<Rightarrow> 'a step option \<Rightarrow> bool" where
  "safe Q s \<longleftrightarrow> runs s \<and> (\<forall>x. s = Some (Go x) \<longrightarrow> Q x)"

named_theorems safe_intro

lemma safe_Go [safe_intro]: "Q x \<Longrightarrow> safe Q (Some (Go x))"
  by (simp add: safe_def runs_def)

lemma safe_reject [safe_intro]: "safe Q (ev_reject e verdict reason)"
  by (simp add: safe_def runs_def ev_reject_def)

lemma safe_verified [safe_intro]: "(\<And>w. Q (e\<lparr>ev_vector := w\<rparr>)) \<Longrightarrow> safe Q (ev_verified e names)"
  by (simp add: safe_def runs_def ev_verified_def)

lemma safe_bind [safe_intro]: "runs m \<Longrightarrow> (\<And>x. m = Some x \<Longrightarrow> safe Q (f x)) \<Longrightarrow> safe Q (Option.bind m f)"
  by (auto simp: runs_def)

lemma safe_if [safe_intro]: "(b \<Longrightarrow> safe Q x) \<Longrightarrow> (\<not> b \<Longrightarrow> safe Q y) \<Longrightarrow> safe Q (if b then x else y)"
  by simp

lemma safe_case [safe_intro]: "(x = None \<Longrightarrow> safe Q n) \<Longrightarrow> (\<And>y. x = Some y \<Longrightarrow> safe Q (f y)) \<Longrightarrow> safe Q (case x of None \<Rightarrow> n | Some y \<Rightarrow> f y)"
  by (cases x) simp_all

lemma safe_go_on: "safe P s \<Longrightarrow> (\<And>x. P x \<Longrightarrow> safe Q (f x)) \<Longrightarrow> safe Q (go_on s f)"
  by (cases s; cases "the s") (auto simp: safe_def go_on_def runs_def)

section \<open>Opening the exchange\<close>

lemma typed_runs:
  assumes "typed d ks bs ts us"
  shows "list_all (\<lambda>k. runs (map_of d k)) (ks @ bs @ ts @ us)" "list_all (\<lambda>k. runs (fld cbor_bytes d k)) bs"
    "list_all (\<lambda>k. runs (fld cbor_text d k)) ts" "list_all (\<lambda>k. runs (fld cbor_uint d k)) us"
  using runs_typed [OF assms] unfolding list_all_iff by auto

lemma signed_challenge:
  assumes "signed_cwt C rd raw CHALLENGE keys = Some c"
  obtains d challenger action issued expires where "plain (cwt_core c) = Some d" "challenge_typed d" "encodable d"
    "fld plain d ''challenger'' = Some challenger" "agent_typed challenger" "fld plain d ''action'' = Some action" "action_typed action"
    "fld cbor_uint d ''issued_at'' = Some issued" "fld cbor_uint action ''expires_at'' = Some expires" "issued < expires"
proof -
  obtain d where d: "plain (cwt_core c) = Some d" "challenge_typed d"
    using signed_validated [OF assms] challenge_validated [of "cwt_core c"] by (auto simp: validated_def validate_core_simps)
  moreover have "encodable d" using encodable_validated [OF signed_validated [OF assms] d(1)] .
  ultimately show thesis using that unfolding challenge_typed_def by blast
qed

lemma inspected_presentation:
  assumes "inspect_cwt C rd raw PRESENTATION = Some p"
  obtains d where "plain (cwt_core p) = Some d" "presentation_typed d" "encodable d"
proof -
  obtain d where d: "plain (cwt_core p) = Some d" "presentation_typed d"
    using inspect_validated [OF assms] presentation_validated [of "cwt_core p"] by (auto simp: validated_def validate_core_simps)
  then show thesis using that encodable_validated [OF inspect_validated [OF assms]] by blast
qed

lemma start_runs: "runs (ev_start C H input)"
proof (cases "ic_challenger_keys input = [] \<or> signed_cwt C (h_reader H) (ic_challenge input) CHALLENGE (ic_challenger_keys input) = None")
  case True
  then show ?thesis by (auto simp: ev_start_def Let_def runs_def)
next
  case False
  then obtain c where c: "signed_cwt C (h_reader H) (ic_challenge input) CHALLENGE (ic_challenger_keys input) = Some c" by auto
  then obtain d challenger action issued expires where f: "plain (cwt_core c) = Some d" "challenge_typed d" "encodable d"
    "fld plain d ''challenger'' = Some challenger" "agent_typed challenger" "fld plain d ''action'' = Some action" "action_typed action"
    "fld cbor_uint d ''issued_at'' = Some issued" "fld cbor_uint action ''expires_at'' = Some expires" "issued < expires"
    by (rule signed_challenge)
  have act: "runs (fld cwt_canonical d ''action'')"
    using f(6) by (intro runs_encodable [OF f(3)]) (auto simp: runs_def fld_def bind_eq_Some_conv)
  have signer: "runs (text_is challenger ''agent_kid'' t)" for t
    by (intro runs_checks runs_typed(1) [OF f(5)]) simp
  have bound: "runs (all_held [bytes_are p ''challenge_envelope_hash'' x, bytes_are p ''challenge_digest'' y, bytes_are p ''action_digest'' z])"
    if "presentation_typed p" for p x y z
    using that [unfolded presentation_typed_def, THEN conjunct1, THEN typed_runs(1)]
    by (auto simp: PRESENTATION_FIELDS_def intro!: runs_intro)
  show ?thesis
    using False f act signer bound unfolding ev_start_def
    by (auto simp: c Let_def runs_Some then_some_def split: option.splits intro!: runs_bind runs_if elim!: inspected_presentation)
qed


lemma reject_Go [simp]: "ev_reject e verdict reason \<noteq> Some (Go e')" "ev_verified e names = Some (Go e') \<longleftrightarrow> e' = e\<lparr>ev_vector := mark_dims (ev_vector e) names ''VERIFIED''\<rparr>"
  by (auto simp: ev_reject_def ev_verified_def)

lemma go_on_Go: "go_on s f = Some (Go y) \<longleftrightarrow> (\<exists>x. s = Some (Go x) \<and> f x = Some (Go y))"
  by (cases s; cases "the s") (auto simp: go_on_def)

lemma start_go:
  assumes "ev_start C H input = Some (Go e)"
  shows "base_ok e \<and> ev_rooted e = [] \<and> ev_signed e = []"
proof -
  obtain c where c: "signed_cwt C (h_reader H) (ic_challenge input) CHALLENGE (ic_challenger_keys input) = Some c"
    using assms by (auto simp: ev_start_def Let_def split: if_splits option.splits)
  then obtain d challenger action issued expires where f: "plain (cwt_core c) = Some d" "challenge_typed d" "encodable d"
    "fld plain d ''challenger'' = Some challenger" "agent_typed challenger" "fld plain d ''action'' = Some action" "action_typed action"
    "fld cbor_uint d ''issued_at'' = Some issued" "fld cbor_uint action ''expires_at'' = Some expires" "issued < expires"
    by (rule signed_challenge)
  have "encodable action" using encodable_member [OF f(3,6)] .
  then show ?thesis
    using assms f
    by (auto simp: ev_start_def Let_def c bind_eq_Some_conv base_ok_def split: if_splits option.splits elim!: inspected_presentation)
qed

lemma pres_runs: "base_ok e \<Longrightarrow> k \<in> set PRESENTATION_FIELDS \<Longrightarrow> runs (map_of (ev_pres e) k)"
  using typed_runs(1) by (fastforce simp: base_ok_def presentation_typed_def list_all_iff)

text \<open>A validated envelope under a root schema names its organisation and tenant.\<close>

lemma tenantI:
  "\<exists>d. plain v = Some d \<and> typed d ks bs ts us \<Longrightarrow> ''organisation_root'' \<in> set ks \<Longrightarrow> ''tenant'' \<in> set ks \<Longrightarrow>
     \<exists>d. plain v = Some d \<and> runs (map_of d ''organisation_root'') \<and> runs (map_of d ''tenant'')"
  using runs_typed(1) by blast

lemma rooted_tenant:
  assumes "validated C S cwt" "map_of ROOTED_SCHEMAS n = Some S"
  shows "\<exists>d. plain (cwt_core cwt) = Some d \<and> runs (map_of d ''organisation_root'') \<and> runs (map_of d ''tenant'')"
proof -
  have v: "validate_core C (cwt_core cwt) S" using assms(1) by (simp add: validated_def)
  have "S \<in> {ROOT_DELEGATION, TEMPLATE, ADMIN_BINDING, ADMIN_CHALLENGE, ADMIN_CONSUMPTION, GRANT, CHECKPOINT, AGENT_SUCCESSOR}"
    using assms(2) by (auto simp: ROOTED_ITEMS_def split: if_splits)
  then consider "validate_delegation C (cwt_core cwt)" | "validate_template (cwt_core cwt)" | "validate_admin_binding (cwt_core cwt)"
    | "validate_admin_challenge (cwt_core cwt)" | "validate_admin_consumption (cwt_core cwt)" | "validate_grant (cwt_core cwt)"
    | "validate_checkpoint (cwt_core cwt)" | "validate_successor (cwt_core cwt)"
    using v by (elim insertE emptyE) (simp_all add: validate_core_simps)
  then show ?thesis
  proof cases
    case 1 then show ?thesis by (rule tenantI [OF delegation_validated]) simp_all
  next
    case 2 then show ?thesis by (rule tenantI [OF template_validated]) simp_all
  next
    case 3 then show ?thesis by (rule tenantI [OF binding_validated]) simp_all
  next
    case 4 then show ?thesis by (rule tenantI [OF admin_challenge_validated]) simp_all
  next
    case 5
    then obtain d where "plain (cwt_core cwt) = Some d" "consumption_typed d" using consumption_validated by blast
    then show ?thesis using runs_typed(1) by (auto simp: typed_def runs_def)
  next
    case 6 then show ?thesis by (rule tenantI [OF grant_validated]) simp_all
  next
    case 7 then show ?thesis by (rule tenantI [OF checkpoint_validated]) simp_all
  next
    case 8 then show ?thesis by (rule tenantI [OF successor_validated]) simp_all
  qed
qed

lemma root_cwt_runs:
  assumes "map_of ROOTED_SCHEMAS n = Some S"
  shows "runs (root_cwt C H raw S anchors)"
proof -
  have "runs (map_of doc ''organisation_root'')" if "inspect_cwt C (h_reader H) raw S = Some cwt" "plain (cwt_core cwt) = Some doc" for cwt doc
    using rooted_tenant [OF inspect_validated [OF that(1)] assms] that(2) by auto
  then show ?thesis unfolding root_cwt_def by (intro runs_tried runs_if runs_Some runs_bind) auto
qed

lemma root_cwt_validated: "root_cwt C H raw S anchors = Some (Some cwt) \<Longrightarrow> validated C S cwt"
  by (auto simp: root_cwt_def tried_def bind_eq_Some_conv then_some_def split: option.splits if_splits dest: inspect_validated)

lemma rooted_loop_runs:
  assumes "base_ok e" "table_ok C ROOTED_SCHEMAS names (ev_rooted e)"
    "\<forall>(n, S) \<in> set items. map_of ROOTED_SCHEMAS n = Some S \<and> n \<in> set PRESENTATION_FIELDS"
  shows "runs (rooted_loop C H anchors items e) \<and>
    (\<forall>e'. rooted_loop C H anchors items e = Some (Go e') \<longrightarrow> base_ok e' \<and> ev_signed e' = ev_signed e \<and>
       table_ok C ROOTED_SCHEMAS (map fst items @ names) (ev_rooted e'))"
  using assms
proof (induction items arbitrary: e names)
  case Nil
  then show ?case by (auto simp: runs_def)
next
  case (Cons it items)
  obtain n S where it: "it = (n, S)" by (cases it)
  obtain v where v: "map_of (ev_pres e) n = Some v" using pres_runs [OF Cons.prems(1), of n] Cons.prems(3) it by (auto simp: runs_def)
  have S: "map_of ROOTED_SCHEMAS n = Some S" using Cons.prems(3) it by auto
  obtain r where r: "tried (cbor_bytes v) (\<lambda>raw. root_cwt C H raw S anchors) = Some r"
    using runs_tried [of "cbor_bytes v" "\<lambda>raw. root_cwt C H raw S anchors"] root_cwt_runs [OF S] by (auto simp: runs_def)
  show ?case
  proof (cases r)
    case None
    then show ?thesis by (simp add: it v r runs_reject)
  next
    case (Some cwt)
    then have cwt: "validated C S cwt" using r root_cwt_validated by (auto simp: tried_def split: option.splits)
    let ?e = "e\<lparr>ev_rooted := btree_put n cwt (ev_rooted e)\<rparr>"
    have "base_ok ?e" using Cons.prems(1) by (simp add: base_ok_def)
    moreover have "table_ok C ROOTED_SCHEMAS (n # names) (ev_rooted ?e)" using table_put [OF Cons.prems(2) S cwt] by simp
    ultimately have IH: "runs (rooted_loop C H anchors items ?e) \<and>
        (\<forall>e'. rooted_loop C H anchors items ?e = Some (Go e') \<longrightarrow> base_ok e' \<and> ev_signed e' = ev_signed ?e \<and>
           table_ok C ROOTED_SCHEMAS (map fst items @ n # names) (ev_rooted e'))"
      using Cons.prems(3) by (intro Cons.IH) auto
    then show ?thesis by (simp add: it v r Some) (auto simp: table_ok_def)
  qed
qed


definition rooted_ok :: "crates \<Rightarrow> Evaluation \<Rightarrow> bool" where
  "rooted_ok C e \<longleftrightarrow> base_ok e \<and> table_ok C ROOTED_SCHEMAS (map fst ROOTED_ITEMS) (ev_rooted e)"

lemma rooted_get:
  assumes "rooted_ok C e" "map_of ROOTED_ITEMS n = Some S"
  obtains cwt where "map_of (ev_rooted e) n = Some cwt" "validated C S cwt"
proof -
  have "n \<in> set (map fst ROOTED_ITEMS)" using assms(2) by (force dest: map_of_SomeD)
  then show thesis using that table_get [of C ROOTED_SCHEMAS "map fst ROOTED_ITEMS" "ev_rooted e" n S] assms by (auto simp: rooted_ok_def map_add_def)
qed

lemma rooted_docI:
  assumes "rooted_ok C e" "map_of ROOTED_ITEMS n = Some S" "\<And>v. validate_core C v S \<Longrightarrow> \<exists>d. plain v = Some d \<and> P d"
  shows "\<exists>d. rooted_doc e n = Some d \<and> P d"
proof -
  obtain cwt where "map_of (ev_rooted e) n = Some cwt" "validated C S cwt" using rooted_get [OF assms(1,2)] .
  then show ?thesis using assms(3) [of "cwt_core cwt"] by (auto simp: rooted_doc_def validated_def)
qed

lemma ROOTED_ITEMS_table:
  "map_of ROOTED_ITEMS ''root_delegation'' = Some ROOT_DELEGATION" "map_of ROOTED_ITEMS ''registration_template'' = Some TEMPLATE"
  "map_of ROOTED_ITEMS ''admin_binding'' = Some ADMIN_BINDING" "map_of ROOTED_ITEMS ''admin_challenge'' = Some ADMIN_CHALLENGE"
  "map_of ROOTED_ITEMS ''admin_consumption'' = Some ADMIN_CONSUMPTION" "map_of ROOTED_ITEMS ''limit_grant'' = Some GRANT"
  "map_of ROOTED_ITEMS ''authority_checkpoint'' = Some CHECKPOINT"
  by (simp_all add: ROOTED_ITEMS_def)

lemma rooted_docs:
  assumes "rooted_ok C e"
  shows "\<exists>d. rooted_doc e ''root_delegation'' = Some d \<and> delegation_typed d"
    "\<exists>d. rooted_doc e ''registration_template'' = Some d \<and> template_typed d"
    "\<exists>d. rooted_doc e ''admin_binding'' = Some d \<and> binding_typed d"
    "\<exists>d. rooted_doc e ''admin_challenge'' = Some d \<and> admin_challenge_typed d"
    "\<exists>d. rooted_doc e ''admin_consumption'' = Some d \<and> consumption_typed d"
    "\<exists>d. rooted_doc e ''limit_grant'' = Some d \<and> grant_typed d"
    "\<exists>d. rooted_doc e ''authority_checkpoint'' = Some d \<and> checkpoint_typed d"
  subgoal by (rule rooted_docI [OF assms, where S = ROOT_DELEGATION]) (simp_all only: ROOTED_ITEMS_table validate_core_simps delegation_validated)
  subgoal by (rule rooted_docI [OF assms, where S = TEMPLATE]) (simp_all only: ROOTED_ITEMS_table validate_core_simps template_validated)
  subgoal by (rule rooted_docI [OF assms, where S = ADMIN_BINDING]) (simp_all only: ROOTED_ITEMS_table validate_core_simps binding_validated)
  subgoal by (rule rooted_docI [OF assms, where S = ADMIN_CHALLENGE]) (simp_all only: ROOTED_ITEMS_table validate_core_simps admin_challenge_validated)
  subgoal by (rule rooted_docI [OF assms, where S = ADMIN_CONSUMPTION]) (simp_all only: ROOTED_ITEMS_table validate_core_simps consumption_validated)
  subgoal by (rule rooted_docI [OF assms, where S = GRANT]) (simp_all only: ROOTED_ITEMS_table validate_core_simps grant_validated)
  subgoal by (rule rooted_docI [OF assms, where S = CHECKPOINT]) (simp_all only: ROOTED_ITEMS_table validate_core_simps checkpoint_validated)
  done

lemma successor_doc:
  assumes "rooted_ok C e" "map_of (ev_rooted e) ''agent_successor'' = Some cwt"
  shows "\<exists>d. plain (cwt_core cwt) = Some d \<and> successor_typed d"
proof -
  have "validated C AGENT_SUCCESSOR cwt"
    using assms map_of_SomeD [OF assms(2)] by (fastforce simp: rooted_ok_def table_ok_def ROOTED_ITEMS_def)
  then show ?thesis using successor_validated by (simp add: validated_def validate_core_simps)
qed

lemma rooted_digest_runs: "rooted_ok C e \<Longrightarrow> n \<in> set (map fst ROOTED_ITEMS) \<Longrightarrow> runs (rooted_digest C' e n)"
  by (auto simp: rooted_ok_def table_ok_def rooted_digest_def runs_def)

lemma substituted_runs:
  assumes "\<forall>(n, cwt) \<in> set t. \<exists>S. map_of ROOTED_SCHEMAS n = Some S \<and> validated C S cwt"
    "runs (map_of delegation ''organisation_root'')" "runs (map_of delegation ''tenant'')"
  shows "runs (substituted delegation t)"
  using assms
proof (induction t)
  case (Cons p t)
  obtain n cwt where p: "p = (n, cwt)" by (cases p)
  then obtain d where "plain (cwt_core cwt) = Some d" "runs (map_of d ''organisation_root'')" "runs (map_of d ''tenant'')"
    using Cons.prems(1) rooted_tenant by fastforce
  then show ?case using Cons by (auto simp: p intro!: runs_intro)
qed (simp add: runs_Some)

lemma rooted_successor_safe:
  assumes "rooted_ok C e"
  shows "safe (\<lambda>e'. rooted_ok C e' \<and> ev_signed e' = ev_signed e) (rooted_successor C H anchors e)"
proof -
  have b: "base_ok e" using assms by (simp add: rooted_ok_def)
  have S: "map_of ROOTED_SCHEMAS ''agent_successor'' = Some AGENT_SUCCESSOR" by (simp add: ROOTED_ITEMS_def)
  have put: "rooted_ok C (e\<lparr>ev_rooted := btree_put ''agent_successor'' cwt (ev_rooted e)\<rparr>)" if "validated C AGENT_SUCCESSOR cwt" for cwt
    using table_put [OF assms [unfolded rooted_ok_def, THEN conjunct2] S that] b by (auto simp: rooted_ok_def base_ok_def table_ok_def)
  show ?thesis
    unfolding rooted_successor_def
    by (intro safe_bind safe_case safe_Go safe_reject root_cwt_runs [OF S] conjI put pres_runs [OF b])
      (auto simp: assms PRESENTATION_FIELDS_def intro: root_cwt_validated)
qed

lemma rooted_vector [simp]:
  "rooted_doc (e\<lparr>ev_vector := w\<rparr>) n = rooted_doc e n" "signed_doc (e\<lparr>ev_vector := w\<rparr>) n = signed_doc e n"
  "credential_doc (e\<lparr>ev_vector := w\<rparr>) = credential_doc e" "rooted_digest C (e\<lparr>ev_vector := w\<rparr>) n = rooted_digest C e n"
  "base_ok (e\<lparr>ev_vector := w\<rparr>) = base_ok e" "rooted_ok C' (e\<lparr>ev_vector := w\<rparr>) = rooted_ok C' e"
  by (simp_all add: rooted_doc_def signed_doc_def credential_doc_def rooted_digest_def base_ok_def rooted_ok_def)

lemma rooted_actor: "rooted_ok C e \<Longrightarrow> \<exists>a. fld plain (ev_action e) ''actor'' = Some a \<and> agent_typed a"
  by (simp add: rooted_ok_def base_ok_def action_typed_def)

lemma roots_checked:
  assumes "rooted_ok C e" "delegation_typed d" "agent_typed a"
  shows "runs (substituted d (ev_rooted e))" "runs (same a ''organisation_root'' d ''organisation_root'')" "runs (current d ''valid_from'' ''valid_to'' now)"
  using assms(1) typed_runs(1) [OF assms(2)] typed_runs(1) [OF assms(3)]
  by (auto simp: rooted_ok_def table_ok_def intro!: runs_intro substituted_runs [of _ C])

lemma roots_safe:
  assumes "base_ok e \<and> ev_rooted e = []"
  shows "safe (\<lambda>e'. rooted_ok C e' \<and> ev_signed e' = ev_signed e) (ev_roots C H input e)"
proof -
  have "table_ok C ROOTED_SCHEMAS [] (ev_rooted e)" using assms by (simp add: table_ok_def)
  from rooted_loop_runs [OF conjunct1 [OF assms] this, of ROOTED_ITEMS H "ic_roots input"]
  have l: "safe (\<lambda>e'. rooted_ok C e' \<and> ev_signed e' = ev_signed e) (rooted_loop C H (ic_roots input) ROOTED_ITEMS e)"
    by (auto simp: safe_def ROOTED_ITEMS_def PRESENTATION_FIELDS_def rooted_ok_def)
  have rest: "safe (\<lambda>e'. rooted_ok C e' \<and> ev_signed e' = ev_signed e) (do {
       delegation \<leftarrow> rooted_doc e ''root_delegation'';
       subst \<leftarrow> substituted delegation (ev_rooted e);
       if subst then ev_reject e ''FAIL'' ''ROOT_OR_TENANT_SUBSTITUTION''
       else do {
         actor \<leftarrow> fld plain (ev_action e) ''actor'';
         org_ok \<leftarrow> same actor ''organisation_root'' delegation ''organisation_root'';
         if \<not> org_ok then ev_reject e ''FAIL'' ''ACTOR_ORGANISATION_MISMATCH''
         else do {
           live \<leftarrow> current delegation ''valid_from'' ''valid_to'' (ic_now input);
           if \<not> live then ev_reject e ''FAIL'' ''AUTHORITY_DELEGATION_INACTIVE''
           else ev_verified e [''root_chain'', ''delegation''] } } })" if ok: "rooted_ok C e" for e
  proof -
    obtain d a where d: "rooted_doc e ''root_delegation'' = Some d" "delegation_typed d" and a: "fld plain (ev_action e) ''actor'' = Some a" "agent_typed a"
      using rooted_docs(1) [OF ok] rooted_actor [OF ok] by blast
    show ?thesis unfolding d(1) a(1) Option.bind.bind_lunit
      by (intro safe_bind safe_if safe_reject safe_verified roots_checked [OF ok d(2) a(2)]) (simp_all add: ok)
  qed
  have tail: "safe (\<lambda>e'. rooted_ok C e' \<and> ev_signed e' = z) s" if "safe (\<lambda>e'. rooted_ok C e' \<and> ev_signed e' = z') s" "z' = z" for s z z'
    using that by simp
  show ?thesis unfolding ev_roots_def
    by (rule safe_go_on [OF l], rule safe_go_on [OF rooted_successor_safe], blast, rule tail [OF rest], auto)
qed

end
