(* ===== verification/Exchange_Safety.thy ===== *)
theory Exchange_Safety
  imports Exchange_Roots
begin

text \<open>
  The remaining steps of an evaluation do not panic either: signatures and the passport, the registration by an administrator, the
  authority state, the action and the transcript. So the entry point always answers.
\<close>

section \<open>Signatures and the passport\<close>

definition signed_ok :: "crates \<Rightarrow> Evaluation \<Rightarrow> bool" where
  "signed_ok C e \<longleftrightarrow> rooted_ok C e \<and> table_ok C SIGNED_ITEMS (map fst SIGNED_ITEMS) (ev_signed e) \<and>
     (\<exists>cwt. ev_credential e = Some cwt \<and> validated C CREDENTIAL cwt)"

lemma signed_loop_safe:
  assumes "rooted_ok C e" "table_ok C SIGNED_ITEMS names (ev_signed e)"
    "\<forall>(n, S, keys) \<in> set items. map_of SIGNED_ITEMS n = Some S \<and> n \<in> set PRESENTATION_FIELDS"
  shows "safe (\<lambda>e'. rooted_ok C e' \<and> table_ok C SIGNED_ITEMS (map fst items @ names) (ev_signed e')) (signed_loop C H items e)"
  using assms
proof (induction items arbitrary: e names)
  case Nil
  then show ?case by (simp add: safe_Go)
next
  case (Cons it items)
  obtain n S keys where it: "it = (n, S, keys)" by (cases it)
  have b: "base_ok e" using Cons.prems(1) by (simp add: rooted_ok_def)
  have n: "map_of SIGNED_ITEMS n = Some S" "n \<in> set PRESENTATION_FIELDS" using Cons.prems(3) it by auto
  have tail: "safe (\<lambda>e'. rooted_ok C e' \<and> table_ok C SIGNED_ITEMS (map fst (it # items) @ names) (ev_signed e'))
      (signed_loop C H items (e\<lparr>ev_signed := btree_put n cwt (ev_signed e)\<rparr>))" if "validated C S cwt" for cwt
  proof -
    have "rooted_ok C (e\<lparr>ev_signed := btree_put n cwt (ev_signed e)\<rparr>)" using Cons.prems(1) by (simp add: rooted_ok_def base_ok_def)
    from Cons.IH [OF this, of "n # names"] show ?thesis
      using table_put [OF Cons.prems(2) n(1) that] Cons.prems(3) by (simp add: it safe_def) (simp add: table_ok_def)
  qed
  show ?case unfolding it signed_loop.simps
    by (intro safe_bind safe_case safe_reject pres_runs [OF b n(2)] tail [unfolded it]) (auto simp: bind_eq_Some_conv intro: signed_validated)
qed

lemma signatures_safe:
  assumes "rooted_ok C e \<and> ev_signed e = []"
  shows "safe (signed_ok C) (ev_signatures C H input e)"
proof -
  have ok: "rooted_ok C e" "ev_signed e = []" using assms by auto
  obtain d where d: "rooted_doc e ''root_delegation'' = Some d" "delegation_typed d" using rooted_docs(1) [OF ok(1)] by blast
  have pres: "runs (map_of (ev_pres e) ''passport'')" "runs (map_of (ev_pres e) ''passport_holder_proof'')"
    using ok(1) by (auto simp: rooted_ok_def PRESENTATION_FIELDS_def intro!: pres_runs)
  have cred: "\<exists>doc. plain (cwt_core c) = Some doc \<and> credential_typed doc" if "validated C CREDENTIAL c" for c
    using that credential_validated [of C "cwt_core c"] by (simp add: validated_def validate_core_simps)
  have loop: "safe (\<lambda>e'. rooted_ok C e' \<and> table_ok C SIGNED_ITEMS (map fst SIGNED_ITEMS) (ev_signed e'))
      (signed_loop C H [(''passport_holder_proof'', CREDENTIAL, k1), (''agent_pop'', AGENT_POP, k2), (''status_snapshot'', SNAPSHOT, k3), (''asa'', ASA, k4)] e)" for k1 k2 k3 k4
    using signed_loop_safe [OF ok(1), of "[]" "[(''passport_holder_proof'', CREDENTIAL, k1), (''agent_pop'', AGENT_POP, k2), (''status_snapshot'', SNAPSHOT, k3), (''asa'', ASA, k4)]" H]
    by (simp add: ok(2) table_ok_def SIGNED_ITEMS_def PRESENTATION_FIELDS_def)
  have fin: "safe (signed_ok C) (ev_verified (e'\<lparr>ev_credential := Some c\<rparr>) names)"
    if "rooted_ok C e' \<and> table_ok C SIGNED_ITEMS (map fst SIGNED_ITEMS) (ev_signed e')" "validated C CREDENTIAL c" for e' c names
    using that by (intro safe_verified) (simp add: signed_ok_def rooted_ok_def base_ok_def)
  have key: "runs (fld cbor_text doc ''agent_kid'')" "runs (fld cbor_bytes doc ''agent_key'')" "runs (Some doc)" if "credential_typed doc" for doc
    using typed_runs(2,3) [OF that] by (auto simp: runs_Some)
  show ?thesis
    unfolding ev_signatures_def Let_def d(1) Option.bind.bind_lunit
    apply (intro safe_bind safe_case safe_if safe_reject pres)
    subgoal using typed_runs(3) [OF d(2)] by simp
    subgoal using typed_runs(2) [OF d(2)] by simp
    subgoal using typed_runs(3) [OF d(2)] by simp
    subgoal using typed_runs(2) [OF d(2)] by simp
    subgoal by (auto simp: bind_eq_Some_conv runs_def dest!: signed_validated cred)
    subgoal by (auto simp: bind_eq_Some_conv dest!: signed_validated cred key(1))
    subgoal by (auto simp: bind_eq_Some_conv dest!: signed_validated cred key(2))
    subgoal by (rule safe_go_on [OF loop], intro safe_if safe_reject fin) (auto simp: bind_eq_Some_conv intro: signed_validated)
    done
qed

text \<open>The documents of an evaluation once its signatures are checked.\<close>

lemma credential_doc:
  assumes "signed_ok C e"
  shows "\<exists>d. credential_doc e = Some d \<and> credential_typed d \<and> encodable d"
proof -
  obtain c where c: "ev_credential e = Some c" "validated C CREDENTIAL c" using assms by (auto simp: signed_ok_def)
  obtain d where d: "plain (cwt_core c) = Some d" "credential_typed d"
    using c(2) credential_validated [of C "cwt_core c"] by (auto simp: validated_def validate_core_simps)
  then show ?thesis using encodable_validated [OF c(2) d(1)] by (auto simp: credential_doc_def c(1))
qed

lemma signed_docI:
  assumes "signed_ok C e" "map_of SIGNED_ITEMS n = Some S" "\<And>v. validate_core C v S \<Longrightarrow> \<exists>d. plain v = Some d \<and> P d"
  shows "\<exists>d. signed_doc e n = Some d \<and> P d"
proof -
  have "n \<in> set (map fst SIGNED_ITEMS)" using assms(2) by (force dest: map_of_SomeD)
  then obtain cwt where "map_of (ev_signed e) n = Some cwt" "validated C S cwt"
    using table_get [of C SIGNED_ITEMS "map fst SIGNED_ITEMS" "ev_signed e" n S] assms by (auto simp: signed_ok_def)
  then show ?thesis using assms(3) [of "cwt_core cwt"] by (auto simp: signed_doc_def validated_def)
qed

lemma SIGNED_ITEMS_table:
  "map_of SIGNED_ITEMS ''agent_pop'' = Some AGENT_POP" "map_of SIGNED_ITEMS ''status_snapshot'' = Some SNAPSHOT" "map_of SIGNED_ITEMS ''asa'' = Some ASA"
  by (simp_all add: SIGNED_ITEMS_def)

lemma signed_docs:
  assumes "signed_ok C e"
  shows "\<exists>d. signed_doc e ''agent_pop'' = Some d \<and> pop_typed d"
    "\<exists>d. signed_doc e ''status_snapshot'' = Some d \<and> snapshot_typed d"
    "\<exists>d. signed_doc e ''asa'' = Some d \<and> asa_typed d"
  subgoal by (rule signed_docI [OF assms, where S = AGENT_POP]) (simp_all only: SIGNED_ITEMS_table validate_core_simps pop_validated)
  subgoal by (rule signed_docI [OF assms, where S = SNAPSHOT]) (simp_all only: SIGNED_ITEMS_table validate_core_simps snapshot_validated)
  subgoal by (rule signed_docI [OF assms, where S = ASA]) (simp_all only: SIGNED_ITEMS_table validate_core_simps asa_validated)
  done

lemma signed_rooted: "signed_ok C e \<Longrightarrow> rooted_ok C e"
  by (simp add: signed_ok_def)

lemma signed_vector [simp]: "signed_ok C (e\<lparr>ev_vector := w\<rparr>) = signed_ok C e"
  by (simp add: signed_ok_def)

lemma named_digest_runs:
  assumes "encodable d" "\<forall>k \<in> set names. runs (map_of d k)" "distinct (map write_text names)"
  shows "\<exists>b. named_digest C d names p = Some (Some b)"
proof -
  let ?f = "\<lambda>name. map_option (\<lambda>v. (name, v)) (map_of d name)"
  obtain items where items: "collect_opt ?f names = Some items"
    using assms(2) collect_opt_None_iff [of ?f names] by (cases "collect_opt ?f names") (auto simp: runs_def)
  then have m: "map ?f names = map Some items" by (simp add: collect_opt_Some_iff)
  then have mem: "map_of d k = Some v" if "(k, v) \<in> set items" for k v
  proof -
    have "Some (k, v) \<in> set (map ?f names)" unfolding m using that by simp
    then obtain name where "map_option (\<lambda>v. (name, v)) (map_of d name) = Some (k, v)" by (force simp: eq_commute)
    then show ?thesis by auto
  qed
  have "map (\<lambda>x. fst (the x)) (map ?f names) = names" using assms(2) by (auto simp: runs_def intro!: map_idI)
  then have "map fst items = names" unfolding m by (simp add: comp_def)
  then have "distinct (map (\<lambda>(k, _). write_text k) items)" using assms(3) by (auto simp: comp_def case_prod_beta')
  moreover have "canonical_bytes v (int MAX_CBOR_DEPTH - 1) CWT_PROFILE \<noteq> None" if "(k, v) \<in> set items" for k v
    using assms(1) mem [OF that] unfolding encodable_def by blast
  ultimately have "cwt_canonical (map_value items) \<noteq> None"
    unfolding cwt_canonical_def map_value_def by (intro canonical_named) auto
  then show ?thesis by (auto simp: named_digest_def items)
qed

lemma digest_names_distinct: "distinct (map write_text PROPOSAL_FIELDS)" "distinct (map write_text ACTION_SCOPE_FIELDS)"
  by code_simp+

lemma selected_digest_runs: "credential_typed d \<Longrightarrow> encodable d \<Longrightarrow> \<exists>b. selected_digest C d = Some (Some b)"
  unfolding selected_digest_def using typed_runs(1) [of d]
  by (intro named_digest_runs digest_names_distinct) (fastforce simp: PROPOSAL_FIELDS_def)+

lemma action_scope_runs: "base_ok e \<Longrightarrow> \<exists>b. action_scope_digest C (ev_action e) = Some (Some b)"
  unfolding action_scope_digest_def base_ok_def action_typed_def using typed_runs(1) [of "ev_action e"]
  by (intro named_digest_runs digest_names_distinct) (fastforce simp: list_all_iff)+

lemma successor_matches_runs:
  assumes ok: "rooted_ok C e" and c: "credential_typed d" "encodable d"
  shows "runs (successor_matches C d (map_of (ev_rooted e) ''agent_successor'') now)"
proof (cases "map_of (ev_rooted e) ''agent_successor''")
  case None
  then show ?thesis using typed_runs(1) [OF c(1)] by (auto simp: successor_matches_def runs_def split: cbor.split)
next
  case (Some cwt)
  obtain l where l: "plain (cwt_core cwt) = Some l" "successor_typed l" using successor_doc [OF ok Some] by blast
  have "runs (and_then (Some p) (and_then (same l ''successor_birthtag'' d ''birthtag'') (and_then (same l ''successor_revision'' d ''revision'')
      (and_then (do { v \<leftarrow> map_of l ''successor_proposal_digest''; x \<leftarrow> selected_digest C d; Some (cbor_bytes v = x) })
        (do { v \<leftarrow> map_of l ''effective_at''; Some (is_some_and (cbor_uint v) (\<lambda>t. t \<le> now)) })))))" for p
    using typed_runs(1) [OF c(1)] typed_runs(1) [OF l(2)] selected_digest_runs [OF c, of C]
    by (auto intro!: runs_intro simp: runs_def [of "Some _"])
  moreover obtain v where v: "map_of d ''agent_successor_digest'' = Some v" using typed_runs(1) [OF c(1)] by (auto simp: runs_def)
  ultimately show ?thesis by (cases v) (auto simp: successor_matches_def Some l(1) runs_Some)
qed

lemma runs_conj: "list_all runs xs \<Longrightarrow> runs (foldr and_then xs (Some True))"
  by (induction xs) (auto intro: runs_intro)

lemma passport_safe:
  assumes ok: "signed_ok C e"
  shows "safe (signed_ok C) (ev_passport C input e)"
proof -
  note r = signed_rooted [OF ok]
  obtain c d t a where c: "credential_doc e = Some c" "credential_typed c" "encodable c"
    and d: "rooted_doc e ''root_delegation'' = Some d" "delegation_typed d" and t: "rooted_doc e ''registration_template'' = Some t" "template_typed t"
    and a: "fld plain (ev_action e) ''actor'' = Some a" "agent_typed a"
    using credential_doc [OF ok] rooted_docs(1,2) [OF r] rooted_actor [OF r] by blast
  note T = typed_runs(1) [OF c(2)] typed_runs(1) [OF d(2)] typed_runs(1) [OF t(2)] typed_runs(1) [OF a(2)]
  have s: "runs (successor_matches C c (map_of (ev_rooted e) ''agent_successor'') (ic_now input))" by (rule successor_matches_runs [OF r c(2,3)])
  show ?thesis
    unfolding ev_passport_def c(1) d(1) t(1) a(1) Option.bind.bind_lunit
    by (intro safe_bind safe_if safe_reject safe_verified s runs_all_held runs_and_then runs_map runs_conj runs_checks)
      (use T ok in \<open>auto intro!: runs_checks\<close>)
qed

section \<open>Registration\<close>

definition selected_ok :: "crates \<Rightarrow> Evaluation \<Rightarrow> bool" where
  "selected_ok C e \<longleftrightarrow> signed_ok C e \<and> (\<exists>v. ev_selection e = Some v \<and> validate_selection v)"

lemma verify_admin_runs:
  assumes "binding_typed a" "plain v = Some s" "selection_typed s"
  shows "runs (verify_admin C H a v orig previous now)"
proof -
  note T = typed_runs(1) [OF assms(1)] typed_runs(1) [OF assms(3)]
  have ctx: "runs (admin_context a s now)" unfolding admin_context_def using T by (auto intro!: runs_intro)
  have bind: "runs (client_binding C client auth a s orig)" for client auth unfolding client_binding_def using T by (auto intro!: runs_intro)
  have key: "runs (admin_p256_key H a)" unfolding admin_p256_key_def using T by (auto intro!: runs_intro)
  show ?thesis
    unfolding verify_admin_def assms(2)
    by (intro runs_tried runs_bind runs_if runs_Some ctx bind key) (use T in \<open>auto intro!: runs_intro ctx bind key split: prod.split\<close>)
qed

lemma registration_checks_runs:
  assumes "selection_typed s" "template_typed t" "binding_typed a" "credential_typed c" "admin_challenge_typed h" "pop_typed p"
  shows "runs (all_held (registration_checks b s t a c h p))"
  unfolding registration_checks_def using assms [THEN typed_runs(1)] by (auto intro!: runs_intro)

lemma consumption_checks_runs:
  assumes "selection_typed s" "binding_typed a" "admin_challenge_typed h" "consumption_typed c"
  shows "runs (all_held (consumption_checks x y z now c h a s))"
  unfolding consumption_checks_def using assms(1-3) [THEN typed_runs(1)] assms(4) [THEN conjunct1, THEN typed_runs(1)] by (auto intro!: runs_intro)

lemma registration_safe:
  assumes ok: "signed_ok C e"
  shows "safe (selected_ok C) (ev_registration C H input e)"
proof -
  note r = signed_rooted [OF ok]
  obtain c t a h k p where c: "credential_doc e = Some c" "credential_typed c" "encodable c"
    and t: "rooted_doc e ''registration_template'' = Some t" "template_typed t" and a: "rooted_doc e ''admin_binding'' = Some a" "binding_typed a"
    and h: "rooted_doc e ''admin_challenge'' = Some h" "admin_challenge_typed h"
    and k: "rooted_doc e ''admin_consumption'' = Some k" "consumption_typed k" and p: "signed_doc e ''agent_pop'' = Some p" "pop_typed p"
    using credential_doc [OF ok] rooted_docs(2-5) [OF r] signed_docs(1) [OF ok] by metis
  obtain b where b: "selected_digest C c = Some (Some b)" using selected_digest_runs [OF c(2,3)] by blast
  obtain st where st: "consumed_state k = Some st" using k(2) by blast
  obtain raw where raw: "fld cbor_bytes (ev_pres e) ''admin_selection'' = Some raw"
    using r typed_runs(2) by (fastforce simp: rooted_ok_def base_ok_def presentation_typed_def runs_def)
  have sel: "\<exists>s. plain v = Some s \<and> selection_typed s \<and> validate_selection v" if "ofilter validate_selection x = Some v" for x v
    using that selection_validated by (auto simp: ofilter_def split: option.splits if_splits)
  have pop: "\<exists>w. map_of (ev_signed e) ''agent_pop'' = Some w" using p(1) by (auto simp: signed_doc_def bind_eq_Some_conv)
  have dig: "runs (rooted_digest C e ''admin_challenge'')" by (rule rooted_digest_runs [OF r]) (simp add: ROOTED_ITEMS_def)
  have reg: "runs (registration_digests_match C c x y)" for x y
    unfolding registration_digests_match_def using typed_runs(1) [OF c(2)] by (auto intro!: runs_intro)
  obtain cw where cw: "ev_credential e = Some cw" using ok by (auto simp: signed_ok_def)
  have fin: "selected_ok C (e\<lparr>ev_selection_raw := raw, ev_selection := Some v, ev_vector := w\<rparr>)" if "validate_selection v" for v w
    using that ok by (simp add: selected_ok_def signed_ok_def rooted_ok_def base_ok_def)
  have step: "safe (selected_ok C) (do {
            selection \<leftarrow> plain v;
            proposal_opt \<leftarrow> selected_digest C c;
            proposal \<leftarrow> proposal_opt;
            held \<leftarrow> all_held (registration_checks proposal selection t a c h p);
            if \<not> held then ev_reject (e\<lparr>ev_selection_raw := raw\<rparr>) ''FAIL'' ''TEMPLATE_ADMIN_POP_ISSUANCE_INVALID''
            else do {
              signed_state \<leftarrow> consumed_state k;
              admin_state \<leftarrow> verify_admin C H a v (ic_origin input) (cs_before signed_state) (ic_now input);
              F selection signed_state admin_state } })"
    if v: "plain v = Some s" "selection_typed s" and F: "\<And>y. safe (selected_ok C) (F s st y)" for v s F
    unfolding v(1) b st Option.bind.bind_lunit
    by (intro safe_bind safe_if safe_reject registration_checks_runs [OF v(2) t(2) a(2) c(2) h(2) p(2)] verify_admin_runs [OF a(2) v] F)
  show ?thesis
    unfolding ev_registration_def Let_def c(1) t(1) a(1) h(1) k(1) p(1) raw Option.bind.bind_lunit
    apply (intro safe_case safe_reject)
    apply (frule sel, elim exE conjE)
    apply (rule step, assumption, assumption)
    using pop dig cw reg
    apply (auto simp: cw runs_def [of "Some _"] rooted_digest_def intro!: safe_intro fin consumption_checks_runs [OF _ a(2) h(2) k(2)])
    done
qed

section \<open>Authority state, the action and the transcript\<close>

lemma head_error_runs:
  assumes "checkpoint_typed k"
  shows "runs (checkpoint_head_error k sequence head)"
  unfolding checkpoint_head_error_def using typed_runs(1) [OF assms] by (auto split: prod.split intro!: runs_intro)

lemma snapshot_checks_runs:
  assumes "snapshot_typed s" "checkpoint_typed k" "delegation_typed d"
  shows "runs (all_held (snapshot_checks C digest proofs s k d))"
  unfolding snapshot_checks_def using assms [THEN typed_runs(1)] by (auto intro!: runs_intro)

lemma selected_signed: "selected_ok C e \<Longrightarrow> signed_ok C e"
  by (simp add: selected_ok_def)

lemma selected_vector [simp]: "selected_ok C (e\<lparr>ev_vector := w\<rparr>) = selected_ok C e"
  by (simp add: selected_ok_def)

lemma safe_head_error: "(\<And>verdict reason. safe Q (f verdict reason)) \<Longrightarrow> safe Q g \<Longrightarrow> safe Q (case x of None \<Rightarrow> g | Some (verdict, reason) \<Rightarrow> f verdict reason)"
  by (auto split: option.split)

lemma checkpoint_safe:
  assumes ok: "selected_ok C e"
  shows "safe (selected_ok C) (ev_checkpoint C input e)"
proof -
  note g = selected_signed [OF ok] note r = signed_rooted [OF g]
  have b: "base_ok e" using r by (simp add: rooted_ok_def)
  obtain k c d s where k: "rooted_doc e ''authority_checkpoint'' = Some k" "checkpoint_typed k" and c: "credential_doc e = Some c" "credential_typed c"
    and d: "rooted_doc e ''root_delegation'' = Some d" "delegation_typed d" and s: "signed_doc e ''status_snapshot'' = Some s" "snapshot_typed s"
    using credential_doc [OF g] rooted_docs(1,7) [OF r] signed_docs(2) [OF g] by metis
  note K = typed_runs [OF k(2)] and S = typed_runs [OF s(2)]
  have m1: "runs (map_of (ev_pres e) ''issuance_consistency_proof'')" "runs (map_of (ev_pres e) ''state_proofs'')"
    by (rule pres_runs [OF b], simp add: PRESENTATION_FIELDS_def)+
  have m2: "runs (fld cwt_canonical (ev_pres e) ''state_proofs'')" using b m1(2) by (simp add: base_ok_def runs_encodable)
  have m3: "runs (fld cbor_uint (ev_challenge_doc e) ''max_checkpoint_age'')"
    using b [unfolded base_ok_def challenge_typed_def, THEN conjunct1, THEN conjunct1, THEN typed_runs(4)] by simp
  have m4: "runs (fld cbor_bytes c ''issuance_checkpoint'')" using typed_runs(2) [OF c(2)] by simp
  have m5: "runs (rooted_digest C e ''authority_checkpoint'')" by (rule rooted_digest_runs [OF r]) (simp add: ROOTED_ITEMS_def)
  note members = m1 m2 m3 m4 m5
  have fin: "selected_ok C (e\<lparr>ev_head_root := h\<rparr>)" for h using ok by (simp add: selected_ok_def signed_ok_def rooted_ok_def base_ok_def)
  show ?thesis
    unfolding ev_checkpoint_def k(1) c(1) d(1) s(1) Option.bind.bind_lunit
    apply (intro safe_bind safe_if safe_reject members)
    using K S
    apply (auto split: option.split intro!: safe_intro members fin head_error_runs [OF k(2)] snapshot_checks_runs [OF s(2) k(2) d(2)] runs_intro)
    done
qed

lemma objects_loop_safe:
  assumes "Q e" "list_all (\<lambda>(name, _). runs (map_of proofs name)) objects"
  shows "safe Q (objects_loop C proofs objects e)"
  using assms(2) by (induction objects) (auto intro!: safe_intro simp: assms(1))

lemma state_objects_runs:
  assumes ok: "selected_ok C e"
  shows "\<exists>objects. state_objects C e = Some objects \<and> list_all (\<lambda>(name, _). name \<in> set STATE_PROOFS) objects"
proof -
  note g = selected_signed [OF ok] note r = signed_rooted [OF g]
  obtain v where v: "ev_selection e = Some v" "validate_selection v" using ok by (auto simp: selected_ok_def)
  obtain s where s: "plain v = Some s" "selection_typed s" using selection_validated [OF v(2)] by blast
  obtain tc where tc: "map_of (ev_rooted e) ''registration_template'' = Some tc" "validated C TEMPLATE tc"
    using rooted_get [OF r ROOTED_ITEMS_table(2)] .
  then have vt: "validate_template (cwt_core tc)" by (simp add: validated_def validate_core_simps)
  obtain t where t: "plain (cwt_core tc) = Some t" "template_typed t" using template_validated [OF vt] by blast
  have rt: "rooted_doc e ''registration_template'' = Some t" by (simp add: rooted_doc_def tc(1) t(1))
  obtain c d a gr h k where c: "credential_doc e = Some c" "credential_typed c" and d: "rooted_doc e ''root_delegation'' = Some d" "delegation_typed d"
    and a: "rooted_doc e ''admin_binding'' = Some a" "binding_typed a" and gr: "rooted_doc e ''limit_grant'' = Some gr" "grant_typed gr"
    and h: "rooted_doc e ''admin_challenge'' = Some h" "admin_challenge_typed h" and k: "rooted_doc e ''admin_consumption'' = Some k" "consumption_typed k"
    using credential_doc [OF g] rooted_docs(1,3-6) [OF r] by metis
  have digests: "\<exists>x. rooted_digest C e n = Some x" if "n \<in> set (map fst ROOTED_ITEMS)" for n
    using rooted_digest_runs [OF r that, of C] by (simp add: runs_def)
  obtain cw where cw: "ev_credential e = Some cw" using g by (auto simp: signed_ok_def)
  have pop: "\<exists>x. signed_digest C e ''agent_pop'' = Some x" using signed_docs(1) [OF g] by (auto simp: signed_doc_def signed_digest_def bind_eq_Some_conv)
  have d32: "digest32 b \<noteq> None" if "fld cbor_bytes t n = Some b" "n = ''mandate_digest'' \<or> n = ''config_digest''" for b n
    using template_digests [OF vt t(1) that(2,1)] .
  obtain x1 x2 x3 x4 x5 x6 where dg: "rooted_digest C e ''root_delegation'' = Some x1" "rooted_digest C e ''registration_template'' = Some x2"
    "rooted_digest C e ''admin_binding'' = Some x3" "rooted_digest C e ''admin_challenge'' = Some x4"
    "rooted_digest C e ''admin_consumption'' = Some x5" "rooted_digest C e ''limit_grant'' = Some x6"
    using digests by (simp add: ROOTED_ITEMS_def) metis
  have k1: "runs (fld cbor_bytes k ''challenge_id'')" using k(2) [THEN conjunct1, THEN typed_runs(2)] by simp
  have "runs (state_objects C e)"
    unfolding state_objects_def c(1) d(1) rt a(1) gr(1) h(1) k(1) v(1) s(1) dg cw Option.bind.bind_lunit
    by (intro runs_bind k1)
      (use typed_runs(2) [OF c(2)] typed_runs(4) [OF c(2)] typed_runs(2) [OF s(2)] typed_runs(2,4) [OF gr(2)] typed_runs(2) [OF d(2)] typed_runs(2) [OF t(2)]
         typed_runs(2) [OF a(2)] typed_runs(2) [OF h(2)] pop d32 in \<open>auto simp: runs_def\<close>)
  then obtain objects where o: "state_objects C e = Some objects" by (auto simp: runs_def)
  moreover have "list_all (\<lambda>(name, _). name \<in> set STATE_PROOFS) objects"
    using o by (auto simp: state_objects_def bind_eq_Some_conv STATE_PROOFS_def)
  ultimately show ?thesis by blast
qed

lemma state_proofs_doc:
  assumes "base_ok e"
  obtains p where "fld plain (ev_pres e) ''state_proofs'' = Some p" "list_all (\<lambda>k. runs (map_of p k)) STATE_PROOFS"
  using assms by (auto simp: base_ok_def presentation_typed_def list_all_iff runs_def)

lemma successor_proofs_safe:
  assumes ok: "selected_ok C e" and p: "list_all (\<lambda>k. runs (map_of p k)) STATE_PROOFS"
  shows "safe (selected_ok C) (successor_proofs C p e)"
proof (cases "map_of (ev_rooted e) ''agent_successor''")
  case None
  then show ?thesis
    using p ok unfolding successor_proofs_def None option.case
    by (intro safe_bind safe_if safe_reject safe_Go runs_and_then runs_map) (auto simp: STATE_PROOFS_def)
next
  case (Some cwt)
  note g = selected_signed [OF ok]
  obtain l c where l: "plain (cwt_core cwt) = Some l" "successor_typed l" and c: "credential_doc e = Some c" "credential_typed c"
    using successor_doc [OF signed_rooted [OF g] Some] credential_doc [OF g] by blast
  show ?thesis
    using p ok typed_runs(1,2) [OF l(2)] typed_runs(2) [OF c(2)] unfolding successor_proofs_def Some option.case c(1) l(1) Option.bind.bind_lunit Let_def
    by (intro safe_bind safe_if safe_reject safe_Go) (auto simp: STATE_PROOFS_def)
qed

lemma authority_proofs_safe:
  assumes ok: "selected_ok C e"
  shows "safe (selected_ok C) (ev_authority_proofs C e)"
proof -
  have b: "base_ok e" using signed_rooted [OF selected_signed [OF ok]] by (simp add: rooted_ok_def)
  obtain p where p: "fld plain (ev_pres e) ''state_proofs'' = Some p" "list_all (\<lambda>k. runs (map_of p k)) STATE_PROOFS" by (rule state_proofs_doc [OF b])
  obtain os where os: "state_objects C e = Some os" "list_all (\<lambda>(name, _). name \<in> set STATE_PROOFS) os" using state_objects_runs [OF ok] by blast
  have objects: "safe (selected_ok C) (objects_loop C p os e)"
    by (rule objects_loop_safe [where Q = "selected_ok C", OF ok]) (use os(2) p(2) in \<open>auto simp: list_all_iff\<close>)
  have counter: "safe (selected_ok C) (do {
         counter_proof \<leftarrow> map_of p ''admin_counter'';
         consumption \<leftarrow> rooted_doc e' ''admin_consumption'';
         binding_id \<leftarrow> fld cbor_bytes consumption ''binding_id'';
         counter_version \<leftarrow> fld cbor_uint consumption ''counter_version'';
         if \<not> verify_counter_head C counter_proof (ev_head_root e') binding_id counter_version
         then ev_reject e' ''FAIL'' ''AUTHORITY_STATE_PROOF_INVALID:admin_counter''
         else ev_verified e' [''fresh_status''] })" if ok': "selected_ok C e'" for e'
  proof -
    obtain k where k: "rooted_doc e' ''admin_consumption'' = Some k" "consumption_typed k"
      using rooted_docs(5) [OF signed_rooted [OF selected_signed [OF ok']]] by blast
    show ?thesis
      using p(2) k(2) [THEN conjunct1, THEN typed_runs(2)] k(2) [THEN conjunct1, THEN typed_runs(4)] ok' unfolding k(1) Option.bind.bind_lunit
      by (intro safe_bind safe_if safe_reject safe_verified) (auto simp: STATE_PROOFS_def)
  qed
  show ?thesis
    unfolding ev_authority_proofs_def os(1) p(1) Option.bind.bind_lunit
    by (intro safe_go_on [OF objects] safe_go_on [OF successor_proofs_safe [OF _ p(2)]] counter)
qed

lemma grant_checks_runs:
  assumes "grant_typed g" "delegation_typed d" "agent_typed a" "agent_typed r" "action_typed x"
  shows "runs (all_held (grant_checks b now g d a r x))"
  unfolding grant_checks_def
  using assms(1-4) [THEN typed_runs(1)] assms(5) [unfolded action_typed_def, THEN conjunct1, THEN typed_runs(1)]
  by (auto simp: ACTION_SCOPE_FIELDS_def intro!: runs_intro)

lemma asa_checks_runs:
  assumes "asa_typed s" "delegation_typed d" "action_typed x"
  shows "runs (all_held (asa_checks a b now s d x))"
  unfolding asa_checks_def
  using assms(1,2) [THEN typed_runs(1)] assms(3) [unfolded action_typed_def, THEN conjunct1, THEN typed_runs(1)] by (auto intro!: runs_intro)

lemma exact_action_safe:
  assumes ok: "selected_ok C e"
  shows "safe (selected_ok C) (ev_exact_action C input e)"
proof -
  note g = selected_signed [OF ok] note r = signed_rooted [OF g]
  have b: "base_ok e" using r by (simp add: rooted_ok_def)
  have x: "action_typed (ev_action e)" using b by (simp add: base_ok_def)
  obtain d gr s a rc z where d: "rooted_doc e ''root_delegation'' = Some d" "delegation_typed d" and gr: "rooted_doc e ''limit_grant'' = Some gr" "grant_typed gr"
    and s: "signed_doc e ''asa'' = Some s" "asa_typed s" and a: "fld plain (ev_action e) ''actor'' = Some a" "agent_typed a"
    and rc: "fld plain (ev_action e) ''recipient'' = Some rc" "agent_typed rc" and z: "action_scope_digest C (ev_action e) = Some (Some z)"
    using rooted_docs(1,6) [OF r] signed_docs(3) [OF g] action_scope_runs [OF b, of C] x unfolding action_typed_def by metis
  show ?thesis
    unfolding ev_exact_action_def d(1) gr(1) a(1) rc(1) z Let_def rooted_vector s(1) Option.bind.bind_lunit
    by (intro safe_bind safe_if safe_reject safe_verified grant_checks_runs [OF gr(2) d(2) a(2) rc(2) x])
      (use ok asa_checks_runs [OF s(2) d(2) x] in simp_all)
qed

lemma transcript_encodes: "cwt_canonical (transcript_value C a b c d x) \<noteq> None"
proof -
  have "distinct (map write_text [''schema'', ''challenge_envelope_hash'', ''challenge_digest'', ''action_digest'', ''asa_envelope_hash'', ''asa_digest''])" by code_simp
  moreover have "canonical_bytes v (int MAX_CBOR_DEPTH - 1) CWT_PROFILE \<noteq> None" if "\<exists>t. v = CText t \<or> v = CBytes t'" for v t'
    using that by (auto simp: canonical_bytes_def write_value_leaf MAX_CBOR_DEPTH_def)
  ultimately show ?thesis unfolding cwt_canonical_def transcript_value_def map_value_def by (intro canonical_named) auto
qed

lemma finish_safe:
  assumes ok: "selected_ok C e"
  shows "safe (\<lambda>_. True) (ev_finish C input e)"
proof -
  note g = selected_signed [OF ok] note r = signed_rooted [OF g]
  have b: "base_ok e" using r by (simp add: rooted_ok_def)
  obtain d s k n a q where d: "rooted_doc e ''root_delegation'' = Some d" "delegation_typed d" and s: "signed_doc e ''asa'' = Some s" "asa_typed s"
    and k: "rooted_doc e ''authority_checkpoint'' = Some k" "checkpoint_typed k" and n: "signed_doc e ''status_snapshot'' = Some n" "snapshot_typed n"
    and a: "fld plain (ev_action e) ''actor'' = Some a" "agent_typed a" and q: "map_of (ev_challenge_doc e) ''required_dimensions'' = Some (CArray q)"
    using rooted_docs(1,7) [OF r] signed_docs(2,3) [OF g] b unfolding base_ok_def action_typed_def challenge_typed_def by metis
  obtain w where w: "map_of (ev_signed e) ''asa'' = Some w" "plain (cwt_core w) = Some s" using s(1) by (auto simp: signed_doc_def bind_eq_Some_conv)
  have tr: "runs (cwt_canonical (transcript_value C x1 x2 x3 x4 x5))" for x1 x2 x3 x4 x5 using transcript_encodes by (simp add: runs_def)
  have p1: "runs (map_of (ev_pres e) ''transcript_digest'')" "runs (map_of (ev_pres e) ''created_at'')"
    by (rule pres_runs [OF b], simp add: PRESENTATION_FIELDS_def)+
  note P = b [unfolded base_ok_def presentation_typed_def, THEN conjunct2, THEN conjunct2, THEN conjunct2, THEN conjunct1, THEN conjunct1]
  note X = b [unfolded base_ok_def action_typed_def, THEN conjunct2, THEN conjunct1, THEN conjunct1]
  have p2: "runs (fld cbor_bytes (ev_pres e) ''asa'')" using typed_runs(2) [OF P] by simp
  have p3: "runs (fld cbor_uint (ev_pres e) ''created_at'')" using typed_runs(4) [OF P] by simp
  have x1: "runs (map_of (ev_action e) ''expires_at'')" using typed_runs(1) [OF X] by simp
  have x2: "runs (fld cbor_bytes (ev_action e) ''asa_id'')" "runs (fld cbor_bytes (ev_action e) ''action_id'')" using typed_runs(2) [OF X] by simp_all
  have h: "runs (map_of (ev_challenge_doc e) ''issued_at'')"
    using b [unfolded base_ok_def challenge_typed_def, THEN conjunct1, THEN conjunct1, THEN typed_runs(1)] by simp
  have t: "runs (map_of s ''issued_at'')" "runs (map_of k ''issued_at'')" "runs (map_of n ''status_as_of'')"
    using typed_runs(1) [OF s(2)] typed_runs(1) [OF k(2)] typed_runs(1) [OF n(2)] by simp_all
  have f: "runs (fld cbor_text d ''tenant'')" "runs (fld cbor_bytes d ''organisation_root'')" "runs (fld cbor_bytes d ''delegation_id'')"
    "runs (fld cbor_bytes a ''organisation_root'')"
    using typed_runs(2,3) [OF d(2)] typed_runs(2) [OF a(2)] by simp_all
  have v: "ev_action (e\<lparr>ev_vector := y\<rparr>) = ev_action e" "ev_challenge_doc (e\<lparr>ev_vector := y\<rparr>) = ev_challenge_doc e" for y by simp_all
  show ?thesis
    unfolding ev_finish_def d(1) w n(1) k(1) v q a(1) Let_def Option.bind.bind_lunit cbor.case
    by (intro safe_bind safe_if safe_reject safe_Go tr p1 p2 p3 x1 x2 h t f runs_checks TrueI)
qed

section \<open>The entry point\<close>

lemma start_safe: "safe (\<lambda>e. (base_ok e \<and> ev_rooted e = []) \<and> ev_signed e = []) (ev_start C H input)"
  using start_runs start_go by (auto simp: safe_def)

lemma evaluation_safe: "safe (\<lambda>_. True) (evaluation C H input)"
proof -
  have roots: "safe (\<lambda>e'. rooted_ok C e' \<and> ev_signed e' = []) (ev_roots C H input e)" if "(base_ok e \<and> ev_rooted e = []) \<and> ev_signed e = []" for e
    using roots_safe [of e C H input] that by simp
  show ?thesis
    unfolding evaluation_def
    by (rule safe_go_on [OF start_safe], rule safe_go_on [OF roots], assumption, rule safe_go_on [OF signatures_safe], assumption,
        rule safe_go_on [OF passport_safe], assumption, rule safe_go_on [OF registration_safe], assumption, rule safe_go_on [OF checkpoint_safe], assumption,
        rule safe_go_on [OF authority_proofs_safe], assumption, rule safe_go_on [OF exact_action_safe], assumption, rule finish_safe)
qed

lemma evaluate_runs: "runs (evaluate C H input)"
  using evaluation_safe [of C H input] by (simp add: evaluate_def safe_def runs_map)

lemma refusal_time_runs:
  "runs (map_of refusal ''created_at'') \<Longrightarrow> runs (map_of challenge ''issued_at'') \<Longrightarrow> runs (map_of action ''expires_at'') \<Longrightarrow>
     runs (refusal_time_reason challenge refusal action now)"
  unfolding refusal_time_reason_def by (auto simp: runs_def split: option.split)

lemma evaluate_refusal_runs: "runs (evaluate_refusal C H input)"
proof (cases "rc_challenger_keys input = [] \<or> rc_responder_keys input = [] \<or>
    signed_cwt C (h_reader H) (rc_challenge input) CHALLENGE (rc_challenger_keys input) = None")
  case True
  then show ?thesis by (auto simp: evaluate_refusal_def Let_def runs_def)
next
  case False
  then obtain c where c: "signed_cwt C (h_reader H) (rc_challenge input) CHALLENGE (rc_challenger_keys input) = Some c" by auto
  then obtain d challenger action where f: "plain (cwt_core c) = Some d" "challenge_typed d"
    "fld plain d ''challenger'' = Some challenger" "agent_typed challenger" "fld plain d ''action'' = Some action" "action_typed action"
    by (rule signed_challenge)
  obtain actor where a: "fld plain action ''actor'' = Some actor" "agent_typed actor" using f(6) by (auto simp: action_typed_def)
  have x: "runs (map_of action ''expires_at'')" using f(6) [unfolded action_typed_def, THEN conjunct1, THEN typed_runs(1)] by simp
  have i: "runs (map_of d ''issued_at'')" using f(2) [unfolded challenge_typed_def, THEN conjunct1, THEN typed_runs(1)] by simp
  have k: "runs (map_of challenger ''agent_kid'')" "runs (map_of actor ''agent_kid'')" using typed_runs(1) [OF f(4)] typed_runs(1) [OF a(2)] by simp_all
  have r: "\<exists>rd. plain (cwt_core q) = Some rd \<and> refusal_typed rd"
    if "signed_cwt C (h_reader H) (rc_refusal input) REFUSAL (rc_responder_keys input) = Some q" for q
    using signed_validated [OF that] refusal_validated [of "cwt_core q"] by (simp add: validated_def validate_core_simps)
  have m: "runs (map_of rd n)" if "refusal_typed rd" "n \<in> {''challenge_envelope_hash'', ''challenge_digest'', ''created_at''}" for rd n
    using typed_runs(1) [OF that(1)] that(2) by auto
  show ?thesis
    using False unfolding evaluate_refusal_def Let_def c option.case f(1,3,5) a(1) Option.bind.bind_lunit
    by (auto split: option.split intro!: runs_intro refusal_time_runs x i k m dest!: r simp: runs_def [of "Some _"])
qed

lemma b28_result_runs: "runs (b28_result C H exchange local_context trust_pack expected_trust_pack_digest)"
proof -
  have "runs (guarded envelopes pinned f)" if "\<And>x. runs (f x)" for envelopes pinned f
    using that by (auto simp: guarded_def runs_Some split: option.split)
  then show ?thesis
    unfolding b28_result_def Let_def
    by (auto simp: runs_Some runs_map evaluate_runs evaluate_refusal_runs split: sum.split LocalContext.split option.split)
qed


end
