(* ===== verification/Exchange_Results.thy ===== *)
theory Exchange_Results
  imports Exchange_Safety
begin

text \<open>
  The answers of an evaluation. Every step that stops, stops with a refusal or an open question, and marks only the dimensions it
  has checked; the conditions of the exact action are read off the checks of its step.
\<close>

section \<open>Answers never permit\<close>

text \<open>A vector with every dimension, in which replay is open and the dimensions of later versions are marked as such.\<close>

definition vector_ok :: "(string \<times> string) list \<Rightarrow> bool" where
  "vector_ok v \<longleftrightarrow> dom (map_of v) = set (VERIFIED @ UNEVALUATED) \<and> map_of v ''replay'' = Some ''INDETERMINATE'' \<and>
     list_all (\<lambda>n. map_of v n = Some ''NOT_EVALUATED_V1'') UNEVALUATED"

definition withheld :: "ResultValue \<Rightarrow> bool" where
  "withheld r \<longleftrightarrow> (rv_verdict r = ''FAIL'' \<or> rv_verdict r = ''INDETERMINATE'') \<and> vector_ok (rv_vector r)"

definition closed :: "('a \<Rightarrow> bool) \<Rightarrow> 'a step option \<Rightarrow> bool" where
  "closed P s \<longleftrightarrow> (\<forall>x. s = Some (Go x) \<longrightarrow> P x) \<and> (\<forall>r. s = Some (Stop r) \<longrightarrow> withheld r)"

abbreviation ev_ok :: "Evaluation \<Rightarrow> bool" where
  "ev_ok e \<equiv> vector_ok (ev_vector e)"

lemma initial_vector_ok: "vector_ok initial_vector"
  unfolding vector_ok_def
proof (intro conjI)
  show "dom (map_of initial_vector) = set (VERIFIED @ UNEVALUATED)" unfolding dom_map_of_conv_image_fst by code_simp
qed code_simp+

lemma dimensions_disjoint: "list_all (\<lambda>n. n \<notin> set UNEVALUATED) VERIFIED"
  by code_simp

lemma mark_ok:
  "vector_ok v \<Longrightarrow> list_all (\<lambda>n. n \<in> set VERIFIED \<and> n \<noteq> ''replay'') names \<Longrightarrow> vector_ok (mark_dims v names ''VERIFIED'')"
proof (induction names arbitrary: v)
  case Nil
  then show ?case by (simp add: mark_dims_def)
next
  case (Cons n names)
  have "n \<in> set VERIFIED" "n \<noteq> ''replay''" using Cons.prems(2) by auto
  then have "vector_ok (btree_put n ''VERIFIED'' v)"
    using Cons.prems(1) dimensions_disjoint unfolding vector_ok_def map_of_btree_put list_all_iff by auto
  then show ?case using Cons by (simp add: mark_dims_def)
qed

named_theorems closed_intro

lemma closed_bind [closed_intro]: "(\<And>x. m = Some x \<Longrightarrow> closed P (f x)) \<Longrightarrow> closed P (Option.bind m f)"
  by (cases m) (simp_all add: closed_def)

lemma closed_if [closed_intro]: "(b \<Longrightarrow> closed P x) \<Longrightarrow> (\<not> b \<Longrightarrow> closed P y) \<Longrightarrow> closed P (if b then x else y)"
  by simp

lemma closed_case [closed_intro]: "(x = None \<Longrightarrow> closed P n) \<Longrightarrow> (\<And>y. x = Some y \<Longrightarrow> closed P (f y)) \<Longrightarrow> closed P (case x of None \<Rightarrow> n | Some y \<Rightarrow> f y)"
  by (cases x) simp_all

lemma closed_prod [closed_intro]: "(\<And>a b. x = (a, b) \<Longrightarrow> closed P (f a b)) \<Longrightarrow> closed P (case x of (a, b) \<Rightarrow> f a b)"
  by (cases x) simp

lemma closed_go_on: "closed P s \<Longrightarrow> (\<And>x. P x \<Longrightarrow> closed Q (f x)) \<Longrightarrow> closed Q (go_on s f)"
  by (cases s; cases "the s") (auto simp: closed_def go_on_def)

lemma closed_Go [closed_intro]: "P x \<Longrightarrow> closed P (Some (Go x))"
  by (simp add: closed_def)

lemma closed_Stop: "withheld r \<Longrightarrow> closed P (Some (Stop r))"
  by (simp add: closed_def)

lemma closed_reject [closed_intro]:
  "ev_ok e \<Longrightarrow> closed P (ev_reject e ''FAIL'' reason)" "ev_ok e \<Longrightarrow> closed P (ev_reject e ''INDETERMINATE'' reason)"
  by (simp_all add: closed_def ev_reject_def withheld_def rv_new_def)

lemma closed_verified [closed_intro]: "ev_ok e \<Longrightarrow> list_all (\<lambda>n. n \<in> set VERIFIED \<and> n \<noteq> ''replay'') names \<Longrightarrow> closed ev_ok (ev_verified e names)"
  by (simp add: closed_def ev_verified_def mark_ok)

lemma rooted_loop_closed: "ev_ok e \<Longrightarrow> closed ev_ok (rooted_loop C H anchors items e)"
  by (induction items arbitrary: e) (auto intro!: closed_intro)

lemma signed_loop_closed: "ev_ok e \<Longrightarrow> closed ev_ok (signed_loop C H items e)"
  by (induction items arbitrary: e) (auto intro!: closed_intro)

lemma objects_loop_closed: "ev_ok e \<Longrightarrow> closed ev_ok (objects_loop C proofs objects e)"
  by (induction objects arbitrary: e) (auto intro!: closed_intro)

lemma start_closed: "closed ev_ok (ev_start C H input)"
proof -
  have s: "withheld (rv_new verdict reason v)" if "verdict = ''FAIL'' \<or> verdict = ''INDETERMINATE''" "vector_ok v" for verdict reason v
    using that by (simp add: withheld_def rv_new_def)
  have v: "vector_ok (mark_dims initial_vector [''challenge''] ''VERIFIED'')"
    by (rule mark_ok [OF initial_vector_ok]) (simp add: VERIFIED_def)
  show ?thesis
    unfolding ev_start_def Let_def
    by (intro closed_intro closed_Stop s initial_vector_ok v) (simp_all add: v)
qed

lemma roots_closed: "ev_ok e \<Longrightarrow> closed ev_ok (ev_roots C H input e)"
proof -
  assume e: "ev_ok e"
  have succ: "closed ev_ok (rooted_successor C H anchors e)" if "ev_ok e" for anchors e
    unfolding rooted_successor_def using that by (intro closed_intro) simp_all
  show ?thesis
    unfolding ev_roots_def
    by (rule closed_go_on [OF rooted_loop_closed [OF e]], rule closed_go_on [OF succ], assumption, intro closed_intro) (simp_all add: VERIFIED_def)
qed

lemma signatures_closed: "ev_ok e \<Longrightarrow> closed ev_ok (ev_signatures C H input e)"
  unfolding ev_signatures_def Let_def
  by (intro closed_intro closed_go_on [OF signed_loop_closed]) (simp_all add: VERIFIED_def)

lemma passport_closed: "ev_ok e \<Longrightarrow> closed ev_ok (ev_passport C input e)"
  unfolding ev_passport_def by (intro closed_intro) (simp_all add: VERIFIED_def)

lemma registration_closed: "ev_ok e \<Longrightarrow> closed ev_ok (ev_registration C H input e)"
  unfolding ev_registration_def Let_def by (intro closed_intro) (simp_all add: VERIFIED_def)

lemma checkpoint_closed: "ev_ok e \<Longrightarrow> closed ev_ok (ev_checkpoint C input e)"
proof -
  assume e: "ev_ok e"
  have "closed ev_ok (ev_reject e verdict reason)" if "checkpoint_head_error k n h = Some (Some (verdict, reason))" for verdict reason k n h
    using that e closed_reject [of e] by (auto simp: checkpoint_head_error_def bind_eq_Some_conv split: prod.splits if_splits)
  then show ?thesis
    unfolding ev_checkpoint_def using e by (intro closed_intro) auto
qed

lemma authority_proofs_closed: "ev_ok e \<Longrightarrow> closed ev_ok (ev_authority_proofs C e)"
proof -
  assume e: "ev_ok e"
  have succ: "closed ev_ok (successor_proofs C proofs e)" if "ev_ok e" for proofs e
    unfolding successor_proofs_def Let_def using that by (intro closed_intro) simp_all
  show ?thesis
    unfolding ev_authority_proofs_def
    by (intro closed_bind, rule closed_go_on [OF objects_loop_closed [OF e]], rule closed_go_on [OF succ], assumption, intro closed_intro) (simp_all add: VERIFIED_def)
qed

lemma exact_action_closed: "ev_ok e \<Longrightarrow> closed ev_ok (ev_exact_action C input e)"
proof -
  assume e: "ev_ok e"
  have "vector_ok (mark_dims (ev_vector e) [''grant''] ''VERIFIED'')" by (rule mark_ok [OF e]) (simp add: VERIFIED_def)
  then show ?thesis unfolding ev_exact_action_def Let_def using e by (intro closed_intro) (simp_all add: VERIFIED_def)
qed

lemma finish_closed: "ev_ok e \<Longrightarrow> closed (\<lambda>c. vector_ok (cc_vector c)) (ev_finish C input e)"
proof -
  assume e: "ev_ok e"
  have "vector_ok (mark_dims (ev_vector e) [''transcript''] ''VERIFIED'')" by (rule mark_ok [OF e]) (simp add: VERIFIED_def)
  then show ?thesis unfolding ev_finish_def Let_def using e by (intro closed_intro) simp_all
qed

lemma evaluation_closed: "closed (\<lambda>c. vector_ok (cc_vector c)) (evaluation C H input)"
  unfolding evaluation_def
  by (rule closed_go_on [OF start_closed], rule closed_go_on [OF roots_closed], assumption, rule closed_go_on [OF signatures_closed], assumption,
      rule closed_go_on [OF passport_closed], assumption, rule closed_go_on [OF registration_closed], assumption, rule closed_go_on [OF checkpoint_closed], assumption,
      rule closed_go_on [OF authority_proofs_closed], assumption, rule closed_go_on [OF exact_action_closed], assumption, rule finish_closed)

lemma evaluate_withheld: "evaluate C H input = Some (r, c) \<Longrightarrow> withheld r"
  using evaluation_closed [of C H input]
  by (cases "evaluation C H input"; cases "the (evaluation C H input)") (auto simp: evaluate_def closed_def withheld_def rv_new_def)

lemma withheld_new: "verdict = ''FAIL'' \<or> verdict = ''INDETERMINATE'' \<Longrightarrow> vector_ok v \<Longrightarrow> withheld (rv_new verdict reason v)"
  by (simp add: withheld_def rv_new_def)

text \<open>The same rules for a computation that ends in a result.\<close>

definition ends_withheld :: "ResultValue option \<Rightarrow> bool" where
  "ends_withheld x \<longleftrightarrow> (\<forall>r. x = Some r \<longrightarrow> withheld r)"

lemma ends_intro:
  "withheld r \<Longrightarrow> ends_withheld (Some r)" "(\<And>x. m = Some x \<Longrightarrow> ends_withheld (f x)) \<Longrightarrow> ends_withheld (Option.bind m f)"
  "(b \<Longrightarrow> ends_withheld y) \<Longrightarrow> (\<not> b \<Longrightarrow> ends_withheld z) \<Longrightarrow> ends_withheld (if b then y else z)"
  "(q = None \<Longrightarrow> ends_withheld n) \<Longrightarrow> (\<And>y. q = Some y \<Longrightarrow> ends_withheld (g y)) \<Longrightarrow> ends_withheld (case q of None \<Rightarrow> n | Some y \<Rightarrow> g y)"
  by (cases m; cases q; auto simp: ends_withheld_def)+

lemma refusal_withheld: "ends_withheld (evaluate_refusal C H input)"
proof -
  have "vector_ok (mark_dims initial_vector [''challenge'', ''binding''] ''VERIFIED'')"
    by (rule mark_ok [OF initial_vector_ok]) (simp add: VERIFIED_def)
  then show ?thesis
    unfolding evaluate_refusal_def Let_def by (intro ends_intro withheld_new initial_vector_ok) simp_all
qed

lemma b28_result_withheld: "ends_withheld (b28_result C H exchange local_context trust_pack expected_trust_pack_digest)"
proof -
  have "ends_withheld (guarded envelopes pinned f)" if "\<And>x. ends_withheld (f x)" for envelopes pinned f
    unfolding guarded_def by (intro ends_intro withheld_new initial_vector_ok that) simp_all
  moreover have "ends_withheld (map_option fst (evaluate C H input))" for input
    by (auto simp: ends_withheld_def dest: evaluate_withheld)
  moreover have "ends_withheld (Some (rv_new ''INDETERMINATE'' reason initial_vector))" for reason
    by (intro ends_intro withheld_new initial_vector_ok) simp
  ultimately show ?thesis
    unfolding b28_result_def Let_def using refusal_withheld by (auto split: sum.split LocalContext.split option.split)
qed

section \<open>The exact action\<close>

lemma all_held_True: "all_held checks = Some True \<longleftrightarrow> list_all (\<lambda>c. c = Some True) checks"
proof -
  have "collect_opt (\<lambda>c. c) checks = Some ys \<and> list_all (\<lambda>b. b) ys \<longleftrightarrow> checks = map Some ys \<and> list_all (\<lambda>b. b) ys" for ys
    by (simp add: collect_opt_Some_iff)
  then have "all_held checks = Some True \<longleftrightarrow> (\<exists>ys. checks = map Some ys \<and> list_all (\<lambda>b. b) ys)"
    by (auto simp: all_held_def)
  also have "\<dots> \<longleftrightarrow> list_all (\<lambda>c. c = Some True) checks"
  proof
    assume "list_all (\<lambda>c. c = Some True) checks"
    then have "checks = map Some (replicate (length checks) True)" by (induction checks) auto
    then show "\<exists>ys. checks = map Some ys \<and> list_all (\<lambda>b. b) ys" by (metis (full_types) in_set_replicate list_all_iff)
  qed (auto simp: list_all_iff)
  finally show ?thesis .
qed

text \<open>Agreement of members, and a time between two members.\<close>

definition agrees :: "Doc \<Rightarrow> Doc \<Rightarrow> (string \<times> string) list \<Rightarrow> bool" where
  "agrees d d' pairs \<longleftrightarrow> list_all (\<lambda>(k, k'). map_of d k \<noteq> None \<and> map_of d k = map_of d' k') pairs"

definition live_at :: "Doc \<Rightarrow> string \<Rightarrow> string \<Rightarrow> u64 \<Rightarrow> bool" where
  "live_at d k k' now \<longleftrightarrow> (\<exists>a b. fld cbor_uint d k = Some a \<and> fld cbor_uint d k' = Some b \<and> a \<le> now \<and> now < b)"

text \<open>What a grant of the root allows, and what the action authority reserved.\<close>

definition within_grant :: "crates \<Rightarrow> u64 \<Rightarrow> Doc \<Rightarrow> Doc \<Rightarrow> Doc \<Rightarrow> bool" where
  "within_grant C now grant delegation action \<longleftrightarrow> (\<exists>actor recipient scope val ceiling.
     fld plain action ''actor'' = Some actor \<and> fld plain action ''recipient'' = Some recipient \<and> action_scope_digest C action = Some (Some scope) \<and>
     agrees grant delegation [(''tenant'', ''tenant''), (''organisation_root'', ''organisation_root''), (''authority_delegation_id'', ''delegation_id'')] \<and>
     agrees grant actor [(''actor_birthtag'', ''birthtag'')] \<and> agrees grant recipient [(''recipient_organisation_root'', ''organisation_root'')] \<and>
     agrees grant action [(''operation'', ''operation''), (''unit'', ''unit''), (''grant_id'', ''grant_id''), (''grant_version'', ''grant_version'')] \<and>
     fld cbor_bytes grant ''action_scope_digest'' = Some scope \<and> live_at grant ''valid_from'' ''valid_to'' now \<and> live_at grant ''window_start'' ''window_end'' now \<and>
     fld cbor_decimal action ''value'' = Some val \<and> fld cbor_decimal grant ''ceiling'' = Some ceiling \<and> digits_value val \<le> digits_value ceiling)"

definition reserved :: "bytes \<Rightarrow> bytes \<Rightarrow> u64 \<Rightarrow> Doc \<Rightarrow> Doc \<Rightarrow> Doc \<Rightarrow> bool" where
  "reserved action_digest challenge_digest now asa delegation action \<longleftrightarrow>
     agrees asa delegation [(''organisation_root'', ''organisation_root''), (''tenant'', ''tenant''), (''authority_delegation_id'', ''delegation_id'')] \<and>
     agrees asa action [(''asa_id'', ''asa_id''), (''grant_id'', ''grant_id''), (''grant_version'', ''grant_version''), (''expires_at'', ''expires_at'')] \<and>
     fld cbor_bytes asa ''action_digest'' = Some action_digest \<and> fld cbor_bytes asa ''challenge_digest'' = Some challenge_digest \<and>
     live_at asa ''issued_at'' ''expires_at'' now"

lemma checks_True:
  "same d k d' k' = Some True \<longleftrightarrow> agrees d d' [(k, k')]"
  "bytes_are d k b = Some True \<longleftrightarrow> fld cbor_bytes d k = Some b"
  "current d k k' now = Some True \<longleftrightarrow> live_at d k k' now"
  subgoal by (auto simp: same_def agrees_def bind_eq_Some_conv)
  subgoal by (auto simp: bytes_are_def fld_def bind_eq_Some_conv)
  subgoal
    by (cases "fld cbor_uint d k"; cases "fld cbor_uint d k'"; cases "map_of d k"; cases "map_of d k'")
      (simp_all add: current_def live_at_def fld_def)
  done

lemma ceiling_True:
  "do { v \<leftarrow> map_of action k; c \<leftarrow> map_of grant k'; Some (decimal_at_most v c) } = Some True \<longleftrightarrow>
     (\<exists>val ceiling. fld cbor_decimal action k = Some val \<and> fld cbor_decimal grant k' = Some ceiling \<and> digits_value val \<le> digits_value ceiling)"
  by (auto simp: fld_def bind_eq_Some_conv decimal_at_most_iff)

lemma grant_checks_iff:
  assumes "fld plain action ''actor'' = Some actor" "fld plain action ''recipient'' = Some recipient" "action_scope_digest C action = Some (Some scope)"
  shows "all_held (grant_checks scope now grant delegation actor recipient action) = Some True \<longleftrightarrow> within_grant C now grant delegation action"
  unfolding all_held_True grant_checks_def list.pred_inject checks_True ceiling_True within_grant_def assms by (auto simp: agrees_def)

lemma asa_checks_iff:
  "all_held (asa_checks action_digest challenge_digest now asa delegation action) = Some True \<longleftrightarrow> reserved action_digest challenge_digest now asa delegation action"
  unfolding all_held_True asa_checks_def list.pred_inject checks_True reserved_def by (auto simp: agrees_def)

text \<open>C29: (the exact action): the step that marks an action as exact goes on precisely when the grant signed by the root covers it and
  the action authority reserved it. Covering is numeric: the value of the action is at most the ceiling of the grant as numbers,
  the clock of the relying party lies in both windows of the grant, and operation, unit, parties, version and scope are those of
  the grant; the reservation names the digests of this action and of this challenge and has not expired.\<close>

theorem exact_action_iff:
  "(\<exists>e'. ev_exact_action C input e = Some (Go e')) \<longleftrightarrow>
     (\<exists>delegation grant asa. rooted_doc e ''root_delegation'' = Some delegation \<and> rooted_doc e ''limit_grant'' = Some grant \<and> signed_doc e ''asa'' = Some asa \<and>
        within_grant C (ic_now input) grant delegation (ev_action e) \<and>
        reserved (core_digest C (ev_action_bytes e)) (core_digest C (cwt_core_bytes (ev_challenge e))) (ic_now input) asa delegation (ev_action e))"
    (is "?L \<longleftrightarrow> ?R")
proof
  assume ?L
  then obtain delegation grant actor recipient scope asa where d: "rooted_doc e ''root_delegation'' = Some delegation" "rooted_doc e ''limit_grant'' = Some grant"
      "signed_doc e ''asa'' = Some asa"
    and a: "fld plain (ev_action e) ''actor'' = Some actor" "fld plain (ev_action e) ''recipient'' = Some recipient" "action_scope_digest C (ev_action e) = Some (Some scope)"
    and g: "all_held (grant_checks scope (ic_now input) grant delegation actor recipient (ev_action e)) = Some True"
    and s: "all_held (asa_checks (core_digest C (ev_action_bytes e)) (core_digest C (cwt_core_bytes (ev_challenge e))) (ic_now input) asa delegation (ev_action e)) = Some True"
    by (auto simp: ev_exact_action_def bind_eq_Some_conv Let_def split: if_splits)
  show ?R using d g s unfolding grant_checks_iff [OF a] asa_checks_iff by blast
next
  assume ?R
  then obtain delegation grant asa where d: "rooted_doc e ''root_delegation'' = Some delegation" "rooted_doc e ''limit_grant'' = Some grant" "signed_doc e ''asa'' = Some asa"
    and w: "within_grant C (ic_now input) grant delegation (ev_action e)"
    and s: "reserved (core_digest C (ev_action_bytes e)) (core_digest C (cwt_core_bytes (ev_challenge e))) (ic_now input) asa delegation (ev_action e)" by blast
  obtain actor recipient scope where a: "fld plain (ev_action e) ''actor'' = Some actor" "fld plain (ev_action e) ''recipient'' = Some recipient"
    "action_scope_digest C (ev_action e) = Some (Some scope)" using w unfolding within_grant_def by blast
  show ?L using w s unfolding grant_checks_iff [OF a, symmetric] asa_checks_iff [symmetric]
    by (simp add: ev_exact_action_def d a Let_def ev_verified_def)
qed

text \<open>C27: (no answer permits an execution): every answer carries \<open>FAIL\<close> or \<open>INDETERMINATE\<close> and \<open>should_execute: false\<close>, whatever the
  exchange holds. Its vector has exactly the dimensions of the profile; replay stays open, since only a durable store can close
  it, and the dimensions this version does not evaluate are marked as such.\<close>

theorem b28_never_permits:
  "\<exists>r. verify_b28_cwt C H exchange local_context trust_pack expected_trust_pack_digest = Some (result_json r) \<and>
     (rv_verdict r = ''FAIL'' \<or> rv_verdict r = ''INDETERMINATE'') \<and> get (result_json r) ''should_execute'' = Some (JBool False) \<and>
     dom (map_of (rv_vector r)) = set (VERIFIED @ UNEVALUATED) \<and> map_of (rv_vector r) ''replay'' = Some ''INDETERMINATE'' \<and>
     list_all (\<lambda>n. map_of (rv_vector r) n = Some ''NOT_EVALUATED_V1'') UNEVALUATED"
proof -
  obtain r where r: "b28_result C H exchange local_context trust_pack expected_trust_pack_digest = Some r"
    using b28_result_runs [of C H exchange local_context trust_pack expected_trust_pack_digest] by (auto simp: runs_def)
  then have "withheld r" using b28_result_withheld [of C H exchange local_context trust_pack expected_trust_pack_digest] by (simp add: ends_withheld_def)
  moreover have "get (result_json r) ''should_execute'' = Some (JBool False)"
    by (simp add: result_json_def get_def map_of_btree_collect)
  ultimately show ?thesis using r by (auto simp: verify_b28_cwt_def withheld_def vector_ok_def)
qed

end
