(* ===== verification/Spec2Isabelle.thy ===== *)
theory Spec2Isabelle
  imports Bundle Disclosure Scitt Authority Verdict Dispute Certificate Exchange_State Exchange_Results
begin

text \<open>
  \<^bold>\<open>A verification development for swarrm-verify\<close>

  The program (\<open>src/verify-rs/src\<close>) is the offline verifier of an evidence log. A relying party gives it bytes that a
  subject produced, and at most a trust context of its own; the verifier answers what those bytes prove. An evidence
  \<^emph>\<open>bundle\<close> holds signed receipts, the key log that introduces their signers, a chain of signed checkpoints of a Merkle
  log, and independent timestamps. Over bundles stand \<^emph>\<open>disclosures\<close> (openings of commitments), \<^emph>\<open>SCITT receipts\<close>,
  \<^emph>\<open>action certificates\<close> (a claimed action with its verdict vector), \<^emph>\<open>acknowledgements\<close> and \<^emph>\<open>dispute packages\<close>.

  \<^bold>\<open>Theories, in the order of the code's dependencies\<close>

  \<^item> \<open>Prelude\<close>: types for machine integers and byte strings, options and lists as the code uses them, \<open>collides\<close>.
  \<^item> \<open>Merkle\<close> (\<open>merkle.rs\<close>): \<open>verify_inclusion\<close> and \<open>verify_consistency\<close> on 64-bit indices against the tree hash of RFC 9162;
    the locale \<open>inclusion_checker\<close> is the contract the receipt entries rely on.
  \<^item> \<open>Cbor_Wire\<close>, \<open>Cbor\<close> (\<open>cbor_wire.rs\<close>, \<open>cbor.rs\<close>): heads, the canonical writer, the iterative structural scan, and the
    certificate profile; the locale \<open>canonical_codec\<close> gives uniqueness of encodings.
  \<^item> \<open>Json\<close>, \<open>Jcs\<close> (\<open>jcs.rs\<close>): \<open>serde_json\<close> values and their accessors, the record \<open>crates\<close> of third-party functions, and JSON
    canonicalisation.
  \<^item> \<open>Keys\<close>, \<open>Cose\<close>, \<open>Time\<close>, \<open>Receipts\<close> (\<open>lib.rs\<close>, \<open>cose.rs\<close>, \<open>scitt.rs\<close>, \<open>action.rs\<close>): JWKs, Ed25519 entry point,
    pre-authentication encoding, COSE_Sign1, canonical UTC times, envelopes and receipt bodies.
  \<^item> \<open>KeyLog\<close> (\<open>replay_key_log\<close>): the key states, the three transitions and the replay, as a locale \<open>guarded_replay\<close>.
  \<^item> \<open>Trust\<close> (\<open>trust.rs\<close>): strict JSON, relying-party keys, domain-separated signatures, MACs and webhook deliveries.
  \<^item> \<open>Checkpoints\<close>, \<open>Entries\<close>, \<open>Tsa\<close>, \<open>Bundle\<close>, \<open>Disclosure\<close> (\<open>lib.rs\<close>, \<open>tsa.rs\<close>): the checkpoint chain with its continuity
    assertions; caps, signatures, inclusion, lineage and manifest of the entries; RFC 3161 tokens and their certificate
    paths; the verdict of a bundle with its facts; disclosures.
  \<^item> \<open>Scitt\<close> (\<open>scitt.rs\<close>): signed statements, receipts, signed checkpoints and registration policies.
  \<^item> \<open>Action_Values\<close>, \<open>Authority\<close>, \<open>Verdict\<close> (\<open>action.rs\<close>): access with Python semantics; the replay of organisation roots, the
    proven interval of an intent, identity, grants and the authority facts; every dimension of the verdict vector,
    eligibility, registration and mark.
  \<^item> \<open>Dispute\<close> (\<open>dispute.rs\<close>): the reconciliation of two verified bundles, recomputed and compared with a package's.
  \<^item> \<open>Certificate\<close> (\<open>certificate.rs\<close>): the gates of an action certificate, the cross-checks of its core against the bundle and the
    authority facts, the view of the issuer, the derived registration receipt and the report.
  \<^item> \<open>Assurance\<close> (\<open>b28.rs\<close>, \<open>lib.rs\<close>): the CWT envelope, the validators of every record kind, signed acknowledgements and their
    coverage by a bundle.
  \<^item> \<open>Exchange\<close> (\<open>b28.rs\<close>): the evaluation of a counterparty assurance exchange as a chain of steps on the record \<open>Evaluation\<close>,
    refusals, and the entry point \<open>verify_b28_cwt\<close>; \<open>Exchange_Docs\<close>, \<open>Exchange_Roots\<close> and \<open>Exchange_Safety\<close> prove that no step
    panics, \<open>Exchange_State\<close> and \<open>Exchange_Results\<close> what its proofs and answers mean.

  \<^bold>\<open>How state and effects are modelled\<close>

  Rust strings are HOL strings of their UTF-8 bytes; byte slices are lists of 8-bit words; \<open>u64\<close> is a 64-bit word, so that
  additions wrap as the code's wrapping and checked operations require, \<open>usize\<close> is \<open>nat\<close> and \<open>i64\<close> is \<open>int\<close> with its range
  written out where it matters. An object of \<open>serde_json\<close> (a \<open>BTreeMap\<close>) is an association list sorted by key, a
  \<open>BTreeMap\<close> that is only looked up is a partial map, a \<open>BTreeSet\<close> a set. A function that mutates its argument returns it;
  an early return or an \<open>Option\<close> is an \<open>option\<close>. Results that the code renders as JSON text are the JSON values before
  rendering. Every definition is executable, and the witnesses evaluate the model on concrete inputs.

  Code outside the repository is a parameter: the record \<open>crates\<close> (SHA-256, Ed25519, base64, the \<open>serde_json\<close> reader and string
  writer, the display of floats, \<open>ciborium\<close>), the record \<open>asn1\<close> (DER, X.509 and the signature primitives of RFC 3161) and the
  record \<open>host\<close> (the bounded \<open>ciborium\<close> reader, P-256 and the reading of one JSON string).
  No property assumes that a hash has no collisions: those that rest on a digest conclude that the statement holds or that
  the two inputs given by the data \<open>collide\<close>. The only laws assumed of a crate are stated as hypotheses of the properties
  that use them, such as the prefix-freeness of the JSON string writer.

  \<^bold>\<open>What the properties show\<close>

  \<^item> \<^emph>\<open>Data structures\<close>: accepted Merkle proofs are the honest ones or exhibit a collision, honest ones are accepted; the
    iterative CBOR scan accepts exactly the recursive grammar; canonical CBOR and JSON determine the value; string order of
    normalised times is the order of instants, and epoch arithmetic is the Gregorian calendar without overflow.
  \<^item> \<^emph>\<open>Custody\<close>: a key becomes an issuer only through an active issuer, revocation is final, every replayed log is well
    formed; root enrolments form a chain of signatures, complete unless a conflict is flagged.
  \<^item> \<^emph>\<open>Bundles\<close>: a verified bundle meets an abstract contract, its receipts are leaves of the log its target commits to, its
    chain is append-only, a rejected bundle earns nothing, and trust never changes the verdict.
  \<^item> \<^emph>\<open>Time\<close>: the path search of a timestamp token ends and decides the existence of a certified path; the interval proven
    for an intent is exactly bracketed and never inverted.
  \<^item> \<^emph>\<open>Actions\<close>: what a verified identity and a verified authority are; without trust anchors nothing favourable is derived;
    eligibility and outcomes are characterised exactly; a material disagreement is contradicted whatever the producer names.
  \<^item> \<^emph>\<open>Certificates and disputes\<close>: acceptance of a certificate is characterised exactly; no failed cross-check leaves a partial
    pass; a material disagreement cannot be hidden by the coverage document; the outcome of every disputed claim is the
    declarative comparison of the values of both parties, and every action is stated exactly once.
  \<^item> \<^emph>\<open>Exchanges\<close>: every exchange is answered and no answer permits an execution; an authority state proof shows a member of the
    pinned state even though its size is not pinned; an action passes exactly within the ceiling, windows and scope of the
    grant the root signed.
  \<^bold>\<open>Termination and bounds\<close>

  No definition uses fuel. The loops that are not structural have measures: the CBOR scan (remaining bytes and pending
  items), the worklist of the certificate path search (certificates not yet reached over fewer intermediates), the mandate
  search (grants not yet seen), the scan of client JSON (remaining bytes). Depths and sizes are the constants of the source.

  \<^bold>\<open>Not modelled\<close>

  Every module of the verifier is modelled. Left out of the modules are the rendering of JSON results as text, the test modules
  and the attributes of the bindings. In the validators of \<open>Assurance\<close> a member is indexed only after \<open>document\<close> has listed it, so
  they are modelled as total; the panics of the evaluation itself are part of the model.

  The fuzz targets and the WebAssembly bindings have no logic of their own; the Python verifier, the fixtures, the
  specifications and the web page are other languages, data and documentation.
\<close>

end
